(* ===== verification/Viriatum_Prelude.thy ===== *)
theory Viriatum_Prelude
  imports Main "HOL-Library.Word"
begin

text \<open>
  What every component of the development shares: the types that stand for the machine types
  of the C sources, the error values that an \<^verbatim>\<open>ERROR_CODE\<close> carries
  (\<^verbatim>\<open>src/src/viriatum_commons/debug/error.h\<close>, \<^verbatim>\<open>src/src/viriatum/http/http2.h\<close>), the model of
  \<^verbatim>\<open>memcpy\<close> into a buffer, and the generic lemmas on lists and words.

  A buffer with its size is a list of bytes; a \<^verbatim>\<open>size_t\<close> is a \<^typ>\<open>nat\<close> wherever the code
  cannot reach \<open>2 ^ 64\<close> with it (the wrap-around is written out where it can); an
  \<^verbatim>\<open>unsigned int\<close> whose bits matter is a \<^typ>\<open>32 word\<close>; a \<^verbatim>\<open>long\<close> is an \<^typ>\<open>int\<close>, of
  which the theorems show that it never goes above 2 ^ 31 - 1.
\<close>

unbundle bit_operations_syntax

type_synonym byte = "8 word"
type_synonym bytes = "byte list"
type_synonym u32 = "32 word"

named_theorems buffer_simps \<open>equations of reads and writes over a buffer\<close>
named_theorems bits_simps \<open>equations between words and the lists of their bits\<close>

section \<open>Errors\<close>

text \<open>
  The codes of \<^verbatim>\<open>enum http2_error_e\<close>.
\<close>

datatype http2_error =
    HTTP2_NO_ERROR
  | HTTP2_PROTOCOL_ERROR
  | HTTP2_INTERNAL_ERROR
  | HTTP2_FLOW_CONTROL_ERROR
  | HTTP2_SETTINGS_TIMEOUT
  | HTTP2_STREAM_CLOSED
  | HTTP2_FRAME_SIZE_ERROR
  | HTTP2_REFUSED_STREAM
  | HTTP2_CANCEL
  | HTTP2_COMPRESSION_ERROR
  | HTTP2_CONNECT_ERROR
  | HTTP2_ENHANCE_YOUR_CALM
  | HTTP2_INADEQUATE_SECURITY
  | HTTP2_HTTP_1_1_REQUIRED

fun http2_error_code :: "http2_error \<Rightarrow> nat" where
  "http2_error_code HTTP2_NO_ERROR = 0x00"
| "http2_error_code HTTP2_PROTOCOL_ERROR = 0x01"
| "http2_error_code HTTP2_INTERNAL_ERROR = 0x02"
| "http2_error_code HTTP2_FLOW_CONTROL_ERROR = 0x03"
| "http2_error_code HTTP2_SETTINGS_TIMEOUT = 0x04"
| "http2_error_code HTTP2_STREAM_CLOSED = 0x05"
| "http2_error_code HTTP2_FRAME_SIZE_ERROR = 0x06"
| "http2_error_code HTTP2_REFUSED_STREAM = 0x07"
| "http2_error_code HTTP2_CANCEL = 0x08"
| "http2_error_code HTTP2_COMPRESSION_ERROR = 0x09"
| "http2_error_code HTTP2_CONNECT_ERROR = 0x0a"
| "http2_error_code HTTP2_ENHANCE_YOUR_CALM = 0x0b"
| "http2_error_code HTTP2_INADEQUATE_SECURITY = 0x0c"
| "http2_error_code HTTP2_HTTP_1_1_REQUIRED = 0x0d"

text \<open>
  What an operation returns in its \<^verbatim>\<open>ERROR_CODE\<close> when it is not zero: the runtime exception
  of \<^verbatim>\<open>RAISE_ERROR_M\<close> together with its message, or one of the codes of HTTP/2 that
  \<^verbatim>\<open>RAISE_ERROR_S\<close> returns. A read beyond the end of a buffer, which C leaves undefined, is
  the value \<open>Out_Of_Bounds\<close>.
\<close>

datatype error =
    Runtime_Exception string
  | Http2_Error http2_error
  | Out_Of_Bounds

fun error_code :: "error \<Rightarrow> nat" where
  "error_code (Runtime_Exception m) = 3"
| "error_code (Http2_Error e) = http2_error_code e"
| "error_code Out_Of_Bounds = 0"

type_synonym 'a result = "error + 'a"

text \<open>
  An operation that writes into a buffer leaves what it has written in it even when it raises,
  so it returns the buffer and the position on every path.
\<close>

type_synonym write_result = "error option \<times> bytes \<times> nat"

section \<open>Buffers\<close>

text \<open>The writing of \<open>bs\<close> at a position of a buffer, the \<^verbatim>\<open>memcpy\<close> of the sources.\<close>

definition memcpy :: "'a list \<Rightarrow> nat \<Rightarrow> 'a list \<Rightarrow> 'a list" where
  "memcpy buffer position bs =
     take position buffer @ bs @ drop (position + length bs) buffer"

lemma length_memcpy [simp]:
  "position + length bs \<le> length buffer \<Longrightarrow> length (memcpy buffer position bs) = length buffer"
  by (simp add: memcpy_def)

lemma memcpy_Nil [simp]: "position \<le> length buffer \<Longrightarrow> memcpy buffer position [] = buffer"
  by (simp add: memcpy_def)

lemma list_update_memcpy:
  "position < length buffer \<Longrightarrow> buffer[position := b] = memcpy buffer position [b]"
  by (simp add: memcpy_def upd_conv_take_nth_drop)

lemma memcpy_memcpy:
  assumes "position + length as + length bs \<le> length buffer"
  shows "memcpy (memcpy buffer position as) (position + length as) bs
           = memcpy buffer position (as @ bs)"
  using assms by (simp add: memcpy_def add.commute add.left_commute)

lemma take_memcpy:
  "position + length bs \<le> length buffer \<Longrightarrow>
     take (position + length bs) (memcpy buffer position bs) = take position buffer @ bs"
  by (simp add: memcpy_def)

lemma take_memcpy_before:
  "n \<le> position \<Longrightarrow> position + length bs \<le> length buffer \<Longrightarrow>
     take n (memcpy buffer position bs) = take n buffer"
  by (simp add: memcpy_def min_def)

lemma drop_memcpy:
  "position + length bs \<le> length buffer \<Longrightarrow>
     drop position (memcpy buffer position bs) = bs @ drop (position + length bs) buffer"
  by (simp add: memcpy_def)

text \<open>Checked reads: what a guard of the code does not bound is read outside of the data.\<close>

definition read_byte :: "bytes \<Rightarrow> nat \<Rightarrow> byte result" where
  "read_byte data position =
     (if position < length data then Inr (data ! position) else Inl Out_Of_Bounds)"

lemma read_byte_Inr [simp]: "position < length data \<Longrightarrow> read_byte data position = Inr (data ! position)"
  by (simp add: read_byte_def)

lemma read_byte_cases:
  "read_byte data position = Inr b \<longleftrightarrow> position < length data \<and> b = data ! position"
  "read_byte data position = Inl e \<longleftrightarrow> length data \<le> position \<and> e = Out_Of_Bounds"
  by (auto simp: read_byte_def)

definition read_bytes :: "bytes \<Rightarrow> nat \<Rightarrow> nat \<Rightarrow> bytes result" where
  "read_bytes data position n =
     (if position + n \<le> length data then Inr (take n (drop position data)) else Inl Out_Of_Bounds)"

lemma read_bytes_Inr [simp]:
  "position + n \<le> length data \<Longrightarrow> read_bytes data position n = Inr (take n (drop position data))"
  by (simp add: read_bytes_def)

lemma read_bytes_cases:
  "read_bytes data position n = Inr bs \<longleftrightarrow> position + n \<le> length data \<and> bs = take n (drop position data)"
  "read_bytes data position n = Inl e \<longleftrightarrow> length data < position + n \<and> e = Out_Of_Bounds"
  by (auto simp: read_bytes_def)

text \<open>A checked write, for the writes that no guard of the code bounds.\<close>

definition store :: "bytes \<Rightarrow> nat \<Rightarrow> bytes \<Rightarrow> bytes result" where
  "store buffer position bs =
     (if position + length bs \<le> length buffer then Inr (memcpy buffer position bs) else Inl Out_Of_Bounds)"

lemma store_Inr [simp]: "position + length bs \<le> length buffer \<Longrightarrow> store buffer position bs = Inr (memcpy buffer position bs)"
  by (simp add: store_def)

lemma store_length: "store buffer position bs = Inr buffer' \<Longrightarrow> length buffer' = length buffer"
  by (auto simp: store_def split: if_splits)

text \<open>The memory that an allocation of \<open>n\<close> bytes returns, which holds whatever it had held before.\<close>

definition allocated :: "(nat \<Rightarrow> byte) \<Rightarrow> nat \<Rightarrow> bytes" where
  "allocated memory n = map memory [0..<n]"

lemma length_allocated [simp]: "length (allocated memory n) = n"
  by (simp add: allocated_def)

text \<open>The bytes of a string literal of the sources.\<close>

definition ascii :: "string \<Rightarrow> bytes" where
  "ascii s = map of_char s"

lemma length_ascii [simp]: "length (ascii s) = length s"
  by (simp add: ascii_def)

text \<open>What a reader sees of a string that is closed by a zero byte.\<close>

definition c_string :: "bytes \<Rightarrow> bytes" where
  "c_string bs = takeWhile (\<lambda>b. b \<noteq> 0) bs"

lemma c_string_append: "0 \<notin> set s \<Longrightarrow> c_string (s @ 0 # rest) = s"
  by (induction s) (simp_all add: c_string_def)

text \<open>The \<^verbatim>\<open>tolower\<close> of the sources, in the locale they run under, and the digits that a number is printed in.\<close>

definition to_lower :: "byte \<Rightarrow> byte" where
  "to_lower b = (if 65 \<le> b \<and> b \<le> 90 then b + 32 else b)"

fun decimal :: "nat \<Rightarrow> bytes" where
  "decimal n = (if n < 10 then [of_nat (48 + n)] else decimal (n div 10) @ [of_nat (48 + n mod 10)])"

declare decimal.simps [simp del]

text \<open>The sizes of \<^verbatim>\<open>src/src/viriatum_commons/global/definitions.h\<close>.\<close>

definition VIRIATUM_HTTP_SIZE :: nat where [simp]: "VIRIATUM_HTTP_SIZE = 4096"
definition VIRIATUM_MAX_URL_SIZE :: nat where [simp]: "VIRIATUM_MAX_URL_SIZE = 4096"
definition VIRIATUM_MAX_PATH_SIZE :: nat where [simp]: "VIRIATUM_MAX_PATH_SIZE = 1024"
definition VIRIATUM_MAX_HEADER_SIZE :: nat where [simp]: "VIRIATUM_MAX_HEADER_SIZE = 1024"

section \<open>Words and arithmetic\<close>

lemma nat_and_mask: "(x::nat) AND (2 ^ n - 1) = x mod 2 ^ n"
  by (metis mask_eq_exp_minus_1 take_bit_eq_mask take_bit_eq_mod)

lemma unat_byte_less [simp]: "unat (b::byte) < 256"
  using unsigned_less [of b] by simp

lemma unat_of_nat_byte: "unat (of_nat n :: byte) = n mod 256"
  by (simp add: unat_of_nat take_bit_eq_mod)


text \<open>A property of every byte, by evaluation.\<close>

lemma all_bytes:
  assumes "list_all (\<lambda>n. P (of_nat n)) [0..<256]"
  shows "P (b::byte)"
proof -
  have "unat b \<in> set [0..<256]"
    unfolding set_upt atLeastLessThan_iff by simp
  then have "P (of_nat (unat b))"
    using assms unfolding list_all_iff by blast
  then show ?thesis by simp
qed

end
