(* ===== verification/Hpack_Integer.thy ===== *)
theory Hpack_Integer
  imports Viriatum_Prelude
begin

text \<open>
  The prefix based integers of HPACK: \<^verbatim>\<open>decode_integer_hpack\<close> and
  \<^verbatim>\<open>encode_integer_hpack\<close> of \<^verbatim>\<open>src/src/viriatum/http/hpack.c\<close>, the bytes of the
  representation as a specification, and the lemmas that relate the three.
\<close>

unbundle bit_operations_syntax

definition HPACK_MAX_INTEGER :: nat where
  [simp]: "HPACK_MAX_INTEGER = 0x0fffffff"

definition Truncated_integer :: error where
  "Truncated_integer = Runtime_Exception ''Truncated integer in the header block''"

definition Overflowing_integer :: error where
  "Overflowing_integer = Runtime_Exception ''Overflowing integer in the header block''"

definition No_space_integer :: error where
  "No_space_integer = Runtime_Exception ''No space for the integer in the buffer''"

section \<open>Decoding\<close>

text \<open>
  The loop over the continuation bytes, from a position, the value accumulated and the shift
  reached; every one of its turns moves the position forward.
\<close>

function decode_integer_loop :: "bytes \<Rightarrow> nat \<Rightarrow> nat \<Rightarrow> nat \<Rightarrow> (nat \<times> nat) result" where
  "decode_integer_loop data position result shift =
     (if position \<ge> length data then Inl Truncated_integer
      else if shift > 21 then Inl Overflowing_integer
      else
        (case read_byte data position of
           Inl e \<Rightarrow> Inl e
         | Inr byte \<Rightarrow>
             (let result' = result + push_bit shift (unat (byte AND 0x7f))
              in if result' > HPACK_MAX_INTEGER then Inl Overflowing_integer
                 else if byte AND 0x80 = 0 then Inr (result', position + 1)
                 else decode_integer_loop data (position + 1) result' (shift + 7))))"
  by pat_completeness auto
termination
  by (relation "measure (\<lambda>(data, position, _, _). length data - position)") auto

declare decode_integer_loop.simps [simp del]

text \<open>The value and the position that follows it.\<close>

definition decode_integer_hpack :: "bytes \<Rightarrow> nat \<Rightarrow> nat \<Rightarrow> (nat \<times> nat) result" where
  "decode_integer_hpack data offset prefix =
     (let position = offset; mask = 2 ^ prefix - 1
      in if position \<ge> length data then Inl Truncated_integer
         else
           (case read_byte data position of
              Inl e \<Rightarrow> Inl e
            | Inr byte \<Rightarrow>
                (let result = unat byte AND mask
                 in if result < mask then Inr (result, position + 1)
                    else decode_integer_loop data (position + 1) result 0)))"

text \<open>The guards bound every read.\<close>

lemma decode_integer_guarded:
  "decode_integer_hpack data offset prefix =
     (let position = offset; mask = 2 ^ prefix - 1
      in if position \<ge> length data then Inl Truncated_integer
         else
           (let result = unat (data ! position) AND mask
            in if result < mask then Inr (result, position + 1)
               else decode_integer_loop data (position + 1) result 0))"
  by (simp add: decode_integer_hpack_def Let_def)

lemma decode_integer_loop_guarded:
  "decode_integer_loop data position result shift =
     (if position \<ge> length data then Inl Truncated_integer
      else if shift > 21 then Inl Overflowing_integer
      else
        (let byte = data ! position;
             result' = result + push_bit shift (unat (byte AND 0x7f))
         in if result' > HPACK_MAX_INTEGER then Inl Overflowing_integer
            else if byte AND 0x80 = 0 then Inr (result', position + 1)
            else decode_integer_loop data (position + 1) result' (shift + 7)))"
  by (simp add: decode_integer_loop.simps [of data position result shift] Let_def)

section \<open>Encoding\<close>

text \<open>The continuation bytes, once the prefix has been saturated.\<close>

function encode_integer_loop :: "bytes \<Rightarrow> nat \<Rightarrow> nat \<Rightarrow> nat \<Rightarrow> write_result" where
  "encode_integer_loop buffer buffer_size position value =
     (if value \<ge> 128 then
        if position \<ge> buffer_size then (Some No_space_integer, buffer, position)
        else encode_integer_loop
               (buffer[position := of_nat ((value AND 0x7f) OR 0x80)])
               buffer_size (position + 1) (drop_bit 7 value)
      else if position \<ge> buffer_size then (Some No_space_integer, buffer, position)
      else (None, buffer[position := of_nat value], position + 1))"
  by pat_completeness auto
termination
  by (relation "measure (\<lambda>(_, _, _, value). value)") (auto simp: drop_bit_eq_div)

declare encode_integer_loop.simps [simp del]

text \<open>
  The position of the caller only moves when the complete integer has been written, the bytes
  written before an error stay in the buffer.
\<close>

definition encode_integer_hpack ::
    "bytes \<Rightarrow> nat \<Rightarrow> nat \<Rightarrow> nat \<Rightarrow> byte \<Rightarrow> nat \<Rightarrow> write_result" where
  "encode_integer_hpack buffer buffer_size offset prefix flags value =
     (let position = offset; mask = 2 ^ prefix - 1
      in if position \<ge> buffer_size then (Some No_space_integer, buffer, offset)
         else if value < mask then
           (None, buffer[position := of_nat (unat flags OR value)], position + 1)
         else
           (case encode_integer_loop
                   (buffer[position := of_nat (unat flags OR mask)])
                   buffer_size (position + 1) (value - mask) of
              (Some e, buffer', _) \<Rightarrow> (Some e, buffer', offset)
            | (None, buffer', position') \<Rightarrow> (None, buffer', position')))"

section \<open>The bytes of an integer\<close>

text \<open>
  The representation of section 5.1 of RFC 7541 as a function of the value alone.
\<close>

fun continuation_bytes :: "nat \<Rightarrow> bytes" where
  "continuation_bytes value =
     (if value \<ge> 128 then of_nat (value mod 128 + 128) # continuation_bytes (value div 128)
      else [of_nat value])"

declare continuation_bytes.simps [simp del]

definition integer_bytes :: "nat \<Rightarrow> byte \<Rightarrow> nat \<Rightarrow> bytes" where
  "integer_bytes prefix flags value =
     (let mask = 2 ^ prefix - 1
      in if value < mask then [of_nat (unat flags + value)]
         else of_nat (unat flags + mask) # continuation_bytes (value - mask))"

lemma continuation_bytes_not_Nil [simp]: "continuation_bytes v \<noteq> []"
  by (simp add: continuation_bytes.simps)

lemma integer_bytes_not_Nil [simp]: "integer_bytes prefix flags v \<noteq> []"
  by (simp add: integer_bytes_def Let_def)

text \<open>The flags sit above the prefix: their low bits are not set.\<close>

definition above_prefix :: "nat \<Rightarrow> byte \<Rightarrow> bool" where
  "above_prefix prefix flags \<longleftrightarrow> unat flags mod 2 ^ prefix = 0"

lemma or_disjoint_add:
  assumes "(a::nat) mod 2 ^ n = 0" and "b < 2 ^ n"
  shows "a OR b = a + b"
proof -
  have "a AND b = 0"
  proof (rule bit_eqI)
    fix k
    show "bit (a AND b) k = bit (0::nat) k"
    proof (cases "k < n")
      case True
      have "\<not> bit (take_bit n a) k"
        using assms(1) by (simp add: take_bit_eq_mod)
      then show ?thesis using True by (simp add: bit_simps)
    next
      case False
      have "b = take_bit n b" using assms(2) by (simp add: take_bit_nat_eq_self)
      then have "\<not> bit b k" using False by (metis bit_take_bit_iff)
      then show ?thesis by (simp add: bit_simps)
    qed
  qed
  then show ?thesis by (simp add: disjunctive_add_eq_or)
qed

lemma continuation_byte_or: "(v AND 0x7f) OR 0x80 = v mod 128 + (128::nat)"
proof -
  have "v AND 0x7f = v mod 128"
    using nat_and_mask [of v 7] by simp
  moreover have "(128::nat) OR (v mod 128) = 128 + v mod 128"
    by (rule or_disjoint_add [of _ 7]) simp_all
  ultimately show ?thesis by (simp add: or.commute add.commute)
qed

lemma encode_integer_loop_ok:
  assumes "position + length (continuation_bytes value) \<le> buffer_size"
    and "buffer_size \<le> length buffer"
  shows "encode_integer_loop buffer buffer_size position value =
           (None, memcpy buffer position (continuation_bytes value),
            position + length (continuation_bytes value))"
  using assms
proof (induction buffer buffer_size position "value" rule: encode_integer_loop.induct)
  case (1 buffer buffer_size position v)
  show ?case
  proof (cases "v \<ge> 128")
    case True
    let ?b = "of_nat (v mod 128 + 128) :: byte"
    have cb: "continuation_bytes v = ?b # continuation_bytes (v div 128)"
      using True by (simp add: continuation_bytes.simps [of v])
    have pos: "position < buffer_size" "position < length buffer"
      using "1.prems" cb by auto
    have "encode_integer_loop (buffer[position := ?b]) buffer_size (position + 1) (v div 128) =
          (None, memcpy (buffer[position := ?b]) (position + 1) (continuation_bytes (v div 128)),
           position + 1 + length (continuation_bytes (v div 128)))"
      using "1.IH" [OF True] pos "1.prems" cb
      by (simp only: continuation_byte_or drop_bit_eq_div) simp
    moreover have "memcpy (buffer[position := ?b]) (position + 1) (continuation_bytes (v div 128))
                   = memcpy buffer position (continuation_bytes v)"
      using memcpy_memcpy [of position "[?b]" "continuation_bytes (v div 128)" buffer] pos "1.prems" cb
      by (simp add: list_update_memcpy)
    ultimately show ?thesis
      using True pos by (simp add: encode_integer_loop.simps [of buffer] continuation_byte_or cb drop_bit_eq_div del: of_nat_add)
  next
    case False
    then have "continuation_bytes v = [of_nat v]"
      by (simp add: continuation_bytes.simps [of v])
    then show ?thesis
      using False "1.prems" by (simp add: encode_integer_loop.simps [of buffer] list_update_memcpy)
  qed
qed

lemma encode_integer_loop_no_space:
  assumes "buffer_size < position + length (continuation_bytes value)"
    and "position \<le> buffer_size" and "buffer_size \<le> length buffer"
  shows "\<exists>buffer' position'. encode_integer_loop buffer buffer_size position value =
           (Some No_space_integer, buffer', position') \<and> length buffer' = length buffer
           \<and> take position buffer' = take position buffer"
  using assms
proof (induction buffer buffer_size position "value" rule: encode_integer_loop.induct)
  case (1 buffer buffer_size position v)
  show ?case
  proof (cases "v \<ge> 128 \<and> position < buffer_size")
    case True
    let ?buffer = "buffer[position := of_nat ((v AND 0x7f) OR 0x80)]"
    have "buffer_size < position + 1 + length (continuation_bytes (drop_bit 7 v))"
      using "1.prems"(1) True by (simp add: continuation_bytes.simps [of v] drop_bit_eq_div)
    then obtain buffer' position' where
      "encode_integer_loop ?buffer buffer_size (position + 1) (drop_bit 7 v) =
         (Some No_space_integer, buffer', position')"
      and len: "length buffer' = length ?buffer"
      and tk: "take (position + 1) buffer' = take (position + 1) ?buffer"
      using "1.IH" True "1.prems" by auto
    moreover have "take position buffer' = take position buffer"
      using arg_cong [OF tk, of "take position"] by (simp add: min_def)
    ultimately show ?thesis
      using True by (simp add: encode_integer_loop.simps [of buffer])
  next
    case False
    moreover have "length (continuation_bytes v) = 1" if "\<not> 128 \<le> v"
      using that by (simp add: continuation_bytes.simps [of v])
    ultimately show ?thesis
      using "1.prems" by (auto simp: encode_integer_loop.simps [of buffer])
  qed
qed

lemma encode_integer_ok [buffer_simps]:
  assumes "offset + length (integer_bytes prefix flags v) \<le> buffer_size"
    and "buffer_size \<le> length buffer" and "above_prefix prefix flags"
  shows "encode_integer_hpack buffer buffer_size offset prefix flags v =
           (None, memcpy buffer offset (integer_bytes prefix flags v),
            offset + length (integer_bytes prefix flags v))"
proof (cases "v < 2 ^ prefix - 1")
  case True
  then have "unat flags OR v = unat flags + v"
    using assms(3) by (intro or_disjoint_add [of _ prefix]) (auto simp: above_prefix_def)
  then show ?thesis
    using True assms
    by (simp add: encode_integer_hpack_def integer_bytes_def list_update_memcpy del: of_nat_add)
next
  case False
  let ?m = "2 ^ prefix - 1 :: nat"
  let ?b = "of_nat (unat flags + ?m) :: byte"
  have m: "unat flags OR ?m = unat flags + ?m"
    using assms(3) by (intro or_disjoint_add [of _ prefix]) (auto simp: above_prefix_def)
  have len: "integer_bytes prefix flags v = ?b # continuation_bytes (v - ?m)"
    using False by (simp add: integer_bytes_def)
  have pos: "offset < buffer_size" "offset < length buffer"
    using assms len by auto
  have "encode_integer_loop (buffer[offset := ?b]) buffer_size (offset + 1) (v - ?m) =
          (None, memcpy (buffer[offset := ?b]) (offset + 1) (continuation_bytes (v - ?m)),
           offset + 1 + length (continuation_bytes (v - ?m)))"
    using assms len by (intro encode_integer_loop_ok) auto
  moreover have "memcpy (buffer[offset := ?b]) (offset + 1) (continuation_bytes (v - ?m))
                  = memcpy buffer offset (integer_bytes prefix flags v)"
    using memcpy_memcpy [of offset "[?b]" "continuation_bytes (v - ?m)" buffer] pos assms len
    by (simp add: list_update_memcpy)
  ultimately show ?thesis
    using False pos m len
    by (simp only: encode_integer_hpack_def Let_def m if_False case_prod_conv option.case) simp
qed

lemma encode_integer_no_space:
  assumes "buffer_size < offset + length (integer_bytes prefix flags v)"
    and "buffer_size \<le> length buffer"
  shows "\<exists>buffer'. encode_integer_hpack buffer buffer_size offset prefix flags v =
           (Some No_space_integer, buffer', offset) \<and> length buffer' = length buffer
           \<and> take offset buffer' = take offset buffer"
proof (cases "offset < buffer_size")
  case True
  let ?m = "2 ^ prefix - 1 :: nat"
  let ?buffer = "buffer[offset := of_nat (unat flags OR ?m)]"
  have big: "\<not> v < ?m" and "buffer_size < offset + 1 + length (continuation_bytes (v - ?m))"
    using True assms(1) by (auto simp: integer_bytes_def Let_def split: if_splits)
  then obtain buffer' position' where
    loop: "encode_integer_loop ?buffer buffer_size (offset + 1) (v - ?m) =
       (Some No_space_integer, buffer', position')"
    and "length buffer' = length ?buffer"
    and tk: "take (offset + 1) buffer' = take (offset + 1) ?buffer"
    using encode_integer_loop_no_space [of buffer_size "offset + 1" "v - ?m" ?buffer] True assms(2)
    by auto
  moreover have "take offset buffer' = take offset buffer"
    using arg_cong [OF tk, of "take offset"] by (simp add: min_def)
  ultimately show ?thesis
    using True big unfolding encode_integer_hpack_def Let_def by simp
qed (simp add: encode_integer_hpack_def)

section \<open>Reading the bytes back\<close>

lemma byte_and_7f: "unat (b AND 0x7f :: byte) = unat b mod 128"
  using nat_and_mask [of "unat b" 7] by (simp add: unsigned_and_eq)

lemma byte_and_80: "(b AND 0x80 :: byte) = 0 \<longleftrightarrow> unat b < 128"
proof -
  have "(b AND 0x80 = 0) \<longleftrightarrow> \<not> bit b 7"
    using and_exp_eq_0_iff_not_bit [of b 7] by simp
  also have "\<dots> \<longleftrightarrow> unat b < 128"
  proof -
    have "bit b 7 \<longleftrightarrow> odd (unat b div 128)"
      using bit_unsigned_iff [where w = b and n = 7 and 'a = nat]
      by (simp add: bit_iff_odd [of "unat b"])
    moreover have "unat b div 128 < 2"
      by (rule less_mult_imp_div_less) simp
    ultimately show ?thesis by (auto simp: less_2_cases_iff div_eq_0_iff)
  qed
  finally show ?thesis .
qed

lemma decode_integer_loop_bytes:
  assumes "result + v * 2 ^ (7 * k) \<le> HPACK_MAX_INTEGER" and "k \<le> 3"
  shows "decode_integer_loop (xs @ continuation_bytes v @ ys) (length xs) result (7 * k) =
           Inr (result + v * 2 ^ (7 * k), length xs + length (continuation_bytes v))"
  using assms
proof (induction v arbitrary: xs result k rule: continuation_bytes.induct)
  case (1 v)
  show ?case
  proof (cases "v \<ge> 128")
    case True
    let ?b = "of_nat (v mod 128 + 128) :: byte"
    have b: "unat ?b = v mod 128 + 128"
      by (simp add: unat_of_nat_byte del: of_nat_add)
    have low: "unat (?b AND 0x7f) = v mod 128" and high: "?b AND 0x80 \<noteq> 0"
      using b by (simp_all only: byte_and_7f byte_and_80) simp_all
    have pow: "2 ^ (7 * Suc k) = 128 * (2::nat) ^ (7 * k)"
      by (simp add: power_add)
    have "v * 2 ^ (7 * k) = (v mod 128 + 128 * (v div 128)) * 2 ^ (7 * k)"
      by simp
    also have "\<dots> = v mod 128 * 2 ^ (7 * k) + v div 128 * 2 ^ (7 * Suc k)"
      unfolding pow by (simp only: add_mult_distrib add_mult_distrib2 ac_simps)
    finally have split: "v * 2 ^ (7 * k) = v mod 128 * 2 ^ (7 * k) + v div 128 * 2 ^ (7 * Suc k)" .
    have cb: "continuation_bytes v = ?b # continuation_bytes (v div 128)"
      using True by (simp add: continuation_bytes.simps [of v])
    have "1 \<le> v div 128"
      using True by simp
    then have "2 ^ (7 * Suc k) \<le> v div 128 * 2 ^ (7 * Suc k)"
      by simp
    also have "\<dots> \<le> HPACK_MAX_INTEGER"
      using "1.prems"(1) split by linarith
    also have "\<dots> < 2 ^ 28"
      by simp
    finally have "(2::nat) ^ (7 * Suc k) < 2 ^ 28" .
    then have k: "Suc k \<le> 3"
      by (simp only: power_strict_increasing_iff) simp
    let ?r = "result + v mod 128 * 2 ^ (7 * k)"
    have "decode_integer_loop ((xs @ [?b]) @ continuation_bytes (v div 128) @ ys) (length (xs @ [?b]))
            ?r (7 * Suc k) =
          Inr (?r + v div 128 * 2 ^ (7 * Suc k),
               length (xs @ [?b]) + length (continuation_bytes (v div 128)))"
      using "1.prems"(1) split k by (intro "1.IH" True) simp_all
    moreover have "?r \<le> HPACK_MAX_INTEGER"
      using "1.prems"(1) split by simp
    ultimately show ?thesis
      using k low high split
      unfolding decode_integer_loop_guarded [of "xs @ continuation_bytes v @ ys" "length xs" result "7 * k"]
      unfolding cb
      by (simp add: nth_append push_bit_eq_mult Let_def add.commute add.left_commute
            del: of_nat_add HPACK_MAX_INTEGER_def)
  next
    case False
    have b: "unat (of_nat v :: byte) = v"
      using False by (simp add: unat_of_nat_byte)
    have low: "unat ((of_nat v :: byte) AND 0x7f) = v" and high: "(of_nat v :: byte) AND 0x80 = 0"
      using b False by (simp_all only: byte_and_7f byte_and_80) simp_all
    have cb: "continuation_bytes v = [of_nat v]"
      using False by (simp add: continuation_bytes.simps [of v])
    show ?thesis
      using "1.prems" low high
      unfolding decode_integer_loop_guarded [of "xs @ continuation_bytes v @ ys" "length xs" result "7 * k"]
      unfolding cb
      by (simp add: nth_append push_bit_eq_mult Let_def mult.commute del: HPACK_MAX_INTEGER_def)
  qed
qed

lemma unat_flags_add:
  assumes "above_prefix prefix flags" and "v < 2 ^ prefix" and "prefix \<le> 8"
  shows "unat (of_nat (unat flags + v) :: byte) AND (2 ^ prefix - 1) = v"
proof -
  have "(2::nat) ^ prefix dvd 256"
    using le_imp_power_dvd [OF assms(3), of "2::nat"] by simp
  then have "(unat flags + v) mod 256 mod 2 ^ prefix = (unat flags + v) mod 2 ^ prefix"
    by (simp add: mod_mod_cancel)
  also have "\<dots> = v"
    using assms(1,2) by (metis above_prefix_def add_0 mod_add_left_eq mod_less)
  finally show ?thesis
    by (simp only: nat_and_mask unat_of_nat_byte)
qed

lemma decode_integer_bytes:
  assumes "v \<le> HPACK_MAX_INTEGER" and "above_prefix prefix flags"
    and "1 \<le> prefix" and "prefix \<le> 8"
  shows "decode_integer_hpack (xs @ integer_bytes prefix flags v @ ys) (length xs) prefix =
           Inr (v, length xs + length (integer_bytes prefix flags v))"
proof (cases "v < 2 ^ prefix - 1")
  case True
  then have "unat (of_nat (unat flags + v) :: byte) AND (2 ^ prefix - 1) = v"
    using assms by (intro unat_flags_add) auto
  then show ?thesis
    using True
    by (simp add: decode_integer_guarded integer_bytes_def nth_append del: of_nat_add)
next
  case False
  let ?m = "2 ^ prefix - 1 :: nat"
  let ?b = "of_nat (unat flags + ?m) :: byte"
  have m: "unat ?b AND ?m = ?m"
    using assms by (intro unat_flags_add) auto
  have "decode_integer_loop ((xs @ [?b]) @ continuation_bytes (v - ?m) @ ys) (length (xs @ [?b])) ?m (7 * 0) =
          Inr (?m + (v - ?m) * 2 ^ (7 * 0), length (xs @ [?b]) + length (continuation_bytes (v - ?m)))"
    using assms False by (intro decode_integer_loop_bytes) auto
  moreover have "integer_bytes prefix flags v = ?b # continuation_bytes (v - ?m)"
    using False by (simp add: integer_bytes_def)
  ultimately show ?thesis
    using False m
    by (simp add: decode_integer_guarded nth_append Let_def del: of_nat_add)
qed

section \<open>What decoding guarantees\<close>

lemma decode_integer_loop_bounds:
  assumes "decode_integer_loop data position result shift = Inr (v, position')"
  shows "v \<le> HPACK_MAX_INTEGER \<and> position < position' \<and> position' \<le> length data
           \<and> 7 * (position' - position) + shift \<le> 28"
  using assms
proof (induction data position result shift rule: decode_integer_loop.induct)
  case (1 data position result shift)
  show ?case
    using "1.prems" "1.IH" unfolding decode_integer_loop_guarded [of data position result shift] Let_def
    by (fastforce split: if_splits)
qed

text \<open>
  A decoded integer is never above the accepted maximum, takes from one to five bytes and
  none of them is past the end of the data.
\<close>

lemma decode_integer_bounds:
  assumes "decode_integer_hpack data offset prefix = Inr (v, offset')" and "prefix \<le> 8"
  shows "v \<le> HPACK_MAX_INTEGER" and "offset < offset'" and "offset' \<le> length data"
    and "offset' \<le> offset + 5"
proof -
  have "(2::nat) ^ prefix \<le> 2 ^ 8"
    using assms(2) by (intro power_increasing) auto
  then have "v \<le> HPACK_MAX_INTEGER \<and> offset < offset' \<and> offset' \<le> length data \<and> offset' \<le> offset + 5"
    using assms(1) decode_integer_loop_bounds [of data "offset + 1" _ 0 v offset']
    by (fastforce simp: decode_integer_guarded Let_def split: if_splits)
  then show "v \<le> HPACK_MAX_INTEGER" and "offset < offset'" and "offset' \<le> length data"
    and "offset' \<le> offset + 5"
    by auto
qed

lemma decode_integer_error:
  assumes "decode_integer_hpack data offset prefix = Inl e"
  shows "e = Truncated_integer \<or> e = Overflowing_integer"
proof -
  have loop: "decode_integer_loop data position result shift = Inl e \<Longrightarrow>
          e = Truncated_integer \<or> e = Overflowing_integer" for position result shift
  proof (induction data position result shift rule: decode_integer_loop.induct)
    case (1 data position result shift)
    show ?case
      using "1.prems" "1.IH" unfolding decode_integer_loop_guarded [of data position result shift] Let_def
      by (fastforce split: if_splits)
  qed
  show ?thesis
    using assms loop by (auto simp: decode_integer_guarded Let_def split: if_splits)
qed

section \<open>Properties\<close>

text \<open>C19: what \<open>encode_integer_hpack\<close> writes is read back by \<open>decode_integer_hpack\<close> at the same
  position and with the same prefix, whatever the buffer held, for every value that the decoder
  accepts; the reading ends where the writing did.\<close>

theorem integer_roundtrip:
  assumes "encode_integer_hpack buffer buffer_size offset prefix flags v = (None, buffer', offset')"
    and "buffer_size \<le> length buffer" and "v \<le> HPACK_MAX_INTEGER" and "above_prefix prefix flags"
    and "1 \<le> prefix" and "prefix \<le> 8"
  shows "decode_integer_hpack buffer' offset prefix = Inr (v, offset')"
proof -
  have fits: "offset + length (integer_bytes prefix flags v) \<le> buffer_size"
    using assms(1) encode_integer_no_space [OF _ assms(2), of offset prefix flags v] by (fastforce simp: not_less [symmetric])
  then have written: "buffer' = memcpy buffer offset (integer_bytes prefix flags v)"
      "offset' = offset + length (integer_bytes prefix flags v)"
    using assms(1) encode_integer_ok [OF fits assms(2,4)] by simp_all
  then show ?thesis
    using decode_integer_bytes [OF assms(3,4,5,6), of "take offset buffer"] fits assms(2)
    by (simp add: memcpy_def)
qed

theorem integer_roundtrip_witness:
  "decode_integer_hpack [0, 0x5f, 0x9a, 0x0a, 0] 1 5 = Inr (1337, 4)"
  by (rule integer_roundtrip [where buffer = "[0, 0, 0, 0, 0]" and buffer_size = 5 and flags = "0x40"])
    (code_simp, simp_all add: above_prefix_def)

text \<open>C20: decoding an integer always ends: it takes at most five bytes, all of them within the
  data, and yields a value no greater than \<open>HPACK_MAX_INTEGER\<close>, which fits in 28 bits; otherwise
  the error is one of the two of the code.\<close>

theorem integer_bounds:
  assumes "prefix \<le> 8"
  shows "case decode_integer_hpack data offset prefix of
           Inl e \<Rightarrow> e = Truncated_integer \<or> e = Overflowing_integer
         | Inr (v, offset') \<Rightarrow>
             v < 2 ^ 28 \<and> offset < offset' \<and> offset' \<le> length data \<and> offset' \<le> offset + 5"
  using decode_integer_bounds [of data offset prefix] decode_integer_error [of data offset prefix] assms
  by (fastforce split: sum.splits)

theorem integer_bounds_witness:
  "case decode_integer_hpack [0x1f, 0x9a, 0x0a] 0 5 of
     Inl e \<Rightarrow> e = Truncated_integer \<or> e = Overflowing_integer
   | Inr (v, offset') \<Rightarrow> v < 2 ^ 28 \<and> 0 < offset' \<and> offset' \<le> length [0x1f, 0x9a, 0x0a :: byte] \<and> offset' \<le> 0 + 5"
  by (rule integer_bounds) simp

end
