(* ===== verification/Hpack_Huffman_Tables.thy ===== *)
theory Hpack_Huffman_Tables
  imports Viriatum_Prelude
begin

text \<open>
  The tables of the canonical Huffman code of appendix B of RFC 7541, as
  \<^verbatim>\<open>src/src/viriatum/http/hpack.c\<close> lays them out, and what the coding needs of them, evaluated
  by the simplifier: the decoding tables name every symbol at the code the encoding table has
  for it (\<open>code_of_symbol\<close>), and a code is above all the shorter ones (\<open>code_above\<close>), so no
  code is the prefix of another.
\<close>

unbundle bit_operations_syntax

section \<open>The tables\<close>

definition hpack_huffman_codes :: "u32 list" where
  "hpack_huffman_codes = [
    0x1ff8, 0x7fffd8, 0xfffffe2, 0xfffffe3, 0xfffffe4, 0xfffffe5,
    0xfffffe6, 0xfffffe7, 0xfffffe8, 0xffffea, 0x3ffffffc, 0xfffffe9,
    0xfffffea, 0x3ffffffd, 0xfffffeb, 0xfffffec, 0xfffffed, 0xfffffee,
    0xfffffef, 0xffffff0, 0xffffff1, 0xffffff2, 0x3ffffffe, 0xffffff3,
    0xffffff4, 0xffffff5, 0xffffff6, 0xffffff7, 0xffffff8, 0xffffff9,
    0xffffffa, 0xffffffb, 0x14, 0x3f8, 0x3f9, 0xffa,
    0x1ff9, 0x15, 0xf8, 0x7fa, 0x3fa, 0x3fb,
    0xf9, 0x7fb, 0xfa, 0x16, 0x17, 0x18,
    0x0, 0x1, 0x2, 0x19, 0x1a, 0x1b,
    0x1c, 0x1d, 0x1e, 0x1f, 0x5c, 0xfb,
    0x7ffc, 0x20, 0xffb, 0x3fc, 0x1ffa, 0x21,
    0x5d, 0x5e, 0x5f, 0x60, 0x61, 0x62,
    0x63, 0x64, 0x65, 0x66, 0x67, 0x68,
    0x69, 0x6a, 0x6b, 0x6c, 0x6d, 0x6e,
    0x6f, 0x70, 0x71, 0x72, 0xfc, 0x73,
    0xfd, 0x1ffb, 0x7fff0, 0x1ffc, 0x3ffc, 0x22,
    0x7ffd, 0x3, 0x23, 0x4, 0x24, 0x5,
    0x25, 0x26, 0x27, 0x6, 0x74, 0x75,
    0x28, 0x29, 0x2a, 0x7, 0x2b, 0x76,
    0x2c, 0x8, 0x9, 0x2d, 0x77, 0x78,
    0x79, 0x7a, 0x7b, 0x7ffe, 0x7fc, 0x3ffd,
    0x1ffd, 0xffffffc, 0xfffe6, 0x3fffd2, 0xfffe7, 0xfffe8,
    0x3fffd3, 0x3fffd4, 0x3fffd5, 0x7fffd9, 0x3fffd6, 0x7fffda,
    0x7fffdb, 0x7fffdc, 0x7fffdd, 0x7fffde, 0xffffeb, 0x7fffdf,
    0xffffec, 0xffffed, 0x3fffd7, 0x7fffe0, 0xffffee, 0x7fffe1,
    0x7fffe2, 0x7fffe3, 0x7fffe4, 0x1fffdc, 0x3fffd8, 0x7fffe5,
    0x3fffd9, 0x7fffe6, 0x7fffe7, 0xffffef, 0x3fffda, 0x1fffdd,
    0xfffe9, 0x3fffdb, 0x3fffdc, 0x7fffe8, 0x7fffe9, 0x1fffde,
    0x7fffea, 0x3fffdd, 0x3fffde, 0xfffff0, 0x1fffdf, 0x3fffdf,
    0x7fffeb, 0x7fffec, 0x1fffe0, 0x1fffe1, 0x3fffe0, 0x1fffe2,
    0x7fffed, 0x3fffe1, 0x7fffee, 0x7fffef, 0xfffea, 0x3fffe2,
    0x3fffe3, 0x3fffe4, 0x7ffff0, 0x3fffe5, 0x3fffe6, 0x7ffff1,
    0x3ffffe0, 0x3ffffe1, 0xfffeb, 0x7fff1, 0x3fffe7, 0x7ffff2,
    0x3fffe8, 0x1ffffec, 0x3ffffe2, 0x3ffffe3, 0x3ffffe4, 0x7ffffde,
    0x7ffffdf, 0x3ffffe5, 0xfffff1, 0x1ffffed, 0x7fff2, 0x1fffe3,
    0x3ffffe6, 0x7ffffe0, 0x7ffffe1, 0x3ffffe7, 0x7ffffe2, 0xfffff2,
    0x1fffe4, 0x1fffe5, 0x3ffffe8, 0x3ffffe9, 0xffffffd, 0x7ffffe3,
    0x7ffffe4, 0x7ffffe5, 0xfffec, 0xfffff3, 0xfffed, 0x1fffe6,
    0x3fffe9, 0x1fffe7, 0x1fffe8, 0x7ffff3, 0x3fffea, 0x3fffeb,
    0x1ffffee, 0x1ffffef, 0xfffff4, 0xfffff5, 0x3ffffea, 0x7ffff4,
    0x3ffffeb, 0x7ffffe6, 0x3ffffec, 0x3ffffed, 0x7ffffe7, 0x7ffffe8,
    0x7ffffe9, 0x7ffffea, 0x7ffffeb, 0xffffffe, 0x7ffffec, 0x7ffffed,
    0x7ffffee, 0x7ffffef, 0x7fffff0, 0x3ffffee, 0x3fffffff]"

definition hpack_huffman_lengths :: "nat list" where
  "hpack_huffman_lengths = [
    13, 23, 28, 28, 28, 28, 28, 28, 28, 24, 30, 28, 28, 30, 28, 28,
    28, 28, 28, 28, 28, 28, 30, 28, 28, 28, 28, 28, 28, 28, 28, 28,
    6, 10, 10, 12, 13, 6, 8, 11, 10, 10, 8, 11, 8, 6, 6, 6,
    5, 5, 5, 6, 6, 6, 6, 6, 6, 6, 7, 8, 15, 6, 12, 10,
    13, 6, 7, 7, 7, 7, 7, 7, 7, 7, 7, 7, 7, 7, 7, 7,
    7, 7, 7, 7, 7, 7, 7, 7, 8, 7, 8, 13, 19, 13, 14, 6,
    15, 5, 6, 5, 6, 5, 6, 6, 6, 5, 7, 7, 6, 6, 6, 5,
    6, 7, 6, 5, 5, 6, 7, 7, 7, 7, 7, 15, 11, 14, 13, 28,
    20, 22, 20, 20, 22, 22, 22, 23, 22, 23, 23, 23, 23, 23, 24, 23,
    24, 24, 22, 23, 24, 23, 23, 23, 23, 21, 22, 23, 22, 23, 23, 24,
    22, 21, 20, 22, 22, 23, 23, 21, 23, 22, 22, 24, 21, 22, 23, 23,
    21, 21, 22, 21, 23, 22, 23, 23, 20, 22, 22, 22, 23, 22, 22, 23,
    26, 26, 20, 19, 22, 23, 22, 25, 26, 26, 26, 27, 27, 26, 24, 25,
    19, 21, 26, 27, 27, 26, 27, 24, 21, 21, 26, 26, 28, 27, 27, 27,
    20, 24, 20, 21, 22, 21, 21, 23, 22, 22, 25, 25, 24, 24, 26, 23,
    26, 27, 26, 26, 27, 27, 27, 27, 27, 28, 27, 27, 27, 27, 27, 26,
    30]"

definition hpack_huffman_symbols :: "nat list" where
  "hpack_huffman_symbols = [
    48, 49, 50, 97, 99, 101, 105, 111, 115, 116, 32, 37,
    45, 46, 47, 51, 52, 53, 54, 55, 56, 57, 61, 65,
    95, 98, 100, 102, 103, 104, 108, 109, 110, 112, 114, 117,
    58, 66, 67, 68, 69, 70, 71, 72, 73, 74, 75, 76,
    77, 78, 79, 80, 81, 82, 83, 84, 85, 86, 87, 89,
    106, 107, 113, 118, 119, 120, 121, 122, 38, 42, 44, 59,
    88, 90, 33, 34, 40, 41, 63, 39, 43, 124, 35, 62,
    0, 36, 64, 91, 93, 126, 94, 125, 60, 96, 123, 92,
    195, 208, 128, 130, 131, 162, 184, 194, 224, 226, 153, 161,
    167, 172, 176, 177, 179, 209, 216, 217, 227, 229, 230, 129,
    132, 133, 134, 136, 146, 154, 156, 160, 163, 164, 169, 170,
    173, 178, 181, 185, 186, 187, 189, 190, 196, 198, 228, 232,
    233, 1, 135, 137, 138, 139, 140, 141, 143, 147, 149, 150,
    151, 152, 155, 157, 158, 165, 166, 168, 174, 175, 180, 182,
    183, 188, 191, 197, 231, 239, 9, 142, 144, 145, 148, 159,
    171, 206, 215, 225, 236, 237, 199, 207, 234, 235, 192, 193,
    200, 201, 202, 205, 210, 213, 218, 219, 238, 240, 242, 243,
    255, 203, 204, 211, 212, 214, 221, 222, 223, 241, 244, 245,
    246, 247, 248, 250, 251, 252, 253, 254, 2, 3, 4, 5,
    6, 7, 8, 11, 12, 14, 15, 16, 17, 18, 19, 20,
    21, 23, 24, 25, 26, 27, 28, 29, 30, 31, 127, 220,
    249, 10, 13, 22, 256]"

definition hpack_huffman_counts :: "nat list" where
  "hpack_huffman_counts = [
    0, 0, 0, 0, 0, 10, 26, 32, 6, 0, 5, 3, 2, 6, 2, 3,
    0, 0, 0, 3, 8, 13, 26, 29, 12, 4, 15, 19, 29, 0, 4]"

definition hpack_huffman_first_code :: "u32 list" where
  "hpack_huffman_first_code = [
    0x0, 0x0, 0x0, 0x0, 0x0, 0x0, 0x14, 0x5c,
    0xf8, 0x0, 0x3f8, 0x7fa, 0xffa, 0x1ff8, 0x3ffc, 0x7ffc,
    0x0, 0x0, 0x0, 0x7fff0, 0xfffe6, 0x1fffdc, 0x3fffd2, 0x7fffd8,
    0xffffea, 0x1ffffec, 0x3ffffe0, 0x7ffffde, 0xfffffe2, 0x0, 0x3ffffffc]"

definition hpack_huffman_first_index :: "nat list" where
  "hpack_huffman_first_index = [
    0, 0, 0, 0, 0, 0, 10, 36, 68, 74, 74, 79, 82, 84, 90, 92,
    95, 95, 95, 95, 98, 106, 119, 145, 174, 186, 190, 205, 224, 253, 253]"

definition HPACK_HUFFMAN_MAX_BITS :: nat where
  [simp]: "HPACK_HUFFMAN_MAX_BITS = 30"

definition HPACK_HUFFMAN_EOS :: nat where
  [simp]: "HPACK_HUFFMAN_EOS = 256"

section \<open>Looking a table up\<close>

text \<open>
  The simplifier reads a position of a long list slowly, so the table of the symbols is split
  into rows and the short ones are read in full.
\<close>

definition symbols_row_0 :: "nat list" where
  "symbols_row_0 =
     [48, 49, 50, 97, 99, 101, 105, 111,
      115, 116, 32, 37, 45, 46, 47, 51]"

definition symbols_row_1 :: "nat list" where
  "symbols_row_1 =
     [52, 53, 54, 55, 56, 57, 61, 65,
      95, 98, 100, 102, 103, 104, 108, 109]"

definition symbols_row_2 :: "nat list" where
  "symbols_row_2 =
     [110, 112, 114, 117, 58, 66, 67, 68,
      69, 70, 71, 72, 73, 74, 75, 76]"

definition symbols_row_3 :: "nat list" where
  "symbols_row_3 =
     [77, 78, 79, 80, 81, 82, 83, 84,
      85, 86, 87, 89, 106, 107, 113, 118]"

definition symbols_row_4 :: "nat list" where
  "symbols_row_4 =
     [119, 120, 121, 122, 38, 42, 44, 59,
      88, 90, 33, 34, 40, 41, 63, 39]"

definition symbols_row_5 :: "nat list" where
  "symbols_row_5 =
     [43, 124, 35, 62, 0, 36, 64, 91,
      93, 126, 94, 125, 60, 96, 123, 92]"

definition symbols_row_6 :: "nat list" where
  "symbols_row_6 =
     [195, 208, 128, 130, 131, 162, 184, 194,
      224, 226, 153, 161, 167, 172, 176, 177]"

definition symbols_row_7 :: "nat list" where
  "symbols_row_7 =
     [179, 209, 216, 217, 227, 229, 230, 129,
      132, 133, 134, 136, 146, 154, 156, 160]"

definition symbols_row_8 :: "nat list" where
  "symbols_row_8 =
     [163, 164, 169, 170, 173, 178, 181, 185,
      186, 187, 189, 190, 196, 198, 228, 232]"

definition symbols_row_9 :: "nat list" where
  "symbols_row_9 =
     [233, 1, 135, 137, 138, 139, 140, 141,
      143, 147, 149, 150, 151, 152, 155, 157]"

definition symbols_row_10 :: "nat list" where
  "symbols_row_10 =
     [158, 165, 166, 168, 174, 175, 180, 182,
      183, 188, 191, 197, 231, 239, 9, 142]"

definition symbols_row_11 :: "nat list" where
  "symbols_row_11 =
     [144, 145, 148, 159, 171, 206, 215, 225,
      236, 237, 199, 207, 234, 235, 192, 193]"

definition symbols_row_12 :: "nat list" where
  "symbols_row_12 =
     [200, 201, 202, 205, 210, 213, 218, 219,
      238, 240, 242, 243, 255, 203, 204, 211]"

definition symbols_row_13 :: "nat list" where
  "symbols_row_13 =
     [212, 214, 221, 222, 223, 241, 244, 245,
      246, 247, 248, 250, 251, 252, 253, 254]"

definition symbols_row_14 :: "nat list" where
  "symbols_row_14 =
     [2, 3, 4, 5, 6, 7, 8, 11,
      12, 14, 15, 16, 17, 18, 19, 20]"

definition symbols_row_15 :: "nat list" where
  "symbols_row_15 =
     [21, 23, 24, 25, 26, 27, 28, 29,
      30, 31, 127, 220, 249, 10, 13, 22]"

definition symbols_row_16 :: "nat list" where
  "symbols_row_16 =
     [256]"

lemmas symbols_row_defs =
     symbols_row_0_def symbols_row_1_def symbols_row_2_def symbols_row_3_def
     symbols_row_4_def symbols_row_5_def symbols_row_6_def symbols_row_7_def
     symbols_row_8_def symbols_row_9_def symbols_row_10_def symbols_row_11_def
     symbols_row_12_def symbols_row_13_def symbols_row_14_def symbols_row_15_def
     symbols_row_16_def

lemma symbols_rows:
  "hpack_huffman_symbols =
     symbols_row_0 @ symbols_row_1 @ symbols_row_2 @ symbols_row_3 @
     symbols_row_4 @ symbols_row_5 @ symbols_row_6 @ symbols_row_7 @
     symbols_row_8 @ symbols_row_9 @ symbols_row_10 @ symbols_row_11 @
     symbols_row_12 @ symbols_row_13 @ symbols_row_14 @ symbols_row_15 @
     symbols_row_16"
  by (simp add: hpack_huffman_symbols_def symbols_row_defs)

lemma length_rows:
     "length symbols_row_0 = 16" "length symbols_row_1 = 16"
     "length symbols_row_2 = 16" "length symbols_row_3 = 16"
     "length symbols_row_4 = 16" "length symbols_row_5 = 16"
     "length symbols_row_6 = 16" "length symbols_row_7 = 16"
     "length symbols_row_8 = 16" "length symbols_row_9 = 16"
     "length symbols_row_10 = 16" "length symbols_row_11 = 16"
     "length symbols_row_12 = 16" "length symbols_row_13 = 16"
     "length symbols_row_14 = 16" "length symbols_row_15 = 16"
     "length symbols_row_16 = 1"
  by (simp_all add: symbols_row_defs)

lemma nth_rows:
     "symbols_row_0 ! n =
       [48, 49, 50, 97, 99, 101, 105, 111,
      115, 116, 32, 37, 45, 46, 47, 51] ! n"
     "symbols_row_1 ! n =
       [52, 53, 54, 55, 56, 57, 61, 65,
      95, 98, 100, 102, 103, 104, 108, 109] ! n"
     "symbols_row_2 ! n =
       [110, 112, 114, 117, 58, 66, 67, 68,
      69, 70, 71, 72, 73, 74, 75, 76] ! n"
     "symbols_row_3 ! n =
       [77, 78, 79, 80, 81, 82, 83, 84,
      85, 86, 87, 89, 106, 107, 113, 118] ! n"
     "symbols_row_4 ! n =
       [119, 120, 121, 122, 38, 42, 44, 59,
      88, 90, 33, 34, 40, 41, 63, 39] ! n"
     "symbols_row_5 ! n =
       [43, 124, 35, 62, 0, 36, 64, 91,
      93, 126, 94, 125, 60, 96, 123, 92] ! n"
     "symbols_row_6 ! n =
       [195, 208, 128, 130, 131, 162, 184, 194,
      224, 226, 153, 161, 167, 172, 176, 177] ! n"
     "symbols_row_7 ! n =
       [179, 209, 216, 217, 227, 229, 230, 129,
      132, 133, 134, 136, 146, 154, 156, 160] ! n"
     "symbols_row_8 ! n =
       [163, 164, 169, 170, 173, 178, 181, 185,
      186, 187, 189, 190, 196, 198, 228, 232] ! n"
     "symbols_row_9 ! n =
       [233, 1, 135, 137, 138, 139, 140, 141,
      143, 147, 149, 150, 151, 152, 155, 157] ! n"
     "symbols_row_10 ! n =
       [158, 165, 166, 168, 174, 175, 180, 182,
      183, 188, 191, 197, 231, 239, 9, 142] ! n"
     "symbols_row_11 ! n =
       [144, 145, 148, 159, 171, 206, 215, 225,
      236, 237, 199, 207, 234, 235, 192, 193] ! n"
     "symbols_row_12 ! n =
       [200, 201, 202, 205, 210, 213, 218, 219,
      238, 240, 242, 243, 255, 203, 204, 211] ! n"
     "symbols_row_13 ! n =
       [212, 214, 221, 222, 223, 241, 244, 245,
      246, 247, 248, 250, 251, 252, 253, 254] ! n"
     "symbols_row_14 ! n =
       [2, 3, 4, 5, 6, 7, 8, 11,
      12, 14, 15, 16, 17, 18, 19, 20] ! n"
     "symbols_row_15 ! n =
       [21, 23, 24, 25, 26, 27, 28, 29,
      30, 31, 127, 220, 249, 10, 13, 22] ! n"
     "symbols_row_16 ! n =
       [256] ! n"
  by (simp_all add: symbols_row_defs)

lemma nth_counts:
     "hpack_huffman_counts ! 5 = 10" "hpack_huffman_counts ! 6 = 26"
     "hpack_huffman_counts ! 7 = 32" "hpack_huffman_counts ! 8 = 6"
     "hpack_huffman_counts ! 9 = 0" "hpack_huffman_counts ! 10 = 5"
     "hpack_huffman_counts ! 11 = 3" "hpack_huffman_counts ! 12 = 2"
     "hpack_huffman_counts ! 13 = 6" "hpack_huffman_counts ! 14 = 2"
     "hpack_huffman_counts ! 15 = 3" "hpack_huffman_counts ! 16 = 0"
     "hpack_huffman_counts ! 17 = 0" "hpack_huffman_counts ! 18 = 0"
     "hpack_huffman_counts ! 19 = 3" "hpack_huffman_counts ! 20 = 8"
     "hpack_huffman_counts ! 21 = 13" "hpack_huffman_counts ! 22 = 26"
     "hpack_huffman_counts ! 23 = 29" "hpack_huffman_counts ! 24 = 12"
     "hpack_huffman_counts ! 25 = 4" "hpack_huffman_counts ! 26 = 15"
     "hpack_huffman_counts ! 27 = 19" "hpack_huffman_counts ! 28 = 29"
     "hpack_huffman_counts ! 29 = 0" "hpack_huffman_counts ! 30 = 4"
  by (simp_all add: hpack_huffman_counts_def)

lemma nth_first_code:
     "hpack_huffman_first_code ! 5 = 0x0" "hpack_huffman_first_code ! 6 = 0x14"
     "hpack_huffman_first_code ! 7 = 0x5c" "hpack_huffman_first_code ! 8 = 0xf8"
     "hpack_huffman_first_code ! 9 = 0x0" "hpack_huffman_first_code ! 10 = 0x3f8"
     "hpack_huffman_first_code ! 11 = 0x7fa" "hpack_huffman_first_code ! 12 = 0xffa"
     "hpack_huffman_first_code ! 13 = 0x1ff8" "hpack_huffman_first_code ! 14 = 0x3ffc"
     "hpack_huffman_first_code ! 15 = 0x7ffc" "hpack_huffman_first_code ! 16 = 0x0"
     "hpack_huffman_first_code ! 17 = 0x0" "hpack_huffman_first_code ! 18 = 0x0"
     "hpack_huffman_first_code ! 19 = 0x7fff0" "hpack_huffman_first_code ! 20 = 0xfffe6"
     "hpack_huffman_first_code ! 21 = 0x1fffdc" "hpack_huffman_first_code ! 22 = 0x3fffd2"
     "hpack_huffman_first_code ! 23 = 0x7fffd8" "hpack_huffman_first_code ! 24 = 0xffffea"
     "hpack_huffman_first_code ! 25 = 0x1ffffec" "hpack_huffman_first_code ! 26 = 0x3ffffe0"
     "hpack_huffman_first_code ! 27 = 0x7ffffde" "hpack_huffman_first_code ! 28 = 0xfffffe2"
     "hpack_huffman_first_code ! 29 = 0x0" "hpack_huffman_first_code ! 30 = 0x3ffffffc"
  by (simp_all add: hpack_huffman_first_code_def)

lemma nth_first_index:
     "hpack_huffman_first_index ! 5 = 0" "hpack_huffman_first_index ! 6 = 10"
     "hpack_huffman_first_index ! 7 = 36" "hpack_huffman_first_index ! 8 = 68"
     "hpack_huffman_first_index ! 9 = 74" "hpack_huffman_first_index ! 10 = 74"
     "hpack_huffman_first_index ! 11 = 79" "hpack_huffman_first_index ! 12 = 82"
     "hpack_huffman_first_index ! 13 = 84" "hpack_huffman_first_index ! 14 = 90"
     "hpack_huffman_first_index ! 15 = 92" "hpack_huffman_first_index ! 16 = 95"
     "hpack_huffman_first_index ! 17 = 95" "hpack_huffman_first_index ! 18 = 95"
     "hpack_huffman_first_index ! 19 = 95" "hpack_huffman_first_index ! 20 = 98"
     "hpack_huffman_first_index ! 21 = 106" "hpack_huffman_first_index ! 22 = 119"
     "hpack_huffman_first_index ! 23 = 145" "hpack_huffman_first_index ! 24 = 174"
     "hpack_huffman_first_index ! 25 = 186" "hpack_huffman_first_index ! 26 = 190"
     "hpack_huffman_first_index ! 27 = 205" "hpack_huffman_first_index ! 28 = 224"
     "hpack_huffman_first_index ! 29 = 253" "hpack_huffman_first_index ! 30 = 253"
  by (simp_all add: hpack_huffman_first_index_def)

lemma nth_skip: "length xs \<le> n \<Longrightarrow> (xs @ ys) ! n = ys ! (n - length xs)"
  by (simp add: nth_append)

lemma nth_here: "n < length xs \<Longrightarrow> (xs @ ys) ! n = xs ! n"
  by (simp add: nth_append)

lemmas table_lookup = nth_counts nth_first_code nth_first_index
  symbols_rows length_rows nth_rows nth_skip nth_here

lemma length_tables:
  "length hpack_huffman_codes = 257" "length hpack_huffman_lengths = 257"
  "length hpack_huffman_symbols = 257" "length hpack_huffman_counts = 31"
  "length hpack_huffman_first_code = 31" "length hpack_huffman_first_index = 31"
  by (simp_all add: hpack_huffman_codes_def hpack_huffman_lengths_def hpack_huffman_counts_def
      hpack_huffman_first_code_def hpack_huffman_first_index_def hpack_huffman_symbols_def)

section \<open>The codes are the ones the decoding tables describe\<close>

definition symbol_entry :: "nat \<Rightarrow> u32 \<Rightarrow> nat \<Rightarrow> bool" where
  "symbol_entry s c l \<longleftrightarrow>
     5 \<le> l \<and> l \<le> 30 \<and> unat c < 2 ^ l \<and>
     unat (hpack_huffman_first_code ! l) \<le> unat c \<and>
     unat c - unat (hpack_huffman_first_code ! l) < hpack_huffman_counts ! l \<and>
     hpack_huffman_symbols !
       (hpack_huffman_first_index ! l + (unat c - unat (hpack_huffman_first_code ! l))) = s"

fun symbol_entries :: "nat \<Rightarrow> u32 list \<Rightarrow> nat list \<Rightarrow> bool" where
  "symbol_entries s (c # cs) (l # ls) \<longleftrightarrow> symbol_entry s c l \<and> symbol_entries (s + 1) cs ls"
| "symbol_entries s cs ls \<longleftrightarrow> True"

lemma symbol_entries_nth:
  "symbol_entries s cs ls \<Longrightarrow> i < length cs \<Longrightarrow> i < length ls \<Longrightarrow> symbol_entry (s + i) (cs ! i) (ls ! i)"
proof (induction s cs ls arbitrary: i rule: symbol_entries.induct)
  case (1 s c cs l ls)
  then show ?case by (cases i) auto
qed auto

lemma symbol_entries_cong:
  "s = t \<Longrightarrow> symbol_entries s cs ls = symbol_entries t cs ls"
  by simp

lemma symbol_entries_tables: "symbol_entries 0 hpack_huffman_codes hpack_huffman_lengths"
  unfolding hpack_huffman_codes_def hpack_huffman_lengths_def
  by (simp cong: symbol_entries_cong add: symbol_entry_def table_lookup)

lemma symbol_entry_tables:
  "s < 257 \<Longrightarrow> symbol_entry s (hpack_huffman_codes ! s) (hpack_huffman_lengths ! s)"
  using symbol_entries_nth [OF symbol_entries_tables, of s] by (simp add: length_tables)

definition first_above :: "nat \<Rightarrow> nat \<Rightarrow> bool" where
  "first_above l k \<longleftrightarrow>
     hpack_huffman_counts ! k = 0 \<or> hpack_huffman_counts ! l = 0 \<or>
     unat (hpack_huffman_first_code ! k) + hpack_huffman_counts ! k
       \<le> unat (hpack_huffman_first_code ! l) div 2 ^ (l - k)"

lemma first_above_tables: "list_all (\<lambda>l. list_all (first_above l) [5..<l]) [5..<31]"
  by (simp add: upt_rec_numeral first_above_def nth_counts nth_first_code)

lemma first_aboveI:
  assumes "5 \<le> k" and "k < l" and "l \<le> 30"
  shows "first_above l k"
proof -
  have "l \<in> set [5..<31]" and "k \<in> set [5..<l]"
    using assms by (simp_all only: set_upt atLeastLessThan_iff) simp_all
  then show ?thesis
    using first_above_tables unfolding list_all_iff by blast
qed

lemma counts_below_5: "k < 5 \<Longrightarrow> hpack_huffman_counts ! k = 0"
  by (simp add: hpack_huffman_counts_def less_Suc_eq numeral_eq_Suc) (elim disjE; simp)

lemma code_above:
  assumes "s < 257" and "k < hpack_huffman_lengths ! s" and "hpack_huffman_counts ! k \<noteq> 0"
  shows "unat (hpack_huffman_first_code ! k) + hpack_huffman_counts ! k
           \<le> unat (hpack_huffman_codes ! s) div 2 ^ (hpack_huffman_lengths ! s - k)"
proof -
  let ?l = "hpack_huffman_lengths ! s"
  have entry: "symbol_entry s (hpack_huffman_codes ! s) ?l"
    using assms(1) by (rule symbol_entry_tables)
  have "5 \<le> k"
    using assms(3) counts_below_5 by (meson not_le)
  then have "first_above ?l k"
    using assms(2) entry by (intro first_aboveI) (simp_all add: symbol_entry_def)
  then have "unat (hpack_huffman_first_code ! k) + hpack_huffman_counts ! k
               \<le> unat (hpack_huffman_first_code ! ?l) div 2 ^ (?l - k)"
    using assms(3) entry by (auto simp: first_above_def symbol_entry_def)
  also have "\<dots> \<le> unat (hpack_huffman_codes ! s) div 2 ^ (?l - k)"
    using entry by (intro div_le_mono) (simp add: symbol_entry_def)
  finally show ?thesis .
qed

end
