(* ===== verification/Hpack_Huffman.thy ===== *)
theory Hpack_Huffman
  imports Hpack_Huffman_Tables
begin

text \<open>
  The Huffman coding of \<^verbatim>\<open>src/src/viriatum/http/hpack.c\<close>: \<^verbatim>\<open>encode_huffman_hpack\<close>,
  \<^verbatim>\<open>size_huffman_hpack\<close> and \<^verbatim>\<open>decode_huffman_hpack\<close>, over the 32 bit accumulators of
  the code. The reference is the bit string of the codes: what the encoder writes are its
  bits, padded with ones, and the decoder reads it back.
\<close>

unbundle bit_operations_syntax

definition No_space_coded :: error where
  "No_space_coded = Runtime_Exception ''No space for the coded string in the buffer''"

definition Invalid_code :: error where
  "Invalid_code = Runtime_Exception ''Invalid Huffman code in the header block''"

definition EOS_symbol :: error where
  "EOS_symbol = Runtime_Exception ''End of string symbol in the header block''"

definition Decoded_too_large :: error where
  "Decoded_too_large = Runtime_Exception ''Decoded string above the accepted size''"

definition Padding_above_byte :: error where
  "Padding_above_byte = Runtime_Exception ''Padding above a byte in the header block''"

definition Invalid_padding :: error where
  "Invalid_padding = Runtime_Exception ''Invalid padding in the header block''"

section \<open>Encoding\<close>

text \<open>
  The loop that writes the complete bytes of the accumulator, \<open>count\<close> is the number of bits
  it holds.
\<close>

function flush_bytes ::
    "bytes \<Rightarrow> nat \<Rightarrow> nat \<Rightarrow> u32 \<Rightarrow> nat \<Rightarrow> error option \<times> bytes \<times> nat \<times> nat" where
  "flush_bytes buffer buffer_size offset accumulator count =
     (if count \<ge> 8 then
        if offset \<ge> buffer_size then (Some No_space_coded, buffer, offset, count)
        else flush_bytes
               (buffer[offset := ucast (drop_bit (count - 8) accumulator)])
               buffer_size (offset + 1) accumulator (count - 8)
      else (None, buffer, offset, count))"
  by pat_completeness auto
termination
  by (relation "measure (\<lambda>(_, _, _, _, count). count)") auto

declare flush_bytes.simps [simp del]

lemma flush_bytes_count:
  "flush_bytes buffer buffer_size offset accumulator count = (None, buffer', offset', count') \<Longrightarrow>
     count' = count mod 8"
proof (induction buffer buffer_size offset accumulator count rule: flush_bytes.induct)
  case (1 buffer buffer_size offset accumulator count)
  show ?case
    using "1.prems" "1.IH" unfolding flush_bytes.simps [of buffer buffer_size offset accumulator count]
    by (auto simp: le_mod_geq split: if_splits)
qed

text \<open>
  The pushing of the code of one byte, which takes as many bits at a time as the accumulator
  has room for. The code only enters it with fewer than eight bits in the accumulator.
\<close>

function push_code ::
    "bytes \<Rightarrow> nat \<Rightarrow> nat \<Rightarrow> u32 \<Rightarrow> nat \<Rightarrow> u32 \<Rightarrow> nat \<Rightarrow>
       error option \<times> bytes \<times> nat \<times> u32 \<times> nat" where
  "push_code buffer buffer_size offset accumulator count code code_length =
     (if code_length > 0 then
        (let taken = min (32 - count) code_length;
             accumulator' = push_bit taken accumulator OR
               (drop_bit (code_length - taken) code AND (push_bit taken 1 - 1));
             count' = count + taken;
             code_length' = code_length - taken
         in case flush_bytes buffer buffer_size offset accumulator' count' of
              (Some e, buffer', offset', count'') \<Rightarrow> (Some e, buffer', offset', accumulator', count'')
            | (None, buffer', offset', count'') \<Rightarrow>
                push_code buffer' buffer_size offset' accumulator' count'' code code_length')
      else (None, buffer, offset, accumulator, count))"
  by pat_completeness auto
termination
  by (relation "measure (\<lambda>(_, _, _, _, count, _, code_length). code_length + (if count < 32 then 0 else 1))")
    (auto dest!: flush_bytes_count [OF sym])

declare push_code.simps [simp del]

text \<open>The loop over the bytes to be coded.\<close>

fun encode_huffman_loop ::
    "bytes \<Rightarrow> bytes \<Rightarrow> nat \<Rightarrow> nat \<Rightarrow> u32 \<Rightarrow> nat \<Rightarrow>
       error option \<times> bytes \<times> nat \<times> u32 \<times> nat" where
  "encode_huffman_loop [] buffer buffer_size offset accumulator count =
     (None, buffer, offset, accumulator, count)"
| "encode_huffman_loop (byte # data) buffer buffer_size offset accumulator count =
     (case push_code buffer buffer_size offset accumulator count
             (hpack_huffman_codes ! unat byte) (hpack_huffman_lengths ! unat byte) of
        (Some e, buffer', offset', accumulator', count') \<Rightarrow>
          (Some e, buffer', offset', accumulator', count')
      | (None, buffer', offset', accumulator', count') \<Rightarrow>
          encode_huffman_loop data buffer' buffer_size offset' accumulator' count')"

text \<open>The buffer and the size of what has been written at its start.\<close>

definition encode_huffman_hpack :: "bytes \<Rightarrow> bytes \<Rightarrow> nat \<Rightarrow> write_result" where
  "encode_huffman_hpack data buffer buffer_size =
     (case encode_huffman_loop data buffer buffer_size 0 0 0 of
        (Some e, buffer', offset, accumulator, count) \<Rightarrow> (Some e, buffer', offset)
      | (None, buffer', offset, accumulator, count) \<Rightarrow>
          if count > 0 then
            if offset \<ge> buffer_size then (Some No_space_coded, buffer', offset)
            else
              (let accumulator' = push_bit (8 - count) accumulator OR (push_bit (8 - count) 1 - 1)
               in (None, buffer'[offset := ucast accumulator'], offset + 1))
          else (None, buffer', offset))"

definition size_huffman_hpack :: "bytes \<Rightarrow> nat" where
  "size_huffman_hpack data =
     (sum_list (map (\<lambda>byte. hpack_huffman_lengths ! unat byte) data) + 7) div 8"

section \<open>Decoding\<close>

text \<open>
  One bit joins the code; the state is what has been decoded (the bytes written at the start of
  the buffer, so \<open>offset\<close> is its length), the code accumulated and the number of its bits.
\<close>

definition decode_huffman_bit ::
    "nat \<Rightarrow> byte \<Rightarrow> nat \<Rightarrow> bytes \<times> u32 \<times> nat \<Rightarrow> (bytes \<times> u32 \<times> nat) result" where
  "decode_huffman_bit buffer_size byte bit_index st =
     (case st of (buffer, code0, bits0) \<Rightarrow>
        (let code = push_bit 1 code0 OR ucast (drop_bit bit_index byte AND 0x01);
             bits = bits0 + 1
         in if bits > HPACK_HUFFMAN_MAX_BITS then Inl Invalid_code
            else if hpack_huffman_counts ! bits = 0 then Inr (buffer, code, bits)
            else
              (let first = hpack_huffman_first_code ! bits
               in if code < first \<or> unat (code - first) \<ge> hpack_huffman_counts ! bits
                  then Inr (buffer, code, bits)
                  else
                    (let symbol = hpack_huffman_symbols !
                           (hpack_huffman_first_index ! bits + unat (code - first))
                     in if symbol = HPACK_HUFFMAN_EOS then Inl EOS_symbol
                        else if length buffer \<ge> buffer_size then Inl Decoded_too_large
                        else Inr (buffer @ [of_nat symbol], 0, 0)))))"

text \<open>The bits of a byte, from the one below \<open>n\<close> down to the lowest.\<close>

fun decode_huffman_byte ::
    "nat \<Rightarrow> byte \<Rightarrow> nat \<Rightarrow> bytes \<times> u32 \<times> nat \<Rightarrow> (bytes \<times> u32 \<times> nat) result" where
  "decode_huffman_byte buffer_size byte 0 st = Inr st"
| "decode_huffman_byte buffer_size byte (Suc n) st =
     (case decode_huffman_bit buffer_size byte n st of
        Inl e \<Rightarrow> Inl e
      | Inr st' \<Rightarrow> decode_huffman_byte buffer_size byte n st')"

fun decode_huffman_loop ::
    "nat \<Rightarrow> bytes \<Rightarrow> bytes \<times> u32 \<times> nat \<Rightarrow> (bytes \<times> u32 \<times> nat) result" where
  "decode_huffman_loop buffer_size [] st = Inr st"
| "decode_huffman_loop buffer_size (byte # data) st =
     (case decode_huffman_byte buffer_size byte 8 st of
        Inl e \<Rightarrow> Inl e
      | Inr st' \<Rightarrow> decode_huffman_loop buffer_size data st')"

definition decode_huffman_hpack :: "bytes \<Rightarrow> nat \<Rightarrow> bytes result" where
  "decode_huffman_hpack data buffer_size =
     (case decode_huffman_loop buffer_size data ([], 0, 0) of
        Inl e \<Rightarrow> Inl e
      | Inr (buffer, code, bits) \<Rightarrow>
          if bits > 7 then Inl Padding_above_byte
          else if bits > 0 \<and> code \<noteq> push_bit bits 1 - 1 then Inl Invalid_padding
          else Inr buffer)"

section \<open>Words and the lists of their bits\<close>

text \<open>The \<open>n\<close> lowest bits of a word, the most significant first.\<close>

definition bits_of :: "nat \<Rightarrow> 'a::len word \<Rightarrow> bool list" where
  "bits_of n w = map (\<lambda>i. bit w (n - 1 - i)) [0..<n]"

definition byte_of_bits :: "bool list \<Rightarrow> byte" where
  "byte_of_bits bs = horner_sum of_bool 2 (rev bs)"

lemma length_bits_of [simp]: "length (bits_of n w) = n"
  by (simp add: bits_of_def)

lemma nth_bits_of [simp]: "i < n \<Longrightarrow> bits_of n w ! i = bit w (n - 1 - i)"
  by (simp add: bits_of_def)

lemma bits_of_0 [simp]: "bits_of 0 w = []"
  by (simp add: bits_of_def)

lemma bits_of_Suc: "bits_of (Suc n) w = bit w n # bits_of n w"
  by (rule nth_equalityI) (auto simp: nth_Cons split: nat.splits)

lemma bits_of_eq_Nil [simp]: "bits_of n w = [] \<longleftrightarrow> n = 0"
  by (metis length_0_conv length_bits_of)

lemma drop_bits_of: "drop k (bits_of n w) = bits_of (n - k) w"
  by (rule nth_equalityI) (auto simp: less_diff_conv add.commute)

lemma take_bits_of: "k \<le> n \<Longrightarrow> take k (bits_of n w) = bits_of k (drop_bit (n - k) w)"
  by (rule nth_equalityI) (auto simp: bit_drop_bit_eq)

lemma bit_byte_of_bits:
  "length bs = 8 \<Longrightarrow> bit (byte_of_bits bs) i \<longleftrightarrow> i < 8 \<and> bs ! (7 - i)"
  by (auto simp: byte_of_bits_def bit_horner_sum_bit_word_iff rev_nth)

lemma bits_of_byte_of_bits [bits_simps]: "length bs = 8 \<Longrightarrow> bits_of 8 (byte_of_bits bs) = bs"
  by (rule nth_equalityI) (auto simp: bit_byte_of_bits)

lemma byte_of_bits_eqI:
  assumes "length bs = 8" and "\<And>i. i < 8 \<Longrightarrow> bit b (7 - i) = bs ! i"
  shows "byte_of_bits bs = (b :: byte)"
proof (rule bit_word_eqI)
  fix n assume "n < LENGTH(8)"
  then show "bit (byte_of_bits bs) n = bit b n"
    using assms(2) [of "7 - n"] by (simp add: bit_byte_of_bits assms(1))
qed

text \<open>The complete bytes of a list of bits and the bits that remain.\<close>

function pack_bits :: "bool list \<Rightarrow> bytes" where
  "pack_bits bs = (if length bs \<ge> 8 then byte_of_bits (take 8 bs) # pack_bits (drop 8 bs) else [])"
  by pat_completeness auto
termination
  by (relation "measure length") auto

declare pack_bits.simps [simp del]

definition rest_bits :: "bool list \<Rightarrow> bool list" where
  "rest_bits bs = drop (8 * (length bs div 8)) bs"

lemma length_rest_bits [simp]: "length (rest_bits bs) = length bs mod 8"
  by (simp add: rest_bits_def minus_mult_div_eq_mod)

lemma pack_bits_short: "length bs < 8 \<Longrightarrow> pack_bits bs = []"
  by (simp add: pack_bits.simps)

lemma pack_bits_step:
  "8 \<le> length bs \<Longrightarrow> pack_bits bs = byte_of_bits (take 8 bs) # pack_bits (drop 8 bs)"
  by (simp add: pack_bits.simps [of bs])

lemma rest_bits_short: "length bs < 8 \<Longrightarrow> rest_bits bs = bs"
  by (simp add: rest_bits_def)

lemma rest_bits_drop: "8 \<le> length bs \<Longrightarrow> rest_bits (drop 8 bs) = rest_bits bs"
proof -
  assume "8 \<le> length bs"
  then have "length bs div 8 = Suc ((length bs - 8) div 8)"
    by (simp add: le_div_geq)
  then show ?thesis
    by (simp add: rest_bits_def add.commute)
qed

lemma length_pack_bits [simp]: "length (pack_bits bs) = length bs div 8"
proof (induction bs rule: pack_bits.induct)
  case (1 bs)
  then show ?case
    by (cases "8 \<le> length bs") (simp_all add: pack_bits.simps [of bs] le_div_geq)
qed

lemma pack_bits_append: "pack_bits (as @ bs) = pack_bits as @ pack_bits (rest_bits as @ bs)"
proof (induction as rule: pack_bits.induct)
  case (1 as)
  then show ?case
    by (cases "8 \<le> length as")
      (simp_all add: pack_bits_step [of as] pack_bits_step [of "as @ bs"] pack_bits_short [of as]
        rest_bits_drop [of as] rest_bits_short [of as])
qed

lemma rest_bits_append: "rest_bits (as @ bs) = rest_bits (rest_bits as @ bs)"
proof (induction as rule: pack_bits.induct)
  case (1 as)
  then show ?case
    using rest_bits_drop [of "as @ bs"] rest_bits_drop [of as]
    by (cases "8 \<le> length as") (simp_all add: rest_bits_short)
qed

lemma concat_pack_bits: "concat (map (bits_of 8) (pack_bits bs)) @ rest_bits bs = bs"
proof (induction bs rule: pack_bits.induct)
  case (1 bs)
  then show ?case
    by (cases "8 \<le> length bs")
      (simp_all add: pack_bits.simps [of bs] bits_of_byte_of_bits rest_bits_drop rest_bits_short)
qed

lemma rest_bits_of: "rest_bits (bits_of n w) = bits_of (n mod 8) w"
  by (simp add: rest_bits_def drop_bits_of minus_mult_div_eq_mod)

section \<open>What the encoder writes\<close>

lemma accumulator_byte:
  assumes "8 \<le> count" and "count \<le> 32"
  shows "ucast (drop_bit (count - 8) (accumulator :: u32)) = byte_of_bits (take 8 (bits_of count accumulator))"
proof (rule byte_of_bits_eqI [symmetric])
  fix i :: nat assume "i < 8"
  then have "count - 8 + (7 - i) = count - Suc i" and "7 - i < 8"
    using assms by simp_all
  then show "bit (ucast (drop_bit (count - 8) accumulator) :: byte) (7 - i) = take 8 (bits_of count accumulator) ! i"
    using assms \<open>i < 8\<close> by (simp add: bit_unsigned_iff bit_drop_bit_eq)
qed (use assms in simp)

lemma flush_bytes_ok:
  assumes "count \<le> 32" and "offset + count div 8 \<le> buffer_size" and "buffer_size \<le> length buffer"
  shows "flush_bytes buffer buffer_size offset accumulator count =
           (None, memcpy buffer offset (pack_bits (bits_of count accumulator)),
            offset + count div 8, count mod 8)"
  using assms
proof (induction buffer buffer_size offset accumulator count rule: flush_bytes.induct)
  case (1 buffer buffer_size offset accumulator count)
  show ?case
  proof (cases "8 \<le> count")
    case True
    let ?b = "byte_of_bits (take 8 (bits_of count accumulator))"
    have div: "count div 8 = Suc ((count - 8) div 8)"
      using True by (simp add: le_div_geq)
    have offset: "offset < buffer_size"
      using "1.prems" div by simp
    have "flush_bytes (buffer[offset := ?b]) buffer_size (offset + 1) accumulator (count - 8) =
            (None, memcpy (buffer[offset := ?b]) (offset + 1) (pack_bits (bits_of (count - 8) accumulator)),
             offset + 1 + (count - 8) div 8, (count - 8) mod 8)"
      using "1.IH" [OF True] "1.prems" True offset div by (simp add: accumulator_byte)
    moreover have "memcpy (buffer[offset := ?b]) (offset + 1) (pack_bits (bits_of (count - 8) accumulator))
                    = memcpy buffer offset (pack_bits (bits_of count accumulator))"
      using memcpy_memcpy [of offset "[?b]" "pack_bits (bits_of (count - 8) accumulator)" buffer]
        offset "1.prems" True div
      by (simp add: list_update_memcpy pack_bits_step [of "bits_of count accumulator"] drop_bits_of)
    ultimately show ?thesis
      using True "1.prems" offset div
      by (simp add: flush_bytes.simps [of buffer] accumulator_byte le_mod_geq)
  next
    case False
    then show ?thesis
      using "1.prems" by (simp add: flush_bytes.simps [of buffer] pack_bits_short)
  qed
qed

lemma flush_bytes_no_space:
  assumes "buffer_size < offset + count div 8" and "offset \<le> buffer_size"
  shows "fst (flush_bytes buffer buffer_size offset accumulator count) = Some No_space_coded"
  using assms
proof (induction buffer buffer_size offset accumulator count rule: flush_bytes.induct)
  case (1 buffer buffer_size offset accumulator count)
  then have "8 \<le> count"
    by (cases "8 \<le> count") auto
  moreover from this have "count div 8 = Suc ((count - 8) div 8)"
    by (simp add: le_div_geq)
  ultimately show ?case
    using "1" by (auto simp: flush_bytes.simps [of buffer])
qed

lemma push_accumulator:
  assumes "count + taken \<le> 32" and "taken \<le> code_length"
  shows "bits_of (count + taken)
           (push_bit taken accumulator OR (drop_bit (code_length - taken) code AND (push_bit taken 1 - 1)) :: u32)
         = bits_of count accumulator @ take taken (bits_of code_length code)"
proof (rule nth_equalityI)
  fix i assume "i < length (bits_of (count + taken)
    (push_bit taken accumulator OR (drop_bit (code_length - taken) code AND (push_bit taken 1 - 1)) :: u32))"
  then have i: "i < count + taken" by simp
  have mask: "push_bit taken 1 - 1 = (mask taken :: u32)"
    by (simp add: mask_eq_exp_minus_1 push_bit_eq_mult)
  show "bits_of (count + taken)
          (push_bit taken accumulator OR (drop_bit (code_length - taken) code AND (push_bit taken 1 - 1))) ! i
        = (bits_of count accumulator @ take taken (bits_of code_length code)) ! i"
    unfolding mask
  proof (cases "i < count")
    case True
    then have "count + taken - 1 - i - taken = count - 1 - i" "\<not> count + taken - 1 - i < taken"
      "taken \<le> count + taken - 1 - i" "count + taken - 1 - i < 32"
      using assms by simp_all
    then show "bits_of (count + taken)
        (push_bit taken accumulator OR (drop_bit (code_length - taken) code AND mask taken)) ! i
        = (bits_of count accumulator @ take taken (bits_of code_length code)) ! i"
      using True i by (simp add: nth_append bit_or_iff bit_and_iff bit_push_bit_iff bit_mask_iff)
  next
    case False
    then have "count + taken - 1 - i < taken" "\<not> taken \<le> count + taken - 1 - i"
      "code_length - taken + (count + taken - 1 - i) = code_length - 1 - (i - count)"
      "i - count < taken" "i - count < code_length" "count + taken - 1 - i < 32"
      using assms i by auto
    then show "bits_of (count + taken)
        (push_bit taken accumulator OR (drop_bit (code_length - taken) code AND mask taken)) ! i
        = (bits_of count accumulator @ take taken (bits_of code_length code)) ! i"
      using False i
      by (simp add: nth_append bit_or_iff bit_and_iff bit_push_bit_iff bit_mask_iff bit_drop_bit_eq)
  qed
qed (use assms in simp)

lemma div_8_split: "(a::nat) div 8 + (a mod 8 + b) div 8 = (a + b) div 8"
proof -
  have "a + b = (a mod 8 + b) + a div 8 * 8" by simp
  then have "(a + b) div 8 = ((a mod 8 + b) + a div 8 * 8) div 8" by (rule arg_cong)
  then show ?thesis by (simp only: div_mult_self1 numeral_neq_zero not_False_eq_True)
qed

lemma div_8_pad: "((n::nat) + (8 - n mod 8) mod 8) div 8 = (n + 7) div 8"
proof -
  have "r < 8 \<Longrightarrow> (q * 8 + r + (8 - r) mod 8) div 8 = (q * 8 + r + 7) div 8" for q r :: nat
  proof (cases "r = 0")
    case False
    assume "r < 8"
    then have "q * 8 + r + (8 - r) mod 8 = Suc q * 8" and "q * 8 + r + 7 = (r - 1) + Suc q * 8"
      using False by simp_all
    then show ?thesis
      using \<open>r < 8\<close> by (simp only: div_mult_self1 numeral_neq_zero not_False_eq_True) simp
  qed simp
  from this [of "n mod 8" "n div 8"] show ?thesis by simp
qed

lemma push_code_step:
  assumes "taken = min (32 - count) code_length"
    and "accumulator' = push_bit taken accumulator OR
           (drop_bit (code_length - taken) code AND (push_bit taken 1 - 1))"
    and "0 < code_length"
  shows "push_code buffer buffer_size offset accumulator count code code_length =
     (case flush_bytes buffer buffer_size offset accumulator' (count + taken) of
        (Some e, buffer', offset', count'') \<Rightarrow> (Some e, buffer', offset', accumulator', count'')
      | (None, buffer', offset', count'') \<Rightarrow>
          push_code buffer' buffer_size offset' accumulator' count'' code (code_length - taken))"
  using assms(3)
  unfolding push_code.simps [of buffer buffer_size offset accumulator count code code_length] assms(1,2) Let_def
  by (simp only: if_True)

text \<open>
  Pushing a code writes the complete bytes of the bits held so far followed by those of the
  code, and keeps the bits that remain.
\<close>

lemma push_code_ok:
  assumes "count < 8" and "offset + (count + code_length) div 8 \<le> buffer_size"
    and "buffer_size \<le> length buffer"
  shows "\<exists>accumulator'. push_code buffer buffer_size offset accumulator count code code_length =
           (None, memcpy buffer offset (pack_bits (bits_of count accumulator @ bits_of code_length code)),
            offset + (count + code_length) div 8, accumulator', (count + code_length) mod 8)
         \<and> bits_of ((count + code_length) mod 8) accumulator'
             = rest_bits (bits_of count accumulator @ bits_of code_length code)"
  using assms
proof (induction code_length arbitrary: buffer offset accumulator count rule: less_induct)
  case (less code_length)
  show ?case
  proof (cases "code_length = 0")
    case True
    then show ?thesis
      using less.prems
      by (simp add: push_code.simps [of buffer] pack_bits_short rest_bits_short)
  next
    case False
    define taken where "taken = min (32 - count) code_length"
    define accumulator' where "accumulator' = push_bit taken accumulator OR
       (drop_bit (code_length - taken) code AND (push_bit taken 1 - 1))"
    have taken: "0 < taken" "taken \<le> code_length" "count + taken \<le> 32"
      using False less.prems(1) by (auto simp: taken_def)
    let ?P = "bits_of count accumulator" and ?Q = "bits_of code_length code"
    have bits: "bits_of (count + taken) accumulator' = ?P @ take taken ?Q"
      unfolding accumulator'_def using taken(3,2) by (rule push_accumulator)
    have rest: "bits_of ((count + taken) mod 8) accumulator' = rest_bits (?P @ take taken ?Q)"
      by (simp flip: bits add: rest_bits_of)
    have sum: "(count + taken) div 8 + ((count + taken) mod 8 + (code_length - taken)) div 8
                 = (count + code_length) div 8"
      "((count + taken) mod 8 + (code_length - taken)) mod 8 = (count + code_length) mod 8"
      using taken(2) by (simp_all only: div_8_split mod_add_left_eq) simp_all
    let ?buffer = "memcpy buffer offset (pack_bits (?P @ take taken ?Q))"
    have len: "length (pack_bits (?P @ take taken ?Q)) = (count + taken) div 8"
      using taken(2) by simp
    have flush: "flush_bytes buffer buffer_size offset accumulator' (count + taken) =
        (None, ?buffer, offset + (count + taken) div 8, (count + taken) mod 8)"
      unfolding bits [symmetric] using less.prems taken sum by (intro flush_bytes_ok) auto
    obtain accumulator'' where IH:
      "push_code ?buffer buffer_size (offset + (count + taken) div 8) accumulator'
         ((count + taken) mod 8) code (code_length - taken) =
       (None, memcpy ?buffer (offset + (count + taken) div 8)
          (pack_bits (rest_bits (?P @ take taken ?Q) @ drop taken ?Q)),
        offset + (count + taken) div 8 + ((count + taken) mod 8 + (code_length - taken)) div 8,
        accumulator'', ((count + taken) mod 8 + (code_length - taken)) mod 8)"
      "bits_of (((count + taken) mod 8 + (code_length - taken)) mod 8) accumulator'' =
         rest_bits (rest_bits (?P @ take taken ?Q) @ drop taken ?Q)"
      using less.IH [of "code_length - taken" "(count + taken) mod 8"
          "offset + (count + taken) div 8" ?buffer accumulator'] less.prems taken sum(1) len rest
      by (auto simp: drop_bits_of)
    have PQ: "(?P @ take taken ?Q) @ drop taken ?Q = ?P @ ?Q"
      by simp
    have "pack_bits (?P @ take taken ?Q) @ pack_bits (rest_bits (?P @ take taken ?Q) @ drop taken ?Q)
            = pack_bits (?P @ ?Q)"
      by (simp only: pack_bits_append [of "?P @ take taken ?Q", symmetric] PQ)
    then have "memcpy ?buffer (offset + (count + taken) div 8)
          (pack_bits (rest_bits (?P @ take taken ?Q) @ drop taken ?Q)) = memcpy buffer offset (pack_bits (?P @ ?Q))"
      using memcpy_memcpy [of offset "pack_bits (?P @ take taken ?Q)"
          "pack_bits (rest_bits (?P @ take taken ?Q) @ drop taken ?Q)" buffer] less.prems len taken sum
      by simp
    moreover have "rest_bits (rest_bits (?P @ take taken ?Q) @ drop taken ?Q) = rest_bits (?P @ ?Q)"
      by (simp only: rest_bits_append [of "?P @ take taken ?Q", symmetric] PQ)
    ultimately show ?thesis
      using IH False flush sum
      by (simp add: push_code_step [OF taken_def accumulator'_def])
  qed
qed

lemma push_code_no_space:
  assumes "count < 8" and "buffer_size < offset + (count + code_length) div 8"
    and "offset \<le> buffer_size" and "buffer_size \<le> length buffer"
  shows "fst (push_code buffer buffer_size offset accumulator count code code_length) = Some No_space_coded"
  using assms
proof (induction code_length arbitrary: buffer offset accumulator count rule: less_induct)
  case (less code_length)
  define taken where "taken = min (32 - count) code_length"
  define accumulator' where "accumulator' = push_bit taken accumulator OR
       (drop_bit (code_length - taken) code AND (push_bit taken 1 - 1))"
  have pos: "0 < code_length"
    using less.prems by (cases code_length) auto
  have taken: "0 < taken" "taken \<le> code_length" "count + taken \<le> 32"
    using pos less.prems(1) by (auto simp: taken_def)
  note unfold = push_code_step [OF taken_def accumulator'_def pos]
  show ?case
  proof (cases "buffer_size < offset + (count + taken) div 8")
    case True
    then show ?thesis
      using flush_bytes_no_space [OF True less.prems(3), of buffer accumulator']
      by (auto simp: unfold split: prod.splits option.splits)
  next
    case False
    have "flush_bytes buffer buffer_size offset accumulator' (count + taken) =
        (None, memcpy buffer offset (pack_bits (bits_of (count + taken) accumulator')),
         offset + (count + taken) div 8, (count + taken) mod 8)"
      using False less.prems taken by (intro flush_bytes_ok) auto
    moreover have "(count + taken) div 8 + ((count + taken) mod 8 + (code_length - taken)) div 8
                 = (count + code_length) div 8"
      using taken(2) by (simp only: div_8_split add.assoc le_add_diff_inverse)
    ultimately show ?thesis
      using False less.prems taken
        less.IH [of "code_length - taken" "(count + taken) mod 8" "offset + (count + taken) div 8"
          "memcpy buffer offset (pack_bits (bits_of (count + taken) accumulator'))" accumulator']
      by (simp add: unfold)
  qed
qed

section \<open>The coded string\<close>

definition symbol_bits :: "nat \<Rightarrow> bool list" where
  "symbol_bits s = bits_of (hpack_huffman_lengths ! s) (hpack_huffman_codes ! s)"

definition huffman_bits :: "bytes \<Rightarrow> bool list" where
  "huffman_bits data = concat (map (\<lambda>b. symbol_bits (unat b)) data)"

definition pad_bits :: "bool list \<Rightarrow> bool list" where
  "pad_bits bs = bs @ replicate ((8 - length bs mod 8) mod 8) True"

text \<open>
  The coded form of a string: the bits of its codes, padded to a byte with ones.
\<close>

definition huffman_bytes :: "bytes \<Rightarrow> bytes" where
  "huffman_bytes data = pack_bits (pad_bits (huffman_bits data))"

lemma huffman_bits_Cons: "huffman_bits (b # data) = symbol_bits (unat b) @ huffman_bits data"
  by (simp add: huffman_bits_def)

lemma length_huffman_bits:
  "length (huffman_bits data) = sum_list (map (\<lambda>b. hpack_huffman_lengths ! unat b) data)"
  by (induction data) (simp_all add: huffman_bits_def symbol_bits_def)

lemma size_huffman_bytes: "size_huffman_hpack data = length (huffman_bytes data)"
  by (simp add: size_huffman_hpack_def huffman_bytes_def pad_bits_def length_huffman_bits div_8_pad)

lemma encode_huffman_loop_ok:
  assumes "count < 8" and "offset + (count + length (huffman_bits data)) div 8 \<le> buffer_size"
    and "buffer_size \<le> length buffer"
  shows "\<exists>accumulator'. encode_huffman_loop data buffer buffer_size offset accumulator count =
           (None, memcpy buffer offset (pack_bits (bits_of count accumulator @ huffman_bits data)),
            offset + (count + length (huffman_bits data)) div 8, accumulator',
            (count + length (huffman_bits data)) mod 8)
         \<and> bits_of ((count + length (huffman_bits data)) mod 8) accumulator'
             = rest_bits (bits_of count accumulator @ huffman_bits data)"
  using assms
proof (induction data arbitrary: buffer offset accumulator count)
  case Nil
  then show ?case
    by (simp add: huffman_bits_def pack_bits_short rest_bits_short)
next
  case (Cons b data)
  let ?l = "hpack_huffman_lengths ! unat b"
  let ?P = "bits_of count accumulator" and ?Q = "symbol_bits (unat b)"
  have lQ: "length ?Q = ?l"
    by (simp add: symbol_bits_def)
  have split: "(count + ?l) div 8 + ((count + ?l) mod 8 + length (huffman_bits data)) div 8
          = (count + length (huffman_bits (b # data))) div 8"
      "((count + ?l) mod 8 + length (huffman_bits data)) mod 8
          = (count + length (huffman_bits (b # data))) mod 8"
    by (simp_all add: div_8_split mod_add_left_eq huffman_bits_Cons lQ add.assoc)
  obtain accumulator' where push:
    "push_code buffer buffer_size offset accumulator count (hpack_huffman_codes ! unat b) ?l =
       (None, memcpy buffer offset (pack_bits (?P @ ?Q)), offset + (count + ?l) div 8,
        accumulator', (count + ?l) mod 8)"
    and rest: "bits_of ((count + ?l) mod 8) accumulator' = rest_bits (?P @ ?Q)"
    using push_code_ok [OF Cons.prems(1), of offset ?l buffer_size buffer accumulator
        "hpack_huffman_codes ! unat b"] Cons.prems(2,3) split
    by (auto simp: symbol_bits_def)
  let ?buffer = "memcpy buffer offset (pack_bits (?P @ ?Q))"
  have len: "length (pack_bits (?P @ ?Q)) = (count + ?l) div 8"
    by (simp add: lQ)
  obtain accumulator'' where IH:
    "encode_huffman_loop data ?buffer buffer_size (offset + (count + ?l) div 8) accumulator' ((count + ?l) mod 8) =
       (None, memcpy ?buffer (offset + (count + ?l) div 8) (pack_bits (rest_bits (?P @ ?Q) @ huffman_bits data)),
        offset + (count + ?l) div 8 + ((count + ?l) mod 8 + length (huffman_bits data)) div 8,
        accumulator'', ((count + ?l) mod 8 + length (huffman_bits data)) mod 8)"
    "bits_of (((count + ?l) mod 8 + length (huffman_bits data)) mod 8) accumulator''
       = rest_bits (rest_bits (?P @ ?Q) @ huffman_bits data)"
    using Cons.IH [of "(count + ?l) mod 8" "offset + (count + ?l) div 8" ?buffer accumulator']
      Cons.prems(2,3) split len rest
    by auto
  have "memcpy ?buffer (offset + (count + ?l) div 8) (pack_bits (rest_bits (?P @ ?Q) @ huffman_bits data))
          = memcpy buffer offset (pack_bits (?P @ huffman_bits (b # data)))"
    using memcpy_memcpy [of offset "pack_bits (?P @ ?Q)"
        "pack_bits (rest_bits (?P @ ?Q) @ huffman_bits data)" buffer]
      pack_bits_append [of "?P @ ?Q" "huffman_bits data"] Cons.prems(2,3) split len
    by (simp add: lQ huffman_bits_Cons)
  moreover have "rest_bits (rest_bits (?P @ ?Q) @ huffman_bits data) = rest_bits (?P @ huffman_bits (b # data))"
    using rest_bits_append [of "?P @ ?Q" "huffman_bits data"] by (simp add: huffman_bits_Cons)
  ultimately show ?case
    using IH push split by (simp add: add.assoc)
qed

lemma encode_huffman_loop_no_space:
  assumes "count < 8" and "buffer_size < offset + (count + length (huffman_bits data)) div 8"
    and "offset \<le> buffer_size" and "buffer_size \<le> length buffer"
  shows "fst (encode_huffman_loop data buffer buffer_size offset accumulator count) = Some No_space_coded"
  using assms
proof (induction data arbitrary: buffer offset accumulator count)
  case Nil
  then show ?case by (simp add: huffman_bits_def)
next
  case (Cons b data)
  let ?l = "hpack_huffman_lengths ! unat b"
  let ?c = "hpack_huffman_codes ! unat b"
  have lQ: "length (symbol_bits (unat b)) = ?l"
    by (simp add: symbol_bits_def)
  show ?case
  proof (cases "buffer_size < offset + (count + ?l) div 8")
    case True
    then show ?thesis
      using push_code_no_space [OF Cons.prems(1) True Cons.prems(3,4), of accumulator ?c]
      by (auto split: prod.splits option.splits)
  next
    case False
    then obtain accumulator' where push:
      "push_code buffer buffer_size offset accumulator count ?c ?l =
         (None, memcpy buffer offset (pack_bits (bits_of count accumulator @ bits_of ?l ?c)),
          offset + (count + ?l) div 8, accumulator', (count + ?l) mod 8)"
      using push_code_ok [OF Cons.prems(1), of offset ?l buffer_size buffer accumulator ?c] Cons.prems(4)
      by auto
    have "(count + ?l) div 8 + ((count + ?l) mod 8 + length (huffman_bits data)) div 8
          = (count + length (huffman_bits (b # data))) div 8"
      by (simp add: div_8_split huffman_bits_Cons lQ add.assoc)
    then show ?thesis
      using Cons.IH [of "(count + ?l) mod 8" "offset + (count + ?l) div 8"
          "memcpy buffer offset (pack_bits (bits_of count accumulator @ bits_of ?l ?c))" accumulator']
        push False Cons.prems
      by simp
  qed
qed


lemma last_byte:
  assumes "0 < count" and "count < 8"
  shows "ucast (push_bit (8 - count) (accumulator :: u32) OR (push_bit (8 - count) 1 - 1))
           = byte_of_bits (bits_of count accumulator @ replicate (8 - count) True)"
proof (rule byte_of_bits_eqI [symmetric])
  fix i :: nat assume i: "i < 8"
  have mask: "push_bit (8 - count) 1 - 1 = (mask (8 - count) :: u32)"
    by (simp add: mask_eq_exp_minus_1 push_bit_eq_mult)
  show "bit (ucast (push_bit (8 - count) accumulator OR (push_bit (8 - count) 1 - 1)) :: byte) (7 - i)
          = (bits_of count accumulator @ replicate (8 - count) True) ! i"
    unfolding mask
  proof (cases "i < count")
    case True
    then have "7 - i - (8 - count) = count - 1 - i" "8 - count \<le> 7 - i" "\<not> 7 - i < 8 - count"
      "7 - i < 8" "7 - i < 32"
      using assms i by simp_all
    then show "bit (ucast (push_bit (8 - count) accumulator OR mask (8 - count)) :: byte) (7 - i)
          = (bits_of count accumulator @ replicate (8 - count) True) ! i"
      using True i by (simp add: nth_append bit_unsigned_iff bit_or_iff bit_push_bit_iff bit_mask_iff)
  next
    case False
    then have "7 - i < 8 - count" "i - count < 8 - count" "7 - i < 8" "7 - i < 32"
      using assms i by simp_all
    then show "bit (ucast (push_bit (8 - count) accumulator OR mask (8 - count)) :: byte) (7 - i)
          = (bits_of count accumulator @ replicate (8 - count) True) ! i"
      using False i by (simp add: nth_append bit_unsigned_iff bit_or_iff bit_push_bit_iff bit_mask_iff)
  qed
qed (use assms in simp)

lemma huffman_bytes_split:
  "huffman_bytes data = pack_bits (huffman_bits data) @
     (if length (huffman_bits data) mod 8 = 0 then []
      else [byte_of_bits (rest_bits (huffman_bits data) @
              replicate (8 - length (huffman_bits data) mod 8) True)])"
  by (simp add: huffman_bytes_def pad_bits_def pack_bits_append [of "huffman_bits data"]
      pack_bits_short pack_bits_step)

lemma encode_huffman_ok [buffer_simps]:
  assumes "size_huffman_hpack data \<le> buffer_size" and "buffer_size \<le> length buffer"
  shows "encode_huffman_hpack data buffer buffer_size =
           (None, memcpy buffer 0 (huffman_bytes data), size_huffman_hpack data)"
proof -
  let ?bits = "huffman_bits data"
  have size: "size_huffman_hpack data = length ?bits div 8 + (if length ?bits mod 8 = 0 then 0 else 1)"
    by (simp add: size_huffman_bytes huffman_bytes_split)
  obtain accumulator where loop:
      "encode_huffman_loop data buffer buffer_size 0 0 0 =
         (None, memcpy buffer 0 (pack_bits ?bits), length ?bits div 8, accumulator, length ?bits mod 8)"
    and rest: "bits_of (length ?bits mod 8) accumulator = rest_bits ?bits"
    using encode_huffman_loop_ok [of 0 0 data buffer_size buffer 0] assms size by auto
  show ?thesis
  proof (cases "length ?bits mod 8 = 0")
    case True
    then show ?thesis
      using loop size by (simp add: encode_huffman_hpack_def huffman_bytes_split)
  next
    case False
    let ?b = "byte_of_bits (rest_bits ?bits @ replicate (8 - length ?bits mod 8) True)"
    have "(memcpy buffer 0 (pack_bits ?bits))[length ?bits div 8 := ?b] = memcpy buffer 0 (huffman_bytes data)"
      using memcpy_memcpy [of 0 "pack_bits ?bits" "[?b]" buffer] assms size False
      by (simp add: list_update_memcpy huffman_bytes_split)
    then show ?thesis
      using loop False size assms last_byte [of "length ?bits mod 8" accumulator]
      by (simp add: encode_huffman_hpack_def rest)
  qed
qed

lemma encode_huffman_no_space:
  assumes "buffer_size < size_huffman_hpack data" and "buffer_size \<le> length buffer"
  shows "fst (encode_huffman_hpack data buffer buffer_size) = Some No_space_coded"
proof (cases "buffer_size < length (huffman_bits data) div 8")
  case True
  then show ?thesis
    using encode_huffman_loop_no_space [of 0 buffer_size 0 data buffer 0] assms
    by (auto simp: encode_huffman_hpack_def split: prod.splits option.splits)
next
  case False
  then show ?thesis
    using encode_huffman_loop_ok [of 0 0 data buffer_size buffer 0] assms
    by (auto simp: encode_huffman_hpack_def size_huffman_bytes huffman_bytes_split split: if_splits)
qed

end
