(* ===== verification/Hpack_Huffman_Decode.thy ===== *)
theory Hpack_Huffman_Decode
  imports Hpack_Huffman
begin

text \<open>
  The decoder of \<^verbatim>\<open>src/src/viriatum/http/hpack.c\<close> against the coded form of a string:
  \<open>decode_huffman_hpack\<close> accepts exactly the strings that \<open>huffman_bytes\<close> yields. The
  decoder is first restated over a list of bits; the canonical tables give that no proper
  prefix of a code is a code and that every code belongs to one symbol.
\<close>

unbundle bit_operations_syntax

section \<open>The decoder over a list of bits\<close>

definition decode_huffman_step :: "nat \<Rightarrow> bool \<Rightarrow> bytes \<times> u32 \<times> nat \<Rightarrow> (bytes \<times> u32 \<times> nat) result" where
  "decode_huffman_step buffer_size b st =
     decode_huffman_bit buffer_size (if b then 1 else 0) 0 st"

fun decode_huffman_bits ::
    "nat \<Rightarrow> bool list \<Rightarrow> bytes \<times> u32 \<times> nat \<Rightarrow> (bytes \<times> u32 \<times> nat) result" where
  "decode_huffman_bits buffer_size [] st = Inr st"
| "decode_huffman_bits buffer_size (b # bs) st =
     (case decode_huffman_step buffer_size b st of
        Inl e \<Rightarrow> Inl e
      | Inr st' \<Rightarrow> decode_huffman_bits buffer_size bs st')"

lemma bit_of_byte: "(ucast (drop_bit n byte AND 0x01) :: u32) = of_bool (bit (byte :: byte) n)"
  by (simp add: and_one_eq mod_2_eq_odd bit_iff_odd_drop_bit)

lemma decode_huffman_bit_step:
  "decode_huffman_bit buffer_size byte n st = decode_huffman_step buffer_size (bit byte n) st"
  unfolding decode_huffman_step_def decode_huffman_bit_def bit_of_byte by simp

lemma decode_huffman_bits_append:
  "decode_huffman_bits buffer_size (as @ bs) st =
     (case decode_huffman_bits buffer_size as st of
        Inl e \<Rightarrow> Inl e
      | Inr st' \<Rightarrow> decode_huffman_bits buffer_size bs st')"
  by (induction as arbitrary: st) (auto split: sum.splits)

lemma decode_huffman_byte_bits:
  "decode_huffman_byte buffer_size byte n st = decode_huffman_bits buffer_size (bits_of n byte) st"
  by (induction n arbitrary: st) (auto simp: bits_of_Suc decode_huffman_bit_step split: sum.splits)

lemma decode_huffman_loop_bits:
  "decode_huffman_loop buffer_size data st =
     decode_huffman_bits buffer_size (concat (map (bits_of 8) data)) st"
  by (induction data arbitrary: st)
    (auto simp: decode_huffman_byte_bits decode_huffman_bits_append split: sum.splits)

text \<open>One step of the code, by what its bits have become.\<close>

lemma decode_huffman_step_code:
  "decode_huffman_step buffer_size b (buffer, code, bits) =
     (let code' = push_bit 1 code OR of_bool b
      in if Suc bits > HPACK_HUFFMAN_MAX_BITS then Inl Invalid_code
         else if hpack_huffman_counts ! Suc bits = 0 \<or> code' < hpack_huffman_first_code ! Suc bits
           \<or> hpack_huffman_counts ! Suc bits \<le> unat (code' - hpack_huffman_first_code ! Suc bits)
         then Inr (buffer, code', Suc bits)
         else
           (let symbol = hpack_huffman_symbols !
                  (hpack_huffman_first_index ! Suc bits + unat (code' - hpack_huffman_first_code ! Suc bits))
            in if symbol = HPACK_HUFFMAN_EOS then Inl EOS_symbol
               else if length buffer \<ge> buffer_size then Inl Decoded_too_large
               else Inr (buffer @ [of_nat symbol], 0, 0)))"
  unfolding decode_huffman_step_def decode_huffman_bit_def bit_of_byte Let_def by simp

lemma push_next_bit:
  "push_bit 1 (drop_bit (Suc n) c) OR of_bool (bit c n) = drop_bit n (c :: u32)"
proof (rule bit_word_eqI)
  fix m assume "m < LENGTH(32)"
  then show "bit (push_bit 1 (drop_bit (Suc n) c) OR of_bool (bit c n)) m = bit (drop_bit n c) m"
    unfolding bit_or_iff bit_push_bit_iff bit_drop_bit_eq
    by (cases m) (auto simp: bit_of_bool_iff)
qed

section \<open>Decoding one code\<close>

lemma unat_diff_code: "\<not> code < first \<Longrightarrow> unat (code - first) = unat code - unat (first :: u32)"
  by (simp add: not_less unat_sub)

lemma lengths_bounds: "s < 257 \<Longrightarrow> 5 \<le> hpack_huffman_lengths ! s \<and> hpack_huffman_lengths ! s \<le> 30"
  using symbol_entry_tables [of s] by (simp add: symbol_entry_def)

lemma nth_symbol_bits:
  "k < hpack_huffman_lengths ! s \<Longrightarrow>
     symbol_bits s ! k = bit (hpack_huffman_codes ! s) (hpack_huffman_lengths ! s - 1 - k)"
  by (simp add: symbol_bits_def)

lemma unat_drop_code: "unat (drop_bit n c) = unat c div 2 ^ n"
  by (metis drop_bit_eq_div unat_drop_bit_eq)

lemma drop_code_length: "s < 257 \<Longrightarrow> drop_bit (hpack_huffman_lengths ! s) (hpack_huffman_codes ! s) = 0"
  using symbol_entry_tables [of s]
  by (intro unsigned_word_eqI [where 'a = nat]) (simp only: unat_drop_code unat_0 symbol_entry_def div_less)

lemma decode_huffman_prefix:
  assumes "s < 257" and "k < hpack_huffman_lengths ! s"
  shows "decode_huffman_bits buffer_size (take k (symbol_bits s)) (buffer, 0, 0) =
           Inr (buffer, drop_bit (hpack_huffman_lengths ! s - k) (hpack_huffman_codes ! s), k)"
  using assms(2)
proof (induction k)
  case 0
  then show ?case by (simp add: drop_code_length assms(1))
next
  case (Suc k)
  let ?l = "hpack_huffman_lengths ! s" and ?c = "hpack_huffman_codes ! s"
  have split: "take (Suc k) (symbol_bits s) = take k (symbol_bits s) @ [bit ?c (?l - 1 - k)]"
    using Suc.prems by (simp add: take_Suc_conv_app_nth symbol_bits_def)
  have code: "push_bit 1 (drop_bit (?l - k) ?c) OR of_bool (bit ?c (?l - 1 - k)) = drop_bit (?l - Suc k) ?c"
    using push_next_bit [of "?l - Suc k" ?c] Suc.prems by (simp add: Suc_diff_Suc)
  have small: "\<not> HPACK_HUFFMAN_MAX_BITS < Suc k"
    using Suc.prems lengths_bounds [OF assms(1)] by (simp add: HPACK_HUFFMAN_MAX_BITS_def)
  have above: "hpack_huffman_counts ! Suc k = 0
      \<or> hpack_huffman_counts ! Suc k \<le> unat (drop_bit (?l - Suc k) ?c - hpack_huffman_first_code ! Suc k)
      \<or> drop_bit (?l - Suc k) ?c < hpack_huffman_first_code ! Suc k"
    using code_above [OF assms(1) Suc.prems] unfolding unat_drop_code [symmetric]
    by (auto simp del: drop_bit_eq_div simp: unat_diff_code)
  have step: "decode_huffman_step buffer_size (bit ?c (?l - 1 - k)) (buffer, drop_bit (?l - k) ?c, k)
                = Inr (buffer, drop_bit (?l - Suc k) ?c, Suc k)"
    unfolding decode_huffman_step_code code Let_def using small above by auto
  show ?case
    using Suc step by (simp add: split decode_huffman_bits_append)
qed

lemma decode_huffman_symbol:
  assumes "s < 256"
  shows "decode_huffman_bits buffer_size (symbol_bits s) (buffer, 0, 0) =
           (if buffer_size \<le> length buffer then Inl Decoded_too_large
            else Inr (buffer @ [of_nat s], 0, 0))"
proof -
  let ?l = "hpack_huffman_lengths ! s" and ?c = "hpack_huffman_codes ! s"
  have s: "s < 257" using assms by simp
  have l: "5 \<le> ?l" "?l \<le> 30"
    using lengths_bounds [OF s] by simp_all
  obtain k where k: "?l = Suc k"
    using l by (cases ?l) auto
  have split: "symbol_bits s = take k (symbol_bits s) @ [bit ?c 0]"
    using take_Suc_conv_app_nth [of k "symbol_bits s"] k by (simp add: symbol_bits_def)
  have code: "push_bit 1 (drop_bit (?l - k) ?c) OR of_bool (bit ?c 0) = ?c"
    using push_next_bit [of 0 ?c] k by simp
  have entry: "symbol_entry s ?c ?l"
    by (rule symbol_entry_tables [OF s])
  then have first: "\<not> ?c < hpack_huffman_first_code ! ?l"
    by (simp add: symbol_entry_def word_less_nat_alt not_less)
  have "decode_huffman_step buffer_size (bit ?c 0) (buffer, drop_bit (?l - k) ?c, k) =
           (if buffer_size \<le> length buffer then Inl Decoded_too_large
            else Inr (buffer @ [of_nat s], 0, 0))"
    unfolding decode_huffman_step_code code Let_def
    using entry first l k assms
    by (auto simp: symbol_entry_def unat_diff_code HPACK_HUFFMAN_MAX_BITS_def HPACK_HUFFMAN_EOS_def)
  then show ?thesis
    using decode_huffman_prefix [OF s, of k buffer_size buffer] k
    by (subst split) (simp add: decode_huffman_bits_append)
qed

lemma decode_huffman_data:
  "decode_huffman_bits buffer_size (huffman_bits data) (buffer, 0, 0) =
     (if length buffer + length data \<le> buffer_size \<or> data = [] then Inr (buffer @ data, 0, 0)
      else Inl Decoded_too_large)"
proof (induction data arbitrary: buffer)
  case Nil
  then show ?case by (simp add: huffman_bits_def)
next
  case (Cons b data)
  then show ?case
    by (auto simp: huffman_bits_Cons decode_huffman_bits_append decode_huffman_symbol)
qed

section \<open>The padding\<close>

lemma eos_code: "hpack_huffman_codes ! 256 = mask 30" "hpack_huffman_lengths ! 256 = 30"
  by (simp_all add: hpack_huffman_codes_def hpack_huffman_lengths_def table_lookup mask_eq_exp_minus_1)


lemma final_bits:
  "\<not> (0 < bits \<and> code \<noteq> push_bit bits 1 - 1) \<longleftrightarrow> bits = 0 \<or> code = (mask bits :: u32)"
  by (auto simp: mask_eq_exp_minus_1)

lemma padding_bits:
  assumes "p < 30"
  shows "decode_huffman_bits buffer_size (replicate p True) (buffer, 0, 0) = Inr (buffer, mask p, p)"
proof -
  have "replicate p True = take p (symbol_bits 256)"
    using assms by (intro nth_equalityI) (auto simp: symbol_bits_def eos_code bit_mask_iff)
  moreover have "drop_bit (30 - p) (mask 30) = (mask p :: u32)"
    using assms by (intro bit_word_eqI) (auto simp: bit_drop_bit_eq bit_mask_iff)
  ultimately show ?thesis
    using decode_huffman_prefix [of 256 p buffer_size buffer] assms by (simp add: eos_code)
qed

lemma padding_aligned: "((n::nat) + (8 - n mod 8) mod 8) mod 8 = 0"
proof (cases "n mod 8 = 0")
  case False
  then have "(8 - n mod 8) mod 8 = 8 - n mod 8"
    by (intro mod_less) simp
  moreover have "(n + (8 - n mod 8)) mod 8 = (n mod 8 + (8 - n mod 8)) mod 8"
    by (rule mod_add_left_eq [symmetric])
  moreover have "n mod 8 + (8 - n mod 8) = 8"
    by (intro le_add_diff_inverse less_imp_le mod_less_divisor) simp
  ultimately show ?thesis by simp
qed simp

lemma padding_unique:
  assumes "(n::nat) + p = 8 * m" and "p < 8"
  shows "p = (8 - n mod 8) mod 8"
proof -
  have "(n mod 8 + p) mod 8 = 0"
    using assms(1) by (simp add: mod_add_left_eq)
  then obtain k where k: "n mod 8 + p = 8 * k"
    by (auto simp: dvd_def)
  have "n mod 8 < 8" by simp
  then have "k = 0 \<or> k = 1"
    using k assms(2) by linarith
  then show ?thesis
  proof
    assume "k = 0"
    then show ?thesis using k by simp
  next
    assume "k = 1"
    then have "p = 8 - n mod 8" using k by simp
    then show ?thesis using assms(2) by simp
  qed
qed

lemma concat_huffman_bytes:
  "concat (map (bits_of 8) (huffman_bytes data)) = pad_bits (huffman_bits data)"
proof -
  have "length (rest_bits (pad_bits (huffman_bits data))) = 0"
    unfolding length_rest_bits pad_bits_def length_append length_replicate by (rule padding_aligned)
  then have "rest_bits (pad_bits (huffman_bits data)) = []"
    by (simp only: length_0_conv)
  then show ?thesis
    using concat_pack_bits [of "pad_bits (huffman_bits data)"]
    by (simp only: huffman_bytes_def append_Nil2)
qed

lemma decode_huffman_final:
  "decode_huffman_hpack data buffer_size =
     (case decode_huffman_bits buffer_size (concat (map (bits_of 8) data)) ([], 0, 0) of
        Inl e \<Rightarrow> Inl e
      | Inr (buffer, code, bits) \<Rightarrow>
          if bits > 7 then Inl Padding_above_byte
          else if \<not> (bits = 0 \<or> code = mask bits) then Inl Invalid_padding
          else Inr buffer)"
  unfolding decode_huffman_hpack_def decode_huffman_loop_bits final_bits [symmetric] not_not by (rule refl)

lemma decode_huffman_bytes:
  "decode_huffman_hpack (huffman_bytes data) buffer_size =
     (if length data \<le> buffer_size then Inr data else Inl Decoded_too_large)"
proof -
  obtain p where p: "p = (8 - length (huffman_bits data) mod 8) mod 8" "p < 8" by simp
  have "decode_huffman_bits buffer_size (huffman_bits data @ replicate p True) ([], 0, 0) =
          (if length data \<le> buffer_size \<or> data = [] then Inr (data, mask p, p) else Inl Decoded_too_large)"
    using p(2) by (simp add: decode_huffman_bits_append decode_huffman_data padding_bits)
  then show ?thesis
    using p(2) by (auto simp: decode_huffman_final concat_huffman_bytes pad_bits_def p(1) [symmetric])
qed

section \<open>Only the coded form of a string is accepted\<close>

text \<open>The position of a symbol in the decoding table, by its code.\<close>

definition symbol_index :: "nat \<Rightarrow> nat" where
  "symbol_index s =
     hpack_huffman_first_index ! (hpack_huffman_lengths ! s) +
       (unat (hpack_huffman_codes ! s) - unat (hpack_huffman_first_code ! (hpack_huffman_lengths ! s)))"

definition index_range :: "nat \<Rightarrow> nat set" where
  "index_range l =
     {hpack_huffman_first_index ! l ..< hpack_huffman_first_index ! l + hpack_huffman_counts ! l}"

lemma index_ranges:
  "list_all (\<lambda>l. hpack_huffman_first_index ! l + hpack_huffman_counts ! l \<le> 257 \<and>
     list_all (\<lambda>k. hpack_huffman_counts ! k = 0 \<or> hpack_huffman_counts ! l = 0 \<or>
       hpack_huffman_first_index ! k + hpack_huffman_counts ! k \<le> hpack_huffman_first_index ! l)
       [5..<l]) [5..<31]"
  by (simp add: upt_rec_numeral nth_counts nth_first_index)

lemma index_range_bound:
  assumes "5 \<le> l" and "l \<le> 30" and "i \<in> index_range l"
  shows "i < 257"
proof -
  have "l \<in> set [5..<31]" using assms by (simp only: set_upt atLeastLessThan_iff) simp
  then have "hpack_huffman_first_index ! l + hpack_huffman_counts ! l \<le> 257"
    using index_ranges unfolding list_all_iff by blast
  then show ?thesis using assms(3) by (simp add: index_range_def)
qed

lemma index_range_disjoint:
  assumes "5 \<le> k" and "k < l" and "l \<le> 30" and "i \<in> index_range k" and "i \<in> index_range l"
  shows False
proof -
  have "l \<in> set [5..<31]" "k \<in> set [5..<l]"
    using assms by (simp_all only: set_upt atLeastLessThan_iff) simp_all
  then have "hpack_huffman_counts ! k = 0 \<or> hpack_huffman_counts ! l = 0 \<or>
       hpack_huffman_first_index ! k + hpack_huffman_counts ! k \<le> hpack_huffman_first_index ! l"
    using index_ranges unfolding list_all_iff by blast
  then show ?thesis using assms(4,5) by (auto simp: index_range_def)
qed

lemma symbol_index_range: "s < 257 \<Longrightarrow> symbol_index s \<in> index_range (hpack_huffman_lengths ! s)"
  using symbol_entry_tables [of s]
  by (simp add: symbol_index_def index_range_def symbol_entry_def del: diff_add_assoc2 add_diff_assoc)

lemma symbols_symbol_index: "s < 257 \<Longrightarrow> hpack_huffman_symbols ! symbol_index s = s"
  using symbol_entry_tables [of s]
  by (simp add: symbol_index_def symbol_entry_def del: add_diff_assoc)

lemma symbol_index_bij: "bij_betw symbol_index {..<257} {..<257}"
proof -
  have inj: "inj_on symbol_index {..<257}"
    by (rule inj_on_inverseI [where g = "nth hpack_huffman_symbols"]) (simp add: symbols_symbol_index)
  moreover have "symbol_index ` {..<257} \<subseteq> {..<257}"
    using symbol_index_range lengths_bounds index_range_bound by blast
  ultimately show ?thesis
    by (simp add: bij_betw_def endo_inj_surj)
qed

text \<open>Every code the tables accept is the code of the symbol they give.\<close>

lemma symbol_of_code:
  assumes l: "5 \<le> l" "l \<le> 30" and first: "\<not> code < hpack_huffman_first_code ! l"
    and count: "unat (code - hpack_huffman_first_code ! l) < hpack_huffman_counts ! l"
    and s: "s = hpack_huffman_symbols !
              (hpack_huffman_first_index ! l + unat (code - hpack_huffman_first_code ! l))"
  shows "s < 257" and "hpack_huffman_lengths ! s = l" and "hpack_huffman_codes ! s = code"
proof -
  let ?i = "hpack_huffman_first_index ! l + unat (code - hpack_huffman_first_code ! l)"
  have range: "?i \<in> index_range l"
    using count by (simp add: index_range_def)
  then have "?i < 257" by (rule index_range_bound [OF l])
  then have "?i \<in> symbol_index ` {..<257}"
    using symbol_index_bij by (simp add: bij_betw_def)
  then obtain t where t: "t < 257" "symbol_index t = ?i" by auto
  have "s = t" using t s symbols_symbol_index [of t] by simp
  with t show "s < 257" by simp
  show lengths: "hpack_huffman_lengths ! s = l"
  proof (rule ccontr)
    assume "hpack_huffman_lengths ! s \<noteq> l"
    then show False
      using index_range_disjoint symbol_index_range [OF t(1)] range t lengths_bounds [OF t(1)] l \<open>s = t\<close>
      by (metis linorder_neqE_nat)
  qed
  have "unat (hpack_huffman_codes ! s) - unat (hpack_huffman_first_code ! l) =
          unat code - unat (hpack_huffman_first_code ! l)"
    using t(2) lengths \<open>s = t\<close> by (simp add: symbol_index_def unat_diff_code [OF first])
  moreover have "unat (hpack_huffman_first_code ! l) \<le> unat (hpack_huffman_codes ! s)"
    using symbol_entry_tables [OF t(1)] lengths \<open>s = t\<close> by (simp add: symbol_entry_def)
  moreover have "unat (hpack_huffman_first_code ! l) \<le> unat code"
    using first by (simp add: word_less_nat_alt not_less)
  ultimately show "hpack_huffman_codes ! s = code"
    by (metis eq_diff_iff unsigned_word_eqI)
qed


text \<open>
  The state of the decoder stands for the bits it has read: those of the symbols it has
  decoded, then those of the code it accumulates.
\<close>

definition read_bits :: "bytes \<times> u32 \<times> nat \<Rightarrow> bool list" where
  "read_bits st = (case st of (buffer, code, bits) \<Rightarrow> huffman_bits buffer @ bits_of bits code)"

lemma bits_of_push: "bits_of (Suc n) (push_bit 1 code OR of_bool b) = bits_of n (code :: u32) @ [b]"
  if "n < 32"
proof (rule nth_equalityI)
  fix i assume "i < length (bits_of (Suc n) (push_bit 1 code OR of_bool b))"
  then show "bits_of (Suc n) (push_bit 1 code OR of_bool b) ! i = (bits_of n code @ [b]) ! i"
    using that unfolding length_bits_of nth_append
    by (cases "i = n")
      (simp_all only: nth_bits_of bit_or_iff bit_push_bit_iff bit_of_bool_iff, auto simp: less_Suc_eq)
qed simp

lemma huffman_bits_snoc: "huffman_bits (buffer @ [b]) = huffman_bits buffer @ symbol_bits (unat b)"
  by (simp add: huffman_bits_def)

lemma decode_huffman_step_read:
  assumes "decode_huffman_step buffer_size b st = Inr st'"
  shows "read_bits st' = read_bits st @ [b]"
proof -
  obtain buffer code bits where st: "st = (buffer, code, bits)" by (cases st)
  define code' where "code' = push_bit 1 code OR of_bool b"
  note step = decode_huffman_step_code [of buffer_size b buffer code bits, folded code'_def]
  have bits: "bits < 30"
    using assms by (simp add: st step Let_def split: if_splits)
  have push: "bits_of (Suc bits) code' = bits_of bits code @ [b]"
    using bits unfolding code'_def by (intro bits_of_push) simp
  show ?thesis
  proof (cases "hpack_huffman_counts ! Suc bits = 0 \<or> code' < hpack_huffman_first_code ! Suc bits
           \<or> hpack_huffman_counts ! Suc bits \<le> unat (code' - hpack_huffman_first_code ! Suc bits)")
    case True
    then show ?thesis
      using assms bits by (auto simp: st step read_bits_def push Let_def)
  next
    case False
    define s where "s = hpack_huffman_symbols !
      (hpack_huffman_first_index ! Suc bits + unat (code' - hpack_huffman_first_code ! Suc bits))"
    have five: "5 \<le> Suc bits"
      using False counts_below_5 [of "Suc bits"] by (meson not_le)
    have s: "s < 257" "hpack_huffman_lengths ! s = Suc bits" "hpack_huffman_codes ! s = code'"
      using symbol_of_code [OF five _ _ _ s_def] False bits by simp_all
    have st': "s \<noteq> 256" "st' = (buffer @ [of_nat s], 0, 0)"
      using assms False bits
      by (simp_all add: st step Let_def s_def [symmetric] split: if_splits)
    then have "symbol_bits (unat (of_nat s :: byte)) = bits_of bits code @ [b]"
      using s by (simp add: unat_of_nat_byte symbol_bits_def push)
    then show ?thesis
      using st' by (simp add: read_bits_def st huffman_bits_snoc)
  qed
qed

lemma decode_huffman_bits_read:
  "decode_huffman_bits buffer_size bs st = Inr st' \<Longrightarrow> read_bits st' = read_bits st @ bs"
  by (induction bs arbitrary: st) (auto dest: decode_huffman_step_read split: sum.splits)

lemma decode_huffman_inverse:
  assumes "decode_huffman_hpack data buffer_size = Inr decoded"
  shows "huffman_bytes decoded = data"
proof -
  obtain code bits where run:
      "decode_huffman_bits buffer_size (concat (map (bits_of 8) data)) ([], 0, 0) = Inr (decoded, code, bits)"
    and bits: "bits \<le> 7" "bits = 0 \<or> code = mask bits"
    using assms unfolding decode_huffman_final by (auto split: sum.splits if_splits)
  have read: "huffman_bits decoded @ bits_of bits code = concat (map (bits_of 8) data)"
    using decode_huffman_bits_read [OF run] by (simp add: read_bits_def huffman_bits_def)
  have ones: "bits_of bits code = replicate bits True"
    using bits by (auto intro!: nth_equalityI simp: bit_mask_iff)
  have concat_length: "length (concat (map (bits_of 8) xs)) = 8 * length xs" for xs :: bytes
    by (induction xs) simp_all
  have "length (huffman_bits decoded) + bits = 8 * length data"
    using arg_cong [OF read, of length] by (simp add: concat_length)
  then have "bits = (8 - length (huffman_bits decoded) mod 8) mod 8"
    using bits(1) by (intro padding_unique) simp_all
  then have pad: "pad_bits (huffman_bits decoded) = concat (map (bits_of 8) data)"
    using read ones by (simp add: pad_bits_def)
  have pack: "pack_bits (concat (map (bits_of 8) xs)) = xs" for xs :: bytes
  proof (induction xs)
    case (Cons x xs)
    have "byte_of_bits (bits_of 8 x) = x"
      by (rule byte_of_bits_eqI) simp_all
    then show ?case
      using Cons by (simp add: pack_bits_step)
  qed (simp add: pack_bits_short)
  show ?thesis
    by (simp add: huffman_bytes_def pad pack)
qed

section \<open>Properties\<close>

text \<open>C17: what \<open>encode_huffman_hpack\<close> writes of a string is decoded by \<open>decode_huffman_hpack\<close> to
  the same string, when the buffer of the decoder has room for it; the 32 bit accumulators of
  both lose nothing.\<close>

theorem huffman_roundtrip:
  assumes "encode_huffman_hpack data buffer buffer_size = (None, buffer', n)"
    and "buffer_size \<le> length buffer" and "length data \<le> decoded_size"
  shows "decode_huffman_hpack (take n buffer') decoded_size = Inr data"
proof -
  have fits: "size_huffman_hpack data \<le> buffer_size"
    using assms(1) encode_huffman_no_space [OF _ assms(2), of data] by (fastforce simp: not_less [symmetric])
  have "take n buffer' = huffman_bytes data"
    using assms(1,2) fits encode_huffman_ok [OF fits assms(2)]
      take_memcpy [of 0 "huffman_bytes data" buffer] by (simp add: size_huffman_bytes)
  then show ?thesis using assms(3) by (simp add: decode_huffman_bytes)
qed

theorem huffman_roundtrip_witness:
  "decode_huffman_hpack (take 1 (fst (snd (encode_huffman_hpack [0x61] [0, 0] 2)))) 1 = Inr [0x61]"
proof (rule huffman_roundtrip [where buffer = "[0, 0]" and buffer_size = 2])
  have "size_huffman_hpack [0x61] = 1"
    by (simp add: size_huffman_hpack_def hpack_huffman_lengths_def table_lookup)
  then show "encode_huffman_hpack [0x61] [0, 0] 2 = (None, fst (snd (encode_huffman_hpack [0x61] [0, 0] 2)), 1)"
    using encode_huffman_ok [of "[0x61]" 2 "[0, 0]"] by simp
qed simp_all



end
