(* ===== verification/Hpack_Table.thy ===== *)
theory Hpack_Table
  imports Viriatum_Prelude
begin

text \<open>
  The header tables of \<^verbatim>\<open>src/src/viriatum/http/hpack.c\<close>: the static table of the
  specification and the dynamic table, a ring of \<^verbatim>\<open>HPACK_MAX_ENTRIES\<close> entries with the
  position of the newest one, with the operations that create, delete, resize, insert into, read
  and search it. The contract of the dynamic table is a list of fields, the newest first, of
  which an operation keeps the newest ones that fit in the maximum size.
\<close>

section \<open>Data\<close>

definition HPACK_STATIC_SIZE :: nat where
  [simp]: "HPACK_STATIC_SIZE = 61"

definition HPACK_TABLE_SIZE :: nat where
  [simp]: "HPACK_TABLE_SIZE = 4096"

definition HPACK_ENTRY_OVERHEAD :: nat where
  [simp]: "HPACK_ENTRY_OVERHEAD = 32"

definition HPACK_MAX_ENTRIES :: nat where
  [simp]: "HPACK_MAX_ENTRIES = 128"

text \<open>
  A field: the name and the value are lists of bytes, whose lengths are the
  \<^verbatim>\<open>name_size\<close> and the \<^verbatim>\<open>value_size\<close> of the code.
\<close>

record hpack_header =
  header_name :: bytes
  header_value :: bytes

text \<open>
  An entry of the ring owns its name and its value, which are \<^term>\<open>None\<close> (the code's
  \<^verbatim>\<open>NULL\<close>) once the entry has been evicted.
\<close>

record hpack_entry =
  entry_name :: "bytes option"
  entry_value :: "bytes option"
  entry_size :: nat

record hpack_table =
  entries :: "hpack_entry list"
  table_head :: nat
  table_count :: nat
  table_size :: nat
  table_max_size :: nat

definition header :: "string \<Rightarrow> string \<Rightarrow> hpack_header" where
  "header n v = \<lparr>header_name = ascii n, header_value = ascii v\<rparr>"

definition hpack_static_table :: "hpack_header list" where
  "hpack_static_table =
     [header '':authority'' '''',
      header '':method'' ''GET'',
      header '':method'' ''POST'',
      header '':path'' ''/'',
      header '':path'' ''/index.html'',
      header '':scheme'' ''http'',
      header '':scheme'' ''https'',
      header '':status'' ''200'',
      header '':status'' ''204'',
      header '':status'' ''206'',
      header '':status'' ''304'',
      header '':status'' ''400'',
      header '':status'' ''404'',
      header '':status'' ''500'',
      header ''accept-charset'' '''',
      header ''accept-encoding'' ''gzip, deflate'',
      header ''accept-language'' '''',
      header ''accept-ranges'' '''',
      header ''accept'' '''',
      header ''access-control-allow-origin'' '''',
      header ''age'' '''',
      header ''allow'' '''',
      header ''authorization'' '''',
      header ''cache-control'' '''',
      header ''content-disposition'' '''',
      header ''content-encoding'' '''',
      header ''content-language'' '''',
      header ''content-length'' '''',
      header ''content-location'' '''',
      header ''content-range'' '''',
      header ''content-type'' '''',
      header ''cookie'' '''',
      header ''date'' '''',
      header ''etag'' '''',
      header ''expect'' '''',
      header ''expires'' '''',
      header ''from'' '''',
      header ''host'' '''',
      header ''if-match'' '''',
      header ''if-modified-since'' '''',
      header ''if-none-match'' '''',
      header ''if-range'' '''',
      header ''if-unmodified-since'' '''',
      header ''last-modified'' '''',
      header ''link'' '''',
      header ''location'' '''',
      header ''max-forwards'' '''',
      header ''proxy-authenticate'' '''',
      header ''proxy-authorization'' '''',
      header ''range'' '''',
      header ''referer'' '''',
      header ''refresh'' '''',
      header ''retry-after'' '''',
      header ''server'' '''',
      header ''set-cookie'' '''',
      header ''strict-transport-security'' '''',
      header ''transfer-encoding'' '''',
      header ''user-agent'' '''',
      header ''vary'' '''',
      header ''via'' '''',
      header ''www-authenticate'' '''']"

definition Table_size_above :: error where
  "Table_size_above = Runtime_Exception ''Dynamic table size above the advertised one''"

definition Invalid_zero_index :: error where
  "Invalid_zero_index = Runtime_Exception ''Invalid zero index in the header block''"

definition Index_above :: error where
  "Index_above = Runtime_Exception ''Index above the size of the dynamic table''"

section \<open>Operations\<close>

text \<open>The position in the ring of the entry that is \<open>n\<close> insertions older than the newest.\<close>

definition ring_position :: "hpack_table \<Rightarrow> nat \<Rightarrow> nat" where
  "ring_position t n = (table_head t + HPACK_MAX_ENTRIES - n) mod HPACK_MAX_ENTRIES"

definition evict_hpack_table :: "hpack_table \<Rightarrow> hpack_table" where
  "evict_hpack_table t =
     (let position = ring_position t (table_count t - 1);
          entry = entries t ! position
      in t\<lparr>entries := (entries t)[position := entry\<lparr>entry_name := None, entry_value := None\<rparr>],
           table_size := table_size t - entry_size entry,
           table_count := table_count t - 1\<rparr>)"

text \<open>The memory of a new table is not initialised by the code; no operation reads it.\<close>

definition create_hpack_table :: hpack_table where
  "create_hpack_table =
     \<lparr>entries = replicate HPACK_MAX_ENTRIES \<lparr>entry_name = None, entry_value = None, entry_size = 0\<rparr>,
      table_head = HPACK_MAX_ENTRIES - 1, table_count = 0, table_size = 0,
      table_max_size = HPACK_TABLE_SIZE\<rparr>"

text \<open>
  The eviction loop of \<^verbatim>\<open>resize_hpack_table\<close> (with nothing to add) and of
  \<^verbatim>\<open>insert_hpack_table\<close> (with the size of the new entry).
\<close>

function evict_above :: "hpack_table \<Rightarrow> nat \<Rightarrow> hpack_table" where
  "evict_above t added =
     (if table_count t > 0 \<and> table_size t + added > table_max_size t
      then evict_above (evict_hpack_table t) added
      else t)"
  by pat_completeness auto
termination
  by (relation "measure (\<lambda>(t, added). table_count t)") (auto simp: evict_hpack_table_def Let_def)

declare evict_above.simps [simp del]

text \<open>What a deleted table has released: the ring as it is when the memory of the table goes.\<close>

function delete_hpack_table :: "hpack_table \<Rightarrow> hpack_table" where
  "delete_hpack_table t =
     (if table_count t > 0 then delete_hpack_table (evict_hpack_table t) else t)"
  by pat_completeness auto
termination
  by (relation "measure table_count") (auto simp: evict_hpack_table_def Let_def)

declare delete_hpack_table.simps [simp del]

definition resize_hpack_table :: "hpack_table \<Rightarrow> nat \<Rightarrow> error option \<times> hpack_table" where
  "resize_hpack_table t max_size =
     (if max_size > HPACK_TABLE_SIZE then (Some Table_size_above, t)
      else (None, evict_above (t\<lparr>table_max_size := max_size\<rparr>) 0))"

definition insert_hpack_table :: "hpack_table \<Rightarrow> hpack_header \<Rightarrow> hpack_table" where
  "insert_hpack_table t h =
     (let size = length (header_name h) + length (header_value h) + HPACK_ENTRY_OVERHEAD;
          t' = evict_above t size
      in if size > table_max_size t' then t'
         else
           (let position = (table_head t' + 1) mod HPACK_MAX_ENTRIES
            in t'\<lparr>table_head := position,
                 entries := (entries t')[position :=
                   \<lparr>entry_name = Some (header_name h), entry_value = Some (header_value h),
                    entry_size = size\<rparr>],
                 table_count := table_count t' + 1,
                 table_size := table_size t' + size\<rparr>))"

text \<open>The references an entry holds; one that has been released gives nothing to refer to.\<close>

definition entry_header :: "hpack_entry \<Rightarrow> hpack_header option" where
  "entry_header e =
     (case (entry_name e, entry_value e) of
        (Some n, Some v) \<Rightarrow> Some \<lparr>header_name = n, header_value = v\<rparr>
      | _ \<Rightarrow> None)"

definition get_hpack_table :: "hpack_table \<Rightarrow> nat \<Rightarrow> hpack_header result" where
  "get_hpack_table t index =
     (if index = 0 then Inl Invalid_zero_index
      else if index \<le> HPACK_STATIC_SIZE then Inr (hpack_static_table ! (index - 1))
      else
        (let index = index - HPACK_STATIC_SIZE
         in if index > table_count t then Inl Index_above
            else
              (case entry_header (entries t ! ring_position t (index - 1)) of
                 None \<Rightarrow> Inl Out_Of_Bounds
               | Some h \<Rightarrow> Inr h)))"

text \<open>
  The two loops of \<^verbatim>\<open>find_hpack_table\<close>, over the fields left to visit and the index of the
  first one; \<open>index\<close> is the one found so far, zero when there is none.
\<close>

fun find_static :: "hpack_header list \<Rightarrow> nat \<Rightarrow> hpack_header \<Rightarrow> nat \<Rightarrow> bool \<times> nat" where
  "find_static [] position h index = (False, index)"
| "find_static (entry # rest) position h index =
     (if header_name entry \<noteq> header_name h then find_static rest (position + 1) h index
      else
        (let index = (if index = 0 then position + 1 else index)
         in if header_value entry \<noteq> header_value h then find_static rest (position + 1) h index
            else (True, position + 1)))"

function find_dynamic :: "hpack_table \<Rightarrow> nat \<Rightarrow> hpack_header \<Rightarrow> nat \<Rightarrow> bool \<times> nat" where
  "find_dynamic t position h index =
     (if position \<le> table_count t then
        (let entry = entries t ! ring_position t (position - 1)
         in if entry_name entry \<noteq> Some (header_name h) then find_dynamic t (position + 1) h index
            else
              (let index = (if index = 0 then HPACK_STATIC_SIZE + position else index)
               in if entry_value entry \<noteq> Some (header_value h)
                  then find_dynamic t (position + 1) h index
                  else (True, HPACK_STATIC_SIZE + position)))
      else (False, index))"
  by pat_completeness auto
termination
  by (relation "measure (\<lambda>(t, position, _, _). table_count t + 1 - position)") auto

declare find_dynamic.simps [simp del]

definition find_hpack_table :: "hpack_table \<Rightarrow> hpack_header \<Rightarrow> bool \<times> nat" where
  "find_hpack_table t h =
     (case find_static hpack_static_table 0 h 0 of
        (True, index) \<Rightarrow> (True, index)
      | (False, index) \<Rightarrow> find_dynamic t 1 h index)"


section \<open>The contract: the fields, the newest first\<close>

definition header_size :: "hpack_header \<Rightarrow> nat" where
  "header_size h = length (header_name h) + length (header_value h) + HPACK_ENTRY_OVERHEAD"

definition fields_size :: "hpack_header list \<Rightarrow> nat" where
  "fields_size hs = sum_list (map header_size hs)"

lemma fields_size_simps [simp]:
  "fields_size [] = 0"
  "fields_size (h # hs) = header_size h + fields_size hs"
  "fields_size (hs @ hs') = fields_size hs + fields_size hs'"
  by (simp_all add: fields_size_def)

lemma header_size_pos: "32 \<le> header_size h"
  by (simp add: header_size_def)

lemma fields_size_count: "32 * length hs \<le> fields_size hs"
proof (induction hs)
  case (Cons h hs)
  then show ?case using header_size_pos [of h] by simp
qed simp

text \<open>The newest fields that fit in \<open>limit\<close> after \<open>used\<close> bytes of it are taken.\<close>

fun keep_newest :: "nat \<Rightarrow> nat \<Rightarrow> hpack_header list \<Rightarrow> hpack_header list" where
  "keep_newest limit used [] = []"
| "keep_newest limit used (h # hs) =
     (if used + header_size h \<le> limit then h # keep_newest limit (used + header_size h) hs else [])"

lemma keep_newest_all: "used + fields_size hs \<le> limit \<Longrightarrow> keep_newest limit used hs = hs"
  by (induction hs arbitrary: used) simp_all

lemma keep_newest_butlast:
  "limit < used + fields_size hs \<Longrightarrow> keep_newest limit used (butlast hs) = keep_newest limit used hs"
proof (induction hs arbitrary: used)
  case (Cons h hs)
  then show ?case by (cases "hs = []") simp_all
qed simp

lemma keep_newest_fits: "used \<le> limit \<Longrightarrow> used + fields_size (keep_newest limit used hs) \<le> limit"
  by (induction hs arbitrary: used) (simp_all add: add.assoc [symmetric])

lemma keep_newest_prefix: "\<exists>rest. hs = keep_newest limit used hs @ rest"
  by (induction hs arbitrary: used) auto

text \<open>
  The entry that holds a field, and the invariant of the ring: the \<open>count\<close> newest positions
  hold entries, whose sizes sum to the size of the table.
\<close>

definition entry_of :: "hpack_header \<Rightarrow> hpack_entry" where
  "entry_of h = \<lparr>entry_name = Some (header_name h), entry_value = Some (header_value h),
                 entry_size = header_size h\<rparr>"

definition ring_entry :: "hpack_table \<Rightarrow> nat \<Rightarrow> hpack_entry" where
  "ring_entry t n = entries t ! ring_position t n"

definition table_fields :: "hpack_table \<Rightarrow> hpack_header list" where
  "table_fields t = map (\<lambda>n. the (entry_header (ring_entry t n))) [0..<table_count t]"

definition ring_ok :: "hpack_table \<Rightarrow> bool" where
  "ring_ok t \<longleftrightarrow> length (entries t) = HPACK_MAX_ENTRIES \<and> table_head t < HPACK_MAX_ENTRIES
     \<and> table_count t \<le> HPACK_MAX_ENTRIES \<and> table_max_size t \<le> HPACK_TABLE_SIZE
     \<and> (\<forall>n < table_count t. \<exists>h. ring_entry t n = entry_of h)
     \<and> table_size t = fields_size (table_fields t)"

definition table_ok :: "hpack_table \<Rightarrow> bool" where
  "table_ok t \<longleftrightarrow> ring_ok t \<and> table_size t \<le> table_max_size t"

lemma entry_header_of [simp]: "entry_header (entry_of h) = Some h"
  by (simp add: entry_header_def entry_of_def)

lemma entry_of_simps [simp]:
  "entry_name (entry_of h) = Some (header_name h)"
  "entry_value (entry_of h) = Some (header_value h)"
  "entry_size (entry_of h) = header_size h"
  by (simp_all add: entry_of_def)

lemma length_table_fields [simp]: "length (table_fields t) = table_count t"
  by (simp add: table_fields_def)

lemma ring_entry_fields:
  assumes "ring_ok t" and "n < table_count t"
  shows "ring_entry t n = entry_of (table_fields t ! n)"
  using assms by (auto simp: ring_ok_def table_fields_def)

lemma ring_position_less [simp]: "ring_position t n < 128"
  by (simp add: ring_position_def)

lemma ring_position_cases:
  assumes "table_head t < 128" and "n < 128"
  shows "ring_position t n = (if n \<le> table_head t then table_head t - n else table_head t + 128 - n)"
proof (cases "n \<le> table_head t")
  case True
  then have "table_head t + 128 - n = (table_head t - n) + 128" by simp
  then show ?thesis
    using True assms by (simp only: ring_position_def HPACK_MAX_ENTRIES_def mod_add_self2) simp
qed (use assms in \<open>simp add: ring_position_def\<close>)

lemma ring_position_inj:
  "\<lbrakk>table_head t < 128; m < 128; n < 128\<rbrakk> \<Longrightarrow> ring_position t m = ring_position t n \<longleftrightarrow> m = n"
  by (auto simp: ring_position_cases split: if_splits)

lemma ring_position_cong: "table_head t' = table_head t \<Longrightarrow> ring_position t' n = ring_position t n"
  by (simp add: ring_position_def)

lemma ring_position_advance:
  assumes "table_head t < 128" and "n < 127" and "table_head t' = (table_head t + 1) mod 128"
  shows "ring_position t' (Suc n) = ring_position t n" and "ring_position t' 0 = table_head t'"
proof -
  have less: "table_head t' < 128" using assms(3) by simp
  have head: "table_head t' = (if table_head t = 127 then 0 else table_head t + 1)"
    using assms(1,3) by auto
  show "ring_position t' (Suc n) = ring_position t n"
    using assms(1,2) less head by (simp add: ring_position_cases) linarith
  show "ring_position t' 0 = table_head t'"
    using less by (simp add: ring_position_def)
qed

section \<open>The operations keep the invariant and follow the contract\<close>

lemma evict_ring:
  assumes ok: "ring_ok t" and pos: "0 < table_count t"
  shows "ring_ok (evict_hpack_table t)" "table_fields (evict_hpack_table t) = butlast (table_fields t)"
    "table_count (evict_hpack_table t) = table_count t - 1"
    "table_max_size (evict_hpack_table t) = table_max_size t"
proof -
  let ?t = "evict_hpack_table t"
  obtain m where m: "table_count t = Suc m" using pos by (cases "table_count t") auto
  have head: "table_head t < 128" and len: "length (entries t) = 128" and count: "Suc m \<le> 128"
    using ok m by (simp_all add: ring_ok_def)
  have t: "table_head ?t = table_head t" "table_count ?t = m" "table_max_size ?t = table_max_size t"
      "table_size ?t = table_size t - entry_size (ring_entry t m)" "length (entries ?t) = 128"
    using m len by (simp_all add: evict_hpack_table_def Let_def ring_entry_def)
  have entry: "ring_entry ?t n = ring_entry t n" if "n < m" for n
  proof -
    have "ring_position t m \<noteq> ring_position t n"
      using that count head by (simp add: ring_position_inj)
    then show ?thesis
      using m t(1) by (simp add: ring_entry_def evict_hpack_table_def Let_def ring_position_def)
  qed
  have split: "table_fields t = table_fields ?t @ [table_fields t ! m]"
    using m t entry by (auto simp: table_fields_def nth_append)
  show fields: "table_fields ?t = butlast (table_fields t)"
    by (subst split) simp
  have "entry_size (ring_entry t m) = header_size (table_fields t ! m)"
    using ok m by (simp add: ring_entry_fields)
  then have size: "table_size ?t = fields_size (table_fields ?t)"
    using ok t arg_cong [OF split, of fields_size] by (simp add: ring_ok_def)
  then show "ring_ok ?t"
    using ok t entry m by (simp add: ring_ok_def)
  show "table_count ?t = table_count t - 1" "table_max_size ?t = table_max_size t"
    using t m by simp_all
qed

lemma table_fields_empty [simp]: "table_count t = 0 \<Longrightarrow> table_fields t = []"
  by (simp add: table_fields_def)

lemma evict_above_ring:
  assumes "ring_ok t"
  shows "ring_ok (evict_above t added) \<and> table_max_size (evict_above t added) = table_max_size t
     \<and> table_fields (evict_above t added) = keep_newest (table_max_size t) added (table_fields t)
     \<and> (table_size (evict_above t added) + added \<le> table_max_size t \<or> table_count (evict_above t added) = 0)"
  using assms
proof (induction t added rule: evict_above.induct)
  case (1 t added)
  have size: "table_size t = fields_size (table_fields t)"
    using "1.prems" by (simp add: ring_ok_def)
  show ?case
  proof (cases "table_count t > 0 \<and> table_size t + added > table_max_size t")
    case True
    then have "keep_newest (table_max_size t) added (butlast (table_fields t))
                 = keep_newest (table_max_size t) added (table_fields t)"
      using size by (intro keep_newest_butlast) simp
    then show ?thesis
      using "1.IH" [OF True] "1.prems" True by (simp add: evict_ring evict_above.simps [of t])
  next
    case False
    then have "evict_above t added = t" by (simp only: evict_above.simps [of t] if_False)
    moreover have "keep_newest (table_max_size t) added (table_fields t) = table_fields t"
      using False size by (cases "table_count t = 0") (simp_all add: keep_newest_all)
    ultimately show ?thesis using False "1.prems" by auto
  qed
qed

lemma table_ok_ring: "table_ok t \<Longrightarrow> ring_ok t"
  by (simp add: table_ok_def)

lemma table_ok_bounds:
  assumes "table_ok t"
  shows "fields_size (table_fields t) \<le> table_max_size t" "table_max_size t \<le> HPACK_TABLE_SIZE"
    "table_size t = fields_size (table_fields t)" "32 * table_count t \<le> table_max_size t"
  using assms fields_size_count [of "table_fields t"] by (simp_all add: table_ok_def ring_ok_def)

lemma create_table: "table_ok create_hpack_table" "table_fields create_hpack_table = []"
  by (simp_all add: table_ok_def ring_ok_def table_fields_def create_hpack_table_def)

lemma resize_table:
  assumes "table_ok t" and "max_size \<le> HPACK_TABLE_SIZE"
    and "resize_hpack_table t max_size = (r, t')"
  shows "r = None" "table_ok t'" "table_max_size t' = max_size"
    "table_fields t' = keep_newest max_size 0 (table_fields t)"
proof -
  let ?t = "t\<lparr>table_max_size := max_size\<rparr>"
  have fields: "table_fields ?t = table_fields t"
    by (simp add: table_fields_def ring_entry_def ring_position_def)
  then have "ring_ok ?t"
    using assms(1,2) by (simp add: table_ok_def ring_ok_def ring_entry_def ring_position_def)
  note evict = evict_above_ring [OF this, of 0]
  show "r = None" "table_max_size t' = max_size" "table_fields t' = keep_newest max_size 0 (table_fields t)"
    using assms(2,3) evict by (auto simp: resize_hpack_table_def fields)
  have "table_size t' \<le> table_max_size t'"
    using assms(2,3) evict by (auto simp: resize_hpack_table_def ring_ok_def)
  then show "table_ok t'"
    using assms(2,3) evict by (auto simp: resize_hpack_table_def table_ok_def)
qed

lemma resize_table_above:
  "HPACK_TABLE_SIZE < max_size \<Longrightarrow> resize_hpack_table t max_size = (Some Table_size_above, t)"
  by (simp add: resize_hpack_table_def)


lemma insert_table:
  assumes "table_ok t"
  shows "table_ok (insert_hpack_table t h)"
    "table_max_size (insert_hpack_table t h) = table_max_size t"
    "table_fields (insert_hpack_table t h) = keep_newest (table_max_size t) 0 (h # table_fields t)"
proof -
  define t1 where "t1 = evict_above t (header_size h)"
  have evict: "ring_ok t1" "table_max_size t1 = table_max_size t"
    "table_fields t1 = keep_newest (table_max_size t) (header_size h) (table_fields t)"
    "table_size t1 + header_size h \<le> table_max_size t \<or> table_count t1 = 0"
    using evict_above_ring [OF table_ok_ring [OF assms], of "header_size h"] by (simp_all add: t1_def)
  let ?t = "insert_hpack_table t h"
  have "table_ok ?t \<and> table_max_size ?t = table_max_size t
          \<and> table_fields ?t = keep_newest (table_max_size t) 0 (h # table_fields t)"
  proof (cases "header_size h \<le> table_max_size t")
    case False
    then have "?t = t1"
      using evict by (simp add: insert_hpack_table_def Let_def t1_def header_size_def)
    moreover have "table_count t1 = 0" using False evict(4) by simp
    ultimately show ?thesis
      using evict False by (simp add: table_ok_def ring_ok_def)
  next
    case True
    have fits: "table_size t1 + header_size h \<le> table_max_size t"
      using evict True by (auto simp: ring_ok_def)
    let ?head = "(table_head t1 + 1) mod 128"
    have t: "?t = t1\<lparr>table_head := ?head, entries := (entries t1)[?head := entry_of h],
        table_count := table_count t1 + 1, table_size := table_size t1 + header_size h\<rparr>"
      using True evict(2) by (simp add: insert_hpack_table_def Let_def t1_def header_size_def entry_of_def)
    have size1: "table_size t1 = fields_size (table_fields t1)"
      and head: "table_head t1 < 128" and len: "length (entries t1) = 128"
      using evict(1) by (simp_all add: ring_ok_def)
    have count: "table_count t1 < 128"
      using fits fields_size_count [of "table_fields t1"] header_size_pos [of h] size1
        evict(1,2) by (simp add: ring_ok_def)
    have h': "table_head ?t = (table_head t1 + 1) mod 128" by (simp add: t)
    have "ring_entry ?t 0 = entry_of h"
      using len ring_position_advance(2) [OF head _ h', of 0] by (simp add: t ring_entry_def)
    moreover have older: "ring_entry ?t (Suc n) = ring_entry t1 n" if "n < table_count t1" for n
    proof -
      have n: "n < 127" using that count by simp
      have "ring_position ?t (Suc n) \<noteq> ring_position ?t 0"
        using n by (subst ring_position_inj) (simp_all add: t)
      then have "ring_position t1 n \<noteq> ?head"
        using ring_position_advance [OF head n h'] h' by simp
      then show ?thesis
        using ring_position_advance(1) [OF head n h'] by (simp add: ring_entry_def t)
    qed
    ultimately have fields: "table_fields ?t = h # table_fields t1"
      by (simp add: table_fields_def t upt_conv_Cons map_Suc_upt [symmetric] del: upt_Suc)
    have "\<exists>g. ring_entry ?t n = entry_of g" if "n < table_count ?t" for n
      using that \<open>ring_entry ?t 0 = entry_of h\<close> older evict(1)
      by (cases n) (auto simp: t ring_ok_def)
    then have "table_ok ?t"
      using evict fits count len fields size1 by (simp add: table_ok_def ring_ok_def t)
    then show ?thesis
      using fields evict True by (simp add: t)
  qed
  then show "table_ok ?t" "table_max_size ?t = table_max_size t"
    "table_fields ?t = keep_newest (table_max_size t) 0 (h # table_fields t)"
    by simp_all
qed

lemma delete_table:
  assumes "ring_ok t"
  shows "table_count (delete_hpack_table t) = 0 \<and> ring_ok (delete_hpack_table t)"
  using assms
proof (induction t rule: delete_hpack_table.induct)
  case (1 t)
  then show ?case
    by (cases "table_count t = 0") (simp_all add: evict_ring delete_hpack_table.simps [of t])
qed

section \<open>Reading and searching\<close>

text \<open>The address space of the indexes: the static table and then the dynamic one.\<close>

definition address_space :: "hpack_table \<Rightarrow> hpack_header list" where
  "address_space t = hpack_static_table @ table_fields t"

lemma length_static [simp]: "length hpack_static_table = 61"
  by (simp add: hpack_static_table_def)

lemma length_address_space: "length (address_space t) = 61 + table_count t"
  by (simp add: address_space_def)

lemma get_table:
  assumes "ring_ok t"
  shows "get_hpack_table t index =
           (if index = 0 then Inl Invalid_zero_index
            else if index \<le> length (address_space t) then Inr (address_space t ! (index - 1))
            else Inl Index_above)"
proof -
  have "entry_header (entries t ! ring_position t (index - 62)) = Some (table_fields t ! (index - 62))"
    if "61 < index" and "index - 61 \<le> table_count t"
    using ring_entry_fields [OF assms, of "index - 62"] that by (simp add: ring_entry_def)
  then show ?thesis
    by (auto simp: get_hpack_table_def address_space_def Let_def nth_append)
qed

text \<open>
  The reference of the search, over a list of fields: the position of the first field that
  matches completely, else that of the first one whose name matches.
\<close>

fun search :: "hpack_header list \<Rightarrow> nat \<Rightarrow> hpack_header \<Rightarrow> nat \<Rightarrow> bool \<times> nat" where
  "search [] position h index = (False, index)"
| "search (g # rest) position h index =
     (if g = h then (True, position)
      else search rest (position + 1) h
             (if index = 0 \<and> header_name g = header_name h then position else index))"

lemma find_static_search: "find_static gs position h index = search gs (position + 1) h index"
  by (induction gs position h index rule: find_static.induct) (auto simp: Let_def)

lemma find_dynamic_search:
  "ring_ok t \<Longrightarrow> 0 < position \<Longrightarrow>
     find_dynamic t position h index = search (drop (position - 1) (table_fields t)) (61 + position) h index"
proof (induction t position h index rule: find_dynamic.induct)
  case (1 t position h index)
  show ?case
  proof (cases "position \<le> table_count t")
    case True
    define g where "g = table_fields t ! (position - 1)"
    have entry: "entries t ! ring_position t (position - 1) = entry_of g"
      using ring_entry_fields [of t "position - 1"] "1.prems" True by (simp add: ring_entry_def g_def)
    have drop: "drop (position - 1) (table_fields t) = g # drop position (table_fields t)"
      using True "1.prems" Cons_nth_drop_Suc [of "position - 1" "table_fields t"] by (simp add: g_def)
    have eq: "g = h \<longleftrightarrow> header_name g = header_name h \<and> header_value g = header_value h"
      by (metis hpack_header.equality unit.exhaust)
    have IH: "find_dynamic t (position + 1) h index' =
        search (drop position (table_fields t)) (62 + position) h index'"
      if "index' = (if index = 0 \<and> header_name g = header_name h then 61 + position else index)"
        and "g \<noteq> h" for index'
      using "1.IH" True entry that eq "1.prems" by (cases "header_name g = header_name h") auto
    show ?thesis
      unfolding drop using True IH entry
      by (auto simp: find_dynamic.simps [of t position] Let_def eq split: if_splits)
  next
    case False
    then show ?thesis by (simp add: find_dynamic.simps [of t])
  qed
qed

lemma search_append:
  "search (gs @ gs') position h index =
     (case search gs position h index of
        (True, j) \<Rightarrow> (True, j)
      | (False, j) \<Rightarrow> search gs' (position + length gs) h j)"
  by (induction gs arbitrary: position index) (auto split: prod.splits bool.splits)

lemma find_table:
  assumes "ring_ok t"
  shows "find_hpack_table t h = search (address_space t) 1 h 0"
  using find_dynamic_search [OF assms, of 1 h]
  by (auto simp: find_hpack_table_def find_static_search address_space_def search_append split: prod.splits bool.splits)

lemma search_found:
  "search gs position h index = (True, j) \<Longrightarrow> position \<le> j \<and> j < position + length gs \<and> gs ! (j - position) = h"
  by (induction gs arbitrary: position index)
    (force split: if_splits simp: nth_Cons' Suc_le_eq)+

lemma search_name:
  "search gs position h index = (False, j) \<Longrightarrow>
     h \<notin> set gs \<and> (j = index \<and> (index = 0 \<longrightarrow> header_name h \<notin> header_name ` set gs) \<or>
       index = 0 \<and> position \<le> j \<and> j < position + length gs
         \<and> header_name (gs ! (j - position)) = header_name h)"
proof (induction gs arbitrary: position index)
  case (Cons g gs)
  let ?index = "if index = 0 \<and> header_name g = header_name h then position else index"
  have "g \<noteq> h" and "search gs (Suc position) h ?index = (False, j)"
    using Cons.prems by (auto split: if_splits)
  then show ?case
    using Cons.IH [of "Suc position" ?index] by (auto simp: nth_Cons' split: if_splits)
qed simp

section \<open>The interface of the header table\<close>

text \<open>
  What the codec of the blocks relies on: an address space that starts with the static table and
  goes on with the fields of the dynamic one, an insertion and a resize that keep the newest
  fields that fit, and a search whose result can be read back. Two tables that \<open>agree\<close> are
  those of the two ends of a connection.
\<close>

locale header_table =
  fixes ok :: "'t \<Rightarrow> bool"
    and fields :: "'t \<Rightarrow> hpack_header list"
    and limit :: "'t \<Rightarrow> nat"
    and get :: "'t \<Rightarrow> nat \<Rightarrow> hpack_header result"
    and insert :: "'t \<Rightarrow> hpack_header \<Rightarrow> 't"
    and resize :: "'t \<Rightarrow> nat \<Rightarrow> error option \<times> 't"
    and find :: "'t \<Rightarrow> hpack_header \<Rightarrow> bool \<times> nat"
  assumes get_fields: "ok t \<Longrightarrow> get t index =
        (if index = 0 then Inl Invalid_zero_index
         else if index \<le> length (hpack_static_table @ fields t)
         then Inr ((hpack_static_table @ fields t) ! (index - 1)) else Inl Index_above)"
    and insert_keeps: "ok t \<Longrightarrow> ok (insert t h)"
    and insert_limit: "ok t \<Longrightarrow> limit (insert t h) = limit t"
    and insert_fields: "ok t \<Longrightarrow> fields (insert t h) = keep_newest (limit t) 0 (h # fields t)"
    and resize_small: "ok t \<Longrightarrow> n \<le> HPACK_TABLE_SIZE \<Longrightarrow>
        \<exists>t'. resize t n = (None, t') \<and> ok t' \<and> limit t' = n \<and> fields t' = keep_newest n 0 (fields t)"
    and resize_large: "HPACK_TABLE_SIZE < n \<Longrightarrow> resize t n = (Some Table_size_above, t)"
    and find_search: "ok t \<Longrightarrow> find t h = search (hpack_static_table @ fields t) 1 h 0"
    and fits: "ok t \<Longrightarrow> fields_size (fields t) \<le> limit t \<and> limit t \<le> HPACK_TABLE_SIZE"
begin

definition agree :: "'t \<Rightarrow> 't \<Rightarrow> bool" where
  "agree t t' \<longleftrightarrow> ok t \<and> ok t' \<and> fields t = fields t' \<and> limit t = limit t'"

lemma agree_insert: "agree t t' \<Longrightarrow> agree (insert t h) (insert t' h)"
  by (simp add: agree_def insert_keeps insert_limit insert_fields)

lemma agree_get: "agree t t' \<Longrightarrow> get t index = get t' index"
  by (simp add: agree_def get_fields)

lemma agree_find: "agree t t' \<Longrightarrow> find t h = find t' h"
  by (simp add: agree_def find_search)

lemma resize_ok: "ok t \<Longrightarrow> ok (snd (resize t n))"
  using resize_small [of t n] resize_large [of n t] by (cases "n \<le> HPACK_TABLE_SIZE") auto

lemma resize_error: "resize t n = (Some e, t') \<Longrightarrow> ok t \<Longrightarrow> e = Table_size_above \<and> t' = t"
  using resize_small [of t n] resize_large [of n t] by (cases "n \<le> HPACK_TABLE_SIZE") auto

lemma get_error: "ok t \<Longrightarrow> get t index = Inl e \<Longrightarrow> e = Invalid_zero_index \<or> e = Index_above"
  by (auto simp: get_fields split: if_splits)

lemma get_newest: "ok t \<Longrightarrow> header_size h \<le> limit t \<Longrightarrow> get (insert t h) 62 = Inr h"
  by (simp add: get_fields insert_fields insert_keeps nth_append)

lemma fields_bounded: "ok t \<Longrightarrow> 32 * length (fields t) \<le> HPACK_TABLE_SIZE"
  using fits [of t] fields_size_count [of "fields t"] by linarith

lemma find_complete: "ok t \<Longrightarrow> find t h = (True, index) \<Longrightarrow> index \<noteq> 0 \<and> get t index = Inr h"
  using search_found [of "hpack_static_table @ fields t" 1 h 0 index]
  by (auto simp: find_search get_fields)

lemma find_name:
  "ok t \<Longrightarrow> find t h = (False, index) \<Longrightarrow> index \<noteq> 0 \<Longrightarrow>
     \<exists>g. get t index = Inr g \<and> header_name g = header_name h"
  using search_name [of "hpack_static_table @ fields t" 1 h 0 index]
  by (auto simp: find_search get_fields)

lemma find_bound: "ok t \<Longrightarrow> find t h = (complete, index) \<Longrightarrow> index \<le> 61 + length (fields t)"
  using search_found [of "hpack_static_table @ fields t" 1 h 0 index]
    search_name [of "hpack_static_table @ fields t" 1 h 0 index]
  by (cases complete) (auto simp: find_search)

end

interpretation dynamic: header_table table_ok table_fields table_max_size
  get_hpack_table insert_hpack_table resize_hpack_table find_hpack_table
proof
  fix t n assume "table_ok t" and "n \<le> HPACK_TABLE_SIZE"
  then show "\<exists>t'. resize_hpack_table t n = (None, t') \<and> table_ok t' \<and> table_max_size t' = n \<and>
      table_fields t' = keep_newest n 0 (table_fields t)"
    using resize_table [of t n] by (metis prod.exhaust)
qed (simp_all add: insert_table resize_table_above find_table get_table table_ok_ring address_space_def
    table_ok_bounds(1,2) [unfolded HPACK_TABLE_SIZE_def])


section \<open>Properties\<close>

text \<open>The operations that a block performs on a table, and a sequence of them.\<close>

datatype table_operation = Insert_field hpack_header | Resize_table nat

fun run_operation :: "table_operation \<Rightarrow> hpack_table \<Rightarrow> hpack_table" where
  "run_operation (Insert_field h) t = insert_hpack_table t h"
| "run_operation (Resize_table n) t = snd (resize_hpack_table t n)"

fun run_list :: "table_operation \<Rightarrow> hpack_header list \<times> nat \<Rightarrow> hpack_header list \<times> nat" where
  "run_list (Insert_field h) (hs, limit) = (keep_newest limit 0 (h # hs), limit)"
| "run_list (Resize_table n) (hs, limit) =
     (if n \<le> HPACK_TABLE_SIZE then (keep_newest n 0 hs, n) else (hs, limit))"

lemma run_operation_ok:
  assumes "table_ok t"
  shows "table_ok (run_operation operation t) \<and>
    (table_fields (run_operation operation t), table_max_size (run_operation operation t)) =
      run_list operation (table_fields t, table_max_size t)"
proof (cases operation)
  case (Insert_field h)
  then show ?thesis using insert_table [OF assms] by simp
next
  case (Resize_table n)
  then show ?thesis
    using assms dynamic.resize_small [of t n] resize_table_above [of n t]
    by (cases "n \<le> HPACK_TABLE_SIZE") auto
qed

lemma run_operations_ok:
  "table_ok t \<Longrightarrow> table_ok (fold run_operation operations t) \<and>
    (table_fields (fold run_operation operations t), table_max_size (fold run_operation operations t)) =
      fold run_list operations (table_fields t, table_max_size t)"
proof (induction operations arbitrary: t)
  case (Cons operation operations)
  show ?case
    using run_operation_ok [OF Cons.prems, of operation] Cons.IH [of "run_operation operation t"] by simp
qed simp

text \<open>C15: whatever the sequence of insertions and resizes, the ring of a new table holds exactly
  the fields that the reference keeps, a list with the newest first of which every operation
  keeps the longest run of newest fields that fits in the maximum size; every index of the address
  space reads its field and any other one raises the error of the code.\<close>

theorem table_refines_list:
  "\<exists>hs limit. fold run_list operations ([], HPACK_TABLE_SIZE) = (hs, limit) \<and>
     (let t = fold run_operation operations create_hpack_table
      in table_max_size t = limit \<and> table_count t = length hs \<and>
         (\<forall>index. get_hpack_table t index =
            (if index = 0 then Inl Invalid_zero_index
             else if index \<le> 61 + length hs then Inr ((hpack_static_table @ hs) ! (index - 1))
             else Inl Index_above)))"
proof -
  let ?t = "fold run_operation operations create_hpack_table"
  have ok: "table_ok ?t"
    and run: "(table_fields ?t, table_max_size ?t) = fold run_list operations ([], HPACK_TABLE_SIZE)"
    using run_operations_ok [OF create_table(1), of operations] by (simp_all add: create_table create_hpack_table_def)
  then show ?thesis
    using get_table [OF table_ok_ring [OF ok]]
    by (intro exI [of _ "table_fields ?t"] exI [of _ "table_max_size ?t"])
      (simp add: Let_def address_space_def)
qed

text \<open>C16: the dynamic table stays within the memory it was given: after any sequence of
  operations the size it accounts is that of the fields it holds, it is never above the maximum
  size nor above the \<open>HPACK_TABLE_SIZE\<close> that was advertised, the ring never holds more than
  \<open>HPACK_MAX_ENTRIES\<close> entries, and no index reads an entry that has been released.\<close>

theorem table_bounded:
  "let t = fold run_operation operations create_hpack_table
   in table_size t = fields_size (table_fields t) \<and> table_size t \<le> table_max_size t
      \<and> table_max_size t \<le> HPACK_TABLE_SIZE \<and> table_count t \<le> HPACK_MAX_ENTRIES
      \<and> length (entries t) = HPACK_MAX_ENTRIES \<and> (\<forall>index. get_hpack_table t index \<noteq> Inl Out_Of_Bounds)"
proof -
  let ?t = "fold run_operation operations create_hpack_table"
  have ok: "table_ok ?t"
    using run_operations_ok [OF create_table(1), of operations] by simp
  have "get_hpack_table ?t index \<noteq> Inl Out_Of_Bounds" for index
    using dynamic.get_error [OF ok, of index Out_Of_Bounds]
    by (auto simp: Invalid_zero_index_def Index_above_def)
  then show ?thesis
    using ok by (simp add: table_ok_def ring_ok_def Let_def)
qed

end
