(* ===== verification/Hpack.thy ===== *)
theory Hpack
  imports Hpack_Integer Hpack_Huffman_Decode Hpack_Table
begin

text \<open>
  The strings and the header blocks of \<^verbatim>\<open>src/src/viriatum/http/hpack.c\<close>:
  \<^verbatim>\<open>decode_string_hpack\<close>, \<^verbatim>\<open>encode_string_hpack\<close>, \<^verbatim>\<open>decode_hpack\<close> and \<^verbatim>\<open>encode_hpack\<close>.
  The callback of the decoder is a function on a state of its own, which stands for the
  \<^verbatim>\<open>parameters\<close> of the code. The lemmas give the bytes that the encoder writes, that the
  decoder reads them back while the tables of the two ends agree, and what the decoder promises
  of an arbitrary block.
\<close>

definition HPACK_MAX_HEADER_LIST_SIZE :: nat where
  [simp]: "HPACK_MAX_HEADER_LIST_SIZE = 32768"

definition HPACK_MAX_NAME_SIZE :: nat where
  [simp]: "HPACK_MAX_NAME_SIZE = 1024"

definition HPACK_MAX_VALUE_SIZE :: nat where
  [simp]: "HPACK_MAX_VALUE_SIZE = 4096"

definition Truncated_string :: error where
  "Truncated_string = Runtime_Exception ''Truncated string in the header block''"

definition String_above :: error where
  "String_above = Runtime_Exception ''String above the accepted size''"

definition No_space_string :: error where
  "No_space_string = Runtime_Exception ''No space for the string in the buffer''"

definition Size_update_after_field :: error where
  "Size_update_after_field = Runtime_Exception ''Dynamic table size update after a field''"

definition Name_above :: error where
  "Name_above = Runtime_Exception ''Name above the accepted size''"

definition Header_list_above :: error where
  "Header_list_above = Runtime_Exception ''Header list above the accepted size''"

section \<open>Strings\<close>

text \<open>The decoded string, which the code leaves at the start of the buffer, and the position after it.\<close>

definition decode_string_hpack :: "bytes \<Rightarrow> nat \<Rightarrow> nat \<Rightarrow> (bytes \<times> nat) result" where
  "decode_string_hpack data offset buffer_size =
     (if offset \<ge> length data then Inl Truncated_string
      else
        (case read_byte data offset of
           Inl e \<Rightarrow> Inl e
         | Inr byte \<Rightarrow>
             (let huffman = byte AND 0x80 \<noteq> 0
              in case decode_integer_hpack data offset 7 of
                   Inl e \<Rightarrow> Inl e
                 | Inr (string_size, position) \<Rightarrow>
                     if string_size > length data - position then Inl Truncated_string
                     else
                       (case read_bytes data position string_size of
                          Inl e \<Rightarrow> Inl e
                        | Inr string \<Rightarrow>
                            if huffman then
                              (case decode_huffman_hpack string buffer_size of
                                 Inl e \<Rightarrow> Inl e
                               | Inr buffer \<Rightarrow> Inr (buffer, position + string_size))
                            else if string_size > buffer_size then Inl String_above
                            else Inr (string, position + string_size)))))"

text \<open>The guards bound every read, whose bytes are written out here.\<close>

lemma decode_string_guarded:
  "decode_string_hpack data offset buffer_size =
     (if offset \<ge> length data then Inl Truncated_string
      else
        (let huffman = (data ! offset) AND 0x80 \<noteq> 0
         in case decode_integer_hpack data offset 7 of
              Inl e \<Rightarrow> Inl e
            | Inr (string_size, position) \<Rightarrow>
                if string_size > length data - position then Inl Truncated_string
                else if huffman then
                  (case decode_huffman_hpack (take string_size (drop position data)) buffer_size of
                     Inl e \<Rightarrow> Inl e
                   | Inr buffer \<Rightarrow> Inr (buffer, position + string_size))
                else if string_size > buffer_size then Inl String_above
                else Inr (take string_size (drop position data), position + string_size)))"
proof (cases "decode_integer_hpack data offset 7")
  case (Inr r)
  obtain string_size position where r: "r = (string_size, position)" by fastforce
  then have "position \<le> length data" using Inr decode_integer_bounds by simp
  then show ?thesis using Inr r by (simp add: decode_string_hpack_def)
qed (simp add: decode_string_hpack_def)

definition encode_string_hpack :: "bytes \<Rightarrow> nat \<Rightarrow> nat \<Rightarrow> bytes \<Rightarrow> write_result" where
  "encode_string_hpack buffer buffer_size offset v =
     (let huffman_size = size_huffman_hpack v
      in if huffman_size < length v then
           (case encode_integer_hpack buffer buffer_size offset 7 0x80 huffman_size of
              (Some e, buffer', offset') \<Rightarrow> (Some e, buffer', offset')
            | (None, buffer', offset') \<Rightarrow>
                (case encode_huffman_hpack v (drop offset' buffer') (buffer_size - offset') of
                   (Some e, written, _) \<Rightarrow> (Some e, take offset' buffer' @ written, offset')
                 | (None, written, result_size) \<Rightarrow>
                     (None, take offset' buffer' @ written, offset' + result_size)))
         else
           (case encode_integer_hpack buffer buffer_size offset 7 0x00 (length v) of
              (Some e, buffer', offset') \<Rightarrow> (Some e, buffer', offset')
            | (None, buffer', offset') \<Rightarrow>
                if length v > buffer_size - offset' then (Some No_space_string, buffer', offset')
                else (None, memcpy buffer' offset' v, offset' + length v)))"

section \<open>Decoding of a block\<close>

text \<open>
  One representation of a block, by its leading bits: the table as it leaves it and, when it
  raises nothing, the position after it with the field it stands for (\<^term>\<open>None\<close> for the update
  of the size of the table).
\<close>

definition decode_indexed ::
    "hpack_table \<Rightarrow> bytes \<Rightarrow> nat \<Rightarrow> hpack_table \<times> (nat \<times> hpack_header option) result" where
  "decode_indexed t data offset =
     (t, case decode_integer_hpack data offset 7 of
           Inl e \<Rightarrow> Inl e
         | Inr (index, offset') \<Rightarrow>
             (case get_hpack_table t index of
                Inl e \<Rightarrow> Inl e
              | Inr h \<Rightarrow> Inr (offset', Some h)))"

definition decode_size_update ::
    "hpack_table \<Rightarrow> bytes \<Rightarrow> nat \<Rightarrow> bool \<Rightarrow> hpack_table \<times> (nat \<times> hpack_header option) result" where
  "decode_size_update t data offset field =
     (if field then (t, Inl Size_update_after_field)
      else
        (case decode_integer_hpack data offset 5 of
           Inl e \<Rightarrow> (t, Inl e)
         | Inr (max_size, offset') \<Rightarrow>
             (case resize_hpack_table t max_size of
                (Some e, t') \<Rightarrow> (t', Inl e)
              | (None, t') \<Rightarrow> (t', Inr (offset', None)))))"

definition decode_name :: "hpack_table \<Rightarrow> bytes \<Rightarrow> nat \<Rightarrow> nat \<Rightarrow> (bytes \<times> nat) result" where
  "decode_name t data offset index =
     (if index = 0 then decode_string_hpack data offset HPACK_MAX_NAME_SIZE
      else
        (case get_hpack_table t index of
           Inl e \<Rightarrow> Inl e
         | Inr indexed \<Rightarrow>
             if length (header_name indexed) > HPACK_MAX_NAME_SIZE then Inl Name_above
             else Inr (header_name indexed, offset)))"

definition decode_literal ::
    "hpack_table \<Rightarrow> bytes \<Rightarrow> nat \<Rightarrow> byte \<Rightarrow> hpack_table \<times> (nat \<times> hpack_header option) result" where
  "decode_literal t data offset byte =
     (let indexing = byte AND 0x40 \<noteq> 0;
          prefix = (if indexing then 6 else 4)
      in case decode_integer_hpack data offset prefix of
           Inl e \<Rightarrow> (t, Inl e)
         | Inr (index, offset') \<Rightarrow>
             (case decode_name t data offset' index of
                Inl e \<Rightarrow> (t, Inl e)
              | Inr (name, offset'') \<Rightarrow>
                  (case decode_string_hpack data offset'' HPACK_MAX_VALUE_SIZE of
                     Inl e \<Rightarrow> (t, Inl e)
                   | Inr (v, offset''') \<Rightarrow>
                       (let h = \<lparr>header_name = name, header_value = v\<rparr>
                        in (if indexing then insert_hpack_table t h else t, Inr (offset''', Some h))))))"

definition decode_representation ::
    "hpack_table \<Rightarrow> bytes \<Rightarrow> nat \<Rightarrow> bool \<Rightarrow> hpack_table \<times> (nat \<times> hpack_header option) result" where
  "decode_representation t data offset field =
     (case read_byte data offset of
        Inl e \<Rightarrow> (t, Inl e)
      | Inr byte \<Rightarrow>
          if byte AND 0x80 \<noteq> 0 then decode_indexed t data offset
          else if byte AND 0xe0 = 0x20 then decode_size_update t data offset field
          else decode_literal t data offset byte)"

lemma decode_representation_guarded:
  "offset < length data \<Longrightarrow> decode_representation t data offset field =
     (let byte = data ! offset
      in if byte AND 0x80 \<noteq> 0 then decode_indexed t data offset
         else if byte AND 0xe0 = 0x20 then decode_size_update t data offset field
         else decode_literal t data offset byte)"
  by (simp add: decode_representation_def)

lemma decode_string_position:
  assumes "decode_string_hpack data offset buffer_size = Inr (s, offset')"
  shows "offset < offset'" "offset' \<le> length data" "length s \<le> buffer_size"
proof -
  obtain string_size position where i: "decode_integer_hpack data offset 7 = Inr (string_size, position)"
    and string_size: "string_size \<le> length data - position" and offset': "offset' = position + string_size"
    and s: "s = take string_size (drop position data) \<and> string_size \<le> buffer_size
      \<or> decode_huffman_hpack (take string_size (drop position data)) buffer_size = Inr s"
    using assms by (auto simp: decode_string_guarded Let_def not_less split: if_splits sum.splits)
  note bounds = decode_integer_bounds [OF i]
  show "offset < offset'" "offset' \<le> length data"
    using bounds string_size offset' by simp_all
  show "length s \<le> buffer_size"
    using s decode_huffman_bytes [of s buffer_size] decode_huffman_inverse
    by (auto split: if_splits)
qed

lemma decode_name_position:
  assumes "decode_name t data offset index = Inr (s, offset')" and "offset \<le> length data"
  shows "offset \<le> offset'" "offset' \<le> length data" "length s \<le> HPACK_MAX_NAME_SIZE"
  using assms decode_string_position [of data offset "HPACK_MAX_NAME_SIZE" s offset']
  by (auto simp: decode_name_def split: if_splits sum.splits)

lemma decode_representation_position:
  assumes "decode_representation t data offset field = (t', Inr (offset', h))"
  shows "offset < offset' \<and> offset' \<le> length data"
proof -
  consider "decode_indexed t data offset = (t', Inr (offset', h))"
    | "decode_size_update t data offset field = (t', Inr (offset', h))"
    | byte where "decode_literal t data offset byte = (t', Inr (offset', h))"
    using assms by (auto simp: decode_representation_def split: if_splits sum.splits)
  then show ?thesis
  proof cases
    case 3
    then obtain prefix index o1 n o2 v where
      "decode_integer_hpack data offset prefix = Inr (index, o1)" "prefix \<le> 8"
      "decode_name t data o1 index = Inr (n, o2)" "decode_string_hpack data o2 4096 = Inr (v, offset')"
      by (auto simp: decode_literal_def Let_def split: sum.splits if_splits)
    then show ?thesis
      using decode_integer_bounds(2,3) [of data offset prefix index o1] decode_name_position(1) [of t data o1 index n o2]
        decode_string_position(1,2) [of data o2 4096 v offset'] by simp
  qed (use decode_integer_bounds(2,3) [of data offset] in
      \<open>fastforce simp: decode_indexed_def decode_size_update_def split: sum.splits prod.splits option.splits if_splits\<close>)+
qed

text \<open>
  The loop over the block, which accounts every field against the maximum size of the list and
  then hands it to the callback. The result is the error raised, the table and the state of the
  callback.
\<close>

function decode_hpack_loop ::
    "('p \<Rightarrow> hpack_header \<Rightarrow> error option \<times> 'p) \<Rightarrow> bytes \<Rightarrow> hpack_table \<Rightarrow> nat \<Rightarrow> bool \<Rightarrow> nat \<Rightarrow> 'p \<Rightarrow>
       error option \<times> hpack_table \<times> 'p" where
  "decode_hpack_loop callback data t offset field list_size parameters =
     (if offset < length data then
        (case decode_representation t data offset field of
           (t', Inl e) \<Rightarrow> (Some e, t', parameters)
         | (t', Inr (offset', None)) \<Rightarrow>
             decode_hpack_loop callback data t' offset' field list_size parameters
         | (t', Inr (offset', Some h)) \<Rightarrow>
             (let list_size' = list_size + (length (header_name h) + length (header_value h) + HPACK_ENTRY_OVERHEAD)
              in if list_size' > HPACK_MAX_HEADER_LIST_SIZE then (Some Header_list_above, t', parameters)
                 else
                   (case callback parameters h of
                      (Some e, parameters') \<Rightarrow> (Some e, t', parameters')
                    | (None, parameters') \<Rightarrow>
                        decode_hpack_loop callback data t' offset' True list_size' parameters')))
      else (None, t, parameters))"
  by pat_completeness auto
termination
  by (relation "measure (\<lambda>(_, data, _, offset, _). length data - offset)")
    (auto dest!: decode_representation_position [OF sym] intro!: diff_less_mono2)

declare decode_hpack_loop.simps [simp del]

definition decode_hpack ::
    "hpack_table \<Rightarrow> bytes \<Rightarrow> ('p \<Rightarrow> hpack_header \<Rightarrow> error option \<times> 'p) \<Rightarrow> 'p \<Rightarrow>
       error option \<times> hpack_table \<times> 'p" where
  "decode_hpack t data callback parameters = decode_hpack_loop callback data t 0 False 0 parameters"

section \<open>Encoding of a field\<close>

definition encode_hpack ::
    "hpack_table \<Rightarrow> bytes \<Rightarrow> nat \<Rightarrow> nat \<Rightarrow> hpack_header \<Rightarrow> bool \<Rightarrow>
       error option \<times> hpack_table \<times> bytes \<times> nat" where
  "encode_hpack t buffer buffer_size offset h indexing =
     (case find_hpack_table t h of
        (True, index) \<Rightarrow>
          (case encode_integer_hpack buffer buffer_size offset 7 0x80 index of
             (r, buffer', offset') \<Rightarrow> (r, t, buffer', offset'))
      | (False, index) \<Rightarrow>
          (case (if indexing then encode_integer_hpack buffer buffer_size offset 6 0x40 index
                 else encode_integer_hpack buffer buffer_size offset 4 0x00 index) of
             (Some e, buffer1, offset1) \<Rightarrow> (Some e, t, buffer1, offset1)
           | (None, buffer1, offset1) \<Rightarrow>
               (case (if index = 0 then encode_string_hpack buffer1 buffer_size offset1 (header_name h)
                      else (None, buffer1, offset1)) of
                  (Some e, buffer2, offset2) \<Rightarrow> (Some e, t, buffer2, offset2)
                | (None, buffer2, offset2) \<Rightarrow>
                    (case encode_string_hpack buffer2 buffer_size offset2 (header_value h) of
                       (Some e, buffer3, offset3) \<Rightarrow> (Some e, t, buffer3, offset3)
                     | (None, buffer3, offset3) \<Rightarrow>
                         (None, if indexing then insert_hpack_table t h else t, buffer3, offset3)))))"


section \<open>Strings are read back\<close>

definition string_bytes :: "bytes \<Rightarrow> bytes" where
  "string_bytes v =
     (if size_huffman_hpack v < length v
      then integer_bytes 7 0x80 (size_huffman_hpack v) @ huffman_bytes v
      else integer_bytes 7 0x00 (length v) @ v)"

lemma above_prefix_flags [simp]:
  "above_prefix 7 0x80" "above_prefix 7 0" "above_prefix 6 0x40" "above_prefix 4 0" "above_prefix 5 0x20"
  by (simp_all add: above_prefix_def)

lemma memcpy_split:
  "position \<le> length buffer \<Longrightarrow>
     take position buffer @ memcpy (drop position buffer) 0 bs = memcpy buffer position bs"
  by (simp add: memcpy_def add.commute)

lemma encode_string_ok [buffer_simps]:
  assumes "offset + length (string_bytes v) \<le> buffer_size" and "buffer_size \<le> length buffer"
  shows "encode_string_hpack buffer buffer_size offset v =
           (None, memcpy buffer offset (string_bytes v), offset + length (string_bytes v))"
proof (cases "size_huffman_hpack v < length v")
  case True
  let ?i = "integer_bytes 7 0x80 (size_huffman_hpack v)"
  let ?buffer = "memcpy buffer offset ?i"
  have bytes: "string_bytes v = ?i @ huffman_bytes v"
    using True by (simp add: string_bytes_def)
  have "encode_integer_hpack buffer buffer_size offset 7 0x80 (size_huffman_hpack v) =
          (None, ?buffer, offset + length ?i)"
    using assms bytes by (intro encode_integer_ok) simp_all
  moreover have "encode_huffman_hpack v (drop (offset + length ?i) ?buffer) (buffer_size - (offset + length ?i)) =
          (None, memcpy (drop (offset + length ?i) ?buffer) 0 (huffman_bytes v), size_huffman_hpack v)"
    using assms bytes by (intro encode_huffman_ok) (simp_all add: size_huffman_bytes)
  moreover have "take (offset + length ?i) ?buffer @ memcpy (drop (offset + length ?i) ?buffer) 0 (huffman_bytes v)
          = memcpy buffer offset (string_bytes v)"
    using assms bytes memcpy_memcpy [of offset ?i "huffman_bytes v" buffer] by (simp add: memcpy_split)
  ultimately show ?thesis
    using True bytes by (simp add: encode_string_hpack_def Let_def size_huffman_bytes)
next
  case False
  let ?i = "integer_bytes 7 0x00 (length v)"
  have bytes: "string_bytes v = ?i @ v"
    using False by (simp add: string_bytes_def)
  have "encode_integer_hpack buffer buffer_size offset 7 0x00 (length v) =
          (None, memcpy buffer offset ?i, offset + length ?i)"
    using assms bytes by (intro encode_integer_ok) simp_all
  then show ?thesis
    using False assms bytes memcpy_memcpy [of offset ?i v buffer] by (simp add: encode_string_hpack_def Let_def)
qed

lemma encode_string_no_space:
  assumes "buffer_size < offset + length (string_bytes v)" and "buffer_size \<le> length buffer"
  shows "fst (encode_string_hpack buffer buffer_size offset v) \<noteq> None"
proof (cases "size_huffman_hpack v < length v")
  case True
  let ?i = "integer_bytes 7 0x80 (size_huffman_hpack v)"
  have bytes: "string_bytes v = ?i @ huffman_bytes v"
    using True by (simp add: string_bytes_def)
  show ?thesis
  proof (cases "offset + length ?i \<le> buffer_size")
    case fits: True
    then have "encode_integer_hpack buffer buffer_size offset 7 0x80 (size_huffman_hpack v) =
          (None, memcpy buffer offset ?i, offset + length ?i)"
      using assms by (intro encode_integer_ok) simp_all
    moreover have "fst (encode_huffman_hpack v (drop (offset + length ?i) (memcpy buffer offset ?i))
        (buffer_size - (offset + length ?i))) = Some No_space_coded"
      using assms bytes fits by (intro encode_huffman_no_space) (simp_all add: size_huffman_bytes)
    ultimately show ?thesis
      using True by (auto simp: encode_string_hpack_def Let_def split: prod.splits option.splits)
  next
    case no_fit: False
    then show ?thesis
      using True assms encode_integer_no_space [of buffer_size offset 7 "0x80" "size_huffman_hpack v" buffer]
      by (auto simp: encode_string_hpack_def Let_def)
  qed
next
  case False
  let ?i = "integer_bytes 7 0x00 (length v)"
  have bytes: "string_bytes v = ?i @ v"
    using False by (simp add: string_bytes_def)
  show ?thesis
  proof (cases "offset + length ?i \<le> buffer_size")
    case fits: True
    then have "encode_integer_hpack buffer buffer_size offset 7 0x00 (length v) =
          (None, memcpy buffer offset ?i, offset + length ?i)"
      using assms by (intro encode_integer_ok) simp_all
    then show ?thesis
      using False assms bytes fits by (auto simp: encode_string_hpack_def Let_def)
  next
    case no_fit: False
    then show ?thesis
      using False assms encode_integer_no_space [of buffer_size offset 7 "0x00" "length v" buffer]
      by (auto simp: encode_string_hpack_def Let_def)
  qed
qed

lemma integer_bytes_first:
  assumes "prefix \<le> 8" and "unat flags + (2 ^ prefix - 1) < 256"
  shows "unat (integer_bytes prefix flags v ! 0) = unat flags + min v (2 ^ prefix - 1)"
  using assms by (auto simp: integer_bytes_def Let_def unat_of_nat_byte min_def simp del: of_nat_add)

lemma first_byte_append: "bs \<noteq> [] \<Longrightarrow> (xs @ bs @ ys) ! length xs = bs ! 0"
  by (simp add: nth_append)

lemma decode_string_bytes:
  assumes "length v \<le> buffer_size" and "length v \<le> HPACK_MAX_INTEGER"
  shows "decode_string_hpack (xs @ string_bytes v @ ys) (length xs) buffer_size =
           Inr (v, length xs + length (string_bytes v))"
proof (cases "size_huffman_hpack v < length v")
  case True
  let ?i = "integer_bytes 7 0x80 (size_huffman_hpack v)"
  have bytes: "string_bytes v = ?i @ huffman_bytes v"
    using True by (simp add: string_bytes_def)
  have "(xs @ string_bytes v @ ys) ! length xs = ?i ! 0"
    using first_byte_append [of ?i xs "huffman_bytes v @ ys"] by (simp add: bytes)
  then have flag: "(xs @ string_bytes v @ ys) ! length xs AND 0x80 \<noteq> 0"
    unfolding byte_and_80 by (simp add: integer_bytes_first)
  have "decode_integer_hpack (xs @ string_bytes v @ ys) (length xs) 7 =
          Inr (size_huffman_hpack v, length xs + length ?i)"
    using decode_integer_bytes [of "size_huffman_hpack v" 7 "0x80" xs "huffman_bytes v @ ys"] True assms
    by (simp add: bytes)
  then show ?thesis
    using flag assms decode_huffman_bytes [of v buffer_size]
    by (simp add: decode_string_guarded bytes size_huffman_bytes Let_def)
next
  case False
  let ?i = "integer_bytes 7 0x00 (length v)"
  have bytes: "string_bytes v = ?i @ v"
    using False by (simp add: string_bytes_def)
  have "(xs @ string_bytes v @ ys) ! length xs = ?i ! 0"
    using first_byte_append [of ?i xs "v @ ys"] by (simp add: bytes)
  then have flag: "(xs @ string_bytes v @ ys) ! length xs AND 0x80 = 0"
    unfolding byte_and_80 by (simp add: integer_bytes_first)
  have "decode_integer_hpack (xs @ string_bytes v @ ys) (length xs) 7 = Inr (length v, length xs + length ?i)"
    using decode_integer_bytes [of "length v" 7 "0x00" xs "v @ ys"] assms by (simp add: bytes)
  then show ?thesis
    using flag assms by (simp add: decode_string_guarded bytes Let_def)
qed


section \<open>Fields are read back\<close>

definition field_bytes :: "hpack_table \<Rightarrow> hpack_header \<Rightarrow> bool \<Rightarrow> bytes" where
  "field_bytes t h indexing =
     (case find_hpack_table t h of
        (True, index) \<Rightarrow> integer_bytes 7 0x80 index
      | (False, index) \<Rightarrow>
          (if indexing then integer_bytes 6 0x40 index else integer_bytes 4 0x00 index) @
          (if index = 0 then string_bytes (header_name h) else []) @ string_bytes (header_value h))"

definition field_table :: "hpack_table \<Rightarrow> hpack_header \<Rightarrow> bool \<Rightarrow> hpack_table" where
  "field_table t h indexing =
     (if fst (find_hpack_table t h) \<or> \<not> indexing then t else insert_hpack_table t h)"

text \<open>The literal representation, over the prefix and the flags of either form of it.\<close>

lemma encode_literal:
  assumes "find_hpack_table t h = (False, index)"
    and "prefix = (if indexing then 6 else 4)" and "flags = (if indexing then 0x40 else 0)"
  shows "encode_hpack t buffer buffer_size offset h indexing =
      (case encode_integer_hpack buffer buffer_size offset prefix flags index of
         (Some e, buffer1, offset1) \<Rightarrow> (Some e, t, buffer1, offset1)
       | (None, buffer1, offset1) \<Rightarrow>
           (case (if index = 0 then encode_string_hpack buffer1 buffer_size offset1 (header_name h)
                  else (None, buffer1, offset1)) of
              (Some e, buffer2, offset2) \<Rightarrow> (Some e, t, buffer2, offset2)
            | (None, buffer2, offset2) \<Rightarrow>
                (case encode_string_hpack buffer2 buffer_size offset2 (header_value h) of
                   (Some e, buffer3, offset3) \<Rightarrow> (Some e, t, buffer3, offset3)
                 | (None, buffer3, offset3) \<Rightarrow>
                     (None, if indexing then insert_hpack_table t h else t, buffer3, offset3))))"
    and "field_bytes t h indexing = integer_bytes prefix flags index @
           (if index = 0 then string_bytes (header_name h) else []) @ string_bytes (header_value h)"
    and "above_prefix prefix flags"
  using assms by (simp_all add: encode_hpack_def field_bytes_def)

lemma encode_ok [buffer_simps]:
  assumes "offset + length (field_bytes t h indexing) \<le> buffer_size" and "buffer_size \<le> length buffer"
  shows "encode_hpack t buffer buffer_size offset h indexing =
           (None, field_table t h indexing, memcpy buffer offset (field_bytes t h indexing),
            offset + length (field_bytes t h indexing))"
proof (cases "find_hpack_table t h")
  case (Pair complete index)
  show ?thesis
  proof (cases complete)
    case True
    then show ?thesis
      using assms Pair by (simp add: encode_hpack_def field_bytes_def field_table_def encode_integer_ok)
  next
    case False
    define prefix flags where "prefix = (if indexing then 6 else (4::nat))"
      and "flags = (if indexing then 0x40 else (0::byte))"
    note literal = encode_literal [OF Pair [simplified False] prefix_def flags_def]
    let ?i = "integer_bytes prefix flags index"
    let ?n = "if index = 0 then string_bytes (header_name h) else []"
    let ?v = "string_bytes (header_value h)"
    have i: "encode_integer_hpack buffer buffer_size offset prefix flags index =
               (None, memcpy buffer offset ?i, offset + length ?i)"
      using assms literal(3) by (intro encode_integer_ok) (simp_all add: literal(2))
    let ?buffer = "memcpy buffer offset (?i @ ?n)"
    have n: "(if index = 0 then encode_string_hpack (memcpy buffer offset ?i) buffer_size (offset + length ?i) (header_name h)
               else (None, memcpy buffer offset ?i, offset + length ?i)) =
             (None, ?buffer, offset + length (?i @ ?n))"
      using assms memcpy_memcpy [of offset ?i ?n buffer]
      by (cases "index = 0") (simp_all add: encode_string_ok literal(2))
    have v: "encode_string_hpack ?buffer buffer_size (offset + length (?i @ ?n)) (header_value h) =
             (None, memcpy buffer offset (?i @ ?n @ ?v), offset + length (?i @ ?n @ ?v))"
      using assms memcpy_memcpy [of offset "?i @ ?n" ?v buffer]
      by (subst encode_string_ok) (simp_all add: literal(2))
    show ?thesis
      unfolding literal(1) i prod.case option.case n v
      using Pair False by (simp add: field_table_def literal(2))
  qed
qed

lemma integer_no_space:
  assumes "buffer_size < offset + length (integer_bytes prefix flags v)" and "buffer_size \<le> length buffer"
  obtains buffer' where
    "encode_integer_hpack buffer buffer_size offset prefix flags v = (Some No_space_integer, buffer', offset)"
  using encode_integer_no_space [OF assms] by blast

lemma encode_no_space:
  assumes "buffer_size < offset + length (field_bytes t h indexing)" and "buffer_size \<le> length buffer"
  shows "\<exists>e buffer' offset'. encode_hpack t buffer buffer_size offset h indexing = (Some e, t, buffer', offset')"
proof (cases "find_hpack_table t h")
  case (Pair complete index)
  show ?thesis
  proof (cases complete)
    case True
    then have "buffer_size < offset + length (integer_bytes 7 0x80 index)"
      using assms Pair by (simp add: field_bytes_def)
    then obtain buffer' where
      "encode_integer_hpack buffer buffer_size offset 7 0x80 index = (Some No_space_integer, buffer', offset)"
      using assms(2) by (rule integer_no_space)
    then show ?thesis using True Pair by (simp add: encode_hpack_def)
  next
    case False
    define prefix flags where "prefix = (if indexing then 6 else (4::nat))"
      and "flags = (if indexing then 0x40 else (0::byte))"
    let ?i = "integer_bytes prefix flags index"
    let ?n = "if index = 0 then string_bytes (header_name h) else []"
    let ?v = "string_bytes (header_value h)"
    note literal = encode_literal [OF Pair [simplified False] prefix_def flags_def]
    note unfold = literal(1) and bytes = literal(2) and above = literal(3)
    show ?thesis
    proof (cases "offset + length ?i \<le> buffer_size")
      case False
      then obtain buffer' where
        "encode_integer_hpack buffer buffer_size offset prefix flags index = (Some No_space_integer, buffer', offset)"
        using integer_no_space [of buffer_size offset prefix flags index buffer] assms(2) by auto
      then show ?thesis by (simp add: unfold)
    next
      case i: True
      then have int: "encode_integer_hpack buffer buffer_size offset prefix flags index =
                        (None, memcpy buffer offset ?i, offset + length ?i)"
        using assms(2) above by (intro encode_integer_ok) simp_all
      show ?thesis
      proof (cases "offset + length ?i + length ?n \<le> buffer_size")
        case False
        then have "index = 0" using i by (auto split: if_splits)
        moreover from this have
          "fst (encode_string_hpack (memcpy buffer offset ?i) buffer_size (offset + length ?i) (header_name h)) \<noteq> None"
          using False assms(2) i by (intro encode_string_no_space) simp_all
        ultimately show ?thesis unfolding unfold int by (auto split: prod.splits option.splits)
      next
        case n: True
        obtain buffer2 where name:
          "(if index = 0 then encode_string_hpack (memcpy buffer offset ?i) buffer_size (offset + length ?i) (header_name h)
            else (None, memcpy buffer offset ?i, offset + length ?i)) =
             (None, buffer2, offset + length ?i + length ?n)" and "length buffer2 = length buffer"
          using n assms(2) i by (cases "index = 0") (simp_all add: encode_string_ok)
        then have "fst (encode_string_hpack buffer2 buffer_size (offset + length ?i + length ?n) (header_value h)) \<noteq> None"
          using assms bytes by (intro encode_string_no_space) simp_all
        then show ?thesis unfolding unfold int prod.case option.case name
          by (auto split: prod.splits option.splits simp del: if_split split del: if_split)
      qed
    qed
  qed
qed


lemma header_eta [simp]: "\<lparr>header_name = header_name h, header_value = header_value h\<rparr> = h"
  by (cases h) simp

text \<open>The leading bits of the representations.\<close>

lemma byte_and_e0: "(b AND 0xe0 :: byte) = 0x20 \<longleftrightarrow> 32 \<le> unat b \<and> unat b < 64"
  by (rule all_bytes) code_simp

lemma byte_and_40: "(b AND 0x40 :: byte) = 0 \<longleftrightarrow> unat b mod 128 < 64"
  by (rule all_bytes) code_simp

lemma decode_name_ok:
  assumes "ring_ok t" and "find_hpack_table t h = (False, index)"
    and "length (header_name h) \<le> HPACK_MAX_NAME_SIZE"
  shows "decode_name t (xs @ (if index = 0 then string_bytes (header_name h) else []) @ ys) (length xs) index =
           Inr (header_name h, length xs + length (if index = 0 then string_bytes (header_name h) else []))"
proof (cases "index = 0")
  case True
  then show ?thesis
    using assms decode_string_bytes [of "header_name h" HPACK_MAX_NAME_SIZE xs ys] by (simp add: decode_name_def)
next
  case False
  then obtain g where "get_hpack_table t index = Inr g" "header_name g = header_name h"
    using search_name [of "address_space t" 1 h 0 index] assms
    by (auto simp: get_table find_table)
  then show ?thesis using assms False by (simp add: decode_name_def)
qed

lemma index_small:
  assumes "table_ok t" and "find_hpack_table t h = (complete, index)"
  shows "index \<le> 189"
  using dynamic.find_bound [OF assms] dynamic.fields_bounded [OF assms(1)] by simp

lemma decode_representation_ok:
  assumes agree: "dynamic.agree te td"
    and name: "length (header_name h) \<le> HPACK_MAX_NAME_SIZE"
    and v: "length (header_value h) \<le> HPACK_MAX_VALUE_SIZE"
  shows "decode_representation td (xs @ field_bytes te h indexing @ ys) (length xs) field =
           (field_table td h indexing, Inr (length xs + length (field_bytes te h indexing), Some h))"
proof (cases "find_hpack_table td h")
  case (Pair complete index)
  have ok: "table_ok td" using agree by (simp add: dynamic.agree_def)
  have te: "find_hpack_table te h = (complete, index)"
    using dynamic.agree_find [OF agree] Pair by simp
  note small = index_small [OF ok Pair]
  show ?thesis
  proof (cases complete)
    case True
    let ?i = "integer_bytes 7 0x80 index"
    have bytes: "field_bytes te h indexing = ?i" using te True by (simp add: field_bytes_def)
    have "unat ((xs @ ?i @ ys) ! length xs) \<ge> 128"
      using first_byte_append [of ?i xs ys] by (simp add: integer_bytes_first)
    then have "(xs @ ?i @ ys) ! length xs AND 0x80 \<noteq> 0" unfolding byte_and_80 by simp
    moreover have "get_hpack_table td index = Inr h"
      using dynamic.find_complete [OF ok] Pair True by simp
    moreover have "decode_integer_hpack (xs @ ?i @ ys) (length xs) 7 = Inr (index, length xs + length ?i)"
      using small by (intro decode_integer_bytes) simp_all
    ultimately show ?thesis
      using Pair True by (simp add: decode_representation_def bytes decode_indexed_def field_table_def Let_def)
  next
    case False
    define prefix flags where "prefix = (if indexing then 6 else (4::nat))"
      and "flags = (if indexing then 0x40 else (0::byte))"
    note literal = encode_literal [OF te [simplified False] prefix_def flags_def]
    let ?i = "integer_bytes prefix flags index"
    let ?n = "if index = 0 then string_bytes (header_name h) else []"
    let ?v = "string_bytes (header_value h)"
    let ?data = "xs @ field_bytes te h indexing @ ys"
    let ?b = "?data ! length xs"
    have first: "unat ?b = unat flags + min index (2 ^ prefix - 1)"
      using first_byte_append [of ?i xs "?n @ ?v @ ys"]
      by (simp add: literal(2) integer_bytes_first prefix_def flags_def)
    have bits: "?b AND 0x80 = 0" "?b AND 0xe0 \<noteq> 0x20" "?b AND 0x40 \<noteq> 0 \<longleftrightarrow> indexing"
      unfolding byte_and_80 byte_and_e0 byte_and_40 first by (auto simp: prefix_def flags_def)
    have "decode_integer_hpack ?data (length xs) prefix = Inr (index, length xs + length ?i)"
      using decode_integer_bytes [of index prefix flags xs "?n @ ?v @ ys"] small literal(3)
      by (auto simp: literal(2) prefix_def)
    moreover have "decode_name td ?data (length xs + length ?i) index =
        Inr (header_name h, length xs + length ?i + length ?n)"
      using decode_name_ok [OF table_ok_ring [OF ok] _ name, of index "xs @ ?i" "?v @ ys"] Pair False
      by (simp add: literal(2))
    moreover have "decode_string_hpack ?data (length xs + length ?i + length ?n) HPACK_MAX_VALUE_SIZE =
        Inr (header_value h, length xs + length (field_bytes te h indexing))"
      using decode_string_bytes [of "header_value h" HPACK_MAX_VALUE_SIZE "xs @ ?i @ ?n" ys] v
      by (simp add: literal(2) add.assoc del: if_split split del: if_split)
    ultimately have "decode_literal td ?data (length xs) ?b =
        (if indexing then insert_hpack_table td h else td,
         Inr (length xs + length (field_bytes te h indexing), Some h))"
      using bits(3) by (simp add: decode_literal_def Let_def prefix_def)
    moreover have "length xs < length ?data" by (simp add: literal(2))
    ultimately show ?thesis
      using bits False Pair by (simp add: decode_representation_guarded Let_def field_table_def del: read_byte_Inr)
  qed
qed


section \<open>Blocks are read back\<close>

text \<open>The fields of a block, each one with whether it joins the table, encoded one after the other.\<close>

fun encode_fields ::
    "hpack_table \<Rightarrow> bytes \<Rightarrow> nat \<Rightarrow> nat \<Rightarrow> (hpack_header \<times> bool) list \<Rightarrow>
       error option \<times> hpack_table \<times> bytes \<times> nat" where
  "encode_fields t buffer buffer_size offset [] = (None, t, buffer, offset)"
| "encode_fields t buffer buffer_size offset ((h, indexing) # hs) =
     (case encode_hpack t buffer buffer_size offset h indexing of
        (Some e, t', buffer', offset') \<Rightarrow> (Some e, t', buffer', offset')
      | (None, t', buffer', offset') \<Rightarrow> encode_fields t' buffer' buffer_size offset' hs)"

fun block_bytes :: "hpack_table \<Rightarrow> (hpack_header \<times> bool) list \<Rightarrow> bytes" where
  "block_bytes t [] = []"
| "block_bytes t ((h, indexing) # hs) = field_bytes t h indexing @ block_bytes (field_table t h indexing) hs"

fun block_table :: "hpack_table \<Rightarrow> (hpack_header \<times> bool) list \<Rightarrow> hpack_table" where
  "block_table t [] = t"
| "block_table t ((h, indexing) # hs) = block_table (field_table t h indexing) hs"

text \<open>The callback over the fields of a block, until it raises.\<close>

fun feed :: "('p \<Rightarrow> hpack_header \<Rightarrow> error option \<times> 'p) \<Rightarrow> 'p \<Rightarrow> hpack_header list \<Rightarrow> error option \<times> 'p" where
  "feed callback parameters [] = (None, parameters)"
| "feed callback parameters (h # hs) =
     (case callback parameters h of
        (Some e, parameters') \<Rightarrow> (Some e, parameters')
      | (None, parameters') \<Rightarrow> feed callback parameters' hs)"

lemma agree_field_table:
  "dynamic.agree t t' \<Longrightarrow> dynamic.agree (field_table t h indexing) (field_table t' h indexing)"
  using dynamic.agree_find [of t t' h] by (simp add: field_table_def dynamic.agree_insert)

lemma agree_block_table: "dynamic.agree t t' \<Longrightarrow> dynamic.agree (block_table t fs) (block_table t' fs)"
  by (induction t fs arbitrary: t' rule: block_table.induct) (simp_all add: agree_field_table)

lemma agree_ok: "dynamic.agree t t' \<Longrightarrow> table_ok t \<and> table_ok t'"
  by (simp add: dynamic.agree_def)

lemma agree_refl: "table_ok t \<Longrightarrow> dynamic.agree t t"
  by (simp add: dynamic.agree_def)

lemma encode_fields_ok:
  "offset + length (block_bytes t fs) \<le> buffer_size \<Longrightarrow> buffer_size \<le> length buffer \<Longrightarrow>
     encode_fields t buffer buffer_size offset fs =
       (None, block_table t fs, memcpy buffer offset (block_bytes t fs), offset + length (block_bytes t fs))"
proof (induction t fs arbitrary: buffer offset rule: block_bytes.induct)
  case (2 t h indexing fs)
  then show ?case
    using memcpy_memcpy [of offset "field_bytes t h indexing" "block_bytes (field_table t h indexing) fs" buffer]
    by (simp add: encode_ok)
qed simp

lemma encode_fields_inverse:
  assumes "encode_fields t buffer buffer_size offset fs = (None, t', buffer', offset')"
    and "buffer_size \<le> length buffer" and "offset \<le> buffer_size"
  shows "t' = block_table t fs \<and> buffer' = memcpy buffer offset (block_bytes t fs)
           \<and> offset' = offset + length (block_bytes t fs) \<and> offset' \<le> buffer_size"
  using assms
proof (induction t fs arbitrary: buffer offset rule: block_bytes.induct)
  case (2 t h indexing fs)
  have fits: "offset + length (field_bytes t h indexing) \<le> buffer_size"
    using "2.prems" encode_no_space [of buffer_size offset t h indexing buffer]
    by (fastforce simp: not_less [symmetric])
  let ?buffer = "memcpy buffer offset (field_bytes t h indexing)"
  have "encode_fields (field_table t h indexing) ?buffer buffer_size (offset + length (field_bytes t h indexing)) fs
          = (None, t', buffer', offset')"
    using "2.prems" fits by (simp add: encode_ok)
  then have "t' = block_table t ((h, indexing) # fs)
      \<and> buffer' = memcpy ?buffer (offset + length (field_bytes t h indexing)) (block_bytes (field_table t h indexing) fs)
      \<and> offset' = offset + length (block_bytes t ((h, indexing) # fs)) \<and> offset' \<le> buffer_size"
    using "2.IH" [of ?buffer "offset + length (field_bytes t h indexing)"] fits "2.prems"(2)
    by (simp add: add.assoc)
  then show ?case
    using "2.prems"(2) memcpy_memcpy [of offset "field_bytes t h indexing" "block_bytes (field_table t h indexing) fs" buffer]
    by simp
qed simp

definition sizes_accepted :: "hpack_header \<Rightarrow> bool" where
  "sizes_accepted h \<longleftrightarrow>
     length (header_name h) \<le> HPACK_MAX_NAME_SIZE \<and> length (header_value h) \<le> HPACK_MAX_VALUE_SIZE"

lemma field_bytes_not_Nil [simp]: "field_bytes t h indexing \<noteq> []"
  by (auto simp: field_bytes_def split: prod.splits bool.splits)

lemma decode_block_ok:
  assumes "dynamic.agree te td" and "list_all (sizes_accepted \<circ> fst) fs"
    and "list_size + fields_size (map fst fs) \<le> HPACK_MAX_HEADER_LIST_SIZE"
    and "feed callback parameters (map fst fs) = (r, parameters')"
  shows "\<exists>t'. decode_hpack_loop callback (xs @ block_bytes te fs) td (length xs) field list_size parameters
            = (r, t', parameters') \<and> (r = None \<longrightarrow> t' = block_table td fs)"
  using assms
proof (induction te fs arbitrary: td xs field list_size parameters rule: block_bytes.induct)
  case (1 te)
  then show ?case by (simp add: decode_hpack_loop.simps [of _ xs])
next
  case (2 te h indexing fs)
  let ?data = "xs @ block_bytes te ((h, indexing) # fs)"
  let ?xs = "xs @ field_bytes te h indexing"
  have rep: "decode_representation td ?data (length xs) field =
      (field_table td h indexing, Inr (length ?xs, Some h))"
    using "2.prems" decode_representation_ok [of te td h xs indexing "block_bytes (field_table te h indexing) fs" field]
    by (simp add: sizes_accepted_def)
  have size: "list_size + (length (header_name h) + length (header_value h) + HPACK_ENTRY_OVERHEAD) = list_size + header_size h"
    by (simp add: header_size_def)
  have step: "decode_hpack_loop callback ?data td (length xs) field list_size parameters =
      (case callback parameters h of
         (Some e, p) \<Rightarrow> (Some e, field_table td h indexing, p)
       | (None, p) \<Rightarrow> decode_hpack_loop callback ?data (field_table td h indexing) (length ?xs) True
             (list_size + header_size h) p)"
  proof -
    have "length xs < length ?data" and "\<not> HPACK_MAX_HEADER_LIST_SIZE < list_size + header_size h"
      using "2.prems"(3) by simp_all
    then show ?thesis
      unfolding decode_hpack_loop.simps [of callback ?data td "length xs"] rep Let_def
      by (simp only: size if_True if_False prod.case sum.case option.case)
  qed
  show ?case
  proof (cases "callback parameters h")
    case (Pair e p)
    show ?thesis
    proof (cases e)
      case None
      have "\<exists>t'. decode_hpack_loop callback (?xs @ block_bytes (field_table te h indexing) fs) (field_table td h indexing)
          (length ?xs) True (list_size + header_size h) p = (r, t', parameters')
          \<and> (r = None \<longrightarrow> t' = block_table (field_table td h indexing) fs)"
        using "2.prems" Pair None by (intro "2.IH") (simp_all add: agree_field_table add.assoc)
      then show ?thesis
        unfolding step using Pair None by simp
    next
      case (Some e')
      then show ?thesis
        unfolding step using Pair "2.prems"(4) by auto
    qed
  qed
qed


section \<open>An arbitrary block\<close>

text \<open>What the decoder keeps whatever it is given: the table stays well formed.\<close>

lemma decode_representation_table:
  assumes "table_ok t"
  shows "table_ok (fst (decode_representation t data offset field))"
proof -
  have "table_ok (fst (decode_size_update t data offset field))"
    using assms dynamic.resize_ok [OF assms]
    by (auto simp: decode_size_update_def split: sum.splits prod.splits option.splits) (metis snd_conv)+
  moreover have "table_ok (fst (decode_literal t data offset byte))" for byte
    using assms dynamic.insert_keeps [OF assms]
    by (simp add: decode_literal_def Let_def split: sum.splits prod.splits)
  ultimately show ?thesis
    using assms by (auto simp: decode_representation_def decode_indexed_def split: sum.split)
qed

lemma decode_loop_table:
  assumes "table_ok t"
  shows "table_ok (fst (snd (decode_hpack_loop callback data t offset field list_size parameters)))"
  using assms
proof (induction callback data t offset field list_size parameters rule: decode_hpack_loop.induct)
  case (1 callback data t offset field list_size parameters)
  obtain t' r where rep: "decode_representation t data offset field = (t', r)" by fastforce
  have ok: "table_ok t'"
    using decode_representation_table [OF "1.prems", of data offset field] rep by simp
  show ?case
    using "1.IH" [OF _ rep [symmetric]] ok "1.prems"
    unfolding decode_hpack_loop.simps [of callback data t offset] rep
    by (auto simp: Let_def split: sum.splits option.splits prod.splits)
qed

text \<open>What it hands over: the fields are within the accepted sizes, and their list too.\<close>

lemma get_header_sizes:
  assumes "table_ok t" and "get_hpack_table t index = Inr h" and "list_all sizes_accepted (table_fields t)"
  shows "sizes_accepted h"
proof -
  have "list_all sizes_accepted hpack_static_table"
    by (simp add: hpack_static_table_def sizes_accepted_def header_def)
  then have "list_all sizes_accepted (address_space t)"
    using assms(3) by (simp add: address_space_def)
  then show ?thesis
    using assms(2) by (auto simp: get_table [OF table_ok_ring [OF assms(1)]] list_all_length split: if_splits)
qed


definition block_ok :: "hpack_table \<Rightarrow> bool" where
  "block_ok t \<longleftrightarrow> table_ok t \<and> list_all sizes_accepted (table_fields t)"

lemma list_all_keep_newest: "list_all P hs \<Longrightarrow> list_all P (keep_newest limit used hs)"
  by (induction hs arbitrary: used) simp_all

lemma block_ok_insert: "block_ok t \<Longrightarrow> sizes_accepted h \<Longrightarrow> block_ok (insert_hpack_table t h)"
  using dynamic.insert_keeps [of t h] dynamic.insert_fields [of t h]
  by (simp add: block_ok_def list_all_keep_newest)

lemma block_ok_resize: "block_ok t \<Longrightarrow> block_ok (snd (resize_hpack_table t n))"
proof -
  assume ok: "block_ok t"
  show ?thesis
  proof (cases "n \<le> HPACK_TABLE_SIZE")
    case True
    then show ?thesis
      using dynamic.resize_small [of t n] ok by (auto simp: block_ok_def list_all_keep_newest)
  qed (use ok in \<open>simp add: resize_table_above\<close>)
qed

lemma decode_name_accepted:
  "decode_name t data offset index = Inr (s, offset') \<Longrightarrow> length s \<le> HPACK_MAX_NAME_SIZE"
  by (auto simp: decode_name_def dest: decode_string_position split: if_splits sum.splits)

lemma decode_representation_accepted:
  assumes ok: "block_ok t" and rep: "decode_representation t data offset field = (t', r)"
  shows "block_ok t' \<and> (case r of Inr (_, Some h) \<Rightarrow> sizes_accepted h | _ \<Rightarrow> True)"
proof -
  consider (outside) e where "t' = t" "r = Inl e"
    | (indexed) "decode_indexed t data offset = (t', r)"
    | (update) "decode_size_update t data offset field = (t', r)"
    | (literal) byte where "decode_literal t data offset byte = (t', r)"
    using rep by (auto simp: decode_representation_def split: if_splits sum.splits)
  then show ?thesis
  proof cases
    case outside
    then show ?thesis using ok by simp
  next
    case indexed
    then show ?thesis
      using ok get_header_sizes by (auto simp: decode_indexed_def block_ok_def split: sum.splits)
  next
    case update
    then show ?thesis
      using ok block_ok_resize [OF ok] by (auto simp: decode_size_update_def split: sum.splits option.splits prod.splits if_splits)
        (metis snd_conv)+
  next
    case literal
    have "sizes_accepted \<lparr>header_name = n, header_value = v\<rparr>"
      if "decode_name t data o1 index = Inr (n, o2)" "decode_string_hpack data o2 4096 = Inr (v, o3)" for n v o1 o2 o3 index
      using decode_name_accepted [OF that(1)] decode_string_position(3) [OF that(2)] by (simp add: sizes_accepted_def)
    then show ?thesis
      using literal ok
      by (auto simp: decode_literal_def Let_def block_ok_insert split: sum.splits prod.splits if_splits)
  qed
qed

text \<open>The callback together with the fields it has been handed.\<close>

definition logged ::
    "('p \<Rightarrow> hpack_header \<Rightarrow> error option \<times> 'p) \<Rightarrow> 'p \<times> hpack_header list \<Rightarrow> hpack_header \<Rightarrow>
       error option \<times> 'p \<times> hpack_header list" where
  "logged callback st h =
     (case callback (fst st) h of (r, p) \<Rightarrow> (r, p, snd st @ [h]))"

lemma decode_loop_accepted:
  assumes "block_ok t" and "list_all sizes_accepted hs" and "fields_size hs = list_size"
    and "list_size \<le> HPACK_MAX_HEADER_LIST_SIZE"
    and "decode_hpack_loop (logged callback) data t offset field list_size (p, hs) = (r, t', p', hs')"
  shows "block_ok t' \<and> list_all sizes_accepted hs' \<and> fields_size hs' \<le> HPACK_MAX_HEADER_LIST_SIZE"
  using assms
proof (induction "logged callback" data t offset field list_size "(p, hs)" arbitrary: p hs
    rule: decode_hpack_loop.induct)
  case (1 data t offset field list_size p hs)
  obtain t1 r1 where rep: "decode_representation t data offset field = (t1, r1)" by fastforce
  note accepted = decode_representation_accepted [OF "1.prems"(1) rep]
  show ?case
  proof (cases "offset < length data")
    case True
    note step = "1.prems"(5) [unfolded decode_hpack_loop.simps [of _ data t offset] rep, simplified True if_True prod.case]
    show ?thesis
    proof (cases r1)
      case (Inl e)
      then show ?thesis using step accepted "1.prems" by simp
    next
      case (Inr b)
      obtain offset' f where b: "b = (offset', f)" by fastforce
      show ?thesis
      proof (cases f)
        case None
        show ?thesis
          using "1.hyps"(1) [OF True rep [symmetric] Inr b [symmetric] None] step accepted "1.prems" Inr b None by simp
      next
        case (Some h)
        define size where "size = list_size + (length (header_name h) + length (header_value h) + HPACK_ENTRY_OVERHEAD)"
        have size: "size = list_size + header_size h" by (simp add: size_def header_size_def)
        note step' = step [unfolded Inr b Some, simplified sum.case prod.case option.case Let_def, folded size_def]
        show ?thesis
        proof (cases "size > HPACK_MAX_HEADER_LIST_SIZE")
          case True
          then show ?thesis using step' accepted "1.prems" by simp
        next
          case False
          obtain r2 p2 where cb: "callback p h = (r2, p2)" by fastforce
          then have log: "logged callback (p, hs) h = (r2, p2, hs @ [h])" by (simp add: logged_def)
          note ok = accepted [unfolded Inr b Some, simplified]
          show ?thesis
          proof (cases r2)
            case None
            have "decode_hpack_loop (logged callback) data t1 offset' True size (p2, hs @ [h]) = (r, t', p', hs')"
              using step' False log None by simp
            then show ?thesis
              using "1.hyps"(2) [OF True rep [symmetric] Inr b [symmetric] Some size_def False log [symmetric] None]
                ok "1.prems" size False by simp
          next
            case (Some e)
            then show ?thesis using step' False log ok "1.prems"(1-4) size by auto
          qed
        qed
      qed
    qed
  next
    case False
    then show ?thesis using "1.prems" by (simp add: decode_hpack_loop.simps [of _ data t offset])
  qed
qed

text \<open>An invariant of the callback holds at the end of a block, whatever its bytes.\<close>

lemma decode_loop_invariant:
  assumes "block_ok t" and "P p" and "\<And>q h. P q \<Longrightarrow> sizes_accepted h \<Longrightarrow> P (snd (callback q h))"
  shows "block_ok (fst (snd (decode_hpack_loop callback data t offset field list_size p)))
    \<and> P (snd (snd (decode_hpack_loop callback data t offset field list_size p)))"
  using assms
proof (induction callback data t offset field list_size p rule: decode_hpack_loop.induct)
  case (1 callback data t offset field list_size p)
  obtain t' r where rep: "decode_representation t data offset field = (t', r)" by fastforce
  note accepted = decode_representation_accepted [OF "1.prems"(1) rep]
  show ?case
  proof (cases "offset < length data")
    case True
    note step = decode_hpack_loop.simps [of callback data t offset field list_size p] rep
    show ?thesis
    proof (cases r)
      case (Inl e)
      then show ?thesis using True step accepted "1.prems"(2) by simp
    next
      case (Inr b)
      obtain offset' f where b: "b = (offset', f)" by fastforce
      show ?thesis
      proof (cases f)
        case None
        then show ?thesis
          using "1.IH"(1) [OF True rep [symmetric] Inr b [symmetric] None] True step accepted "1.prems" Inr b by simp
      next
        case (Some h)
        have ok: "block_ok t'" "sizes_accepted h" using accepted Inr b Some by simp_all
        obtain r2 p2 where cb: "callback p h = (r2, p2)" by fastforce
        then have P: "P p2" using "1.prems"(3) [OF "1.prems"(2) ok(2)] by simp
        show ?thesis
        proof (cases "list_size + (length (header_name h) + length (header_value h) + HPACK_ENTRY_OVERHEAD)
            > HPACK_MAX_HEADER_LIST_SIZE")
          case large: True
          then show ?thesis using True step ok "1.prems"(2) Inr b Some by simp
        next
          case small: False
          show ?thesis
          proof (cases r2)
            case None
            then show ?thesis
              using "1.IH"(2) [OF True rep [symmetric] Inr b [symmetric] Some refl small cb [symmetric] None ok(1) P "1.prems"(3)]
                True step small cb Inr b Some by simp
          next
            case (Some e)
            then show ?thesis using True step small cb Inr b \<open>f = Some h\<close> ok P by simp
          qed
        qed
      qed
    qed
  qed (use "1.prems" in \<open>simp add: decode_hpack_loop.simps\<close>)
qed

lemma decode_hpack_invariant:
  assumes "block_ok t" and "P p" and "\<And>q h. P q \<Longrightarrow> sizes_accepted h \<Longrightarrow> P (snd (callback q h))"
    and "decode_hpack t data callback p = (r, t', p')"
  shows "block_ok t'" and "P p'"
  using decode_loop_invariant [of t P p callback data 0 False 0, OF assms(1-3)] assms(4)
  by (simp_all add: decode_hpack_def)

section \<open>The errors of the decoder\<close>

text \<open>
  The errors a block raises, all of them runtime exceptions: no read is outside of the block
  and no entry is read once it has been released.
\<close>

definition raised :: "error \<Rightarrow> bool" where
  "raised e \<longleftrightarrow> (\<exists>m. e = Runtime_Exception m)"

lemmas raised_defs = raised_def Truncated_integer_def Overflowing_integer_def Truncated_string_def
  String_above_def Invalid_code_def EOS_symbol_def Decoded_too_large_def Padding_above_byte_def
  Invalid_padding_def Table_size_above_def Invalid_zero_index_def Index_above_def
  Size_update_after_field_def Name_above_def Header_list_above_def

lemma decode_integer_raised: "decode_integer_hpack data offset prefix = Inl e \<Longrightarrow> raised e"
  using decode_integer_error [of data offset prefix e] by (auto simp: raised_defs)

lemma decode_huffman_bits_raised: "decode_huffman_bits buffer_size bs st = Inl e \<Longrightarrow> raised e"
proof (induction bs arbitrary: st)
  case (Cons b bs)
  have "decode_huffman_step buffer_size b st = Inl e \<Longrightarrow> raised e"
    by (cases st) (auto simp: decode_huffman_step_code Let_def raised_defs split: if_splits)
  then show ?case using Cons by (auto split: sum.splits)
qed simp

lemma decode_huffman_raised: "decode_huffman_hpack data buffer_size = Inl e \<Longrightarrow> raised e"
  unfolding decode_huffman_final
  by (auto split: sum.splits if_splits dest: decode_huffman_bits_raised simp: raised_defs)

lemma decode_string_raised: "decode_string_hpack data offset buffer_size = Inl e \<Longrightarrow> raised e"
proof -
  assume "decode_string_hpack data offset buffer_size = Inl e"
  then consider "e = Truncated_string" | "e = String_above" | "decode_integer_hpack data offset 7 = Inl e"
    | coded where "decode_huffman_hpack coded buffer_size = Inl e"
    by (auto simp: decode_string_guarded Let_def split: sum.splits if_splits)
  then show ?thesis
    by cases (simp_all add: decode_integer_raised decode_huffman_raised, simp_all add: raised_defs)
qed

lemma get_raised: "table_ok t \<Longrightarrow> get_hpack_table t index = Inl e \<Longrightarrow> raised e"
  using dynamic.get_error [of t index e] by (auto simp: raised_defs)

lemma decode_name_raised:
  assumes ok: "table_ok t" and name: "decode_name t data offset index = Inl e"
  shows "raised e"
proof (cases "index = 0")
  case True
  then show ?thesis using name decode_string_raised by (simp add: decode_name_def)
next
  case False
  show ?thesis
  proof (cases "get_hpack_table t index")
    case (Inl e')
    then show ?thesis using name False get_raised [OF ok Inl] by (simp add: decode_name_def)
  next
    case (Inr h)
    then show ?thesis
      using name False by (auto simp: decode_name_def raised_def Name_above_def split: if_splits)
  qed
qed

lemma decode_indexed_raised: "table_ok t \<Longrightarrow> decode_indexed t data offset = (t', Inl e) \<Longrightarrow> raised e"
  by (auto simp: decode_indexed_def decode_integer_raised get_raised split: sum.splits)

lemma decode_size_update_raised:
  assumes "table_ok t" and "decode_size_update t data offset field = (t', Inl e)"
  shows "raised e"
proof -
  consider "e = Size_update_after_field" | "decode_integer_hpack data offset 5 = Inl e"
    | n where "resize_hpack_table t n = (Some e, t')"
    using assms(2) by (auto simp: decode_size_update_def split: sum.splits option.splits prod.splits if_splits)
  then show ?thesis
  proof cases
    case 3
    then show ?thesis using dynamic.resize_error [OF _ assms(1)] by (auto simp: raised_defs)
  qed (auto simp: raised_def Size_update_after_field_def dest: decode_integer_raised)
qed

lemma decode_literal_raised:
  assumes "table_ok t" and "decode_literal t data offset byte = (t', Inl e)"
  shows "raised e"
proof -
  consider "decode_integer_hpack data offset (if byte AND 0x40 \<noteq> 0 then 6 else 4) = Inl e"
    | position index where "decode_name t data position index = Inl e"
    | position where "decode_string_hpack data position HPACK_MAX_VALUE_SIZE = Inl e"
    using assms(2) by (cases "byte AND 0x40 \<noteq> 0") (auto simp: decode_literal_def Let_def split: sum.splits)
  then show ?thesis
    by cases (auto dest: decode_integer_raised decode_name_raised [OF assms(1)] decode_string_raised)
qed

lemma decode_representation_raised:
  assumes "table_ok t" and "offset < length data" and "decode_representation t data offset field = (t', Inl e)"
  shows "raised e"
  using assms(2,3) decode_indexed_raised [OF assms(1)] decode_size_update_raised [OF assms(1)]
    decode_literal_raised [OF assms(1)]
  by (auto simp: decode_representation_guarded Let_def split: if_splits)

lemma decode_loop_raised:
  assumes "table_ok t" and "\<And>p h e. fst (callback p h) = Some e \<Longrightarrow> raised e"
    and "decode_hpack_loop callback data t offset field list_size parameters = (Some e, t', p')"
  shows "raised e"
  using assms
proof (induction callback data t offset field list_size parameters rule: decode_hpack_loop.induct)
  case (1 callback data t offset field list_size parameters)
  obtain t1 r where rep: "decode_representation t data offset field = (t1, r)" by fastforce
  have ok: "table_ok t1"
    using decode_representation_table [OF "1.prems"(1), of data offset field] rep by simp
  have list: "raised Header_list_above" by (simp add: raised_defs)
  consider "offset < length data" "r = Inl e" | offset' where "offset < length data" "r = Inr (offset', None)"
      "decode_hpack_loop callback data t1 offset' field list_size parameters = (Some e, t', p')"
    | "e = Header_list_above" | h p where "callback p h = (Some e, p')"
    | offset' h p where "offset < length data" "r = Inr (offset', Some h)"
      "list_size + (length (header_name h) + length (header_value h) + HPACK_ENTRY_OVERHEAD) \<le> HPACK_MAX_HEADER_LIST_SIZE"
      "callback parameters h = (None, p)"
      "decode_hpack_loop callback data t1 offset' True
         (list_size + (length (header_name h) + length (header_value h) + HPACK_ENTRY_OVERHEAD)) p = (Some e, t', p')"
    using "1.prems"(3) unfolding decode_hpack_loop.simps [of callback data t offset] rep
    by (auto simp: Let_def split: sum.splits option.splits prod.splits if_splits)
  then show ?case
  proof cases
    case 1
    then show ?thesis using decode_representation_raised [OF "1.prems"(1), of offset data field t1] rep by simp
  next
    case 2
    then show ?thesis using "1.IH"(1) [OF _ rep [symmetric]] ok "1.prems"(2) by simp
  next
    case 4
    then show ?thesis using "1.prems"(2) [of p h] by simp
  next
    case 5
    then show ?thesis using "1.IH"(2) [OF _ rep [symmetric]] ok "1.prems"(2) by (simp add: not_less)
  qed (use list in simp)
qed


section \<open>Properties\<close>


definition witness_fields :: "(hpack_header \<times> bool) list" where
  "witness_fields = [(header '':method'' ''GET'', False), (header '':status'' ''200'', True)]"


text \<open>C14: whatever the bytes of a block are, the decoder is safe, for a well formed table whose fields it
  has accepted before and a callback that raises exceptions of the code: the table stays well
  formed and within its bounds, every field it hands to the callback has a name and a value within
  the sizes of the buffers of the code, the list of them stays within
  \<open>HPACK_MAX_HEADER_LIST_SIZE\<close>, and the decoding never ends in a read outside of the block (every read
  of a byte or of the bytes of a string is checked against the block, so that one that the guards of the code
  did not bound would be the error \<open>Out_Of_Bounds\<close>) nor in a read of a released entry.\<close>

theorem decode_hpack_safe:
  assumes "table_ok t" and "list_all sizes_accepted (table_fields t)"
    and "decode_hpack t data (logged callback) (p, []) = (r, t', p', hs)"
    and "\<And>q h e. fst (callback q h) = Some e \<Longrightarrow> raised e"
  shows "table_ok t' \<and> list_all sizes_accepted (table_fields t') \<and> list_all sizes_accepted hs
    \<and> fields_size hs \<le> HPACK_MAX_HEADER_LIST_SIZE \<and> r \<noteq> Some Out_Of_Bounds"
proof -
  have "fst (logged callback q h) = Some e \<Longrightarrow> raised e" for q h e
    using assms(4) [of "fst q" h e] by (simp add: logged_def split: prod.splits)
  then have "r \<noteq> Some Out_Of_Bounds"
    using decode_loop_raised [of t "logged callback" data 0 False 0 "(p, [])"] assms(1,3)
    by (auto simp: decode_hpack_def raised_def)
  then show ?thesis
    using decode_loop_accepted [of t "[]" 0 callback data 0 False p r t' p' hs] assms(1-3)
    by (simp add: block_ok_def decode_hpack_def)
qed

lemma static_table_1: "hpack_static_table ! Suc 0 = header '':method'' ''GET''"
  by (simp add: hpack_static_table_def)

theorem decode_hpack_safe_witness:
  "table_ok create_hpack_table \<and> list_all sizes_accepted (table_fields create_hpack_table)
    \<and> list_all sizes_accepted [header '':method'' ''GET'']
    \<and> fields_size [header '':method'' ''GET''] \<le> HPACK_MAX_HEADER_LIST_SIZE
    \<and> Some Invalid_zero_index \<noteq> Some Out_Of_Bounds"
proof (rule decode_hpack_safe [where p = "()" and p' = "()" and data = "[0x82, 0x80]"
      and callback = "\<lambda>_ _. (None, ())" and t = create_hpack_table])
  show "decode_hpack create_hpack_table [0x82, 0x80] (logged (\<lambda>_ _. (None, ()))) ((), []) =
      (Some Invalid_zero_index, create_hpack_table, (), [header '':method'' ''GET''])"
    using static_table_1
    by (simp add: decode_hpack_def decode_hpack_loop.simps decode_representation_def decode_indexed_def
        decode_integer_guarded Let_def get_hpack_table_def logged_def header_def)
qed (simp_all add: create_table)

end
