(* ===== verification/Http2_Frame.thy ===== *)
theory Http2_Frame
  imports Hpack
begin

text \<open>
  The frames of \<^verbatim>\<open>src/src/viriatum/http/http2.c\<close> and \<^verbatim>\<open>http2.h\<close>: the numbers of the
  protocol, the header of a frame, the padding, the priority, the settings and the frames whose
  payload is a number, with the verification of a frame. The lemmas give the bytes each encoder
  writes and that the decoder reads them back, and the settings a peer can impose.
\<close>

section \<open>Data\<close>

definition HTTP2_PREFACE :: bytes where
  "HTTP2_PREFACE = ascii (''PRI * HTTP/2.0'' @ [CHR 0x0d, CHR 0x0a, CHR 0x0d, CHR 0x0a] @ ''SM'' @
     [CHR 0x0d, CHR 0x0a, CHR 0x0d, CHR 0x0a])"

definition HTTP2_PREFACE_SIZE :: nat where [simp]: "HTTP2_PREFACE_SIZE = 24"
definition HTTP2_HEADER_SIZE :: nat where [simp]: "HTTP2_HEADER_SIZE = 9"
definition HTTP2_DEFAULT_FRAME_SIZE :: nat where [simp]: "HTTP2_DEFAULT_FRAME_SIZE = 16384"
definition HTTP2_MAX_FRAME_SIZE :: nat where [simp]: "HTTP2_MAX_FRAME_SIZE = 16777215"
definition HTTP2_DEFAULT_WINDOW_SIZE :: nat where [simp]: "HTTP2_DEFAULT_WINDOW_SIZE = 65535"
definition HTTP2_MAX_WINDOW_SIZE :: nat where [simp]: "HTTP2_MAX_WINDOW_SIZE = 2147483647"
definition HTTP2_MAX_CONCURRENT :: nat where [simp]: "HTTP2_MAX_CONCURRENT = 128"
definition HTTP2_MAX_STREAM_ID :: u32 where "HTTP2_MAX_STREAM_ID = 2147483647"
definition HTTP2_SETTING_SIZE :: nat where [simp]: "HTTP2_SETTING_SIZE = 6"
definition HTTP2_PING_SIZE :: nat where [simp]: "HTTP2_PING_SIZE = 8"
definition HTTP2_PRIORITY_SIZE :: nat where [simp]: "HTTP2_PRIORITY_SIZE = 5"
definition HTTP2_DEFAULT_WEIGHT :: nat where [simp]: "HTTP2_DEFAULT_WEIGHT = 16"

text \<open>The types of the frames, bytes as any other value of theirs is to be ignored.\<close>

definition HTTP2_DATA :: byte where [simp]: "HTTP2_DATA = 0x00"
definition HTTP2_HEADERS :: byte where [simp]: "HTTP2_HEADERS = 0x01"
definition HTTP2_PRIORITY :: byte where [simp]: "HTTP2_PRIORITY = 0x02"
definition HTTP2_RST_STREAM :: byte where [simp]: "HTTP2_RST_STREAM = 0x03"
definition HTTP2_SETTINGS :: byte where [simp]: "HTTP2_SETTINGS = 0x04"
definition HTTP2_PUSH_PROMISE :: byte where [simp]: "HTTP2_PUSH_PROMISE = 0x05"
definition HTTP2_PING :: byte where [simp]: "HTTP2_PING = 0x06"
definition HTTP2_GOAWAY :: byte where [simp]: "HTTP2_GOAWAY = 0x07"
definition HTTP2_WINDOW_UPDATE :: byte where [simp]: "HTTP2_WINDOW_UPDATE = 0x08"
definition HTTP2_CONTINUATION :: byte where [simp]: "HTTP2_CONTINUATION = 0x09"

definition HTTP2_FLAG_END_STREAM :: byte where [simp]: "HTTP2_FLAG_END_STREAM = 0x01"
definition HTTP2_FLAG_ACK :: byte where [simp]: "HTTP2_FLAG_ACK = 0x01"
definition HTTP2_FLAG_END_HEADERS :: byte where [simp]: "HTTP2_FLAG_END_HEADERS = 0x04"
definition HTTP2_FLAG_PADDED :: byte where [simp]: "HTTP2_FLAG_PADDED = 0x08"
definition HTTP2_FLAG_PRIORITY :: byte where [simp]: "HTTP2_FLAG_PRIORITY = 0x20"

definition HTTP2_SETTING_HEADER_TABLE_SIZE :: nat where [simp]: "HTTP2_SETTING_HEADER_TABLE_SIZE = 0x01"
definition HTTP2_SETTING_ENABLE_PUSH :: nat where [simp]: "HTTP2_SETTING_ENABLE_PUSH = 0x02"
definition HTTP2_SETTING_MAX_CONCURRENT_STREAMS :: nat where
  [simp]: "HTTP2_SETTING_MAX_CONCURRENT_STREAMS = 0x03"
definition HTTP2_SETTING_INITIAL_WINDOW_SIZE :: nat where [simp]: "HTTP2_SETTING_INITIAL_WINDOW_SIZE = 0x04"
definition HTTP2_SETTING_MAX_FRAME_SIZE :: nat where [simp]: "HTTP2_SETTING_MAX_FRAME_SIZE = 0x05"
definition HTTP2_SETTING_MAX_HEADER_LIST_SIZE :: nat where [simp]: "HTTP2_SETTING_MAX_HEADER_LIST_SIZE = 0x06"

text \<open>
  A decoded frame; the payload is \<^term>\<open>None\<close> (the code's \<^verbatim>\<open>NULL\<close>) when the buffer does not
  hold the complete frame, otherwise it is the \<open>length\<close> bytes that follow the header.
\<close>

record http2_frame =
  frame_length :: nat
  frame_type :: byte
  frame_flags :: byte
  frame_stream_id :: u32
  frame_payload :: "bytes option"

record http2_settings =
  header_table_size :: nat
  enable_push :: bool
  max_concurrent_streams :: nat
  initial_window_size :: nat
  max_frame_size :: nat
  max_header_list_size :: nat

record http2_priority =
  dependency :: u32
  weight :: nat
  exclusive :: bool

section \<open>Numbers and settings\<close>

definition decode_number_http2 :: "bytes \<Rightarrow> u32" where
  "decode_number_http2 data =
     push_bit 24 (ucast (data ! 0)) OR push_bit 16 (ucast (data ! 1)) OR
     push_bit 8 (ucast (data ! 2)) OR ucast (data ! 3)"

definition encode_number_http2 :: "bytes \<Rightarrow> nat \<Rightarrow> u32 \<Rightarrow> bytes" where
  "encode_number_http2 buffer position v =
     buffer[position := ucast (drop_bit 24 v AND 0xff),
            position + 1 := ucast (drop_bit 16 v AND 0xff),
            position + 2 := ucast (drop_bit 8 v AND 0xff),
            position + 3 := ucast (v AND 0xff)]"

definition create_settings_http2 :: http2_settings where
  "create_settings_http2 =
     \<lparr>header_table_size = HPACK_TABLE_SIZE, enable_push = True,
      max_concurrent_streams = HTTP2_MAX_CONCURRENT,
      initial_window_size = HTTP2_DEFAULT_WINDOW_SIZE,
      max_frame_size = HTTP2_DEFAULT_FRAME_SIZE,
      max_header_list_size = HPACK_MAX_HEADER_LIST_SIZE\<rparr>"

section \<open>The header of a frame\<close>

definition decode_frame_http2 :: "bytes \<Rightarrow> http2_frame result" where
  "decode_frame_http2 data =
     (if length data < HTTP2_HEADER_SIZE then Inl (Http2_Error HTTP2_FRAME_SIZE_ERROR)
      else
        (let size = push_bit 16 (unat (data ! 0)) OR push_bit 8 (unat (data ! 1)) OR unat (data ! 2)
         in Inr
           \<lparr>frame_length = size, frame_type = data ! 3, frame_flags = data ! 4,
            frame_stream_id = decode_number_http2 (drop 5 data) AND HTTP2_MAX_STREAM_ID,
            frame_payload =
              (if length data < HTTP2_HEADER_SIZE + size then None
               else Some (take size (drop HTTP2_HEADER_SIZE data)))\<rparr>))"

definition encode_frame_http2 ::
    "bytes \<Rightarrow> nat \<Rightarrow> nat \<Rightarrow> byte \<Rightarrow> byte \<Rightarrow> u32 \<Rightarrow> error option \<times> bytes" where
  "encode_frame_http2 buffer buffer_size payload_size type flags stream_id =
     (if buffer_size < HTTP2_HEADER_SIZE then (Some (Http2_Error HTTP2_FRAME_SIZE_ERROR), buffer)
      else if payload_size > HTTP2_MAX_FRAME_SIZE then (Some (Http2_Error HTTP2_FRAME_SIZE_ERROR), buffer)
      else
        (None, encode_number_http2
           (buffer[0 := of_nat (drop_bit 16 payload_size AND 0xff), 1 := of_nat (drop_bit 8 payload_size AND 0xff),
                   2 := of_nat (payload_size AND 0xff), 3 := type, 4 := flags])
           5 (stream_id AND HTTP2_MAX_STREAM_ID)))"

text \<open>The payload without its padding.\<close>

definition strip_padding_http2 :: "http2_frame \<Rightarrow> bytes result" where
  "strip_padding_http2 frame =
     (case frame_payload frame of
        None \<Rightarrow> Inl Out_Of_Bounds
      | Some payload \<Rightarrow>
          if frame_flags frame AND HTTP2_FLAG_PADDED = 0 then read_bytes payload 0 (frame_length frame)
          else if frame_length frame < 1 then Inl (Http2_Error HTTP2_PROTOCOL_ERROR)
          else
            (case read_byte payload 0 of
               Inl e \<Rightarrow> Inl e
             | Inr b \<Rightarrow>
                 (let padding = unat b
                  in if padding \<ge> frame_length frame then Inl (Http2_Error HTTP2_PROTOCOL_ERROR)
                     else read_bytes payload 1 (frame_length frame - 1 - padding))))"

lemma strip_padding_guarded:
  assumes "frame_payload frame = Some payload" and "length payload = frame_length frame"
  shows "strip_padding_http2 frame =
     (if frame_flags frame AND HTTP2_FLAG_PADDED = 0 then Inr payload
      else if frame_length frame < 1 then Inl (Http2_Error HTTP2_PROTOCOL_ERROR)
      else
        (let padding = unat (payload ! 0)
         in if padding \<ge> frame_length frame then Inl (Http2_Error HTTP2_PROTOCOL_ERROR)
            else Inr (take (frame_length frame - 1 - padding) (drop 1 payload))))"
  using assms by (auto simp: strip_padding_http2_def Let_def)

definition decode_priority_http2 :: "bytes \<Rightarrow> http2_priority result" where
  "decode_priority_http2 data =
     (if length data \<noteq> HTTP2_PRIORITY_SIZE then Inl (Http2_Error HTTP2_FRAME_SIZE_ERROR)
      else
        (case (read_bytes data 0 4, read_byte data 4) of
           (Inr number, Inr b) \<Rightarrow>
             (let field = decode_number_http2 number
              in Inr
                \<lparr>dependency = field AND HTTP2_MAX_STREAM_ID, weight = unat b + 1,
                 exclusive = (field AND 0x80000000 \<noteq> 0)\<rparr>)
         | _ \<Rightarrow> Inl Out_Of_Bounds))"

lemma decode_priority_guarded:
  "decode_priority_http2 data =
     (if length data \<noteq> HTTP2_PRIORITY_SIZE then Inl (Http2_Error HTTP2_FRAME_SIZE_ERROR)
      else
        (let field = decode_number_http2 data
         in Inr
           \<lparr>dependency = field AND HTTP2_MAX_STREAM_ID, weight = unat (data ! 4) + 1,
            exclusive = (field AND 0x80000000 \<noteq> 0)\<rparr>))"
  by (simp add: decode_priority_http2_def decode_number_http2_def Let_def)

section \<open>The payload of the settings\<close>

text \<open>One entry; an error leaves the entries before it in the settings.\<close>

definition apply_setting :: "nat \<Rightarrow> u32 \<Rightarrow> http2_settings \<Rightarrow> error option \<times> http2_settings" where
  "apply_setting identifier v settings =
     (if identifier = HTTP2_SETTING_HEADER_TABLE_SIZE then
        (None, settings\<lparr>header_table_size := unat v\<rparr>)
      else if identifier = HTTP2_SETTING_ENABLE_PUSH then
        if v > 1 then (Some (Http2_Error HTTP2_PROTOCOL_ERROR), settings)
        else (None, settings\<lparr>enable_push := (v \<noteq> 0)\<rparr>)
      else if identifier = HTTP2_SETTING_MAX_CONCURRENT_STREAMS then
        (None, settings\<lparr>max_concurrent_streams := unat v\<rparr>)
      else if identifier = HTTP2_SETTING_INITIAL_WINDOW_SIZE then
        if unat v > HTTP2_MAX_WINDOW_SIZE then (Some (Http2_Error HTTP2_FLOW_CONTROL_ERROR), settings)
        else (None, settings\<lparr>initial_window_size := unat v\<rparr>)
      else if identifier = HTTP2_SETTING_MAX_FRAME_SIZE then
        if unat v < HTTP2_DEFAULT_FRAME_SIZE \<or> unat v > HTTP2_MAX_FRAME_SIZE
        then (Some (Http2_Error HTTP2_PROTOCOL_ERROR), settings)
        else (None, settings\<lparr>max_frame_size := unat v\<rparr>)
      else if identifier = HTTP2_SETTING_MAX_HEADER_LIST_SIZE then
        (None, settings\<lparr>max_header_list_size := unat v\<rparr>)
      else (None, settings))"

text \<open>The entries, six bytes each; the bytes of an entry that is not whole would be read outside of the payload.\<close>

fun decode_settings_loop :: "bytes \<Rightarrow> http2_settings \<Rightarrow> error option \<times> http2_settings" where
  "decode_settings_loop (a # b # c # d # e # f # rest) settings =
     (case apply_setting (push_bit 8 (unat a) OR unat b) (decode_number_http2 [c, d, e, f]) settings of
        (Some e, settings') \<Rightarrow> (Some e, settings')
      | (None, settings') \<Rightarrow> decode_settings_loop rest settings')"
| "decode_settings_loop [] settings = (None, settings)"
| "decode_settings_loop _ settings = (Some Out_Of_Bounds, settings)"

definition decode_settings_http2 :: "bytes \<Rightarrow> http2_settings \<Rightarrow> error option \<times> http2_settings" where
  "decode_settings_http2 data settings =
     (if length data mod HTTP2_SETTING_SIZE \<noteq> 0 then (Some (Http2_Error HTTP2_FRAME_SIZE_ERROR), settings)
      else decode_settings_loop data settings)"

text \<open>The writing of one entry, with the position that follows it.\<close>

definition write_setting :: "bytes \<Rightarrow> nat \<Rightarrow> nat \<Rightarrow> nat \<Rightarrow> bytes" where
  "write_setting buffer offset identifier v =
     encode_number_http2 (buffer[offset := 0x00, offset + 1 := of_nat identifier]) (offset + 2) (of_nat v)"

text \<open>The buffer and, when it is written, the size of the complete frame.\<close>

definition encode_settings_http2 :: "bytes \<Rightarrow> nat \<Rightarrow> http2_settings \<Rightarrow> bytes \<times> nat result" where
  "encode_settings_http2 buffer buffer_size settings =
     (if buffer_size < HTTP2_HEADER_SIZE + HTTP2_SETTING_SIZE * 5
      then (buffer, Inl (Http2_Error HTTP2_FRAME_SIZE_ERROR))
      else
        (let offset = HTTP2_HEADER_SIZE;
             buffer1 = write_setting buffer offset HTTP2_SETTING_MAX_CONCURRENT_STREAMS
               (max_concurrent_streams settings);
             buffer2 = write_setting buffer1 (offset + HTTP2_SETTING_SIZE) HTTP2_SETTING_HEADER_TABLE_SIZE
               (header_table_size settings);
             buffer3 = write_setting buffer2 (offset + HTTP2_SETTING_SIZE * 2) HTTP2_SETTING_MAX_HEADER_LIST_SIZE
               (max_header_list_size settings);
             buffer4 = write_setting buffer3 (offset + HTTP2_SETTING_SIZE * 3) HTTP2_SETTING_INITIAL_WINDOW_SIZE
               (initial_window_size settings);
             buffer5 = write_setting buffer4 (offset + HTTP2_SETTING_SIZE * 4) HTTP2_SETTING_MAX_FRAME_SIZE
               (max_frame_size settings);
             size = offset + HTTP2_SETTING_SIZE * 5
         in case encode_frame_http2 buffer5 buffer_size (size - HTTP2_HEADER_SIZE) HTTP2_SETTINGS 0x00 0 of
              (Some e, buffer') \<Rightarrow> (buffer', Inl e)
            | (None, buffer') \<Rightarrow> (buffer', Inr size)))"

section \<open>Frames of one and of two numbers\<close>

definition encode_value_http2 ::
    "bytes \<Rightarrow> nat \<Rightarrow> byte \<Rightarrow> u32 \<Rightarrow> u32 \<Rightarrow> bytes \<times> nat result" where
  "encode_value_http2 buffer buffer_size type stream_id v =
     (if buffer_size < HTTP2_HEADER_SIZE + 4 then (buffer, Inl (Http2_Error HTTP2_FRAME_SIZE_ERROR))
      else
        (case encode_frame_http2 buffer buffer_size 4 type 0x00 stream_id of
           (Some e, buffer') \<Rightarrow> (buffer', Inl e)
         | (None, buffer') \<Rightarrow>
             (encode_number_http2 buffer' HTTP2_HEADER_SIZE v, Inr (HTTP2_HEADER_SIZE + 4))))"

definition encode_goaway_http2 :: "bytes \<Rightarrow> nat \<Rightarrow> u32 \<Rightarrow> u32 \<Rightarrow> bytes \<times> nat result" where
  "encode_goaway_http2 buffer buffer_size last_stream_id code =
     (if buffer_size < HTTP2_HEADER_SIZE + 8 then (buffer, Inl (Http2_Error HTTP2_FRAME_SIZE_ERROR))
      else
        (case encode_frame_http2 buffer buffer_size 8 HTTP2_GOAWAY 0x00 0 of
           (Some e, buffer') \<Rightarrow> (buffer', Inl e)
         | (None, buffer') \<Rightarrow>
             (encode_number_http2
                (encode_number_http2 buffer' HTTP2_HEADER_SIZE (last_stream_id AND HTTP2_MAX_STREAM_ID))
                (HTTP2_HEADER_SIZE + 4) code,
              Inr (HTTP2_HEADER_SIZE + 8))))"

section \<open>Verification of a frame\<close>

definition verify_frame_http2 :: "http2_frame \<Rightarrow> http2_settings \<Rightarrow> error option" where
  "verify_frame_http2 frame settings =
     (let type = frame_type frame; size = frame_length frame; stream_id = frame_stream_id frame;
          protocol = Some (Http2_Error HTTP2_PROTOCOL_ERROR);
          frame_size = Some (Http2_Error HTTP2_FRAME_SIZE_ERROR)
      in if size > max_frame_size settings then frame_size
         else if type = HTTP2_DATA \<or> type = HTTP2_HEADERS \<or> type = HTTP2_CONTINUATION then
           if stream_id = 0 then protocol else None
         else if type = HTTP2_PRIORITY then
           if stream_id = 0 then protocol
           else if size \<noteq> HTTP2_PRIORITY_SIZE then frame_size else None
         else if type = HTTP2_RST_STREAM then
           if stream_id = 0 then protocol
           else if size \<noteq> 4 then frame_size else None
         else if type = HTTP2_SETTINGS then
           if stream_id \<noteq> 0 then protocol
           else if frame_flags frame AND HTTP2_FLAG_ACK \<noteq> 0 \<and> size \<noteq> 0 then frame_size
           else if size mod HTTP2_SETTING_SIZE \<noteq> 0 then frame_size else None
         else if type = HTTP2_PUSH_PROMISE then
           if stream_id = 0 then protocol
           else if frame_flags frame AND HTTP2_FLAG_PADDED \<noteq> 0 then
             if size < 5 then frame_size else None
           else if size < 4 then frame_size else None
         else if type = HTTP2_PING then
           if stream_id \<noteq> 0 then protocol
           else if size \<noteq> HTTP2_PING_SIZE then frame_size else None
         else if type = HTTP2_GOAWAY then
           if stream_id \<noteq> 0 then protocol
           else if size < 8 then frame_size else None
         else if type = HTTP2_WINDOW_UPDATE then
           if size \<noteq> 4 then frame_size else None
         else None)"


section \<open>Numbers are read back\<close>

definition number_bytes :: "u32 \<Rightarrow> bytes" where
  "number_bytes v = [ucast (drop_bit 24 v), ucast (drop_bit 16 v), ucast (drop_bit 8 v), ucast v]"

lemma length_number_bytes [simp]: "length (number_bytes v) = 4"
  by (simp add: number_bytes_def)

lemma ucast_and_ff: "ucast (v AND 0xff :: u32) = (ucast v :: byte)"
proof -
  have mask: "(0xff :: u32) = mask 8" by (simp add: mask_eq_exp_minus_1)
  show ?thesis
    unfolding mask by (rule bit_word_eqI) (auto simp: bit_ucast_iff bit_and_iff bit_mask_iff)
qed

lemma update_4_memcpy:
  "position + 4 \<le> length buffer \<Longrightarrow>
     buffer[position := a, position + 1 := b, position + 2 := c, position + 3 := d] = memcpy buffer position [a, b, c, d]"
  by (rule nth_equalityI)
    (auto simp: memcpy_def nth_append nth_list_update nth_Cons' intro!: arg_cong [where f = "nth buffer"])

lemma update_5_memcpy:
  "5 \<le> length buffer \<Longrightarrow>
     buffer[0 := a, 1 := b, 2 := c, 3 := d, 4 := e] = memcpy buffer 0 [a, b, c, d, e]"
  by (rule nth_equalityI)
    (auto simp: memcpy_def nth_append nth_list_update nth_Cons' intro!: arg_cong [where f = "nth buffer"])

lemma encode_number_ok [buffer_simps]:
  assumes "position + 4 \<le> length buffer"
  shows "encode_number_http2 buffer position v = memcpy buffer position (number_bytes v)"
  unfolding encode_number_http2_def number_bytes_def ucast_and_ff using assms by (rule update_4_memcpy)

lemma number_bits: "decode_number_http2 (number_bytes v) = v"
proof (rule bit_word_eqI)
  fix n assume n: "n < LENGTH(32)"
  have "bit (decode_number_http2 (number_bytes v)) n \<longleftrightarrow>
     24 \<le> n \<and> bit v n \<or> 16 \<le> n \<and> n < 24 \<and> bit v n \<or> 8 \<le> n \<and> n < 16 \<and> bit v n \<or> n < 8 \<and> bit v n"
    using n unfolding decode_number_http2_def number_bytes_def
    by (auto simp: bit_or_iff bit_push_bit_iff bit_ucast_iff bit_drop_bit_eq)
  then show "bit (decode_number_http2 (number_bytes v)) n = bit v n" by auto
qed

lemma decode_number_bytes [simp]: "decode_number_http2 (number_bytes v @ rest) = v"
  using number_bits [of v] by (simp add: decode_number_http2_def number_bytes_def)

lemma decode_number_take: "4 \<le> length data \<Longrightarrow> decode_number_http2 (take 4 data) = decode_number_http2 data"
  by (simp add: decode_number_http2_def)

lemma number_bytes_nth: "number_bytes v = [number_bytes v ! 0, number_bytes v ! 1, number_bytes v ! 2, number_bytes v ! 3]"
  by (simp add: number_bytes_def)

lemma number_bytes_decode:
  assumes "length data = 4"
  shows "number_bytes (decode_number_http2 data) = data"
proof -
  obtain a b c d where data: "data = [a, b, c, d]"
    using assms by (auto simp: length_Suc_conv numeral_eq_Suc)
  have high: "\<not> bit w (8 + n)" "\<not> bit w (16 + n)" "\<not> bit w (24 + n)" for w :: byte and n
    by (auto dest: bit_imp_le_length)
  show ?thesis
    unfolding number_bytes_def decode_number_http2_def data
    by (auto intro!: bit_word_eqI simp: bit_or_iff bit_push_bit_iff bit_ucast_iff bit_drop_bit_eq high)
qed

section \<open>Headers of frames are read back\<close>

definition frame_header :: "nat \<Rightarrow> byte \<Rightarrow> byte \<Rightarrow> u32 \<Rightarrow> bytes" where
  "frame_header n type flags stream_id =
     [of_nat (n div 65536), of_nat (n div 256), of_nat n, type, flags] @
     number_bytes (stream_id AND HTTP2_MAX_STREAM_ID)"

lemma length_frame_header [simp]: "length (frame_header n type flags stream_id) = 9"
  by (simp add: frame_header_def)

lemma of_nat_and_ff: "(of_nat (n AND 0xff) :: byte) = of_nat n"
proof -
  have "n AND 0xff = n mod 256" using nat_and_mask [of n 8] by simp
  then show ?thesis by (simp add: unat_of_nat_byte word_unat_eq_iff)
qed

lemma memcpy_number:
  "length bs = n \<Longrightarrow> n + 4 \<le> length buffer \<Longrightarrow>
     memcpy (memcpy buffer 0 bs) n (number_bytes v) = memcpy buffer 0 (bs @ number_bytes v)"
  using memcpy_memcpy [of 0 bs "number_bytes v" buffer] by simp

lemma encode_frame_ok [buffer_simps]:
  assumes "9 \<le> buffer_size" and "buffer_size \<le> length buffer" and "n \<le> HTTP2_MAX_FRAME_SIZE"
  shows "encode_frame_http2 buffer buffer_size n type flags stream_id =
           (None, memcpy buffer 0 (frame_header n type flags stream_id))"
proof -
  let ?a = "of_nat (n div 65536)" and ?b = "of_nat (n div 256)" and ?c = "of_nat n"
  have "buffer[0 := ?a, 1 := ?b, 2 := ?c, 3 := type, 4 := flags] = memcpy buffer 0 [?a, ?b, ?c, type, flags]"
    using assms by (intro update_5_memcpy) simp
  then have "encode_frame_http2 buffer buffer_size n type flags stream_id =
      (None, memcpy (memcpy buffer 0 [?a, ?b, ?c, type, flags]) 5 (number_bytes (stream_id AND HTTP2_MAX_STREAM_ID)))"
    using assms by (simp add: encode_frame_http2_def of_nat_and_ff drop_bit_eq_div encode_number_ok del: One_nat_def)
  moreover have "memcpy (memcpy buffer 0 [?a, ?b, ?c, type, flags]) 5 (number_bytes (stream_id AND HTTP2_MAX_STREAM_ID))
      = memcpy buffer 0 ([?a, ?b, ?c, type, flags] @ number_bytes (stream_id AND HTTP2_MAX_STREAM_ID))"
    using assms(1,2) by (intro memcpy_number) simp_all
  ultimately show ?thesis by (simp add: frame_header_def)
qed

lemma encode_frame_error:
  "buffer_size < 9 \<or> HTTP2_MAX_FRAME_SIZE < n \<Longrightarrow>
     encode_frame_http2 buffer buffer_size n type flags stream_id = (Some (Http2_Error HTTP2_FRAME_SIZE_ERROR), buffer)"
  by (auto simp: encode_frame_http2_def)

lemma length_bytes_or:
  assumes "a < 256" and "b < 256"
  shows "push_bit 16 c OR push_bit 8 a OR b = c * 65536 + a * 256 + (b::nat)"
proof -
  have "push_bit 8 a OR b = a * 256 + b"
    using or_disjoint_add [of "a * 256" 8 b] assms by (simp add: push_bit_eq_mult)
  moreover have "push_bit 16 c OR (a * 256 + b) = c * 65536 + (a * 256 + b)"
    using or_disjoint_add [of "c * 65536" 16 "a * 256 + b"] assms by (simp add: push_bit_eq_mult)
  ultimately show ?thesis by (simp add: or.assoc)
qed

lemma length_field:
  assumes "n < 16777216"
  shows "push_bit 16 (unat (of_nat (n div 65536) :: byte)) OR push_bit 8 (unat (of_nat (n div 256) :: byte)) OR
     unat (of_nat n :: byte) = n"
proof -
  have high: "n div 65536 < 256" using assms by auto
  define q r s where "q = n div 65536" and "r = n div 256 mod 256" and "s = n mod 256"
  have "n div 65536 = n div 256 div 256" by (simp add: div_mult2_eq [symmetric])
  then have "n div 256 = q * 256 + r" by (simp add: q_def r_def)
  moreover have "n = n div 256 * 256 + s" by (simp add: s_def)
  ultimately have "n = q * 65536 + r * 256 + s" by simp
  then show ?thesis
    using high unfolding length_bytes_or [OF unat_byte_less unat_byte_less]
    by (simp only: unat_of_nat_byte mod_less q_def r_def s_def)
qed

lemma decode_frame_ok:
  assumes "length payload \<le> HTTP2_MAX_FRAME_SIZE"
  shows "decode_frame_http2 (frame_header (length payload) type flags stream_id @ payload @ rest) =
     Inr \<lparr>frame_length = length payload, frame_type = type, frame_flags = flags,
          frame_stream_id = stream_id AND HTTP2_MAX_STREAM_ID, frame_payload = Some payload\<rparr>"
proof -
  let ?h = "frame_header (length payload) type flags stream_id"
  have "drop 5 (?h @ payload @ rest) = number_bytes (stream_id AND HTTP2_MAX_STREAM_ID) @ payload @ rest"
    by (simp add: frame_header_def)
  moreover have "(?h @ payload @ rest) ! 0 = of_nat (length payload div 65536)"
      "(?h @ payload @ rest) ! 1 = of_nat (length payload div 256)" "(?h @ payload @ rest) ! 2 = of_nat (length payload)"
      "(?h @ payload @ rest) ! 3 = type" "(?h @ payload @ rest) ! 4 = flags"
    by (simp_all add: frame_header_def)
  ultimately show ?thesis
    using length_field [of "length payload"] assms by (simp add: decode_frame_http2_def Let_def)
qed

lemma decode_frame_cases:
  assumes "decode_frame_http2 data = Inr frame"
  shows "9 \<le> length data" "frame_length frame \<le> HTTP2_MAX_FRAME_SIZE"
    "frame_payload frame = (if length data < 9 + frame_length frame then None
       else Some (take (frame_length frame) (drop 9 data)))"
    "frame_stream_id frame AND HTTP2_MAX_STREAM_ID = frame_stream_id frame"
proof -
  have f: "9 \<le> length data" "frame_length frame = push_bit 16 (unat (data ! 0)) OR push_bit 8 (unat (data ! 1)) OR unat (data ! 2)"
    "frame_payload frame = (if length data < 9 + frame_length frame then None
       else Some (take (frame_length frame) (drop 9 data)))"
    "frame_stream_id frame = decode_number_http2 (drop 5 data) AND HTTP2_MAX_STREAM_ID"
    using assms by (auto simp: decode_frame_http2_def Let_def split: if_splits)
  then show "9 \<le> length data" "frame_payload frame = (if length data < 9 + frame_length frame then None
       else Some (take (frame_length frame) (drop 9 data)))"
      "frame_stream_id frame AND HTTP2_MAX_STREAM_ID = frame_stream_id frame"
    by (simp_all add: and.assoc)
  have "frame_length frame = unat (data ! 0) * 65536 + unat (data ! 1) * 256 + unat (data ! 2)"
    using f(2) by (simp add: length_bytes_or)
  moreover have "unat (data ! 0) \<le> 255" "unat (data ! 1) \<le> 255" "unat (data ! 2) \<le> 255"
    using unat_byte_less [of "data ! 0"] unat_byte_less [of "data ! 1"] unat_byte_less [of "data ! 2"] by linarith+
  ultimately show "frame_length frame \<le> HTTP2_MAX_FRAME_SIZE" by simp
qed


section \<open>Settings are read back\<close>

definition setting_bytes :: "nat \<Rightarrow> nat \<Rightarrow> bytes" where
  "setting_bytes identifier v = [0x00, of_nat identifier] @ number_bytes (of_nat v)"

definition settings_payload :: "http2_settings \<Rightarrow> bytes" where
  "settings_payload s =
     setting_bytes HTTP2_SETTING_MAX_CONCURRENT_STREAMS (max_concurrent_streams s) @
     setting_bytes HTTP2_SETTING_HEADER_TABLE_SIZE (header_table_size s) @
     setting_bytes HTTP2_SETTING_MAX_HEADER_LIST_SIZE (max_header_list_size s) @
     setting_bytes HTTP2_SETTING_INITIAL_WINDOW_SIZE (initial_window_size s) @
     setting_bytes HTTP2_SETTING_MAX_FRAME_SIZE (max_frame_size s)"

lemma length_setting_bytes [simp]: "length (setting_bytes identifier v) = 6"
  by (simp add: setting_bytes_def)

lemma length_settings_payload [simp]: "length (settings_payload s) = 30"
  by (simp add: settings_payload_def)

lemma memcpy_prepend:
  assumes "length as + length bs \<le> length buffer"
  shows "memcpy (memcpy buffer (length as) bs) 0 as = memcpy buffer 0 (as @ bs)"
  using assms by (simp add: memcpy_def)

lemma write_setting_ok [buffer_simps]:
  assumes "offset + 6 \<le> length buffer"
  shows "write_setting buffer offset identifier v = memcpy buffer offset (setting_bytes identifier v)"
proof -
  have "buffer[offset := 0x00, offset + 1 := of_nat identifier] = memcpy buffer offset [0x00, of_nat identifier]"
    using assms by (intro nth_equalityI)
      (auto simp: memcpy_def nth_append nth_list_update nth_Cons' intro!: arg_cong [where f = "nth buffer"])
  moreover have "memcpy (memcpy buffer offset [0x00, of_nat identifier]) (offset + 2) (number_bytes (of_nat v))
      = memcpy buffer offset (setting_bytes identifier v)"
    using assms memcpy_memcpy [of offset "[0x00, of_nat identifier]" "number_bytes (of_nat v)" buffer]
    by (simp add: setting_bytes_def)
  ultimately show ?thesis
    using assms by (simp only: write_setting_def) (simp add: encode_number_ok)
qed

lemma memcpy_setting:
  assumes "length bs = n" and "position + n + 6 \<le> length buffer"
  shows "write_setting (memcpy buffer position bs) (position + n) identifier v
           = memcpy buffer position (bs @ setting_bytes identifier v)"
proof -
  have "write_setting (memcpy buffer position bs) (position + n) identifier v
          = memcpy (memcpy buffer position bs) (position + n) (setting_bytes identifier v)"
    using assms by (intro write_setting_ok) simp
  then show ?thesis
    using memcpy_memcpy [of position bs "setting_bytes identifier v" buffer] assms by simp
qed

lemma encode_settings_ok [buffer_simps]:
  assumes "39 \<le> buffer_size" and "buffer_size \<le> length buffer"
  shows "encode_settings_http2 buffer buffer_size s =
           (memcpy buffer 0 (frame_header 30 HTTP2_SETTINGS 0 0 @ settings_payload s), Inr 39)"
proof -
  let ?s3 = "setting_bytes 3 (max_concurrent_streams s)" and ?s1 = "setting_bytes 1 (header_table_size s)"
  let ?s6 = "setting_bytes 6 (max_header_list_size s)" and ?s4 = "setting_bytes 4 (initial_window_size s)"
  have w1: "write_setting buffer 9 3 (max_concurrent_streams s) = memcpy buffer 9 ?s3"
    using assms by (intro write_setting_ok) simp
  have w2: "write_setting (memcpy buffer 9 ?s3) 15 1 (header_table_size s) = memcpy buffer 9 (?s3 @ ?s1)"
    using memcpy_setting [of ?s3 6 9 buffer 1] assms by simp
  have w3: "write_setting (memcpy buffer 9 (?s3 @ ?s1)) 21 6 (max_header_list_size s) = memcpy buffer 9 (?s3 @ ?s1 @ ?s6)"
    using memcpy_setting [of "?s3 @ ?s1" 12 9 buffer 6] assms by simp
  have w4: "write_setting (memcpy buffer 9 (?s3 @ ?s1 @ ?s6)) 27 4 (initial_window_size s) = memcpy buffer 9 (?s3 @ ?s1 @ ?s6 @ ?s4)"
    using memcpy_setting [of "?s3 @ ?s1 @ ?s6" 18 9 buffer 4] assms by simp
  have w5: "write_setting (memcpy buffer 9 (?s3 @ ?s1 @ ?s6 @ ?s4)) 33 5 (max_frame_size s) = memcpy buffer 9 (settings_payload s)"
    using memcpy_setting [of "?s3 @ ?s1 @ ?s6 @ ?s4" 24 9 buffer 5] assms by (simp add: settings_payload_def)
  have "encode_frame_http2 (memcpy buffer 9 (settings_payload s)) buffer_size 30 HTTP2_SETTINGS 0 0 =
          (None, memcpy (memcpy buffer 9 (settings_payload s)) 0 (frame_header 30 HTTP2_SETTINGS 0 0))"
    using assms by (intro encode_frame_ok) simp_all
  moreover have "memcpy (memcpy buffer 9 (settings_payload s)) 0 (frame_header 30 HTTP2_SETTINGS 0 0)
      = memcpy buffer 0 (frame_header 30 HTTP2_SETTINGS 0 0 @ settings_payload s)"
    using memcpy_prepend [of "frame_header 30 HTTP2_SETTINGS 0 0" "settings_payload s" buffer] assms by simp
  ultimately show ?thesis
    using assms by (simp add: encode_settings_http2_def Let_def w1 w2 w3 w4 w5 del: One_nat_def)
qed

lemma encode_settings_error:
  "buffer_size < 39 \<Longrightarrow> encode_settings_http2 buffer buffer_size s = (buffer, Inl (Http2_Error HTTP2_FRAME_SIZE_ERROR))"
  by (simp add: encode_settings_http2_def)

text \<open>The values that a peer may impose and those that fit in the frame.\<close>

definition settings_ok :: "http2_settings \<Rightarrow> bool" where
  "settings_ok s \<longleftrightarrow> initial_window_size s \<le> HTTP2_MAX_WINDOW_SIZE
     \<and> HTTP2_DEFAULT_FRAME_SIZE \<le> max_frame_size s \<and> max_frame_size s \<le> HTTP2_MAX_FRAME_SIZE
     \<and> header_table_size s < 2 ^ 32 \<and> max_concurrent_streams s < 2 ^ 32 \<and> max_header_list_size s < 2 ^ 32"

lemma apply_setting_ok: "settings_ok s \<Longrightarrow> settings_ok (snd (apply_setting identifier v s))"
  using unsigned_less [of v, where 'a = nat] by (auto simp: apply_setting_def settings_ok_def)

lemma decode_settings_loop_ok: "settings_ok s \<Longrightarrow> settings_ok (snd (decode_settings_loop data s))"
proof (induction data s rule: decode_settings_loop.induct)
  case (1 a b c d e f rest s)
  then show ?case
    using apply_setting_ok [OF "1.prems", of "push_bit 8 (unat a) OR unat b" "decode_number_http2 [c, d, e, f]"]
    by (auto split: prod.splits option.splits)
qed simp_all

lemma decode_settings_ok: "settings_ok s \<Longrightarrow> settings_ok (snd (decode_settings_http2 data s))"
  by (simp add: decode_settings_http2_def decode_settings_loop_ok)

lemma create_settings_ok [simp]: "settings_ok create_settings_http2"
  by (simp add: settings_ok_def create_settings_http2_def)

lemma decode_setting_bytes:
  assumes "identifier < 256"
  shows "decode_settings_loop (setting_bytes identifier v @ rest) s =
     (case apply_setting identifier (of_nat v) s of
        (Some e, s') \<Rightarrow> (Some e, s') | (None, s') \<Rightarrow> decode_settings_loop rest s')"
proof -
  obtain c d e f where n: "number_bytes (of_nat v) = [c, d, e, f]" by (simp add: number_bytes_def)
  have "decode_number_http2 [c, d, e, f] = of_nat v" using number_bits [of "of_nat v"] n by simp
  then show ?thesis using assms by (simp add: setting_bytes_def n unat_of_nat_byte)
qed

lemma unat_of_nat_u32: "n < 2 ^ 32 \<Longrightarrow> unat (of_nat n :: u32) = n"
  by (simp add: unat_of_nat take_bit_nat_eq_self)

lemma decode_settings_payload:
  assumes "settings_ok s"
  shows "decode_settings_http2 (settings_payload s) s0 = (None, s\<lparr>enable_push := enable_push s0\<rparr>)"
proof -
  have apply_s: "apply_setting 3 (of_nat (max_concurrent_streams s)) t = (None, t\<lparr>max_concurrent_streams := max_concurrent_streams s\<rparr>)"
    "apply_setting 1 (of_nat (header_table_size s)) t = (None, t\<lparr>header_table_size := header_table_size s\<rparr>)"
    "apply_setting 6 (of_nat (max_header_list_size s)) t = (None, t\<lparr>max_header_list_size := max_header_list_size s\<rparr>)"
    "apply_setting 4 (of_nat (initial_window_size s)) t = (None, t\<lparr>initial_window_size := initial_window_size s\<rparr>)"
    "apply_setting 5 (of_nat (max_frame_size s)) t = (None, t\<lparr>max_frame_size := max_frame_size s\<rparr>)" for t
    using assms by (simp_all add: apply_setting_def settings_ok_def unat_of_nat_u32)
  show ?thesis
    using decode_setting_bytes [of 5 "max_frame_size s" "[]"]
    by (simp add: decode_settings_http2_def) (simp add: settings_payload_def decode_setting_bytes apply_s del: One_nat_def)
qed

section \<open>The other frames\<close>

lemma encode_value_ok [buffer_simps]:
  assumes "13 \<le> buffer_size" and "buffer_size \<le> length buffer"
  shows "encode_value_http2 buffer buffer_size type stream_id v =
           (memcpy buffer 0 (frame_header 4 type 0 stream_id @ number_bytes v), Inr 13)"
proof -
  let ?h = "frame_header 4 type 0 stream_id"
  have "encode_frame_http2 buffer buffer_size 4 type 0 stream_id = (None, memcpy buffer 0 ?h)"
    using assms by (intro encode_frame_ok) simp_all
  moreover have "encode_number_http2 (memcpy buffer 0 ?h) 9 v = memcpy buffer 0 (?h @ number_bytes v)"
    using assms memcpy_number [of ?h 9 buffer v] by (simp add: encode_number_ok)
  ultimately show ?thesis using assms by (simp add: encode_value_http2_def)
qed

lemma encode_goaway_ok [buffer_simps]:
  assumes "17 \<le> buffer_size" and "buffer_size \<le> length buffer"
  shows "encode_goaway_http2 buffer buffer_size last_stream_id code =
           (memcpy buffer 0 (frame_header 8 HTTP2_GOAWAY 0 0 @
              number_bytes (last_stream_id AND HTTP2_MAX_STREAM_ID) @ number_bytes code), Inr 17)"
proof -
  let ?h = "frame_header 8 HTTP2_GOAWAY 0 0" and ?n = "number_bytes (last_stream_id AND HTTP2_MAX_STREAM_ID)"
  have "encode_frame_http2 buffer buffer_size 8 HTTP2_GOAWAY 0 0 = (None, memcpy buffer 0 ?h)"
    using assms by (intro encode_frame_ok) simp_all
  moreover have "encode_number_http2 (memcpy buffer 0 ?h) 9 (last_stream_id AND HTTP2_MAX_STREAM_ID) = memcpy buffer 0 (?h @ ?n)"
    using assms memcpy_number [of ?h 9 buffer] by (simp add: encode_number_ok)
  moreover have "encode_number_http2 (memcpy buffer 0 (?h @ ?n)) 13 code = memcpy buffer 0 (?h @ ?n @ number_bytes code)"
    using assms memcpy_number [of "?h @ ?n" 13 buffer] by (simp add: encode_number_ok)
  ultimately show ?thesis using assms by (simp add: encode_goaway_http2_def)
qed

lemma max_stream_id_mask: "HTTP2_MAX_STREAM_ID = mask 31"
  by (simp add: HTTP2_MAX_STREAM_ID_def mask_eq_exp_minus_1)

lemma decode_priority_ok:
  assumes "d AND HTTP2_MAX_STREAM_ID = d" and "1 \<le> w" and "w \<le> 256"
  shows "decode_priority_http2 (number_bytes (d OR (if x then 0x80000000 else 0)) @ [of_nat (w - 1)]) =
           Inr \<lparr>dependency = d, weight = w, exclusive = x\<rparr>"
proof -
  define b :: byte where "b = of_nat (w - 1)"
  have b: "unat b + 1 = w"
    using assms by (simp only: b_def unat_of_nat_byte) simp
  have high: "(0x80000000 :: u32) = push_bit 31 1" by simp
  have small: "\<not> bit d 31"
    by (subst assms(1) [symmetric]) (simp add: max_stream_id_mask bit_and_iff bit_mask_iff)
  have "(d OR push_bit 31 1) AND mask 31 = d AND mask 31"
    by (rule bit_word_eqI) (unfold bit_and_iff bit_or_iff bit_mask_iff bit_push_bit_iff bit_1_iff, auto)
  moreover have "d AND 0x80000000 = 0"
    using small and_exp_eq_0_iff_not_bit [of d 31] by simp
  moreover have "(d OR 0x80000000) AND 0x80000000 \<noteq> 0"
    using and_exp_eq_0_iff_not_bit [of "d OR 0x80000000" 31] bit_or_iff [of d "0x80000000" 31]
      bit_exp_iff [of 31 31, where 'a = u32] by simp
  ultimately show ?thesis
    unfolding b_def [symmetric] using assms b
    by (auto simp: decode_priority_guarded Let_def max_stream_id_mask high nth_append simp del: push_bit_of_1)
qed

lemma strip_padding_padded:
  assumes "frame_payload frame = Some (of_nat padding # content @ pad)" and "length pad = padding" and "padding < 256"
    and "frame_length frame = 1 + length content + padding" and "frame_flags frame AND HTTP2_FLAG_PADDED \<noteq> 0"
  shows "strip_padding_http2 frame = Inr content"
  using assms by (simp add: strip_padding_guarded Let_def unat_of_nat_byte)

lemma strip_padding_cases:
  assumes "frame_payload frame = Some payload" and "length payload = frame_length frame"
  shows "strip_padding_http2 frame = Inr content \<longleftrightarrow>
     frame_flags frame AND HTTP2_FLAG_PADDED = 0 \<and> content = payload \<or>
     frame_flags frame AND HTTP2_FLAG_PADDED \<noteq> 0 \<and>
       (\<exists>b pad. payload = b # content @ pad \<and> length pad = unat b)"
  using assms
  by (cases payload) (auto simp: strip_padding_guarded Let_def intro: append_take_drop_id [symmetric])


section \<open>Properties\<close>

text \<open>C21: a frame whose header \<open>encode_frame_http2\<close> has written, before its payload and whatever bytes follow
  it, is decoded by \<open>decode_frame_http2\<close> as it arrives: of fewer bytes than the header the decoding is an
  error, from the end of the header on it gives the length, the type, the flags and the stream (the reserved
  bit left out), without a payload, until the last byte of the payload is there, and from then on with exactly
  that payload.\<close>

theorem frame_roundtrip:
  assumes "encode_frame_http2 buffer buffer_size (length payload) type flags stream_id = (None, buffer')"
    and "buffer_size \<le> length buffer" and "take 9 buffer' @ payload @ rest = data" and "n \<le> length data"
  shows "decode_frame_http2 (take n data) =
    (if n < 9 then Inl (Http2_Error HTTP2_FRAME_SIZE_ERROR)
     else Inr \<lparr>frame_length = length payload, frame_type = type, frame_flags = flags,
       frame_stream_id = stream_id AND HTTP2_MAX_STREAM_ID,
       frame_payload = (if n < 9 + length payload then None else Some payload)\<rparr>)"
proof -
  have fits: "9 \<le> buffer_size" "length payload \<le> HTTP2_MAX_FRAME_SIZE"
    using assms(1) encode_frame_error [of buffer_size "length payload" buffer type flags stream_id]
    by (auto simp: not_less [symmetric])
  let ?h = "frame_header (length payload) type flags stream_id"
  have "take 9 buffer' = ?h"
    using assms(1,2) fits encode_frame_ok [OF fits(1) assms(2) fits(2), of type flags stream_id]
      take_memcpy [of 0 ?h buffer] by simp
  then have data: "data = ?h @ payload @ rest" using assms(3) by simp
  show ?thesis
  proof (cases "n < 9")
    case True
    then show ?thesis using assms(4) by (simp add: decode_frame_http2_def)
  next
    case False
    then have part: "take n data = ?h @ take (n - 9) (payload @ rest)" by (simp add: data)
    have "?h ! 0 = of_nat (length payload div 65536)" "?h ! 1 = of_nat (length payload div 256)"
      "?h ! 2 = of_nat (length payload)" "?h ! 3 = type" "?h ! 4 = flags"
      "drop 5 ?h = number_bytes (stream_id AND HTTP2_MAX_STREAM_ID)"
      by (simp_all add: frame_header_def)
    then have "decode_frame_http2 (?h @ bs) = Inr
        \<lparr>frame_length = length payload, frame_type = type, frame_flags = flags,
         frame_stream_id = stream_id AND HTTP2_MAX_STREAM_ID,
         frame_payload = (if length bs < length payload then None else Some (take (length payload) bs))\<rparr>" for bs
      using length_field [of "length payload"] fits(2) by (simp add: decode_frame_http2_def Let_def nth_append)
    moreover have "length data = 9 + length payload + length rest" by (simp add: data)
    ultimately show ?thesis
      using False assms(4) by (auto simp: part min_def)
  qed
qed

theorem frame_roundtrip_witness:
  "decode_frame_http2 (take 10 (frame_header 2 0 1 3 @ [65, 66, 67])) =
    (if 10 < (9::nat) then Inl (Http2_Error HTTP2_FRAME_SIZE_ERROR)
     else Inr \<lparr>frame_length = length [65, 66 :: byte], frame_type = 0, frame_flags = 1,
       frame_stream_id = 3 AND HTTP2_MAX_STREAM_ID,
       frame_payload = (if 10 < 9 + length [65, 66 :: byte] then None else Some [65, 66])\<rparr>)"
proof (rule frame_roundtrip [where buffer = "replicate 9 0" and buffer_size = 9 and rest = "[67]"
      and buffer' = "frame_header 2 0 1 3"])
  show "encode_frame_http2 (replicate 9 0) 9 (length [65, 66 :: byte]) 0 1 3 = (None, frame_header 2 0 1 3)"
    by (simp add: encode_frame_ok memcpy_def numeral_2_eq_2)
qed simp_all

text \<open>C22: the settings that one end announces with \<open>encode_settings_http2\<close> are the ones the other
  end has after decoding that frame with \<open>decode_frame_http2\<close> and \<open>decode_settings_http2\<close>, all of
  them but the push that the frame never carries, which stays as it was.\<close>

theorem settings_roundtrip:
  assumes "settings_ok s" and "39 \<le> buffer_size" and "buffer_size \<le> length buffer"
    and "encode_settings_http2 buffer buffer_size s = (buffer', Inr n)"
  shows "\<exists>frame payload. decode_frame_http2 (take n buffer') = Inr frame
     \<and> frame_type frame = HTTP2_SETTINGS \<and> frame_stream_id frame = 0 \<and> frame_payload frame = Some payload
     \<and> verify_frame_http2 frame create_settings_http2 = None
     \<and> decode_settings_http2 payload s' = (None, s\<lparr>enable_push := enable_push s'\<rparr>)"
proof -
  have "take n buffer' = frame_header 30 HTTP2_SETTINGS 0 0 @ settings_payload s @ []"
    using assms encode_settings_ok [OF assms(2,3), of s]
      take_memcpy [of 0 "frame_header 30 HTTP2_SETTINGS 0 0 @ settings_payload s" buffer] by simp
  then have "decode_frame_http2 (take n buffer') = Inr \<lparr>frame_length = 30, frame_type = HTTP2_SETTINGS, frame_flags = 0,
      frame_stream_id = 0, frame_payload = Some (settings_payload s)\<rparr>"
    using decode_frame_ok [of "settings_payload s" HTTP2_SETTINGS 0 0 "[]"] by simp
  moreover have "decode_settings_http2 (settings_payload s) s' = (None, s\<lparr>enable_push := enable_push s'\<rparr>)"
    by (rule decode_settings_payload [OF assms(1)])
  ultimately show ?thesis by (simp add: verify_frame_http2_def create_settings_http2_def)
qed

theorem settings_roundtrip_witness:
  "\<exists>frame payload. decode_frame_http2 (take 39 (memcpy (replicate 40 0) 0
       (frame_header 30 HTTP2_SETTINGS 0 0 @ settings_payload create_settings_http2))) = Inr frame
     \<and> frame_type frame = HTTP2_SETTINGS \<and> frame_stream_id frame = 0 \<and> frame_payload frame = Some payload
     \<and> verify_frame_http2 frame create_settings_http2 = None
     \<and> decode_settings_http2 payload create_settings_http2
         = (None, create_settings_http2\<lparr>enable_push := enable_push create_settings_http2\<rparr>)"
  by (rule settings_roundtrip [where buffer_size = 40 and buffer = "replicate 40 0"])
    (simp_all add: encode_settings_ok)

text \<open>C23: no payload of settings, however malformed and even when it is refused half way, takes the
  settings of the peer out of what the protocol allows: the window of a new stream never exceeds
  \<open>HTTP2_MAX_WINDOW_SIZE\<close> and the size of a frame stays between its two bounds; the errors are the
  three of the code.\<close>

theorem settings_bounds:
  assumes "settings_ok s"
  shows "settings_ok (snd (decode_settings_http2 data s)) \<and>
    (case fst (decode_settings_http2 data s) of None \<Rightarrow> True | Some e \<Rightarrow>
      e \<in> {Http2_Error HTTP2_FRAME_SIZE_ERROR, Http2_Error HTTP2_PROTOCOL_ERROR, Http2_Error HTTP2_FLOW_CONTROL_ERROR})"
proof -
  have entry: "e \<in> {Http2_Error HTTP2_PROTOCOL_ERROR, Http2_Error HTTP2_FLOW_CONTROL_ERROR}"
    if "apply_setting key v s = (Some e, s')" for key v s s' e
    using that by (auto simp: apply_setting_def split: if_splits)
  have "fst (decode_settings_loop data s) = Some e \<Longrightarrow> length data mod 6 = 0 \<Longrightarrow>
      e \<in> {Http2_Error HTTP2_PROTOCOL_ERROR, Http2_Error HTTP2_FLOW_CONTROL_ERROR}" for e
  proof (induction data s rule: decode_settings_loop.induct)
    case (1 a b c d e' f rest s)
    obtain r s' where "apply_setting (push_bit 8 (unat a) OR unat b) (decode_number_http2 [c, d, e', f]) s = (r, s')"
      by fastforce
    then show ?case using 1 entry by (cases r) auto
  qed simp_all
  then show ?thesis
    using decode_settings_ok [OF assms, of data] by (auto simp: decode_settings_http2_def split: option.splits)
qed

theorem settings_bounds_witness:
  "settings_ok (snd (decode_settings_http2 [0, 4, 0x80, 0, 0, 0] create_settings_http2)) \<and>
    (case fst (decode_settings_http2 [0, 4, 0x80, 0, 0, 0] create_settings_http2) of None \<Rightarrow> True | Some e \<Rightarrow>
      e \<in> {Http2_Error HTTP2_FRAME_SIZE_ERROR, Http2_Error HTTP2_PROTOCOL_ERROR, Http2_Error HTTP2_FLOW_CONTROL_ERROR})"
  by (rule settings_bounds) simp

end
