(* ===== verification/Http_Request.thy ===== *)
theory Http_Request
  imports Viriatum_Prelude
begin

text \<open>
  The message that a handler sees, whatever the protocol that carried it
  (\<^verbatim>\<open>src/src/viriatum/http/http_request.c\<close> and \<^verbatim>\<open>http_request.h\<close>), with the methods and
  the flags of \<^verbatim>\<open>src/src/viriatum/http/http_parser.h\<close> that both of the protocols use.
\<close>

section \<open>Data\<close>


datatype http_version = HTTP09 | HTTP10 | HTTP11 | HTTP20

text \<open>The values of \<^verbatim>\<open>enum http_method_e\<close>, which the code keeps in an \<^verbatim>\<open>unsigned char\<close>.\<close>

definition HTTP_DELETE :: nat where [simp]: "HTTP_DELETE = 1"
definition HTTP_GET :: nat where [simp]: "HTTP_GET = 2"
definition HTTP_HEAD :: nat where [simp]: "HTTP_HEAD = 3"
definition HTTP_POST :: nat where [simp]: "HTTP_POST = 4"
definition HTTP_PUT :: nat where [simp]: "HTTP_PUT = 5"
definition HTTP_CONNECT :: nat where [simp]: "HTTP_CONNECT = 6"
definition HTTP_OPTIONS :: nat where [simp]: "HTTP_OPTIONS = 7"
definition HTTP_TRACE :: nat where [simp]: "HTTP_TRACE = 8"
definition HTTP_COPY :: nat where [simp]: "HTTP_COPY = 9"
definition HTTP_LOCK :: nat where [simp]: "HTTP_LOCK = 10"
definition HTTP_MKCOL :: nat where [simp]: "HTTP_MKCOL = 11"
definition HTTP_MOVE :: nat where [simp]: "HTTP_MOVE = 12"
definition HTTP_PROPFIND :: nat where [simp]: "HTTP_PROPFIND = 13"
definition HTTP_PROPPATCH :: nat where [simp]: "HTTP_PROPPATCH = 14"
definition HTTP_UNLOCK :: nat where [simp]: "HTTP_UNLOCK = 15"
definition HTTP_REPORT :: nat where [simp]: "HTTP_REPORT = 16"
definition HTTP_MKACTIVITY :: nat where [simp]: "HTTP_MKACTIVITY = 17"
definition HTTP_CHECKOUT :: nat where [simp]: "HTTP_CHECKOUT = 18"
definition HTTP_MERGE :: nat where [simp]: "HTTP_MERGE = 19"
definition HTTP_MSEARCH :: nat where [simp]: "HTTP_MSEARCH = 20"
definition HTTP_NOTIFY :: nat where [simp]: "HTTP_NOTIFY = 21"
definition HTTP_SUBSCRIBE :: nat where [simp]: "HTTP_SUBSCRIBE = 22"
definition HTTP_UNSUBSCRIBE :: nat where [simp]: "HTTP_UNSUBSCRIBE = 23"
definition HTTP_PATCH :: nat where [simp]: "HTTP_PATCH = 24"

definition http_method_strings :: "bytes list" where
  "http_method_strings = map ascii
     [''DELETE'', ''GET'', ''HEAD'', ''POST'', ''PUT'', ''CONNECT'', ''OPTIONS'', ''TRACE'', ''COPY'',
      ''LOCK'', ''MKCOL'', ''MOVE'', ''PROPFIND'', ''PROPPATCH'', ''UNLOCK'', ''REPORT'', ''MKACTIVITY'',
      ''CHECKOUT'', ''MERGE'', ''M-SEARCH'', ''NOTIFY'', ''SUBSCRIBE'', ''UNSUBSCRIBE'', ''PATCH'']"

definition FLAG_CHUNKED :: byte where [simp]: "FLAG_CHUNKED = 0x01"
definition FLAG_KEEP_ALIVE :: byte where [simp]: "FLAG_KEEP_ALIVE = 0x02"
definition FLAG_CLOSE :: byte where [simp]: "FLAG_CLOSE = 0x04"
definition FLAG_TRAILING :: byte where [simp]: "FLAG_TRAILING = 0x08"
definition FLAG_UPGRADE :: byte where [simp]: "FLAG_UPGRADE = 0x10"
definition FLAG_SKIPBODY :: byte where [simp]: "FLAG_SKIPBODY = 0x20"

definition HTTP_SCHEME :: bytes where "HTTP_SCHEME = ascii ''http''"
definition HTTPS_SCHEME :: bytes where "HTTPS_SCHEME = ascii ''https''"

text \<open>
  The path is the list of its \<^verbatim>\<open>path_size\<close> bytes; the authority is the list of bytes before the
  terminator that the code writes, \<open>c_string\<close> is what a reader of the string sees of it. The
  references to the context of the handler and to the connection are not part of the record.
\<close>

record http_request =
  request_version :: http_version
  request_method :: nat
  request_status_code :: nat
  request_flags :: byte
  request_stream_id :: u32
  request_trailers :: bool
  request_scheme :: bytes
  request_authority :: bytes
  request_path :: bytes
  request_content_length :: nat

section \<open>Operations\<close>

definition reset_http_request :: "http_request \<Rightarrow> http_request" where
  "reset_http_request request = request
     \<lparr>request_version := HTTP11, request_method := 0, request_status_code := 0, request_flags := 0,
      request_stream_id := 0, request_trailers := False, request_authority := [], request_path := [],
      request_content_length := 0\<rparr>"

definition create_http_request :: http_request where
  "create_http_request =
     \<lparr>request_version = HTTP11, request_method = 0, request_status_code = 0, request_flags = 0,
      request_stream_id = 0, request_trailers = False, request_scheme = HTTP_SCHEME, request_authority = [],
      request_path = [], request_content_length = 0\<rparr>"

definition append_path_http_request :: "http_request \<Rightarrow> bytes \<Rightarrow> http_request" where
  "append_path_http_request request data =
     (let remaining = VIRIATUM_MAX_URL_SIZE - length (request_path request) - 1;
          data_size = (if length data > remaining then remaining else length data)
      in request\<lparr>request_path := request_path request @ take data_size data\<rparr>)"

definition get_http_version :: "nat \<Rightarrow> nat \<Rightarrow> http_version" where
  "get_http_version http_major http_minor =
     (if http_major = 0 then (if http_minor = 9 then HTTP09 else HTTP11)
      else if http_major = 1 then
        (if http_minor = 0 then HTTP10 else if http_minor = 1 then HTTP11 else HTTP11)
      else if http_major = 2 then (if http_minor = 0 then HTTP20 else HTTP11)
      else HTTP11)"

end
