(* ===== verification/Http2_Session.thy ===== *)
theory Http2_Session
  imports Http2_Frame Http_Request
begin

text \<open>
  The session of \<^verbatim>\<open>src/src/viriatum/stream/stream_http2.h\<close> and the operations of
  \<^verbatim>\<open>stream_http2.c\<close> that create it, release it and find, open and close its streams, each
  stream owning a message of \<^verbatim>\<open>Http_Request\<close>.

  The record of the session holds the \<^verbatim>\<open>http2_connection_t\<close> together with the part of the
  \<^verbatim>\<open>http_connection_t\<close> and of the \<^verbatim>\<open>connection_t\<close> below it that the session reads and writes:
  the current message and handler, the write queue and the buffer of the received data. The table
  of streams is a list of \<open>HTTP2_STREAM_SLOTS\<close> slots and a reference to a stream is the index of
  its slot. The current message (\<^verbatim>\<open>http_connection->request\<close>) is the identifier of the stream
  that owns it, together with the settings of that stream; a handler is named by a number.

  What a handler does is a function \<open>driver\<close> from an event to the session it leaves, the
  functions that the code reaches through the pointers of \<^verbatim>\<open>http_settings_t\<close> and
  \<^verbatim>\<open>http_handler_t\<close>. Every event is also recorded in the session, so that the theorems can speak
  of what the handlers are told.
\<close>

section \<open>Data\<close>

definition HTTP2_STREAM_SLOTS :: nat where [simp]: "HTTP2_STREAM_SLOTS = HTTP2_MAX_CONCURRENT"
definition HTTP2_MAX_BLOCK :: nat where [simp]: "HTTP2_MAX_BLOCK = 65536"

datatype http2_stream_state =
    HTTP2_STATE_IDLE
  | HTTP2_STATE_RESERVED_LOCAL
  | HTTP2_STATE_RESERVED_REMOTE
  | HTTP2_STATE_OPEN
  | HTTP2_STATE_HALF_CLOSED_LOCAL
  | HTTP2_STATE_HALF_CLOSED_REMOTE
  | HTTP2_STATE_CLOSED

text \<open>
  A fragment that waits for the window. The callback stands for the function of the handler
  together with its parameters, \<^term>\<open>None\<close> for \<^verbatim>\<open>NULL\<close>.
\<close>

record http2_pending =
  pending_data :: bytes
  pending_offset :: nat
  pending_last :: bool
  pending_callback :: "nat option"

record http2_stream =
  stream_id :: u32
  stream_state :: http2_stream_state
  stream_send_window :: int
  stream_receive_window :: int
  stream_priority :: http2_priority
  stream_request :: http_request
  stream_handler :: "nat option"
  end_stream :: bool
  headers_complete :: bool
  complete :: bool
  content_length :: "64 word"
  announced :: bool
  received :: "64 word"
  pending :: "http2_pending list"

text \<open>The structure that carries a stream through the completion of a write.\<close>

record http2_callback =
  callback_stream_id :: u32
  callback_function :: "nat option"

text \<open>What a completed write calls: nothing, the closing of the connection or a stream.\<close>

datatype completion = No_callback | Close_callback | Stream_callback http2_callback

text \<open>What a handler is told.\<close>

datatype handler_event =
    Handler_set
  | Handler_unset
  | On_message_begin
  | On_url bytes
  | On_header_field bytes
  | On_header_value bytes
  | On_headers_complete
  | On_body bytes
  | On_message_complete
  | On_written nat

record http2_session =
  session_settings :: http2_settings
  remote :: http2_settings
  decoder :: hpack_table
  encoder :: hpack_table
  streams :: "http2_stream list"
  stream_count :: nat
  last_stream_id :: u32
  push_stream_id :: u32
  send_window :: int
  receive_window :: int
  preface :: bool
  goaway :: bool
  continuation :: u32
  refused :: u32
  continuation_flags :: byte
  callbacks :: "http2_callback list"
  block_data :: "bytes option"
  current_request :: "u32 option"
  current_handler :: "nat option"
  base_handler :: nat
  write_queue :: "(bytes \<times> completion) list"
  closed :: bool
  received_buffer :: bytes
  read_offset :: nat
  description :: bytes
  events :: "(u32 option \<times> handler_event) list"

type_synonym driver = "handler_event \<Rightarrow> http2_session \<Rightarrow> http2_session"

text \<open>An event reaches the handler of the current message.\<close>

definition deliver :: "driver \<Rightarrow> handler_event \<Rightarrow> http2_session \<Rightarrow> http2_session" where
  "deliver driver event s = driver event (s\<lparr>events := events s @ [(current_request s, event)]\<rparr>)"

definition update_stream :: "nat \<Rightarrow> (http2_stream \<Rightarrow> http2_stream) \<Rightarrow> http2_session \<Rightarrow> http2_session" where
  "update_stream slot f s = s\<lparr>streams := (streams s)[slot := f (streams s ! slot)]\<rparr>"

text \<open>The \<^verbatim>\<open>block_size\<close> of the session, which the code keeps beside the block.\<close>

definition block_size :: "http2_session \<Rightarrow> nat" where
  "block_size s = (case block_data s of None \<Rightarrow> 0 | Some data \<Rightarrow> length data)"

section \<open>Streams\<close>

definition activate_http2 :: "http2_session \<Rightarrow> nat \<Rightarrow> http2_session" where
  "activate_http2 s slot =
     s\<lparr>current_request := Some (stream_id (streams s ! slot)),
       current_handler := stream_handler (streams s ! slot)\<rparr>"

text \<open>The slot of the stream with an identifier, among the ones from \<open>index\<close> on.\<close>

fun find_stream_from :: "http2_stream list \<Rightarrow> nat \<Rightarrow> u32 \<Rightarrow> nat option" where
  "find_stream_from [] index sid = None"
| "find_stream_from (stream # rest) index sid =
     (if stream_id stream = sid then Some index else find_stream_from rest (index + 1) sid)"

definition find_stream :: "http2_session \<Rightarrow> u32 \<Rightarrow> nat option" where
  "find_stream s sid = find_stream_from (take (stream_count s) (streams s)) 0 sid"

text \<open>The values a stream starts its life with.\<close>

definition open_stream ::
    "http2_session \<Rightarrow> u32 \<Rightarrow> http2_session \<times> nat result" where
  "open_stream s sid =
     (if sid mod 2 = 0 then (s, Inl (Http2_Error HTTP2_PROTOCOL_ERROR))
      else if sid \<le> last_stream_id s then (s, Inl (Http2_Error HTTP2_PROTOCOL_ERROR))
      else if stream_count s \<ge> max_concurrent_streams (session_settings s) \<or> stream_count s \<ge> HTTP2_STREAM_SLOTS
      then (s, Inl (Http2_Error HTTP2_REFUSED_STREAM))
      else
        (let slot = stream_count s;
             stream =
               \<lparr>stream_id = sid, stream_state = HTTP2_STATE_OPEN,
                stream_send_window = int (initial_window_size (remote s)),
                stream_receive_window = int (initial_window_size (session_settings s)),
                stream_priority = \<lparr>dependency = 0, weight = HTTP2_DEFAULT_WEIGHT, exclusive = False\<rparr>,
                stream_request = create_http_request\<lparr>request_version := HTTP20, request_stream_id := sid,
                  request_flags := FLAG_KEEP_ALIVE\<rparr>,
                stream_handler = None, end_stream = False, headers_complete = False, complete = False,
                content_length = 0, announced = False, received = 0, pending = []\<rparr>
         in (s\<lparr>streams := (streams s)[slot := stream], stream_count := stream_count s + 1,
               last_stream_id := sid\<rparr>, Inr slot)))"

text \<open>The streams that hung from the one being closed come to hang from the one it hung from.\<close>

definition reparent :: "u32 \<Rightarrow> u32 \<Rightarrow> http2_stream \<Rightarrow> http2_stream" where
  "reparent old new stream =
     (if dependency (stream_priority stream) \<noteq> old then stream
      else stream\<lparr>stream_priority := (stream_priority stream)\<lparr>dependency := new\<rparr>\<rparr>)"

text \<open>
  The release of what a stream holds: the handler, the fragments and, when it is current, the
  reference of the connection to its message.
\<close>

definition release_stream :: "driver \<Rightarrow> http2_session \<Rightarrow> nat \<Rightarrow> http2_session" where
  "release_stream driver s slot =
     (let s1 = (if stream_handler (streams s ! slot) \<noteq> None
                then update_stream slot (\<lambda>stream. stream\<lparr>stream_handler := None\<rparr>)
                       (deliver driver Handler_unset (activate_http2 s slot))
                else s);
          s2 = update_stream slot (\<lambda>stream. stream\<lparr>pending := []\<rparr>) s1
      in (if current_request s2 = Some (stream_id (streams s2 ! slot))
          then s2\<lparr>current_request := None, current_handler := None\<rparr> else s2))"

text \<open>The removal from the tree and from the table, whose last slot has been taken down before.\<close>

definition remove_stream :: "nat \<Rightarrow> nat \<Rightarrow> http2_session \<Rightarrow> http2_session" where
  "remove_stream slot final s =
     (let stream = streams s ! slot;
          moved = map (reparent (stream_id stream) (dependency (stream_priority stream)))
                    (take (stream_count s) (streams s)) @ drop (stream_count s) (streams s);
          compact = (if slot \<noteq> final then moved[slot := moved ! final] else moved)
      in s\<lparr>streams := compact[final := (compact ! final)\<lparr>stream_id := 0\<rparr>],
           stream_count := stream_count s - 1\<rparr>)"

definition close_stream :: "driver \<Rightarrow> http2_session \<Rightarrow> nat \<Rightarrow> http2_session" where
  "close_stream driver s slot = remove_stream slot (stream_count s - 1) (release_stream driver s slot)"

section \<open>The session\<close>

text \<open>
  A new session over a connection that has a base handler, some data already received and its
  description; the slots of the table are not initialised by the code.
\<close>

definition create_http2_session :: "http2_stream list \<Rightarrow> nat \<Rightarrow> bytes \<Rightarrow> bytes \<Rightarrow> http2_session" where
  "create_http2_session slots handler received_data server =
     \<lparr>session_settings = create_settings_http2, remote = create_settings_http2,
      decoder = create_hpack_table, encoder = create_hpack_table,
      streams = slots, stream_count = 0, last_stream_id = 0, push_stream_id = 0,
      send_window = int HTTP2_DEFAULT_WINDOW_SIZE, receive_window = int HTTP2_DEFAULT_WINDOW_SIZE,
      preface = False, goaway = False, continuation = 0, refused = 0, continuation_flags = 0,
      callbacks = [], block_data = None, current_request = None, current_handler = None,
      base_handler = handler, write_queue = [], closed = False, received_buffer = received_data, read_offset = 0,
      description = server, events = []\<rparr>"

text \<open>
  The closing of every stream, the first of them over and over; the fuel is the number of open
  streams, as a handler that unsets itself opens none.
\<close>

primrec close_all :: "driver \<Rightarrow> nat \<Rightarrow> http2_session \<Rightarrow> http2_session" where
  "close_all driver 0 s = s"
| "close_all driver (Suc n) s =
     (if stream_count s > 0 then close_all driver n (close_stream driver s 0) else s)"

text \<open>What the release leaves of the session: no stream, no callback, no block and empty tables.\<close>

definition delete_http2_session :: "driver \<Rightarrow> http2_session \<Rightarrow> http2_session" where
  "delete_http2_session driver s =
     (let s' = close_all driver (stream_count s) s
      in s'\<lparr>current_request := None, current_handler := None, callbacks := [], block_data := None,
            decoder := delete_hpack_table (decoder s'), encoder := delete_hpack_table (encoder s')\<rparr>)"

end
