(* ===== verification/Http2_Tree.thy ===== *)
theory Http2_Tree
  imports Http2_Session
begin

text \<open>
  The tree of the priorities of \<^verbatim>\<open>src/src/viriatum/stream/stream_http2.c\<close>: the walk from a
  stream to the root (\<^verbatim>\<open>_descends_http2_connection\<close>), the placing of a stream
  (\<^verbatim>\<open>prioritise_stream_http2_connection\<close>) and the stream that keeps another from writing
  (\<^verbatim>\<open>_blocked_http2_connection\<close>). The walks of the code are bounded by the number of open
  streams, which is enough for every walk of a tree.
\<close>

section \<open>Operations\<close>

text \<open>The walk, with the number of steps that the loop of the code has left.\<close>

fun descends_from :: "http2_session \<Rightarrow> nat \<Rightarrow> u32 \<Rightarrow> u32 \<Rightarrow> bool" where
  "descends_from s 0 sid ancestor = False"
| "descends_from s (Suc steps) sid ancestor =
     (if sid = 0 then False
      else if sid = ancestor then True
      else
        (case find_stream s sid of
           None \<Rightarrow> False
         | Some slot \<Rightarrow> descends_from s steps (dependency (stream_priority (streams s ! slot))) ancestor))"

definition descends :: "http2_session \<Rightarrow> u32 \<Rightarrow> u32 \<Rightarrow> bool" where
  "descends s sid ancestor = descends_from s (stream_count s) sid ancestor"

text \<open>An exclusive dependency takes over the streams that hung from the new parent.\<close>

definition take_over :: "u32 \<Rightarrow> u32 \<Rightarrow> http2_stream \<Rightarrow> http2_stream" where
  "take_over sid parent stream =
     (if stream_id stream = sid then stream
      else if dependency (stream_priority stream) \<noteq> parent then stream
      else stream\<lparr>stream_priority := (stream_priority stream)\<lparr>dependency := sid\<rparr>\<rparr>)"

definition prioritise_stream :: "http2_session \<Rightarrow> nat \<Rightarrow> http2_priority \<Rightarrow> error option \<times> http2_session" where
  "prioritise_stream s slot priority =
     (let stream = streams s ! slot; sid = stream_id stream
      in if dependency priority = sid then (Some (Http2_Error HTTP2_PROTOCOL_ERROR), s)
         else
           (let s1 =
              (if descends s (dependency priority) sid then
                 (case find_stream s (dependency priority) of
                    None \<Rightarrow> s
                  | Some parent \<Rightarrow>
                      update_stream parent (\<lambda>p. p\<lparr>stream_priority :=
                        (stream_priority p)\<lparr>dependency := dependency (stream_priority stream)\<rparr>\<rparr>) s)
               else s);
                s2 =
              (if exclusive priority then
                 s1\<lparr>streams := map (take_over sid (dependency priority)) (take (stream_count s1) (streams s1))
                      @ drop (stream_count s1) (streams s1)\<rparr>
               else s1)
            in (None, update_stream slot (\<lambda>stream. stream\<lparr>stream_priority := priority\<rparr>) s2)))"

text \<open>The walk over the streams that one depends on, for one that has something to write.\<close>

fun blocked_from :: "http2_session \<Rightarrow> nat \<Rightarrow> u32 \<Rightarrow> bool" where
  "blocked_from s 0 sid = False"
| "blocked_from s (Suc steps) sid =
     (if sid = 0 then False
      else
        (case find_stream s sid of
           None \<Rightarrow> False
         | Some slot \<Rightarrow>
             let parent = streams s ! slot
             in if pending parent \<noteq> [] \<and> stream_send_window parent > 0 then True
                else blocked_from s steps (dependency (stream_priority parent))))"

definition blocked :: "http2_session \<Rightarrow> nat \<Rightarrow> bool" where
  "blocked s slot = blocked_from s (stream_count s) (dependency (stream_priority (streams s ! slot)))"

end
