(* ===== verification/Http2_Output.thy ===== *)
theory Http2_Output
  imports Http2_Tree
begin

text \<open>
  What the session of \<^verbatim>\<open>src/src/viriatum/stream/stream_http2.c\<close> writes: the frames of the
  connection itself, the windows and the settings of the peer, the payload that the windows let
  through and its scheduling over the tree, the writing operations that a handler reaches through
  the connection, and the completion of a write. The memory of a new buffer is not initialised by
  the code and is zero here; no byte of it is ever written to the connection.
\<close>

definition fresh :: "nat \<Rightarrow> bytes" where
  "fresh n = replicate n 0"

section \<open>Frames of the connection\<close>

definition write_connection :: "bytes \<Rightarrow> completion \<Rightarrow> http2_session \<Rightarrow> http2_session" where
  "write_connection data c s = s\<lparr>write_queue := write_queue s @ [(data, c)]\<rparr>"

definition close_connection :: "http2_session \<Rightarrow> http2_session" where
  "close_connection s = s\<lparr>closed := True\<rparr>"

definition write_value :: "byte \<Rightarrow> u32 \<Rightarrow> u32 \<Rightarrow> http2_session \<Rightarrow> error option \<times> http2_session" where
  "write_value type sid v s =
     (case encode_value_http2 (fresh (HTTP2_HEADER_SIZE + 4)) (HTTP2_HEADER_SIZE + 4) type sid v of
        (buffer, Inl e) \<Rightarrow> (Some e, s)
      | (buffer, Inr n) \<Rightarrow> (None, write_connection (take n buffer) No_callback s))"

definition write_goaway :: "u32 \<Rightarrow> http2_session \<Rightarrow> error option \<times> http2_session" where
  "write_goaway code s =
     (if goaway s then (None, close_connection s)
      else
        (let s1 = s\<lparr>goaway := True\<rparr>
         in case encode_goaway_http2 (fresh (HTTP2_HEADER_SIZE + 8)) (HTTP2_HEADER_SIZE + 8)
                   (last_stream_id s1) code of
              (buffer, Inl e) \<Rightarrow> (Some e, close_connection s1)
            | (buffer, Inr n) \<Rightarrow> (None, write_connection (take n buffer) Close_callback s1)))"

definition write_settings :: "bool \<Rightarrow> http2_session \<Rightarrow> error option \<times> http2_session" where
  "write_settings ack s =
     (if ack then
        (case encode_frame_http2 (fresh HTTP2_HEADER_SIZE) HTTP2_HEADER_SIZE 0 HTTP2_SETTINGS HTTP2_FLAG_ACK 0 of
           (Some e, buffer) \<Rightarrow> (Some e, s)
         | (None, buffer) \<Rightarrow> (None, write_connection (take HTTP2_HEADER_SIZE buffer) No_callback s))
      else
        (case encode_settings_http2 (fresh (HTTP2_HEADER_SIZE + HTTP2_SETTING_SIZE * 5))
                (HTTP2_HEADER_SIZE + HTTP2_SETTING_SIZE * 5) (session_settings s) of
           (buffer, Inl e) \<Rightarrow> (Some e, s)
         | (buffer, Inr n) \<Rightarrow> (None, write_connection (take n buffer) No_callback s)))"

definition write_ping :: "bytes \<Rightarrow> http2_session \<Rightarrow> error option \<times> http2_session" where
  "write_ping data s =
     (case encode_frame_http2 (fresh (HTTP2_HEADER_SIZE + HTTP2_PING_SIZE)) (HTTP2_HEADER_SIZE + HTTP2_PING_SIZE)
             HTTP2_PING_SIZE HTTP2_PING HTTP2_FLAG_ACK 0 of
        (Some e, buffer) \<Rightarrow> (Some e, s)
      | (None, buffer) \<Rightarrow>
          (case read_bytes data 0 HTTP2_PING_SIZE of
             Inl e \<Rightarrow> (Some e, s)
           | Inr opaque \<Rightarrow>
               (None, write_connection
                  (take (HTTP2_HEADER_SIZE + HTTP2_PING_SIZE) (memcpy buffer HTTP2_HEADER_SIZE opaque)) No_callback s)))"

section \<open>Windows and settings of the peer\<close>

definition update_window :: "http2_session \<Rightarrow> u32 \<Rightarrow> u32 \<Rightarrow> error option \<times> http2_session" where
  "update_window s sid increment =
     (if increment = 0 then (Some (Http2_Error HTTP2_PROTOCOL_ERROR), s)
      else if sid = 0 then
        if send_window s > int HTTP2_MAX_WINDOW_SIZE - int (unat increment)
        then (Some (Http2_Error HTTP2_FLOW_CONTROL_ERROR), s)
        else (None, s\<lparr>send_window := send_window s + int (unat increment)\<rparr>)
      else
        (case find_stream s sid of
           None \<Rightarrow> (None, s)
         | Some slot \<Rightarrow>
             if stream_send_window (streams s ! slot) > int HTTP2_MAX_WINDOW_SIZE - int (unat increment)
             then (Some (Http2_Error HTTP2_FLOW_CONTROL_ERROR), s)
             else (None, update_stream slot
                     (\<lambda>stream. stream\<lparr>stream_send_window := stream_send_window stream + int (unat increment)\<rparr>) s)))"

text \<open>The difference of the initial window over the open streams, until one goes beyond the largest.\<close>

fun shift_windows :: "int \<Rightarrow> http2_stream list \<Rightarrow> error option \<times> http2_stream list" where
  "shift_windows difference [] = (None, [])"
| "shift_windows difference (stream # rest) =
     (if difference > 0 \<and> stream_send_window stream > int HTTP2_MAX_WINDOW_SIZE - difference
      then (Some (Http2_Error HTTP2_FLOW_CONTROL_ERROR), stream # rest)
      else
        (case shift_windows difference rest of
           (r, rest') \<Rightarrow>
             (r, stream\<lparr>stream_send_window := stream_send_window stream + difference\<rparr> # rest')))"

definition apply_settings :: "http2_session \<Rightarrow> bytes \<Rightarrow> error option \<times> http2_session" where
  "apply_settings s data =
     (let previous = initial_window_size (remote s)
      in case decode_settings_http2 data (remote s) of
           (Some e, settings) \<Rightarrow> (Some e, s\<lparr>remote := settings\<rparr>)
         | (None, settings) \<Rightarrow>
             (let s1 = s\<lparr>remote := settings\<rparr>;
                  difference = int (initial_window_size settings) - int previous;
                  shifted = (if difference \<noteq> 0
                    then shift_windows difference (take (stream_count s1) (streams s1))
                    else (None, take (stream_count s1) (streams s1)));
                  s2 = s1\<lparr>streams := snd shifted @ drop (stream_count s1) (streams s1)\<rparr>
              in case fst shifted of
                   Some e \<Rightarrow> (Some e, s2)
                 | None \<Rightarrow>
                     if header_table_size settings < HPACK_TABLE_SIZE then
                       (case resize_hpack_table (encoder s2) (header_table_size settings) of
                          (Some e, t) \<Rightarrow> (Some (Http2_Error HTTP2_COMPRESSION_ERROR), s2\<lparr>encoder := t\<rparr>)
                        | (None, t) \<Rightarrow> (None, s2\<lparr>encoder := t\<rparr>))
                     else (None, s2)))"

section \<open>The payload of the responses\<close>

definition wrap :: "u32 \<Rightarrow> nat option \<Rightarrow> http2_callback" where
  "wrap sid callback = \<lparr>callback_stream_id = sid, callback_function = callback\<rparr>"

text \<open>A write that carries a stream through its completion, the structure being outstanding until then.\<close>

definition write_wrapped :: "bytes \<Rightarrow> u32 \<Rightarrow> nat option \<Rightarrow> http2_session \<Rightarrow> http2_session" where
  "write_wrapped data sid callback s =
     write_connection data (Stream_callback (wrap sid callback))
       (s\<lparr>callbacks := callbacks s @ [wrap sid callback]\<rparr>)"

definition data_header :: "nat \<Rightarrow> bool \<Rightarrow> u32 \<Rightarrow> bytes" where
  "data_header allowed final sid =
     snd (encode_frame_http2 (fresh HTTP2_HEADER_SIZE) HTTP2_HEADER_SIZE allowed HTTP2_DATA
            (if final then HTTP2_FLAG_END_STREAM else 0x00) sid)"

text \<open>What the windows and the size of a frame allow of the fragment that is the oldest.\<close>

definition allowed_size :: "http2_session \<Rightarrow> int \<Rightarrow> nat \<Rightarrow> nat" where
  "allowed_size s window remaining =
     (let allowed = (if int remaining > window then nat window else remaining)
      in if allowed > max_frame_size (remote s) then max_frame_size (remote s) else allowed)"

definition account_fragment :: "nat \<Rightarrow> nat \<Rightarrow> bool \<Rightarrow> http2_session \<Rightarrow> http2_session" where
  "account_fragment slot allowed final s =
     update_stream slot
       (\<lambda>stream. let stream' = stream\<lparr>stream_send_window := stream_send_window stream - int allowed\<rparr>
         in if final then
              stream'\<lparr>complete := True,
                stream_state := (if stream_state stream' = HTTP2_STATE_OPEN then HTTP2_STATE_HALF_CLOSED_LOCAL
                                 else stream_state stream')\<rparr>
            else stream')
       (s\<lparr>send_window := send_window s - int allowed\<rparr>)"

text \<open>One turn of the loop of \<^verbatim>\<open>_flush_http2_connection\<close>, nothing when it ends.\<close>

definition flush_step :: "nat \<Rightarrow> http2_session \<Rightarrow> http2_session option" where
  "flush_step slot s =
     (let stream = streams s ! slot
      in case pending stream of
           [] \<Rightarrow> None
         | fragment # rest \<Rightarrow>
             (let remaining = length (pending_data fragment) - pending_offset fragment;
                  window = (if stream_send_window stream < send_window s then stream_send_window stream
                            else send_window s)
              in if window \<le> 0 then None
                 else
                   (let allowed = allowed_size s window remaining;
                        whole = (allowed = remaining);
                        final = (pending_last fragment \<and> whole);
                        s1 = write_connection (data_header allowed final (stream_id stream)) No_callback s;
                        s2 = account_fragment slot allowed final s1;
                        popped = update_stream slot (\<lambda>stream. stream\<lparr>pending := rest\<rparr>) s2;
                        chunk = take allowed (drop (pending_offset fragment) (pending_data fragment))
                    in if pending_offset fragment = 0 \<and> whole then
                         Some (write_wrapped (take allowed (pending_data fragment)) (stream_id stream)
                                 (pending_callback fragment) popped)
                       else if \<not> whole then
                         Some (write_connection chunk No_callback
                           (update_stream slot (\<lambda>stream. stream\<lparr>pending :=
                              fragment\<lparr>pending_offset := pending_offset fragment + allowed\<rparr> # rest\<rparr>) s2))
                       else
                         Some (write_wrapped chunk (stream_id stream) (pending_callback fragment) popped))))"

text \<open>
  The loop, with the number of turns as fuel: a turn sends at least one byte of a fragment or takes
  the fragment off, so that the bytes and the fragments held are enough.
\<close>

primrec flush_loop :: "nat \<Rightarrow> nat \<Rightarrow> http2_session \<Rightarrow> http2_session" where
  "flush_loop slot 0 s = s"
| "flush_loop slot (Suc n) s =
     (case flush_step slot s of None \<Rightarrow> s | Some s' \<Rightarrow> flush_loop slot n s')"

definition flush_fuel :: "http2_pending list \<Rightarrow> nat" where
  "flush_fuel fragments =
     sum_list (map (\<lambda>f. Suc (length (pending_data f) - pending_offset f)) fragments)"

definition flush_stream :: "nat \<Rightarrow> http2_session \<Rightarrow> http2_session" where
  "flush_stream slot s = flush_loop slot (flush_fuel (pending (streams s ! slot))) s"

section \<open>Scheduling\<close>

text \<open>The stream chosen in a round: the heaviest of those able to write, the first among equals.\<close>

definition able_to_write :: "http2_session \<Rightarrow> nat \<Rightarrow> bool" where
  "able_to_write s slot \<longleftrightarrow> pending (streams s ! slot) \<noteq> [] \<and> stream_send_window (streams s ! slot) > 0
     \<and> \<not> blocked s slot"

fun choose_stream :: "http2_session \<Rightarrow> nat list \<Rightarrow> nat option \<Rightarrow> nat option" where
  "choose_stream s [] chosen = chosen"
| "choose_stream s (slot # slots) chosen =
     (if \<not> able_to_write s slot then choose_stream s slots chosen
      else
        (case chosen of
           None \<Rightarrow> choose_stream s slots (Some slot)
         | Some c \<Rightarrow>
             if weight (stream_priority (streams s ! slot)) > weight (stream_priority (streams s ! c))
             then choose_stream s slots (Some slot)
             else choose_stream s slots chosen))"

primrec schedule_rounds :: "nat \<Rightarrow> http2_session \<Rightarrow> http2_session" where
  "schedule_rounds 0 s = s"
| "schedule_rounds (Suc rounds) s =
     (case choose_stream s [0..<stream_count s] None of
        None \<Rightarrow> s
      | Some chosen \<Rightarrow>
          (let s' = flush_stream chosen s
           in if length (pending (streams s' ! chosen)) = length (pending (streams s ! chosen)) then s'
              else schedule_rounds rounds s'))"

definition schedule :: "http2_session \<Rightarrow> http2_session" where
  "schedule s = schedule_rounds HTTP2_STREAM_SLOTS s"

section \<open>The writing operations of a response\<close>

text \<open>The slot of the stream being served.\<close>

definition current_stream :: "http2_session \<Rightarrow> nat option" where
  "current_stream s =
     (case current_request s of None \<Rightarrow> None | Some sid \<Rightarrow> find_stream s sid)"

definition write_chunk :: "bytes \<Rightarrow> bool \<Rightarrow> nat option \<Rightarrow> http2_session \<Rightarrow> http2_session" where
  "write_chunk data final callback s =
     (case current_stream s of
        None \<Rightarrow> s
      | Some slot \<Rightarrow>
          schedule (update_stream slot (\<lambda>stream. stream\<lparr>pending := pending stream @
            [\<lparr>pending_data = data, pending_offset = 0, pending_last = final, pending_callback = callback\<rparr>]\<rparr>) s))"

text \<open>A frame at a position of a buffer, followed by its payload.\<close>

definition frame_at ::
    "bytes \<Rightarrow> nat \<Rightarrow> byte \<Rightarrow> byte \<Rightarrow> u32 \<Rightarrow> bytes \<Rightarrow> bytes" where
  "frame_at buffer offset type flags sid fragment =
     memcpy
       (take offset buffer @
        snd (encode_frame_http2 (drop offset buffer) (length buffer - offset) (length fragment) type flags sid))
       (offset + HTTP2_HEADER_SIZE) fragment"

text \<open>The frames that follow the first; the fuel is the number of them.\<close>

primrec split_loop :: "nat \<Rightarrow> nat \<Rightarrow> u32 \<Rightarrow> bytes \<Rightarrow> bytes \<Rightarrow> nat \<Rightarrow> nat \<Rightarrow> bytes \<times> nat" where
  "split_loop 0 allowed sid data buffer offset position = (buffer, offset)"
| "split_loop (Suc frames) allowed sid data buffer offset position =
     (if position < length data then
        (let fragment = (if length data - position < allowed then length data - position else allowed);
             flags = (if position + fragment = length data then HTTP2_FLAG_END_HEADERS else 0x00);
             buffer' = frame_at buffer offset HTTP2_CONTINUATION flags sid (take fragment (drop position data))
         in split_loop frames allowed sid data buffer' (offset + HTTP2_HEADER_SIZE + fragment) (position + fragment))
      else (buffer, offset))"

definition split_block :: "http2_session \<Rightarrow> bytes \<Rightarrow> bytes" where
  "split_block s data =
     (let allowed = max_frame_size (remote s);
          block = length data - HTTP2_HEADER_SIZE;
          flags = data ! 4;
          sid = decode_number_http2 (drop 5 data) AND HTTP2_MAX_STREAM_ID
      in if block \<le> allowed then data
         else
           (let frames = (block + allowed - 1) div allowed;
                buffer = fresh (block + frames * HTTP2_HEADER_SIZE);
                buffer1 = frame_at buffer 0 (data ! 3) (flags AND NOT HTTP2_FLAG_END_HEADERS) sid
                  (take allowed (drop HTTP2_HEADER_SIZE data))
            in case split_loop frames allowed sid data buffer1 (HTTP2_HEADER_SIZE + allowed) (HTTP2_HEADER_SIZE + allowed) of
                 (buffer2, offset) \<Rightarrow> take offset buffer2))"

definition write_flush :: "bytes \<Rightarrow> nat option \<Rightarrow> http2_session \<Rightarrow> http2_session" where
  "write_flush data callback s =
     (case current_stream s of
        None \<Rightarrow> s
      | Some slot \<Rightarrow>
          (let data' = (if length data > HTTP2_HEADER_SIZE \<and> data ! 3 = HTTP2_HEADERS
                        then split_block s data else data);
               s1 = update_stream slot (\<lambda>stream. stream\<lparr>stream_state :=
                 (if stream_state stream = HTTP2_STATE_RESERVED_LOCAL then HTTP2_STATE_HALF_CLOSED_REMOTE
                  else stream_state stream)\<rparr>) s
           in write_wrapped data' (stream_id (streams s ! slot)) callback s1))"

text \<open>A field into the buffer of a response; an error of the encoder is not looked at by the code.\<close>

definition encode_field :: "bytes \<Rightarrow> nat \<Rightarrow> hpack_header \<Rightarrow> http2_session \<Rightarrow> bytes \<times> nat \<times> http2_session" where
  "encode_field buffer offset h s =
     (case encode_hpack (encoder s) buffer (length buffer) offset h False of
        (r, t, buffer', offset') \<Rightarrow> (buffer', offset', s\<lparr>encoder := t\<rparr>))"

definition write_status :: "bytes \<Rightarrow> nat \<Rightarrow> http2_session \<Rightarrow> bytes \<times> nat \<times> http2_session" where
  "write_status buffer status_code s =
     (case encode_field buffer HTTP2_HEADER_SIZE
             \<lparr>header_name = ascii '':status'', header_value = decimal status_code\<rparr> s of
        (buffer1, offset1, s1) \<Rightarrow>
          encode_field buffer1 offset1
            \<lparr>header_name = ascii ''server'', header_value = c_string (description s1)\<rparr> s1)"

definition write_field :: "bytes \<Rightarrow> nat \<Rightarrow> bytes \<Rightarrow> bytes \<Rightarrow> http2_session \<Rightarrow> bytes \<times> nat \<times> http2_session" where
  "write_field buffer offset name field_value s =
     (let name_size = length name;
          lowered = map to_lower name
      in if name_size \<ge> VIRIATUM_MAX_HEADER_SIZE then (buffer, offset, s)
         else if lowered = ascii ''connection'' then (buffer, offset, s)
         else if lowered = ascii ''keep-alive'' then (buffer, offset, s)
         else if lowered = ascii ''transfer-encoding'' then (buffer, offset, s)
         else if lowered = ascii ''upgrade'' then (buffer, offset, s)
         else encode_field buffer offset \<lparr>header_name = lowered, header_value = field_value\<rparr> s)"

definition write_end :: "bytes \<Rightarrow> nat \<Rightarrow> bool \<Rightarrow> http2_session \<Rightarrow> bytes \<times> http2_session" where
  "write_end buffer offset final s =
     (let slot = current_stream s;
          flags = (if final then HTTP2_FLAG_END_HEADERS OR HTTP2_FLAG_END_STREAM else HTTP2_FLAG_END_HEADERS);
          s1 = (case slot of
                  None \<Rightarrow> s
                | Some i \<Rightarrow>
                    if final then
                      update_stream i (\<lambda>stream. stream\<lparr>complete := True,
                        stream_state := (if stream_state stream = HTTP2_STATE_OPEN
                                         then HTTP2_STATE_HALF_CLOSED_LOCAL else stream_state stream)\<rparr>) s
                    else s);
          sid = (case slot of None \<Rightarrow> 0 | Some i \<Rightarrow> stream_id (streams s ! i))
      in (snd (encode_frame_http2 buffer (length buffer) (offset - HTTP2_HEADER_SIZE) HTTP2_HEADERS flags sid), s1))"

section \<open>The completion of a write\<close>

definition callback_http2 :: "driver \<Rightarrow> http2_callback \<Rightarrow> http2_session \<Rightarrow> http2_session" where
  "callback_http2 driver cb s =
     (let s1 = s\<lparr>callbacks := remove1 cb (callbacks s)\<rparr>
      in case find_stream s (callback_stream_id cb) of
           None \<Rightarrow> s1
         | Some slot \<Rightarrow>
             (let s2 = activate_http2 s1 slot;
                  s3 = (case callback_function cb of
                          None \<Rightarrow> s2
                        | Some f \<Rightarrow> deliver driver (On_written f) s2);
                  s4 = update_stream slot (\<lambda>stream. stream\<lparr>stream_handler := current_handler s3\<rparr>) s3;
                  stream = streams s4 ! slot
              in if complete stream \<and> pending stream = [] then close_stream driver s4 slot else s4))"

text \<open>The io layer writes the oldest buffer of the queue and then calls what it completes.\<close>

definition complete_write :: "driver \<Rightarrow> http2_session \<Rightarrow> http2_session" where
  "complete_write driver s =
     (case write_queue s of
        [] \<Rightarrow> s
      | (data, c) # rest \<Rightarrow>
          (let s1 = s\<lparr>write_queue := rest\<rparr>
           in case c of
                No_callback \<Rightarrow> s1
              | Close_callback \<Rightarrow> close_connection s1
              | Stream_callback cb \<Rightarrow> callback_http2 driver cb s1))"

end
