(* ===== verification/Http2_Block.thy ===== *)
theory Http2_Block
  imports Http2_Output
begin

text \<open>
  The header blocks of \<^verbatim>\<open>src/src/viriatum/stream/stream_http2.c\<close>: the verification of a field,
  the pseudo headers, the gathering of every field into the message of a stream
  (\<^verbatim>\<open>_header_http2_connection\<close>, the callback of the decoder), the handling of a complete block
  and the promise of a stream, which hands a request of its own to the handler.
\<close>

definition HTTP2_PSEUDO_METHOD :: byte where "HTTP2_PSEUDO_METHOD = 0x01"
definition HTTP2_PSEUDO_SCHEME :: byte where "HTTP2_PSEUDO_SCHEME = 0x02"
definition HTTP2_PSEUDO_PATH :: byte where "HTTP2_PSEUDO_PATH = 0x04"
definition HTTP2_PSEUDO_AUTHORITY :: byte where "HTTP2_PSEUDO_AUTHORITY = 0x08"

definition HTTP2_PSEUDO_REQUIRED :: byte where
  "HTTP2_PSEUDO_REQUIRED = HTTP2_PSEUDO_METHOD OR HTTP2_PSEUDO_SCHEME OR HTTP2_PSEUDO_PATH"

definition protocol_error :: error where
  [simp]: "protocol_error = Http2_Error HTTP2_PROTOCOL_ERROR"

text \<open>What the decoding of a block carries along: the stream and what the block has shown so far.\<close>

record http2_block =
  block_slot :: nat
  block_regular :: bool
  block_flushed :: bool
  block_pseudo :: byte
  block_trailers :: bool

fun method_from :: "bytes list \<Rightarrow> nat \<Rightarrow> bytes \<Rightarrow> nat" where
  "method_from [] index data = 0"
| "method_from (name # names) index data =
     (if name \<noteq> data then method_from names (index + 1) data else index + 1)"

definition method_http2 :: "bytes \<Rightarrow> nat" where
  "method_http2 data = method_from http_method_strings 0 data"

section \<open>Verification of a field\<close>

definition name_byte_refused :: "byte \<Rightarrow> bool" where
  "name_byte_refused b \<longleftrightarrow> b \<le> 0x20 \<or> b \<ge> 0x7f \<or>
     b \<in> set (ascii '':,;'' @ [0x5c]) \<or> b \<in> set (ascii ''()<>'') \<or> b \<in> set (ascii ''@[]?'') \<or>
     b \<in> set (ascii ''={}'' @ [0x22]) \<or> b = 0x2f"

definition value_byte_refused :: "byte \<Rightarrow> bool" where
  "value_byte_refused b \<longleftrightarrow> b = 0x0d \<or> b = 0x0a \<or> b = 0x00"

definition padding_byte :: "byte \<Rightarrow> bool" where
  "padding_byte b \<longleftrightarrow> b = 0x20 \<or> b = 0x09"

definition verify_header :: "hpack_header \<Rightarrow> error option" where
  "verify_header h =
     (if list_ex name_byte_refused (header_name h) then Some protocol_error
      else if list_ex value_byte_refused (header_value h) then Some protocol_error
      else if header_value h \<noteq> [] \<and>
        (padding_byte (hd (header_value h)) \<or> padding_byte (last (header_value h))) then Some protocol_error
      else None)"

section \<open>Pseudo headers\<close>

definition pseudo_http2 ::
    "driver \<Rightarrow> http2_session \<times> http2_block \<Rightarrow> error option \<times> http2_session \<times> http2_block" where
  "pseudo_http2 driver p =
     (case p of (s, b) \<Rightarrow>
        if block_flushed b then (None, s, b)
        else
          (let b' = b\<lparr>block_flushed := True\<rparr>
           in if block_trailers b then (None, s, b')
              else if block_pseudo b AND HTTP2_PSEUDO_REQUIRED \<noteq> HTTP2_PSEUDO_REQUIRED
              then (Some protocol_error, s, b')
              else
                (let request = stream_request (streams s ! block_slot b);
                     s1 = deliver driver (On_url (request_path request)) s;
                     authority = c_string (request_authority request);
                     s2 = (if authority \<noteq> []
                           then deliver driver (On_header_value authority)
                                  (deliver driver (On_header_field (ascii ''Host'')) s1)
                           else s1)
                 in (None, s2, b'))))"

definition update_request :: "nat \<Rightarrow> (http_request \<Rightarrow> http_request) \<Rightarrow> http2_session \<Rightarrow> http2_session" where
  "update_request slot f s =
     update_stream slot (\<lambda>stream. stream\<lparr>stream_request := f (stream_request stream)\<rparr>) s"

text \<open>A field whose name starts with a colon.\<close>

definition header_pseudo ::
    "http2_session \<times> http2_block \<Rightarrow> hpack_header \<Rightarrow> error option \<times> http2_session \<times> http2_block" where
  "header_pseudo p h =
     (case p of (s, b) \<Rightarrow>
        (let slot = block_slot b; name = header_name h; v = header_value h;
             mark = (\<lambda>bit. b\<lparr>block_pseudo := block_pseudo b OR bit\<rparr>)
         in if block_regular b then (Some protocol_error, s, b)
            else if block_trailers b then (Some protocol_error, s, b)
            else if name = ascii '':method'' then
              if block_pseudo b AND HTTP2_PSEUDO_METHOD \<noteq> 0 then (Some protocol_error, s, b)
              else
                (let s' = update_request slot (\<lambda>r. r\<lparr>request_method := method_http2 v\<rparr>) s
                 in (if method_http2 v = 0 then Some protocol_error else None, s', mark HTTP2_PSEUDO_METHOD))
            else if name = ascii '':scheme'' then
              if block_pseudo b AND HTTP2_PSEUDO_SCHEME \<noteq> 0 then (Some protocol_error, s, b)
              else if v = HTTPS_SCHEME then
                (None, update_request slot (\<lambda>r. r\<lparr>request_scheme := HTTPS_SCHEME\<rparr>) s, mark HTTP2_PSEUDO_SCHEME)
              else if v = HTTP_SCHEME then
                (None, update_request slot (\<lambda>r. r\<lparr>request_scheme := HTTP_SCHEME\<rparr>) s, mark HTTP2_PSEUDO_SCHEME)
              else (Some protocol_error, s, mark HTTP2_PSEUDO_SCHEME)
            else if name = ascii '':path'' then
              if block_pseudo b AND HTTP2_PSEUDO_PATH \<noteq> 0 then (Some protocol_error, s, b)
              else if v = [] then (Some protocol_error, s, mark HTTP2_PSEUDO_PATH)
              else (None, update_request slot (\<lambda>r. append_path_http_request r v) s, mark HTTP2_PSEUDO_PATH)
            else if name = ascii '':authority'' then
              if block_pseudo b AND HTTP2_PSEUDO_AUTHORITY \<noteq> 0 then (Some protocol_error, s, b)
              else if length v \<ge> VIRIATUM_MAX_PATH_SIZE then (Some protocol_error, s, mark HTTP2_PSEUDO_AUTHORITY)
              else (None, update_request slot (\<lambda>r. r\<lparr>request_authority := v\<rparr>) s, mark HTTP2_PSEUDO_AUTHORITY)
            else (Some protocol_error, s, b)))"

section \<open>Regular fields\<close>

definition connection_specific :: "bytes \<Rightarrow> bool" where
  "connection_specific name \<longleftrightarrow> name \<in> set (map ascii [''connection'', ''keep-alive'', ''upgrade'', ''transfer-encoding''])"

text \<open>
  The digits of the length that a message announces, over a \<^verbatim>\<open>size_t\<close> that wraps around; the
  value gathered so far stays in the stream when a byte is not a digit.
\<close>

fun gather_length :: "bytes \<Rightarrow> 64 word \<Rightarrow> error option \<times> 64 word" where
  "gather_length [] n = (None, n)"
| "gather_length (b # bs) n =
     (if b < 48 \<or> b > 57 then (Some protocol_error, n)
      else gather_length bs (n * 10 + ucast (b - 48)))"

definition header_regular ::
    "driver \<Rightarrow> http2_session \<times> http2_block \<Rightarrow> hpack_header \<Rightarrow> error option \<times> http2_session \<times> http2_block" where
  "header_regular driver p h =
     (case p of (s, b) \<Rightarrow>
        (let name = header_name h; v = header_value h; slot = block_slot b
         in if list_ex (\<lambda>c. 65 \<le> c \<and> c \<le> 90) name then (Some protocol_error, s, b)
            else
              (case verify_header h of
                 Some e \<Rightarrow> (Some e, s, b)
               | None \<Rightarrow>
                   if connection_specific name then (Some protocol_error, s, b)
                   else if name = ascii ''te'' \<and> v \<noteq> ascii ''trailers'' then (Some protocol_error, s, b)
                   else
                     (let gathered =
                        (if name = ascii ''content-length'' then
                           (case gather_length v 0 of
                              (r, n) \<Rightarrow>
                                (r, update_stream slot (\<lambda>stream. stream\<lparr>content_length := n,
                                     announced := (if r = None then True else announced stream)\<rparr>) s))
                         else (None, s))
                      in case gathered of
                           (Some e, s1) \<Rightarrow> (Some e, s1, b)
                         | (None, s1) \<Rightarrow>
                             (None, deliver driver (On_header_value v) (deliver driver (On_header_field name) s1), b)))))"

definition header_http2 ::
    "driver \<Rightarrow> http2_session \<times> http2_block \<Rightarrow> hpack_header \<Rightarrow> error option \<times> http2_session \<times> http2_block" where
  "header_http2 driver p h =
     (if header_name h \<noteq> [] \<and> hd (header_name h) = 0x3a then header_pseudo p h
      else
        (case (if \<not> block_regular (snd p) then pseudo_http2 driver p else (None, p)) of
           (Some e, s, b) \<Rightarrow> (Some e, s, b)
         | (None, s, b) \<Rightarrow> header_regular driver (s, b\<lparr>block_regular := True\<rparr>) h))"

text \<open>The callback of a block whose stream has been refused.\<close>

definition discard_http2 :: "unit \<Rightarrow> hpack_header \<Rightarrow> error option \<times> unit" where
  "discard_http2 parameters h = (None, ())"

section \<open>The handling of a block\<close>

definition compression_error :: error where
  [simp]: "compression_error = Http2_Error HTTP2_COMPRESSION_ERROR"

text \<open>The base handler is set on a stream that has none.\<close>

definition set_handler :: "driver \<Rightarrow> nat \<Rightarrow> http2_session \<Rightarrow> http2_session" where
  "set_handler driver slot s =
     (let s1 = update_stream slot (\<lambda>stream. stream\<lparr>stream_handler := Some (base_handler s)\<rparr>) s;
          s2 = deliver driver Handler_set (activate_http2 s1 slot)
      in update_stream slot (\<lambda>stream. stream\<lparr>stream_handler := current_handler s2\<rparr>) s2)"

definition block_http2 :: "driver \<Rightarrow> http2_session \<Rightarrow> nat \<Rightarrow> bytes \<Rightarrow> error option \<times> http2_session" where
  "block_http2 driver s slot data =
     (let b = \<lparr>block_slot = slot, block_regular = False, block_flushed = False, block_pseudo = 0,
               block_trailers = headers_complete (streams s ! slot)\<rparr>;
          s1 = (if stream_handler (streams s ! slot) = None then set_handler driver slot s else s);
          s2 = activate_http2 s1 slot;
          s3 = (if \<not> block_trailers b then deliver driver On_message_begin s2 else s2)
      in case decode_hpack (decoder s3) data (header_http2 driver) (s3, b) of
           (r, t, s4, b4) \<Rightarrow>
             (let s5 = s4\<lparr>decoder := t\<rparr>
              in if r \<noteq> None then (Some compression_error, s5)
                 else
                   (case pseudo_http2 driver (s5, b4) of
                      (Some e, s6, b6) \<Rightarrow> (Some e, s6)
                    | (None, s6, b6) \<Rightarrow>
                        (let s7 = (if \<not> block_trailers b then
                                     deliver driver On_headers_complete
                                       (update_stream slot (\<lambda>stream. stream\<lparr>headers_complete := True\<rparr>) s6)
                                   else s6);
                             s8 = update_stream slot (\<lambda>stream. stream\<lparr>stream_handler := current_handler s7\<rparr>) s7;
                             s9 = (if end_stream (streams s8 ! slot) then deliver driver On_message_complete s8 else s8)
                         in (None, s9)))))"

section \<open>Promises\<close>

text \<open>The block of the promised request, whose encoding errors the code does not look at.\<close>

definition push_block :: "bytes \<Rightarrow> http_request \<Rightarrow> bytes \<Rightarrow> http2_session \<Rightarrow> bytes \<times> nat \<times> http2_session" where
  "push_block buffer request path s =
     (case encode_field buffer (HTTP2_HEADER_SIZE + 4) \<lparr>header_name = ascii '':method'', header_value = ascii ''GET''\<rparr> s of
        (b1, o1, s1) \<Rightarrow>
     (case encode_field b1 o1 \<lparr>header_name = ascii '':scheme'', header_value = request_scheme request\<rparr> s1 of
        (b2, o2, s2) \<Rightarrow>
     (case encode_field b2 o2 \<lparr>header_name = ascii '':path'', header_value = path\<rparr> s2 of
        (b3, o3, s3) \<Rightarrow>
          if c_string (request_authority request) \<noteq> [] then
            encode_field b3 o3 \<lparr>header_name = ascii '':authority'',
              header_value = c_string (request_authority request)\<rparr> s3
          else (b3, o3, s3))))"

definition promised_stream :: "http2_session \<Rightarrow> u32 \<Rightarrow> u32 \<Rightarrow> http_request \<Rightarrow> bytes \<Rightarrow> http2_stream" where
  "promised_stream s sid parent request path =
     \<lparr>stream_id = sid, stream_state = HTTP2_STATE_RESERVED_LOCAL,
      stream_send_window = int (initial_window_size (remote s)),
      stream_receive_window = int (initial_window_size (session_settings s)),
      stream_priority = \<lparr>dependency = parent, weight = HTTP2_DEFAULT_WEIGHT, exclusive = False\<rparr>,
      stream_request = append_path_http_request
        (create_http_request\<lparr>request_version := HTTP20, request_stream_id := sid, request_flags := FLAG_KEEP_ALIVE,
           request_method := HTTP_GET, request_scheme := request_scheme request,
           request_authority := request_authority request\<rparr>) path,
      stream_handler = None, end_stream = True, headers_complete = True, complete = False,
      content_length = 0, announced = False, received = 0, pending = []\<rparr>"

definition push_stream :: "driver \<Rightarrow> http2_session \<Rightarrow> nat \<Rightarrow> bytes \<Rightarrow> error option \<times> http2_session" where
  "push_stream driver s slot path =
     (if \<not> enable_push (remote s) then (None, s)
      else if stream_count s \<ge> max_concurrent_streams (remote s) \<or> stream_count s \<ge> HTTP2_STREAM_SLOTS then (None, s)
      else
        (let sid = push_stream_id s + 2;
             s1 = s\<lparr>push_stream_id := sid\<rparr>;
             request = stream_request (streams s1 ! slot);
             parent = stream_id (streams s1 ! slot)
         in if sid > HTTP2_MAX_STREAM_ID then (None, s1)
            else
              (case push_block (fresh (HTTP2_HEADER_SIZE + 4 + VIRIATUM_HTTP_SIZE)) request path s1 of
                 (buffer, offset, s2) \<Rightarrow>
                   (case encode_frame_http2 buffer (length buffer) (offset - HTTP2_HEADER_SIZE) HTTP2_PUSH_PROMISE
                           HTTP2_FLAG_END_HEADERS parent of
                      (Some e, buffer') \<Rightarrow> (Some e, s2)
                    | (None, buffer') \<Rightarrow>
                        (let s3 = write_connection (take offset (encode_number_http2 buffer' HTTP2_HEADER_SIZE sid))
                                    No_callback s2;
                             promised = stream_count s3;
                             s4 = s3\<lparr>streams := (streams s3)[promised := promised_stream s3 sid parent request path],
                                     stream_count := stream_count s3 + 1\<rparr>;
                             s5 = activate_http2 (set_handler driver promised s4) promised;
                             s6 = deliver driver On_message_begin s5;
                             s7 = deliver driver (On_url (request_path (stream_request (streams s6 ! promised)))) s6;
                             s8 = deliver driver On_headers_complete s7;
                             s9 = deliver driver On_message_complete s8;
                             s10 = update_stream promised (\<lambda>stream. stream\<lparr>stream_handler := current_handler s9\<rparr>) s9
                         in (None, activate_http2 s10 slot))))))"

end
