(* ===== verification/Http2_Input.thy ===== *)
theory Http2_Input
  imports Http2_Block
begin

text \<open>
  What the session of \<^verbatim>\<open>src/src/viriatum/stream/stream_http2.c\<close> does with what it receives: the
  assembling of a header block, the state of a stream and the frames it may receive in it, the
  handling of every type of frame (\<^verbatim>\<open>handle_frame_http2_connection\<close>, one definition per case of
  its switch) and the reading of the data of the connection (\<^verbatim>\<open>data_handler_stream_http2\<close>).
\<close>

section \<open>Assembling of a block\<close>

definition gather_http2 :: "http2_session \<Rightarrow> bytes \<Rightarrow> error option \<times> http2_session" where
  "gather_http2 s data =
     (if block_size s + length data > HTTP2_MAX_BLOCK then (Some (Http2_Error HTTP2_ENHANCE_YOUR_CALM), s)
      else
        (None, s\<lparr>block_data := Some ((case block_data s of None \<Rightarrow> [] | Some gathered \<Rightarrow> gathered) @ data)\<rparr>))"

definition gather_fragment :: "http2_session \<Rightarrow> bytes result \<Rightarrow> error option \<times> http2_session" where
  "gather_fragment s fragment = (case fragment of Inl e \<Rightarrow> (Some e, s) | Inr data \<Rightarrow> gather_http2 s data)"

definition reset_block :: "http2_session \<Rightarrow> http2_session" where
  "reset_block s = s\<lparr>block_data := None, continuation := 0, continuation_flags := 0, refused := 0\<rparr>"

definition assembled :: "http2_session \<Rightarrow> bytes" where
  "assembled s = (case block_data s of None \<Rightarrow> [] | Some data \<Rightarrow> data)"

section \<open>The state of a stream\<close>

definition state_http2 :: "http2_session \<Rightarrow> u32 \<Rightarrow> nat option \<Rightarrow> http2_stream_state" where
  "state_http2 s sid slot =
     (case slot of
        Some i \<Rightarrow> stream_state (streams s ! i)
      | None \<Rightarrow>
          if sid mod 2 = 0 then (if sid > push_stream_id s then HTTP2_STATE_IDLE else HTTP2_STATE_CLOSED)
          else (if sid > last_stream_id s then HTTP2_STATE_IDLE else HTTP2_STATE_CLOSED))"

definition verify_stream :: "http2_session \<Rightarrow> http2_frame \<Rightarrow> nat option \<Rightarrow> error option" where
  "verify_stream s frame slot =
     (let type = frame_type frame;
          closed_error = Some (Http2_Error HTTP2_STREAM_CLOSED);
          governed = (type = HTTP2_DATA \<or> type = HTTP2_HEADERS \<or> type = HTTP2_RST_STREAM \<or> type = HTTP2_WINDOW_UPDATE
            \<or> type = HTTP2_CONTINUATION \<and> continuation s \<noteq> frame_stream_id frame)
      in if \<not> governed then None
         else
           (case state_http2 s (frame_stream_id frame) slot of
              HTTP2_STATE_IDLE \<Rightarrow>
                if type = HTTP2_HEADERS then None else Some protocol_error
            | HTTP2_STATE_RESERVED_LOCAL \<Rightarrow>
                if type = HTTP2_RST_STREAM \<or> type = HTTP2_WINDOW_UPDATE then None else Some protocol_error
            | HTTP2_STATE_RESERVED_REMOTE \<Rightarrow>
                if type = HTTP2_HEADERS \<or> type = HTTP2_RST_STREAM then None else Some protocol_error
            | HTTP2_STATE_HALF_CLOSED_REMOTE \<Rightarrow>
                if type = HTTP2_RST_STREAM \<or> type = HTTP2_WINDOW_UPDATE then None else closed_error
            | HTTP2_STATE_CLOSED \<Rightarrow>
                if type = HTTP2_HEADERS \<or> type = HTTP2_RST_STREAM \<or> type = HTTP2_WINDOW_UPDATE then None
                else closed_error
            | HTTP2_STATE_OPEN \<Rightarrow> None
            | HTTP2_STATE_HALF_CLOSED_LOCAL \<Rightarrow> None))"

section \<open>The cases of a frame\<close>

text \<open>The rest of an operation after a part of it that may raise.\<close>

definition and_then ::
    "error option \<times> http2_session \<Rightarrow> (http2_session \<Rightarrow> error option \<times> http2_session) \<Rightarrow> error option \<times> http2_session" where
  "and_then result continue =
     (case result of (Some e, s) \<Rightarrow> (Some e, s) | (None, s) \<Rightarrow> continue s)"

definition widen :: "nat \<Rightarrow> u32 \<Rightarrow> nat \<Rightarrow> http2_session \<Rightarrow> http2_session" where
  "widen slot sid n s =
     (if n > 0 then
        (let s1 = snd (write_value HTTP2_WINDOW_UPDATE 0 (of_nat n) s);
             s2 = s1\<lparr>receive_window := receive_window s1 + int n\<rparr>;
             s3 = snd (write_value HTTP2_WINDOW_UPDATE sid (of_nat n) s2)
         in update_stream slot (\<lambda>stream. stream\<lparr>stream_receive_window := stream_receive_window stream + int n\<rparr>) s3)
      else s)"

definition end_of_data :: "driver \<Rightarrow> nat \<Rightarrow> http2_session \<Rightarrow> error option \<times> http2_session" where
  "end_of_data driver slot s =
     (let s1 = update_stream slot (\<lambda>stream. stream\<lparr>end_stream := True, stream_state := HTTP2_STATE_HALF_CLOSED_REMOTE\<rparr>) s;
          stream = streams s1 ! slot
      in if announced stream \<and> received stream \<noteq> content_length stream then (Some protocol_error, s1)
         else (None, deliver driver On_message_complete s1))"

text \<open>
  A frame of data. A stream that has not been found is a reference that the code follows without
  a check, which is the error \<open>Out_Of_Bounds\<close>, as is every read of a payload, here and in the cases that
  follow, that goes beyond the end of it.
\<close>

definition handle_data :: "driver \<Rightarrow> http2_session \<Rightarrow> http2_frame \<Rightarrow> nat option \<Rightarrow> error option \<times> http2_session" where
  "handle_data driver s frame found =
     (case found of
        None \<Rightarrow> (Some Out_Of_Bounds, s)
      | Some slot \<Rightarrow>
          (let s1 = update_stream slot (\<lambda>stream. stream\<lparr>stream_receive_window :=
                      stream_receive_window stream - int (frame_length frame)\<rparr>) s
           in if stream_receive_window (streams s1 ! slot) < 0 then (Some (Http2_Error HTTP2_FLOW_CONTROL_ERROR), s1)
              else
                (case strip_padding_http2 frame of
                   Inl e \<Rightarrow> (Some e, s1)
                 | Inr payload \<Rightarrow>
                     (let s2 = update_stream slot (\<lambda>stream. stream\<lparr>received :=
                                 received stream + of_nat (length payload)\<rparr>) s1;
                          s3 = activate_http2 s2 slot;
                          s4 = (if payload \<noteq> [] then deliver driver (On_body payload) s3 else s3);
                          s5 = widen slot (frame_stream_id frame) (frame_length frame) s4
                      in if frame_flags frame AND HTTP2_FLAG_END_STREAM \<noteq> 0 then end_of_data driver slot s5
                         else (None, s5)))))"

text \<open>The payload of a headers frame without the padding, and whether the priority is announced.\<close>

definition has_priority :: "http2_frame \<Rightarrow> bool" where
  "has_priority frame \<longleftrightarrow> frame_flags frame AND HTTP2_FLAG_PRIORITY \<noteq> 0"

text \<open>A block that is decoded only so that the table of the connection consumes it.\<close>

definition discard_block :: "http2_session \<Rightarrow> error option \<times> http2_session" where
  "discard_block s =
     (case decode_hpack (decoder s) (assembled s) discard_http2 () of
        (r, t, _) \<Rightarrow>
          (let s' = reset_block (s\<lparr>decoder := t\<rparr>)
           in (if r \<noteq> None then Some compression_error else None, s')))"

text \<open>The part of a headers frame behind the priority.\<close>

definition block_fragment :: "http2_frame \<Rightarrow> bytes \<Rightarrow> bytes result" where
  "block_fragment frame payload =
     (if has_priority frame then read_bytes payload HTTP2_PRIORITY_SIZE (length payload - HTTP2_PRIORITY_SIZE)
      else Inr payload)"

definition handle_refused :: "http2_session \<Rightarrow> http2_frame \<Rightarrow> error option \<times> http2_session" where
  "handle_refused s frame =
     (let s1 = snd (write_value HTTP2_RST_STREAM (frame_stream_id frame)
                 (of_nat (http2_error_code HTTP2_REFUSED_STREAM)) s);
          s2 = s1\<lparr>refused := frame_stream_id frame\<rparr>
      in case strip_padding_http2 frame of
           Inl e \<Rightarrow> (Some e, s2)
         | Inr payload \<Rightarrow>
             if has_priority frame \<and> length payload < HTTP2_PRIORITY_SIZE
             then (Some (Http2_Error HTTP2_FRAME_SIZE_ERROR), s2)
             else
               and_then (gather_fragment s2 (block_fragment frame payload))
                 (\<lambda>s3. if frame_flags frame AND HTTP2_FLAG_END_HEADERS = 0
                   then (None, s3\<lparr>continuation := frame_stream_id frame, continuation_flags := frame_flags frame\<rparr>)
                   else discard_block s3))"

text \<open>The placing of a stream by the priority of its headers, with the payload that follows it.\<close>

definition headers_priority ::
    "http2_session \<Rightarrow> http2_frame \<Rightarrow> nat \<Rightarrow> bytes \<Rightarrow> error option \<times> http2_session" where
  "headers_priority s frame slot payload =
     (if has_priority frame then
        if length payload < HTTP2_PRIORITY_SIZE then (Some (Http2_Error HTTP2_FRAME_SIZE_ERROR), s)
        else
          (case read_bytes payload 0 HTTP2_PRIORITY_SIZE of
             Inl e \<Rightarrow> (Some e, s)
           | Inr field \<Rightarrow>
               (case decode_priority_http2 field of
                  Inl e \<Rightarrow> (Some e, s)
                | Inr priority \<Rightarrow> prioritise_stream s slot priority))
      else (None, s))"

definition handle_block :: "driver \<Rightarrow> nat \<Rightarrow> http2_session \<Rightarrow> error option \<times> http2_session" where
  "handle_block driver slot s =
     (case block_http2 driver s slot (assembled s) of (r, s') \<Rightarrow> (r, reset_block s'))"

definition headers_on_stream ::
    "driver \<Rightarrow> http2_session \<Rightarrow> http2_frame \<Rightarrow> nat \<Rightarrow> error option \<times> http2_session" where
  "headers_on_stream driver s frame slot =
     (case strip_padding_http2 frame of
        Inl e \<Rightarrow> (Some e, s)
      | Inr payload \<Rightarrow>
          and_then (headers_priority s frame slot payload)
            (\<lambda>s1. let s2 = (if frame_flags frame AND HTTP2_FLAG_END_STREAM \<noteq> 0
                     then update_stream slot (\<lambda>stream. stream\<lparr>end_stream := True,
                            stream_state := HTTP2_STATE_HALF_CLOSED_REMOTE\<rparr>) s1
                     else s1)
              in and_then (gather_fragment s2 (block_fragment frame payload))
                   (\<lambda>s3. if frame_flags frame AND HTTP2_FLAG_END_HEADERS = 0
                     then (None, s3\<lparr>continuation := frame_stream_id frame, continuation_flags := frame_flags frame\<rparr>)
                     else handle_block driver slot s3)))"

definition handle_headers :: "driver \<Rightarrow> http2_session \<Rightarrow> http2_frame \<Rightarrow> nat option \<Rightarrow> error option \<times> http2_session" where
  "handle_headers driver s frame found =
     (case found of
        None \<Rightarrow>
          (case open_stream s (frame_stream_id frame) of
             (s1, Inl e) \<Rightarrow>
               if e = Http2_Error HTTP2_REFUSED_STREAM then handle_refused s1 frame else (Some e, s1)
           | (s1, Inr slot) \<Rightarrow> headers_on_stream driver s1 frame slot)
      | Some slot \<Rightarrow>
          if headers_complete (streams s ! slot) then
            if frame_flags frame AND HTTP2_FLAG_END_STREAM = 0 then (Some protocol_error, s)
            else headers_on_stream driver (update_request slot (\<lambda>r. r\<lparr>request_trailers := True\<rparr>) s) frame slot
          else headers_on_stream driver s frame slot)"

definition handle_continuation :: "driver \<Rightarrow> http2_session \<Rightarrow> http2_frame \<Rightarrow> error option \<times> http2_session" where
  "handle_continuation driver s frame =
     (if continuation s = 0 then (Some protocol_error, s)
      else
        (case frame_payload frame of
           None \<Rightarrow> (Some Out_Of_Bounds, s)
         | Some payload \<Rightarrow>
             and_then (gather_http2 s payload)
               (\<lambda>s1. if frame_flags frame AND HTTP2_FLAG_END_HEADERS = 0 then (None, s1)
                 else if refused s1 = continuation s1 then discard_block s1
                 else
                   (case find_stream s1 (continuation s1) of
                      None \<Rightarrow> (Some protocol_error, s1)
                    | Some slot \<Rightarrow> handle_block driver slot s1))))"

definition handle_priority :: "http2_session \<Rightarrow> http2_frame \<Rightarrow> nat option \<Rightarrow> error option \<times> http2_session" where
  "handle_priority s frame found =
     (case frame_payload frame of
        None \<Rightarrow> (Some Out_Of_Bounds, s)
      | Some payload \<Rightarrow>
          (case decode_priority_http2 payload of
             Inl e \<Rightarrow> (Some e, s)
           | Inr priority \<Rightarrow>
               if dependency priority = frame_stream_id frame then (Some protocol_error, s)
               else
                 (case found of
                    None \<Rightarrow> (None, s)
                  | Some slot \<Rightarrow> prioritise_stream s slot priority)))"

definition handle_settings :: "http2_session \<Rightarrow> http2_frame \<Rightarrow> error option \<times> http2_session" where
  "handle_settings s frame =
     (if frame_flags frame AND HTTP2_FLAG_ACK \<noteq> 0 then (None, s)
      else
        (case frame_payload frame of
           None \<Rightarrow> (Some Out_Of_Bounds, s)
         | Some payload \<Rightarrow>
             and_then (apply_settings s payload)
               (\<lambda>s1. and_then (write_settings True s1) (\<lambda>s2. (None, schedule s2)))))"

definition handle_ping :: "http2_session \<Rightarrow> http2_frame \<Rightarrow> error option \<times> http2_session" where
  "handle_ping s frame =
     (if frame_flags frame AND HTTP2_FLAG_ACK \<noteq> 0 then (None, s)
      else
        (case frame_payload frame of
           None \<Rightarrow> (Some Out_Of_Bounds, s)
         | Some payload \<Rightarrow> write_ping payload s))"

definition handle_window_update :: "http2_session \<Rightarrow> http2_frame \<Rightarrow> error option \<times> http2_session" where
  "handle_window_update s frame =
     (case frame_payload frame of
        None \<Rightarrow> (Some Out_Of_Bounds, s)
      | Some payload \<Rightarrow>
          (case read_bytes payload 0 4 of
             Inl e \<Rightarrow> (Some e, s)
           | Inr number \<Rightarrow>
               (case update_window s (frame_stream_id frame)
                       (decode_number_http2 number AND of_nat HTTP2_MAX_WINDOW_SIZE) of
                  (r, s1) \<Rightarrow>
                    if r = Some (Http2_Error HTTP2_FLOW_CONTROL_ERROR) \<and> frame_stream_id frame \<noteq> 0
                    then (None, snd (write_value HTTP2_RST_STREAM (frame_stream_id frame)
                            (of_nat (http2_error_code HTTP2_FLOW_CONTROL_ERROR)) s1))
                    else and_then (r, s1) (\<lambda>s2. (None, schedule s2)))))"

text \<open>The switch over the type of the frame.\<close>

definition dispatch_frame :: "driver \<Rightarrow> http2_session \<Rightarrow> http2_frame \<Rightarrow> nat option \<Rightarrow> error option \<times> http2_session" where
  "dispatch_frame driver s frame found =
     (let type = frame_type frame
      in if type = HTTP2_DATA then handle_data driver s frame found
         else if type = HTTP2_HEADERS then handle_headers driver s frame found
         else if type = HTTP2_CONTINUATION then handle_continuation driver s frame
         else if type = HTTP2_PRIORITY then handle_priority s frame found
         else if type = HTTP2_RST_STREAM then
           (None, case found of None \<Rightarrow> s | Some slot \<Rightarrow> close_stream driver s slot)
         else if type = HTTP2_SETTINGS then handle_settings s frame
         else if type = HTTP2_PING then handle_ping s frame
         else if type = HTTP2_GOAWAY then (None, s\<lparr>goaway := True\<rparr>)
         else if type = HTTP2_WINDOW_UPDATE then handle_window_update s frame
         else if type = HTTP2_PUSH_PROMISE then (Some protocol_error, s)
         else (None, s))"

definition handle_frame :: "driver \<Rightarrow> http2_session \<Rightarrow> http2_frame \<Rightarrow> error option \<times> http2_session" where
  "handle_frame driver s frame =
     (case verify_frame_http2 frame (session_settings s) of
        Some e \<Rightarrow> (Some e, s)
      | None \<Rightarrow>
          if continuation s \<noteq> 0 \<and>
             (frame_type frame \<noteq> HTTP2_CONTINUATION \<or> frame_stream_id frame \<noteq> continuation s)
          then (Some protocol_error, s)
          else
            (let s1 = (if frame_type frame = HTTP2_DATA
                       then s\<lparr>receive_window := receive_window s - int (frame_length frame)\<rparr> else s)
             in if frame_type frame = HTTP2_DATA \<and> receive_window s1 < 0
                then (Some (Http2_Error HTTP2_FLOW_CONTROL_ERROR), s1)
                else
                  (let found = (if frame_stream_id frame = 0 then None else find_stream s1 (frame_stream_id frame))
                   in case (if frame_stream_id frame \<noteq> 0 then verify_stream s1 frame found else None) of
                        Some e \<Rightarrow> (Some e, s1)
                      | None \<Rightarrow> dispatch_frame driver s1 frame found)))"

section \<open>The data of the connection\<close>

text \<open>
  The loop over the frames of the buffer. It ends with whether the data is left as it is (the
  connection is going away) or is to be moved to the start of the buffer. Every turn but the last
  reads a frame, so the number of bytes to read is enough fuel.
\<close>

primrec frames_loop :: "driver \<Rightarrow> nat \<Rightarrow> http2_session \<Rightarrow> bool \<times> http2_session" where
  "frames_loop driver 0 s = (True, s)"
| "frames_loop driver (Suc n) s =
     (let unread = drop (read_offset s) (received_buffer s)
      in if length unread < HTTP2_HEADER_SIZE then (True, s)
         else
           (case decode_frame_http2 unread of
              Inl e \<Rightarrow> (True, s)
            | Inr frame \<Rightarrow>
                if frame_length frame > max_frame_size (session_settings s)
                then (False, snd (write_goaway (of_nat (http2_error_code HTTP2_FRAME_SIZE_ERROR)) s))
                else if frame_payload frame = None then (True, s)
                else
                  (let s1 = s\<lparr>read_offset := read_offset s + (HTTP2_HEADER_SIZE + frame_length frame)\<rparr>
                   in case handle_frame driver s1 frame of
                        (Some e, s2) \<Rightarrow> (False, snd (write_goaway (of_nat (error_code e)) s2))
                      | (None, s2) \<Rightarrow> frames_loop driver n s2)))"

definition compact_buffer :: "http2_session \<Rightarrow> http2_session" where
  "compact_buffer s =
     (if read_offset s > 0
      then s\<lparr>received_buffer := drop (read_offset s) (received_buffer s), read_offset := 0\<rparr> else s)"

definition read_frames :: "driver \<Rightarrow> http2_session \<Rightarrow> http2_session" where
  "read_frames driver s =
     (case frames_loop driver (Suc (length (received_buffer s) - read_offset s)) s of
        (True, s') \<Rightarrow> compact_buffer s'
      | (False, s') \<Rightarrow> s')"

definition data_handler :: "driver \<Rightarrow> http2_session \<Rightarrow> bytes \<Rightarrow> http2_session" where
  "data_handler driver s data =
     (let s1 = s\<lparr>received_buffer := received_buffer s @ data\<rparr>
      in if preface s1 then read_frames driver s1
         else if length (received_buffer s1) - read_offset s1 < HTTP2_PREFACE_SIZE then s1
         else if take HTTP2_PREFACE_SIZE (drop (read_offset s1) (received_buffer s1)) \<noteq> HTTP2_PREFACE
         then close_connection s1
         else
           read_frames driver
             (snd (write_settings False
                (s1\<lparr>read_offset := read_offset s1 + HTTP2_PREFACE_SIZE, preface := True\<rparr>))))"

end
