(* ===== verification/Http2_Wellformed.thy ===== *)
theory Http2_Wellformed
  imports Http2_Session "HOL-Library.Multiset"
begin

text \<open>
  The invariant of the session of \<^verbatim>\<open>src/src/viriatum/stream/stream_http2.c\<close> and the contract
  between the session and the handlers it drives.

  \<open>well_formed\<close> collects what the code relies on without checking it: the table of the streams is
  compact and holds every identifier once, each identifier was handed out by its own end, no window
  goes beyond what the protocol represents, the windows that the peer has been given never exceed the ones
  that they started with, the paths fit their buffers, the tables of both
  directions are well formed, the block being assembled is bounded, the message that is current
  belongs to a stream that is open, and the structures that carry a stream through a write are
  exactly the ones that the write queue is going to release.

  A handler may write, change the state of the stream it serves and promise others; \<open>keeps\<close> says
  what it leaves alone. The locale \<open>handler\<close> is the contract, and the operations of the
  session that call a handler are proved inside it.
\<close>

declare One_nat_def [simp del]

section \<open>The invariant\<close>

definition open_streams :: "http2_session \<Rightarrow> http2_stream list" where
  "open_streams s = take (stream_count s) (streams s)"

definition open_ids :: "http2_session \<Rightarrow> u32 list" where
  "open_ids s = map stream_id (open_streams s)"

definition fragment_ok :: "http2_pending \<Rightarrow> bool" where
  "fragment_ok f \<longleftrightarrow> pending_offset f \<le> length (pending_data f)"

definition even_id :: "u32 \<Rightarrow> bool" where
  "even_id sid \<longleftrightarrow> sid mod 2 = 0"

text \<open>What holds of a stream, given the last identifiers that the peer and this end have used.\<close>

definition stream_ok :: "u32 \<Rightarrow> u32 \<Rightarrow> http2_stream \<Rightarrow> bool" where
  "stream_ok peer own stream \<longleftrightarrow>
     stream_id stream \<noteq> 0 \<and> stream_id stream \<le> (if even_id (stream_id stream) then own else peer)
     \<and> stream_send_window stream \<le> int HTTP2_MAX_WINDOW_SIZE
     \<and> stream_receive_window stream \<le> int HTTP2_DEFAULT_WINDOW_SIZE
     \<and> list_all fragment_ok (pending stream)
     \<and> length (request_path (stream_request stream)) < VIRIATUM_MAX_URL_SIZE
     \<and> length (request_authority (stream_request stream)) < VIRIATUM_MAX_PATH_SIZE"

definition streams_ok :: "http2_session \<Rightarrow> bool" where
  "streams_ok s \<longleftrightarrow>
     length (streams s) = HTTP2_STREAM_SLOTS \<and> stream_count s \<le> HTTP2_STREAM_SLOTS
     \<and> distinct (open_ids s) \<and> list_all (stream_ok (last_stream_id s) (push_stream_id s)) (open_streams s)"

text \<open>The callbacks that a queue of writes is going to call.\<close>

fun outstanding :: "(bytes \<times> completion) list \<Rightarrow> http2_callback multiset" where
  "outstanding [] = {#}"
| "outstanding ((data, c) # queue) =
     (case c of Stream_callback cb \<Rightarrow> {#cb#} | _ \<Rightarrow> {#}) + outstanding queue"

definition well_formed :: "http2_session \<Rightarrow> bool" where
  "well_formed s \<longleftrightarrow>
     streams_ok s \<and> push_stream_id s mod 2 = 0
     \<and> settings_ok (session_settings s) \<and> settings_ok (remote s)
     \<and> initial_window_size (session_settings s) \<le> HTTP2_DEFAULT_WINDOW_SIZE
     \<and> block_ok (decoder s) \<and> table_ok (encoder s)
     \<and> send_window s \<le> int HTTP2_MAX_WINDOW_SIZE \<and> receive_window s \<le> int HTTP2_DEFAULT_WINDOW_SIZE
     \<and> block_size s \<le> HTTP2_MAX_BLOCK
     \<and> read_offset s \<le> length (received_buffer s)
     \<and> mset (callbacks s) = outstanding (write_queue s)
     \<and> set_option (current_request s) \<subseteq> set (open_ids s)"

section \<open>What a handler leaves alone\<close>

definition stream_kept :: "http2_stream \<Rightarrow> http2_stream \<Rightarrow> bool" where
  "stream_kept stream stream' \<longleftrightarrow>
     stream_id stream' = stream_id stream \<and> stream_priority stream' = stream_priority stream
     \<and> stream_receive_window stream' = stream_receive_window stream
     \<and> stream_request stream' = stream_request stream
     \<and> end_stream stream' = end_stream stream \<and> headers_complete stream' = headers_complete stream
     \<and> content_length stream' = content_length stream \<and> announced stream' = announced stream
     \<and> received stream' = received stream"

definition session_kept :: "http2_session \<Rightarrow> http2_session \<Rightarrow> bool" where
  "session_kept s s' \<longleftrightarrow>
     session_settings s' = session_settings s \<and> remote s' = remote s \<and> decoder s' = decoder s
     \<and> last_stream_id s' = last_stream_id s \<and> receive_window s' = receive_window s
     \<and> preface s' = preface s \<and> goaway s' = goaway s
     \<and> continuation s' = continuation s \<and> continuation_flags s' = continuation_flags s
     \<and> refused s' = refused s \<and> block_data s' = block_data s
     \<and> base_handler s' = base_handler s \<and> description s' = description s
     \<and> received_buffer s' = received_buffer s \<and> read_offset s' = read_offset s"

definition keeps :: "http2_session \<Rightarrow> http2_session \<Rightarrow> bool" where
  "keeps s s' \<longleftrightarrow> stream_count s \<le> stream_count s'
     \<and> (\<forall>i < stream_count s. stream_kept (streams s ! i) (streams s' ! i)) \<and> session_kept s s'"

lemma stream_kept_refl [simp]: "stream_kept stream stream"
  by (simp add: stream_kept_def)

lemma session_kept_refl [simp]: "session_kept s s"
  by (simp add: session_kept_def)

lemma session_kept_trans: "session_kept s s' \<Longrightarrow> session_kept s' s'' \<Longrightarrow> session_kept s s''"
  by (simp add: session_kept_def)

lemma keeps_refl [simp]: "keeps s s"
  by (simp add: keeps_def)

lemma keeps_trans:
  assumes "keeps s s'" and "keeps s' s''"
  shows "keeps s s''"
proof -
  have "stream_kept (streams s ! i) (streams s'' ! i)" if "i < stream_count s" for i
    using assms that by (auto simp: keeps_def stream_kept_def dest!: spec [of _ i])
  then show ?thesis
    using assms by (auto simp: keeps_def intro: session_kept_trans)
qed

section \<open>Lookup\<close>

lemma find_stream_from_Some:
  "find_stream_from ss index sid = Some i \<Longrightarrow>
     index \<le> i \<and> i < index + length ss \<and> stream_id (ss ! (i - index)) = sid"
  by (induction ss index sid rule: find_stream_from.induct)
    (auto simp: nth_Cons' split: if_splits)

lemma find_stream_from_None: "find_stream_from ss index sid = None \<longleftrightarrow> sid \<notin> stream_id ` set ss"
  by (induction ss index sid rule: find_stream_from.induct) auto

lemma find_stream_from_nth:
  "distinct (map stream_id ss) \<Longrightarrow> i < length ss \<Longrightarrow> find_stream_from ss index (stream_id (ss ! i)) = Some (index + i)"
proof (induction ss arbitrary: i index)
  case (Cons a ss)
  show ?case
  proof (cases i)
    case (Suc n)
    moreover from this Cons.prems have "stream_id (ss ! n) \<in> stream_id ` set ss" by simp
    ultimately show ?thesis
      using Cons.IH [of n "index + 1"] Cons.prems by auto
  qed simp
qed simp

lemma length_open [simp]: "streams_ok s \<Longrightarrow> length (open_streams s) = stream_count s"
  by (simp add: open_streams_def streams_ok_def)

lemma open_nth [simp]: "i < stream_count s \<Longrightarrow> open_streams s ! i = streams s ! i"
  by (simp add: open_streams_def)

lemma find_stream_Some:
  assumes "find_stream s sid = Some i"
  shows "i < stream_count s \<and> i < length (streams s) \<and> stream_id (streams s ! i) = sid"
  using find_stream_from_Some [OF assms [unfolded find_stream_def]] by auto

lemma find_stream_None: "find_stream s sid = None \<longleftrightarrow> sid \<notin> set (open_ids s)"
  by (simp add: find_stream_def find_stream_from_None open_ids_def open_streams_def)

lemma find_stream_nth:
  assumes "streams_ok s" and "i < stream_count s"
  shows "find_stream s (stream_id (streams s ! i)) = Some i"
  using assms find_stream_from_nth [of "open_streams s" i 0]
  by (simp add: find_stream_def streams_ok_def open_ids_def open_streams_def min_def)

lemma find_stream_iff:
  "streams_ok s \<Longrightarrow> find_stream s sid = Some i \<longleftrightarrow> i < stream_count s \<and> stream_id (streams s ! i) = sid"
  using find_stream_Some find_stream_nth by blast

lemma open_ids_iff:
  "streams_ok s \<Longrightarrow> sid \<in> set (open_ids s) \<longleftrightarrow> (\<exists>i < stream_count s. stream_id (streams s ! i) = sid)"
  using find_stream_None [of s sid] find_stream_Some [of s sid] find_stream_nth [of s]
  by (cases "find_stream s sid") fastforce+

lemma open_ids_nth: "streams_ok s \<Longrightarrow> i < stream_count s \<Longrightarrow> stream_id (streams s ! i) \<in> set (open_ids s)"
  by (auto simp: open_ids_iff)

lemma stream_ok_nth:
  "streams_ok s \<Longrightarrow> i < stream_count s \<Longrightarrow> stream_ok (last_stream_id s) (push_stream_id s) (streams s ! i)"
  by (metis length_open list_all_length open_nth streams_ok_def)

lemma streams_okI:
  assumes "length (streams s) = HTTP2_STREAM_SLOTS" and "stream_count s \<le> HTTP2_STREAM_SLOTS"
    and "\<And>i j. i < stream_count s \<Longrightarrow> j < stream_count s \<Longrightarrow> stream_id (streams s ! i) = stream_id (streams s ! j) \<Longrightarrow> i = j"
    and "\<And>i. i < stream_count s \<Longrightarrow> stream_ok (last_stream_id s) (push_stream_id s) (streams s ! i)"
  shows "streams_ok s"
  using assms by (auto simp: streams_ok_def open_ids_def open_streams_def distinct_conv_nth list_all_length min_def)

lemma streams_ok_distinct:
  "streams_ok s \<Longrightarrow> i < stream_count s \<Longrightarrow> j < stream_count s \<Longrightarrow>
     stream_id (streams s ! i) = stream_id (streams s ! j) \<longleftrightarrow> i = j"
  by (metis find_stream_nth option.inject)

section \<open>Changes of one stream and of the rest of the session\<close>

lemma update_stream_simps [simp]:
  "stream_count (update_stream slot f s) = stream_count s"
  "length (streams (update_stream slot f s)) = length (streams s)"
  "session_settings (update_stream slot f s) = session_settings s" "remote (update_stream slot f s) = remote s"
  "decoder (update_stream slot f s) = decoder s" "encoder (update_stream slot f s) = encoder s"
  "last_stream_id (update_stream slot f s) = last_stream_id s" "push_stream_id (update_stream slot f s) = push_stream_id s"
  "send_window (update_stream slot f s) = send_window s" "receive_window (update_stream slot f s) = receive_window s"
  "write_queue (update_stream slot f s) = write_queue s" "callbacks (update_stream slot f s) = callbacks s"
  "current_request (update_stream slot f s) = current_request s"
  "current_handler (update_stream slot f s) = current_handler s" "events (update_stream slot f s) = events s"
  "block_data (update_stream slot f s) = block_data s" "base_handler (update_stream slot f s) = base_handler s"
  "continuation (update_stream slot f s) = continuation s" "refused (update_stream slot f s) = refused s"
  "goaway (update_stream slot f s) = goaway s" "closed (update_stream slot f s) = closed s"
  "received_buffer (update_stream slot f s) = received_buffer s" "read_offset (update_stream slot f s) = read_offset s"
  by (simp_all add: update_stream_def)

lemma session_kept_update [simp]: "session_kept s (update_stream slot f s)"
  by (simp add: session_kept_def update_stream_def)

lemma streams_update: "slot < length (streams s) \<Longrightarrow>
    streams (update_stream slot f s) ! i = (if i = slot then f (streams s ! slot) else streams s ! i)"
  by (simp add: update_stream_def)

lemma streams_ok_length: "streams_ok s \<Longrightarrow> i < stream_count s \<Longrightarrow> i < length (streams s)"
  by (simp add: streams_ok_def)

lemma streams_update_open [simp]: "streams_ok s \<Longrightarrow> slot < stream_count s \<Longrightarrow>
    streams (update_stream slot f s) ! i = (if i = slot then f (streams s ! slot) else streams s ! i)"
  by (simp add: streams_update streams_ok_length)

text \<open>A change that leaves the identifiers and the bounds of a stream alone.\<close>

lemma update_stream_ok:
  assumes "streams_ok s" and "slot < stream_count s" and "stream_id (f (streams s ! slot)) = stream_id (streams s ! slot)"
    and "stream_ok (last_stream_id s) (push_stream_id s) (streams s ! slot) \<Longrightarrow>
      stream_ok (last_stream_id s) (push_stream_id s) (f (streams s ! slot))"
  shows "streams_ok (update_stream slot f s)" and "open_ids (update_stream slot f s) = open_ids s"
proof -
  show "open_ids (update_stream slot f s) = open_ids s"
    using assms(1-3) by (auto simp: open_ids_def open_streams_def streams_ok_def intro!: nth_equalityI)
  show "streams_ok (update_stream slot f s)"
  proof (rule streams_okI)
    show "i = j" if "i < stream_count (update_stream slot f s)" "j < stream_count (update_stream slot f s)"
      "stream_id (streams (update_stream slot f s) ! i) = stream_id (streams (update_stream slot f s) ! j)" for i j
    proof -
      have "stream_id (streams s ! i) = stream_id (streams s ! j)"
        using that(3) assms(1-3) by (auto split: if_splits)
      then show ?thesis using that(1,2) assms(1) by (simp add: streams_ok_distinct)
    qed
  qed (use assms stream_ok_nth [OF assms(1)] in \<open>auto simp: streams_ok_def\<close>)
qed

lemma update_stream_well:
  assumes "well_formed s" and "slot < stream_count s" and "stream_id (f (streams s ! slot)) = stream_id (streams s ! slot)"
    and "stream_ok (last_stream_id s) (push_stream_id s) (streams s ! slot) \<Longrightarrow>
      stream_ok (last_stream_id s) (push_stream_id s) (f (streams s ! slot))"
  shows "well_formed (update_stream slot f s)"
  using assms(1) update_stream_ok [where f = f, OF _ assms(2-4)] by (simp add: well_formed_def block_size_def)

lemma update_stream_keeps:
  assumes "streams_ok s" and "slot < stream_count s" and "stream_kept (streams s ! slot) (f (streams s ! slot))"
  shows "keeps s (update_stream slot f s)"
  using assms by (simp add: keeps_def)

lemma stream_ok_kept:
  "stream_ok peer own stream \<Longrightarrow> stream_kept stream stream' \<Longrightarrow>
     stream_send_window stream' \<le> stream_send_window stream \<Longrightarrow> list_all fragment_ok (pending stream') \<Longrightarrow>
     stream_ok peer own stream'"
  by (auto simp: stream_ok_def stream_kept_def)

lemma update_kept:
  assumes "well_formed s" and "slot < stream_count s" and "stream_kept (streams s ! slot) (f (streams s ! slot))"
    and "stream_send_window (f (streams s ! slot)) \<le> stream_send_window (streams s ! slot)"
    and "pending (f (streams s ! slot)) = pending (streams s ! slot)"
  shows "well_formed (update_stream slot f s) \<and> keeps s (update_stream slot f s)"
proof
  have ok: "streams_ok s" using assms(1) by (simp add: well_formed_def)
  show "well_formed (update_stream slot f s)"
  proof (rule update_stream_well [OF assms(1,2)])
    show "stream_id (f (streams s ! slot)) = stream_id (streams s ! slot)"
      using assms(3) by (simp add: stream_kept_def)
    assume "stream_ok (last_stream_id s) (push_stream_id s) (streams s ! slot)"
    then show "stream_ok (last_stream_id s) (push_stream_id s) (f (streams s ! slot))"
      using assms(3-5) by (intro stream_ok_kept [OF _ assms(3)]) (simp_all add: stream_ok_def)
  qed
  show "keeps s (update_stream slot f s)"
    by (rule update_stream_keeps) (use ok assms(2,3) in simp_all)
qed

text \<open>The parts of the invariant, as facts.\<close>

lemma well_formed_parts:
  assumes "well_formed s"
  shows "streams_ok s" "settings_ok (session_settings s)" "settings_ok (remote s)" "block_ok (decoder s)"
    "table_ok (encoder s)" "send_window s \<le> int HTTP2_MAX_WINDOW_SIZE"
    "mset (callbacks s) = outstanding (write_queue s)" "stream_count s \<le> HTTP2_STREAM_SLOTS"
    "length (streams s) = HTTP2_STREAM_SLOTS" "initial_window_size (session_settings s) \<le> HTTP2_DEFAULT_WINDOW_SIZE"
    "receive_window s \<le> int HTTP2_DEFAULT_WINDOW_SIZE"
  using assms by (simp_all add: well_formed_def streams_ok_def)

text \<open>A change that the invariant does not look at.\<close>

definition same_core :: "http2_session \<Rightarrow> http2_session \<Rightarrow> bool" where
  "same_core s s' \<longleftrightarrow>
     streams s' = streams s \<and> stream_count s' = stream_count s \<and> last_stream_id s' = last_stream_id s
     \<and> push_stream_id s' = push_stream_id s \<and> session_settings s' = session_settings s \<and> remote s' = remote s
     \<and> decoder s' = decoder s \<and> encoder s' = encoder s \<and> send_window s' = send_window s
     \<and> receive_window s' = receive_window s \<and> block_data s' = block_data s
     \<and> read_offset s' = read_offset s \<and> received_buffer s' = received_buffer s
     \<and> callbacks s' = callbacks s \<and> write_queue s' = write_queue s \<and> current_request s' = current_request s"

lemma open_cong:
  assumes "streams s' = streams s" and "stream_count s' = stream_count s"
  shows "open_streams s' = open_streams s" and "open_ids s' = open_ids s" and "find_stream s' = find_stream s"
  using assms by (simp_all add: open_streams_def open_ids_def find_stream_def fun_eq_iff)

lemma well_formed_core:
  assumes "same_core s s'"
  shows "well_formed s' \<longleftrightarrow> well_formed s"
proof -
  have "open_streams s' = open_streams s" "open_ids s' = open_ids s"
    using open_cong [of s' s] assms by (simp_all add: same_core_def)
  then show ?thesis
    using assms unfolding same_core_def well_formed_def streams_ok_def block_size_def by simp
qed

section \<open>The contract of a handler\<close>

text \<open>
  A handler that is being unset neither opens nor closes a stream, the closing of a stream takes
  the last of them down before it tells the handler.
\<close>

locale handler =
  fixes driver :: driver
  assumes driver_well: "well_formed s \<Longrightarrow> well_formed (driver e s)"
    and driver_keeps: "well_formed s \<Longrightarrow> keeps s (driver e s)"
    and unset_count: "well_formed s \<Longrightarrow> stream_count (driver Handler_unset s) = stream_count s"

lemma event_core [simp]: "same_core s (s\<lparr>events := es\<rparr>)"
  by (simp add: same_core_def)

lemma keeps_event [simp]: "keeps s (s\<lparr>events := es\<rparr>)"
  by (simp add: keeps_def session_kept_def)

lemma activate_simps [simp]:
  "streams (activate_http2 s slot) = streams s" "stream_count (activate_http2 s slot) = stream_count s"
  "current_request (activate_http2 s slot) = Some (stream_id (streams s ! slot))"
  "current_handler (activate_http2 s slot) = stream_handler (streams s ! slot)"
  "remote (activate_http2 s slot) = remote s" "decoder (activate_http2 s slot) = decoder s"
  "last_stream_id (activate_http2 s slot) = last_stream_id s"
  "push_stream_id (activate_http2 s slot) = push_stream_id s"
  "base_handler (activate_http2 s slot) = base_handler s" "events (activate_http2 s slot) = events s"
  by (simp_all add: activate_http2_def)

lemma activate_well:
  assumes "well_formed s" and "slot < stream_count s"
  shows "well_formed (activate_http2 s slot)"
proof -
  have "open_ids (activate_http2 s slot) = open_ids s" "open_streams (activate_http2 s slot) = open_streams s"
    by (simp_all add: activate_http2_def open_ids_def open_streams_def)
  moreover have "stream_id (streams s ! slot) \<in> set (open_ids s)"
    using assms well_formed_parts(1) open_ids_nth by blast
  ultimately show ?thesis
    using assms(1) by (simp add: well_formed_def streams_ok_def block_size_def) (simp add: activate_http2_def)
qed

lemma activate_keeps [simp]: "keeps s (activate_http2 s slot)"
  by (simp add: keeps_def session_kept_def activate_http2_def)

lemma keeps_count: "keeps s s' \<Longrightarrow> slot < stream_count s \<Longrightarrow> slot < stream_count s'"
  by (simp add: keeps_def)

lemma keeps_id: "keeps s s' \<Longrightarrow> slot < stream_count s \<Longrightarrow> stream_id (streams s' ! slot) = stream_id (streams s ! slot)"
  by (simp add: keeps_def stream_kept_def)

context handler
begin

lemma deliver_well: "well_formed s \<Longrightarrow> well_formed (deliver driver e s)"
  by (simp add: deliver_def driver_well well_formed_core [OF event_core])

lemma deliver_keeps: "well_formed s \<Longrightarrow> keeps s (deliver driver e s)"
  unfolding deliver_def
  by (rule keeps_trans [OF keeps_event driver_keeps]) (simp add: well_formed_core [OF event_core])

lemma unset_deliver: "well_formed s \<Longrightarrow> stream_count (deliver driver Handler_unset s) = stream_count s"
  by (simp add: deliver_def unset_count well_formed_core [OF event_core])

text \<open>What the release leaves: the same streams, one of them without fragments, and no reference to it.\<close>

lemma release_stream_ok:
  assumes "well_formed s" and "slot < stream_count s"
  defines "s' \<equiv> release_stream driver s slot"
  shows "well_formed s' \<and> keeps s s' \<and> stream_count s' = stream_count s
    \<and> current_request s' \<noteq> Some (stream_id (streams s ! slot))"
proof -
  define s1 where "s1 = (if stream_handler (streams s ! slot) \<noteq> None
      then update_stream slot (\<lambda>stream. stream\<lparr>stream_handler := None\<rparr>)
        (deliver driver Handler_unset (activate_http2 s slot)) else s)"
  have s1: "well_formed s1 \<and> keeps s s1 \<and> stream_count s1 = stream_count s"
  proof (cases "stream_handler (streams s ! slot) = None")
    case True
    then show ?thesis using assms(1) by (simp add: s1_def)
  next
    case False
    define d where "d = deliver driver Handler_unset (activate_http2 s slot)"
    have d: "well_formed d" "keeps s d" "stream_count d = stream_count s"
      using activate_well [OF assms(1,2)] deliver_well unset_deliver
        keeps_trans [OF activate_keeps deliver_keeps [OF activate_well [OF assms(1,2)]]]
      by (simp_all add: d_def)
    have "well_formed (update_stream slot (\<lambda>stream. stream\<lparr>stream_handler := None\<rparr>) d)"
      by (rule update_stream_well) (use d assms(2) in \<open>simp_all add: stream_ok_def\<close>)
    moreover have "keeps d (update_stream slot (\<lambda>stream. stream\<lparr>stream_handler := None\<rparr>) d)"
      by (rule update_stream_keeps) (use d assms(2) well_formed_parts(1) in \<open>simp_all add: stream_kept_def\<close>)
    ultimately show ?thesis
      using False d keeps_trans [OF d(2)] by (simp add: s1_def d_def)
  qed
  define s2 where "s2 = update_stream slot (\<lambda>stream. stream\<lparr>pending := []\<rparr>) s1"
  have s2: "well_formed s2"
    unfolding s2_def by (rule update_stream_well) (use s1 assms(2) in \<open>simp_all add: stream_ok_def\<close>)
  have "keeps s1 s2"
    unfolding s2_def by (rule update_stream_keeps) (use s1 assms(2) well_formed_parts(1) in \<open>simp_all add: stream_kept_def\<close>)
  then have k2: "keeps s s2" using s1 keeps_trans by blast
  have id2: "stream_id (streams s2 ! slot) = stream_id (streams s ! slot)"
    using keeps_id [OF k2 assms(2)] .
  have s': "s' = (if current_request s2 = Some (stream_id (streams s2 ! slot))
      then s2\<lparr>current_request := None, current_handler := None\<rparr> else s2)"
    by (simp only: s'_def release_stream_def Let_def s2_def s1_def)
  have "well_formed (s2\<lparr>current_request := None, current_handler := None\<rparr>)"
    using s2 by (simp add: well_formed_def streams_ok_def open_ids_def open_streams_def block_size_def)
  moreover have "keeps s2 (s2\<lparr>current_request := None, current_handler := None\<rparr>)"
    by (simp add: keeps_def session_kept_def)
  ultimately show ?thesis
    using s' s2 k2 id2 s1 keeps_trans [OF k2] by (auto simp: s2_def)
qed

end

section \<open>The removal of a stream\<close>

lemma reparent_simps [simp]:
  "stream_id (reparent old new stream) = stream_id stream" "pending (reparent old new stream) = pending stream"
  "stream_send_window (reparent old new stream) = stream_send_window stream"
  "stream_receive_window (reparent old new stream) = stream_receive_window stream"
  "stream_request (reparent old new stream) = stream_request stream"
  "stream_state (reparent old new stream) = stream_state stream"
  "dependency (stream_priority (reparent old new stream)) =
     (if dependency (stream_priority stream) = old then new else dependency (stream_priority stream))"
  by (simp_all add: reparent_def)

lemma reparent_ok [simp]: "stream_ok peer own (reparent old new stream) = stream_ok peer own stream"
  by (simp add: stream_ok_def)

text \<open>The slot that the stream of a slot of the new table had.\<close>

definition old_slot :: "nat \<Rightarrow> nat \<Rightarrow> nat \<Rightarrow> nat" where
  "old_slot slot final i = (if i = slot then final else i)"

lemma remove_stream_simps [simp]:
  "stream_count (remove_stream slot final s) = stream_count s - 1"
  "last_stream_id (remove_stream slot final s) = last_stream_id s"
  "push_stream_id (remove_stream slot final s) = push_stream_id s"
  "remote (remove_stream slot final s) = remote s" "current_request (remove_stream slot final s) = current_request s"
  "streams_ok s \<Longrightarrow> length (streams (remove_stream slot final s)) = HTTP2_STREAM_SLOTS"
  "session_kept s (remove_stream slot final s)"
  by (simp_all add: remove_stream_def Let_def streams_ok_def session_kept_def)

lemma remove_stream_nth:
  assumes "streams_ok s" and "slot < stream_count s" and "i < stream_count s - 1"
  shows "streams (remove_stream slot (stream_count s - 1) s) ! i =
    reparent (stream_id (streams s ! slot)) (dependency (stream_priority (streams s ! slot)))
      (streams s ! old_slot slot (stream_count s - 1) i)"
proof -
  have "stream_count s \<le> length (streams s)"
    using assms(1) by (simp add: streams_ok_def)
  then show ?thesis
    using assms(2,3) by (simp add: remove_stream_def Let_def old_slot_def nth_append nth_list_update min_def)
qed

lemma old_slot_less: "slot < n \<Longrightarrow> i < n - 1 \<Longrightarrow> old_slot slot (n - 1) i < n \<and> old_slot slot (n - 1) i \<noteq> slot"
  by (auto simp: old_slot_def)

lemma old_slot_inj: "i < n - 1 \<Longrightarrow> j < n - 1 \<Longrightarrow> old_slot slot (n - 1) i = old_slot slot (n - 1) j \<Longrightarrow> i = j"
  by (auto simp: old_slot_def split: if_splits)

lemma old_slot_surj: "slot < n \<Longrightarrow> j < n \<Longrightarrow> j \<noteq> slot \<Longrightarrow> \<exists>i < n - 1. old_slot slot (n - 1) i = j"
  unfolding old_slot_def by (cases "j = n - 1") (metis diff_less_mono2 diff_is_0_eq' less_one linorder_neqE_nat nat_neq_iff neq0_conv Suc_diff_1 not_less_eq, metis Suc_diff_1 gr_implies_not0 less_SucE neq0_conv)

lemma remove_stream_ok:
  assumes "streams_ok s" and "slot < stream_count s"
  shows "streams_ok (remove_stream slot (stream_count s - 1) s)"
    and "set (open_ids (remove_stream slot (stream_count s - 1) s)) = set (open_ids s) - {stream_id (streams s ! slot)}"
proof -
  let ?r = "remove_stream slot (stream_count s - 1) s" and ?n = "stream_count s"
  note nth = remove_stream_nth [OF assms] and less = old_slot_less [OF assms(2)]
  show ok: "streams_ok ?r"
  proof (rule streams_okI)
    show "i = j" if "i < stream_count ?r" "j < stream_count ?r" "stream_id (streams ?r ! i) = stream_id (streams ?r ! j)" for i j
      using that nth less streams_ok_distinct [OF assms(1)] old_slot_inj by simp
    show "stream_ok (last_stream_id ?r) (push_stream_id ?r) (streams ?r ! i)" if "i < stream_count ?r" for i
      using that nth less stream_ok_nth [OF assms(1)] by simp
  qed (use assms(1) in \<open>auto simp: streams_ok_def\<close>)
  show "set (open_ids ?r) = set (open_ids s) - {stream_id (streams s ! slot)}"
  proof (intro set_eqI iffI)
    fix sid assume "sid \<in> set (open_ids ?r)"
    then obtain i where "i < ?n - 1" "stream_id (streams ?r ! i) = sid"
      unfolding open_ids_iff [OF ok] by auto
    then show "sid \<in> set (open_ids s) - {stream_id (streams s ! slot)}"
      using nth less [of i] streams_ok_distinct [OF assms(1)] assms(2) by (auto simp: open_ids_iff [OF assms(1)])
  next
    fix sid assume "sid \<in> set (open_ids s) - {stream_id (streams s ! slot)}"
    then obtain j where j: "j < ?n" "stream_id (streams s ! j) = sid" "j \<noteq> slot"
      by (auto simp: open_ids_iff [OF assms(1)])
    obtain i where "i < ?n - 1" "old_slot slot (?n - 1) i = j"
      using old_slot_surj [OF assms(2) j(1,3)] by blast
    then show "sid \<in> set (open_ids ?r)"
      using nth j(2) by (auto simp: open_ids_iff [OF ok])
  qed
qed

lemma remove_stream_well:
  assumes "well_formed s" and "slot < stream_count s" and "current_request s \<noteq> Some (stream_id (streams s ! slot))"
  shows "well_formed (remove_stream slot (stream_count s - 1) s)"
proof -
  note ok = remove_stream_ok [OF well_formed_parts(1) [OF assms(1)] assms(2)]
  have "set_option (current_request s) \<subseteq> set (open_ids (remove_stream slot (stream_count s - 1) s))"
    using assms(1,3) by (auto simp: ok(2) well_formed_def)
  then show ?thesis
    using assms(1) ok(1) by (simp add: well_formed_def block_size_def) (simp add: remove_stream_def Let_def)
qed

context handler
begin

lemma close_stream_well:
  assumes "well_formed s" and "slot < stream_count s"
  shows "well_formed (close_stream driver s slot)"
    and "stream_count (close_stream driver s slot) = stream_count s - 1"
proof -
  note released = release_stream_ok [OF assms]
  moreover have "stream_id (streams (release_stream driver s slot) ! slot) = stream_id (streams s ! slot)"
    using keeps_id released assms(2) by blast
  ultimately show "well_formed (close_stream driver s slot)"
    using remove_stream_well [of "release_stream driver s slot" slot] assms(2) by (simp add: close_stream_def)
  show "stream_count (close_stream driver s slot) = stream_count s - 1"
    using released by (simp add: close_stream_def)
qed

text \<open>The stream is gone and the others are still there, in the order of the tree that closes the gap.\<close>

lemma close_stream_streams:
  assumes "well_formed s" and "slot < stream_count s" and "sid \<noteq> stream_id (streams s ! slot)"
    and "find_stream s sid = Some i"
  shows "\<exists>j. find_stream (close_stream driver s slot) sid = Some j
    \<and> stream_kept (reparent (stream_id (streams s ! slot)) (dependency (stream_priority (streams s ! slot))) (streams s ! i))
        (streams (close_stream driver s slot) ! j)"
proof -
  define r where "r = release_stream driver s slot"
  have r: "well_formed r" "keeps s r" "stream_count r = stream_count s"
    using release_stream_ok [OF assms(1,2)] by (simp_all add: r_def)
  have ok: "streams_ok s" "streams_ok r"
    using assms(1) r(1) well_formed_parts(1) by blast+
  have i: "i < stream_count s" "stream_id (streams s ! i) = sid"
    using find_stream_Some [OF assms(4)] by simp_all
  then have "i \<noteq> slot" using assms(3) by auto
  then obtain j where j: "j < stream_count r - 1" "old_slot slot (stream_count r - 1) j = i"
    using old_slot_surj [of slot "stream_count r" i] assms(2) i(1) r(3) by auto
  have slot: "slot < stream_count r"
    using assms(2) r(3) by simp
  have kept: "stream_kept (streams s ! k) (streams r ! k)" if "k = slot \<or> k = i" for k
    using that assms(2) i(1) r(2) by (auto simp: keeps_def)
  note nth = remove_stream_nth [OF ok(2) slot j(1), unfolded j(2)]
  have eq: "streams (close_stream driver s slot) ! j =
      reparent (stream_id (streams s ! slot)) (dependency (stream_priority (streams s ! slot))) (streams r ! i)"
    using nth r(3) kept [of slot] by (simp add: close_stream_def r_def stream_kept_def)
  have "find_stream (close_stream driver s slot) sid = Some j"
    using find_stream_nth [OF well_formed_parts(1) [OF close_stream_well(1) [OF assms(1,2)]], of j]
      close_stream_well(2) [OF assms(1,2)] j(1) r(3) eq i(2) kept [of i] by (simp add: stream_kept_def)
  then show ?thesis
    using eq kept [of i] by (auto simp: stream_kept_def reparent_def)
qed

lemma close_stream_gone:
  assumes "well_formed s" and "slot < stream_count s"
  shows "find_stream (close_stream driver s slot) (stream_id (streams s ! slot)) = None"
proof -
  have r: "well_formed (release_stream driver s slot)" "keeps s (release_stream driver s slot)"
    "stream_count (release_stream driver s slot) = stream_count s"
    using release_stream_ok [OF assms] by simp_all
  then show ?thesis
    using remove_stream_ok(2) [OF well_formed_parts(1) [OF r(1)], of slot] keeps_id [OF r(2) assms(2)] assms(2)
    by (simp add: close_stream_def find_stream_None)
qed

lemma close_all_well:
  "well_formed s \<Longrightarrow> well_formed (close_all driver n s) \<and> stream_count (close_all driver n s) = stream_count s - n"
  by (induction n arbitrary: s) (auto simp: close_stream_well)

end

section \<open>The opening of a stream\<close>

definition add_stream :: "http2_stream \<Rightarrow> http2_session \<Rightarrow> http2_session" where
  "add_stream stream s =
     s\<lparr>streams := (streams s)[stream_count s := stream], stream_count := stream_count s + 1\<rparr>"

lemma stream_ok_mono: "stream_ok peer own stream \<Longrightarrow> peer \<le> peer' \<Longrightarrow> own \<le> own' \<Longrightarrow> stream_ok peer' own' stream"
  by (auto simp: stream_ok_def)

lemma streams_ok_ids:
  assumes "streams_ok s" and "last_stream_id s \<le> peer" and "push_stream_id s \<le> own"
  shows "streams_ok (s\<lparr>last_stream_id := peer, push_stream_id := own\<rparr>)"
  using assms stream_ok_nth [OF assms(1)] streams_ok_distinct [OF assms(1)]
  by (intro streams_okI) (auto simp: streams_ok_def intro: stream_ok_mono)

lemma add_stream_nth:
  assumes "streams_ok s" and "stream_count s < HTTP2_STREAM_SLOTS"
  shows "streams (add_stream stream s) ! i = (if i = stream_count s then stream else streams s ! i)"
  using assms by (simp add: add_stream_def streams_ok_def)

lemma add_stream_ok:
  assumes "streams_ok s" and "stream_count s < HTTP2_STREAM_SLOTS"
    and "stream_ok (last_stream_id s) (push_stream_id s) stream" and "stream_id stream \<notin> set (open_ids s)"
  shows "streams_ok (add_stream stream s)" and "open_ids (add_stream stream s) = open_ids s @ [stream_id stream]"
proof -
  note nth = add_stream_nth [OF assms(1,2)]
  have fresh: "stream_id (streams s ! i) \<noteq> stream_id stream" if "i < stream_count s" for i
    using that assms(4) open_ids_nth [OF assms(1)] by metis
  have count: "stream_count (add_stream stream s) = stream_count s + 1"
    by (simp add: add_stream_def)
  show "streams_ok (add_stream stream s)"
  proof (rule streams_okI)
    show "i = j" if "i < stream_count (add_stream stream s)" "j < stream_count (add_stream stream s)"
      "stream_id (streams (add_stream stream s) ! i) = stream_id (streams (add_stream stream s) ! j)" for i j
    proof -
      have "i \<le> stream_count s" "j \<le> stream_count s" using that(1,2) count by simp_all
      then show ?thesis
        using that(3) fresh [of i] fresh [of j] streams_ok_distinct [OF assms(1), of i j]
        by (auto simp: nth le_less split: if_splits)
    qed
    show "stream_ok (last_stream_id (add_stream stream s)) (push_stream_id (add_stream stream s))
        (streams (add_stream stream s) ! i)" if "i < stream_count (add_stream stream s)" for i
      using that count assms(3) stream_ok_nth [OF assms(1), of i] nth by (auto simp: add_stream_def)
  qed (use assms(1,2) in \<open>simp_all add: add_stream_def streams_ok_def\<close>)
  show "open_ids (add_stream stream s) = open_ids s @ [stream_id stream]"
    using assms(1,2) by (simp add: open_ids_def open_streams_def add_stream_def streams_ok_def take_Suc_conv_app_nth flip: Suc_eq_plus1)
qed

text \<open>When a stream is opened, and what it starts with.\<close>

definition new_stream :: "http2_session \<Rightarrow> u32 \<Rightarrow> http2_stream" where
  "new_stream s sid =
     \<lparr>stream_id = sid, stream_state = HTTP2_STATE_OPEN,
      stream_send_window = int (initial_window_size (remote s)),
      stream_receive_window = int (initial_window_size (session_settings s)),
      stream_priority = \<lparr>dependency = 0, weight = HTTP2_DEFAULT_WEIGHT, exclusive = False\<rparr>,
      stream_request = create_http_request\<lparr>request_version := HTTP20, request_stream_id := sid,
        request_flags := FLAG_KEEP_ALIVE\<rparr>,
      stream_handler = None, end_stream = False, headers_complete = False, complete = False,
      content_length = 0, announced = False, received = 0, pending = []\<rparr>"

lemma open_stream_cases:
  obtains (even) "sid mod 2 = 0" "open_stream s sid = (s, Inl (Http2_Error HTTP2_PROTOCOL_ERROR))"
    | (reused) "sid mod 2 \<noteq> 0" "sid \<le> last_stream_id s" "open_stream s sid = (s, Inl (Http2_Error HTTP2_PROTOCOL_ERROR))"
    | (refused) "sid mod 2 \<noteq> 0" "last_stream_id s < sid"
        "stream_count s \<ge> max_concurrent_streams (session_settings s) \<or> stream_count s \<ge> HTTP2_STREAM_SLOTS"
        "open_stream s sid = (s, Inl (Http2_Error HTTP2_REFUSED_STREAM))"
    | (opened) "sid mod 2 \<noteq> 0" "last_stream_id s < sid"
        "stream_count s < max_concurrent_streams (session_settings s)" "stream_count s < HTTP2_STREAM_SLOTS"
        "open_stream s sid = ((add_stream (new_stream s sid) s)\<lparr>last_stream_id := sid\<rparr>, Inr (stream_count s))"
proof -
  consider "sid mod 2 = 0" | "sid mod 2 \<noteq> 0" "sid \<le> last_stream_id s"
    | "sid mod 2 \<noteq> 0" "last_stream_id s < sid"
      "stream_count s \<ge> max_concurrent_streams (session_settings s) \<or> stream_count s \<ge> HTTP2_STREAM_SLOTS"
    | "sid mod 2 \<noteq> 0" "last_stream_id s < sid"
      "stream_count s < max_concurrent_streams (session_settings s)" "stream_count s < HTTP2_STREAM_SLOTS"
    by fastforce
  then show ?thesis
  proof cases
    case 1
    then show ?thesis using that(1) unfolding open_stream_def by (simp only: if_True simp_thms)
  next
    case 2
    then show ?thesis using that(2) unfolding open_stream_def by (simp only: if_True if_False simp_thms)
  next
    case 3
    moreover from 3(2) have "\<not> sid \<le> last_stream_id s" by simp
    ultimately show ?thesis using that(3) unfolding open_stream_def by (simp only: if_True if_False simp_thms)
  next
    case 4
    then have "\<not> sid \<le> last_stream_id s"
      "\<not> (stream_count s \<ge> max_concurrent_streams (session_settings s) \<or> stream_count s \<ge> HTTP2_STREAM_SLOTS)"
      by simp_all
    with 4 show ?thesis
      using that(4) unfolding open_stream_def Let_def add_stream_def new_stream_def
      by (simp only: if_False) simp
  qed
qed

lemma new_stream_ok:
  assumes "settings_ok (remote s)" and "initial_window_size (session_settings s) \<le> HTTP2_DEFAULT_WINDOW_SIZE"
    and "sid mod 2 \<noteq> 0"
  shows "stream_ok sid own (new_stream s sid)"
proof -
  have "sid \<noteq> 0" using assms(3) by auto
  then show ?thesis
    using assms by (simp add: stream_ok_def new_stream_def settings_ok_def create_http_request_def even_id_def)
qed

text \<open>An identifier above the last one of the peer names no open stream.\<close>

lemma fresh_odd:
  assumes "streams_ok s" and "sid mod 2 \<noteq> 0" and "last_stream_id s < sid"
  shows "sid \<notin> set (open_ids s)"
proof
  assume "sid \<in> set (open_ids s)"
  then obtain i where "i < stream_count s" "stream_id (streams s ! i) = sid"
    by (auto simp: open_ids_iff [OF assms(1)])
  then show False
    using stream_ok_nth [OF assms(1), of i] assms(2,3) by (auto simp: stream_ok_def even_id_def split: if_splits)
qed

lemma fresh_even:
  assumes "streams_ok s" and "sid mod 2 = 0" and "push_stream_id s < sid"
  shows "sid \<notin> set (open_ids s)"
proof
  assume "sid \<in> set (open_ids s)"
  then obtain i where "i < stream_count s" "stream_id (streams s ! i) = sid"
    by (auto simp: open_ids_iff [OF assms(1)])
  then show False
    using stream_ok_nth [OF assms(1), of i] assms(2,3) by (auto simp: stream_ok_def even_id_def split: if_splits)
qed

lemma open_stream_well:
  assumes "well_formed s" and "open_stream s sid = (s', Inr slot)"
  shows "well_formed s' \<and> slot = stream_count s \<and> stream_count s' = stream_count s + 1
    \<and> streams s' ! slot = new_stream s sid \<and> find_stream s' sid = Some slot"
proof -
  note parts = well_formed_parts [OF assms(1)]
  have odd: "sid mod 2 \<noteq> 0" "last_stream_id s < sid" and less: "stream_count s < HTTP2_STREAM_SLOTS"
    and eq: "s' = (add_stream (new_stream s sid) s)\<lparr>last_stream_id := sid\<rparr>" "slot = stream_count s"
    using assms(2) open_stream_cases [of sid s "sid mod 2 \<noteq> 0 \<and> last_stream_id s < sid \<and> stream_count s < HTTP2_STREAM_SLOTS
      \<and> s' = (add_stream (new_stream s sid) s)\<lparr>last_stream_id := sid\<rparr> \<and> slot = stream_count s"] by auto
  define s1 where "s1 = s\<lparr>last_stream_id := sid, push_stream_id := push_stream_id s\<rparr>"
  have s1: "streams_ok s1" "open_ids s1 = open_ids s" "stream_count s1 = stream_count s"
    using streams_ok_ids [OF parts(1), of sid "push_stream_id s"] odd(2)
    by (simp_all add: s1_def open_ids_def open_streams_def)
  have s': "s' = add_stream (new_stream s sid) s1"
    by (simp add: eq s1_def add_stream_def)
  note added = add_stream_ok [OF s1(1), of "new_stream s sid"]
  have ok: "streams_ok s'" "open_ids s' = open_ids s @ [sid]"
    using added new_stream_ok [OF parts(3,10) odd(1)] fresh_odd [OF parts(1) odd] less s1
    by (simp_all add: s' new_stream_def) (simp_all add: s1_def)
  have nth: "streams s' ! slot = new_stream s sid"
    using add_stream_nth [OF s1(1), of "new_stream s sid" slot] s1(3) less eq(2) by (simp add: s')
  have "well_formed s'"
    using assms(1) ok by (auto simp: well_formed_def block_size_def s' s1_def add_stream_def)
  moreover have "find_stream s' sid = Some slot"
    using find_stream_iff [OF ok(1), of sid slot] nth eq by (simp add: new_stream_def add_stream_def)
  ultimately show ?thesis
    using nth eq by (simp add: add_stream_def)
qed

lemma open_stream_error: "open_stream s sid = (s', Inl e) \<Longrightarrow> s' = s"
  by (auto simp: open_stream_def Let_def split: if_splits)

lemma create_session_well:
  assumes "length slots = HTTP2_STREAM_SLOTS"
  shows "well_formed (create_http2_session slots base received_data server)"
  using assms
  by (simp add: well_formed_def create_http2_session_def streams_ok_def open_ids_def open_streams_def block_size_def
      block_ok_def create_table create_settings_http2_def settings_ok_def)

section \<open>Sessions to look at\<close>

text \<open>A new session, and what it becomes when the peer opens two streams.\<close>

definition empty_stream :: http2_stream where
  "empty_stream =
     \<lparr>stream_id = 0, stream_state = HTTP2_STATE_IDLE, stream_send_window = 0, stream_receive_window = 0,
      stream_priority = \<lparr>dependency = 0, weight = 16, exclusive = False\<rparr>, stream_request = create_http_request,
      stream_handler = None, end_stream = False, headers_complete = False, complete = False,
      content_length = 0, announced = False, received = 0, pending = []\<rparr>"

definition empty_session :: http2_session where
  "empty_session = create_http2_session (replicate HTTP2_STREAM_SLOTS empty_stream) 1 [] (ascii ''viriatum'')"

lemma empty_session_well [simp]: "well_formed empty_session"
  by (simp add: empty_session_def create_session_well)

definition one_stream :: http2_session where
  "one_stream = (add_stream (new_stream empty_session 1) empty_session)\<lparr>last_stream_id := 1\<rparr>"

definition two_streams :: http2_session where
  "two_streams = (add_stream (new_stream one_stream 3) one_stream)\<lparr>last_stream_id := 3\<rparr>"

lemma empty_session_simps [simp]:
  "stream_count empty_session = 0" "last_stream_id empty_session = 0" "push_stream_id empty_session = 0"
  "session_settings empty_session = create_settings_http2" "remote empty_session = create_settings_http2"
  "send_window empty_session = 65535" "current_request empty_session = None" "write_queue empty_session = []"
  "goaway empty_session = False" "continuation empty_session = 0" "refused empty_session = 0"
  "receive_window empty_session = 65535" "base_handler empty_session = 1"
  by (simp_all add: empty_session_def create_http2_session_def)

lemma open_one: "open_stream empty_session 1 = (one_stream, Inr 0)"
  by (cases rule: open_stream_cases [of 1 empty_session])
    (simp_all add: one_stream_def create_settings_http2_def)

lemma one_stream_simps [simp]:
  "well_formed one_stream" "stream_count one_stream = 1" "last_stream_id one_stream = 1"
  "session_settings one_stream = create_settings_http2" "remote one_stream = create_settings_http2"
  "streams one_stream ! 0 = new_stream empty_session 1" "send_window one_stream = 65535"
  "push_stream_id one_stream = 0" "write_queue one_stream = []"
  using open_stream_well [OF empty_session_well open_one]
  by (simp_all add: one_stream_def add_stream_def)

lemma open_two: "open_stream one_stream 3 = (two_streams, Inr 1)"
  by (cases rule: open_stream_cases [of 3 one_stream])
    (simp_all add: two_streams_def create_settings_http2_def word_le_nat_alt)

lemma two_streams_simps [simp]:
  "well_formed two_streams" "stream_count two_streams = 2" "last_stream_id two_streams = 3"
  "session_settings two_streams = create_settings_http2" "remote two_streams = create_settings_http2"
  "streams two_streams ! 0 = new_stream empty_session 1" "streams two_streams ! 1 = new_stream one_stream 3"
  "send_window two_streams = 65535" "push_stream_id two_streams = 0" "write_queue two_streams = []"
proof -
  note ok = open_stream_well [OF one_stream_simps(1) open_two]
  show "well_formed two_streams" "streams two_streams ! 1 = new_stream one_stream 3" using ok by simp_all
  show "streams two_streams ! 0 = new_stream empty_session 1"
    using add_stream_nth [OF well_formed_parts(1) [OF one_stream_simps(1)], of "new_stream one_stream 3" 0]
    by (simp add: two_streams_def)
qed (simp_all add: two_streams_def add_stream_def one_stream_def)

section \<open>Properties of the opening\<close>

text \<open>C4: a stream is opened exactly when its identifier is odd, above every one the peer has used, and
  the connection holds fewer streams than this end has announced; an identifier that fails the first two
  is a PROTOCOL_ERROR, the excess is a REFUSED_STREAM and the session is left as it is. The new stream is
  the one found under its identifier, with the windows that both ends have negotiated, and every other
  identifier finds what it found before.\<close>

theorem open_stream_spec:
  assumes "well_formed s"
  shows "case open_stream s sid of
      (s', Inl e) \<Rightarrow> s' = s \<and>
        (e = Http2_Error HTTP2_PROTOCOL_ERROR \<and> (sid mod 2 = 0 \<or> sid \<le> last_stream_id s) \<or>
         e = Http2_Error HTTP2_REFUSED_STREAM \<and> sid mod 2 \<noteq> 0 \<and> last_stream_id s < sid \<and>
           (max_concurrent_streams (session_settings s) \<le> stream_count s \<or> stream_count s = HTTP2_STREAM_SLOTS))
    | (s', Inr slot) \<Rightarrow> sid mod 2 \<noteq> 0 \<and> last_stream_id s < sid \<and>
        stream_count s < max_concurrent_streams (session_settings s) \<and> well_formed s' \<and>
        find_stream s sid = None \<and> find_stream s' = (find_stream s)(sid \<mapsto> slot) \<and>
        streams s' ! slot = new_stream s sid \<and> last_stream_id s' = sid \<and> stream_count s' = stream_count s + 1"
proof (cases rule: open_stream_cases [of sid s])
  case refused
  then show ?thesis using well_formed_parts(8) [OF assms] by auto
next
  case opened
  define s' where "s' = (add_stream (new_stream s sid) s)\<lparr>last_stream_id := sid\<rparr>"
  note ok = well_formed_parts(1) [OF assms] open_stream_well [OF assms opened(5), folded s'_def]
  have count: "stream_count s' = stream_count s + 1" and nth: "streams s' ! (stream_count s) = new_stream s sid"
    using ok(2) by simp_all
  have same: "streams s' ! i = streams s ! i" if "i < stream_count s" for i
    using add_stream_nth [OF ok(1) opened(4), of "new_stream s sid" i] that by (simp add: s'_def)
  have fresh: "sid \<notin> set (open_ids s)" by (rule fresh_odd [OF ok(1) opened(1,2)])
  have "find_stream s' other = ((find_stream s)(sid \<mapsto> stream_count s)) other" for other
  proof (cases "other = sid")
    case True
    then show ?thesis using ok(2) by simp
  next
    case False
    have ok': "streams_ok s'" using ok(2) well_formed_parts(1) by blast
    have "find_stream s' other = Some i \<longleftrightarrow> find_stream s other = Some i" for i
      using False nth same count unfolding find_stream_iff [OF ok'] find_stream_iff [OF ok(1)]
      by (auto simp: less_Suc_eq new_stream_def simp flip: Suc_eq_plus1)
    then show ?thesis using False by (metis fun_upd_other not_Some_eq)
  qed
  then have "find_stream s' = (find_stream s)(sid \<mapsto> stream_count s)" by (rule ext)
  then show ?thesis
    using opened ok count nth fresh by (simp add: s'_def [symmetric] find_stream_None) (simp add: s'_def)
qed (use assms in auto)

theorem open_stream_spec_witness:
  "3 mod 2 \<noteq> (0 :: u32) \<and> last_stream_id one_stream < 3 \<and>
     stream_count one_stream < max_concurrent_streams (session_settings one_stream) \<and> well_formed two_streams \<and>
     find_stream one_stream 3 = None \<and> find_stream two_streams = (find_stream one_stream)(3 \<mapsto> 1) \<and>
     streams two_streams ! 1 = new_stream one_stream 3 \<and> last_stream_id two_streams = 3 \<and>
     stream_count two_streams = stream_count one_stream + 1"
  using open_stream_spec [OF one_stream_simps(1), of 3, unfolded open_two prod.case sum.case] .

end
