(* ===== verification/Http2_Priorities.thy ===== *)
theory Http2_Priorities
  imports Http2_Tree Http2_Wellformed
begin

text \<open>
  The tree of the priorities of \<^verbatim>\<open>src/src/viriatum/stream/stream_http2.c\<close>. The dependencies of the
  open streams are a relation over their identifiers; the placing and the closing of a stream keep
  it free of cycles, and in a tree without cycles the bound of the walks of the code is never what
  ends them.
\<close>

section \<open>The invariant of the session\<close>

lemma take_over_simps [simp]:
  "stream_id (take_over sid parent stream) = stream_id stream" "pending (take_over sid parent stream) = pending stream"
  "stream_send_window (take_over sid parent stream) = stream_send_window stream"
  "stream_receive_window (take_over sid parent stream) = stream_receive_window stream"
  "stream_request (take_over sid parent stream) = stream_request stream"
  by (simp_all add: take_over_def)

lemma take_over_ok [simp]: "stream_ok peer own (take_over sid parent stream) = stream_ok peer own stream"
  by (simp add: stream_ok_def)

lemma replace_streams:
  assumes "streams_ok s" and "length ss = stream_count s" and "map stream_id ss = open_ids s"
    and "list_all (stream_ok (last_stream_id s) (push_stream_id s)) ss"
  shows "streams_ok (s\<lparr>streams := ss @ drop (stream_count s) (streams s)\<rparr>)"
    and "open_ids (s\<lparr>streams := ss @ drop (stream_count s) (streams s)\<rparr>) = open_ids s"
    and "open_streams (s\<lparr>streams := ss @ drop (stream_count s) (streams s)\<rparr>) = ss"
  using assms by (simp_all add: streams_ok_def open_ids_def open_streams_def)

lemma replace_streams_well:
  assumes "well_formed s" and "length ss = stream_count s" and "map stream_id ss = open_ids s"
    and "list_all (stream_ok (last_stream_id s) (push_stream_id s)) ss"
  shows "well_formed (s\<lparr>streams := ss @ drop (stream_count s) (streams s)\<rparr>)"
  using assms(1) replace_streams [OF well_formed_parts(1) [OF assms(1)] assms(2-4)]
  by (simp add: well_formed_def block_size_def)

text \<open>The steps of the placing: the parent moved out of the way, the siblings taken over, the stream placed.\<close>

definition move_parent :: "nat \<Rightarrow> http2_priority \<Rightarrow> http2_session \<Rightarrow> http2_session" where
  "move_parent slot priority s =
     (if descends s (dependency priority) (stream_id (streams s ! slot)) then
        (case find_stream s (dependency priority) of
           None \<Rightarrow> s
         | Some parent \<Rightarrow>
             update_stream parent (\<lambda>p. p\<lparr>stream_priority :=
               (stream_priority p)\<lparr>dependency := dependency (stream_priority (streams s ! slot))\<rparr>\<rparr>) s)
      else s)"

definition take_siblings :: "u32 \<Rightarrow> http2_priority \<Rightarrow> http2_session \<Rightarrow> http2_session" where
  "take_siblings sid priority s =
     (if exclusive priority then
        s\<lparr>streams := map (take_over sid (dependency priority)) (open_streams s) @ drop (stream_count s) (streams s)\<rparr>
      else s)"

lemma prioritise_stream_eq:
  "prioritise_stream s slot priority =
     (if dependency priority = stream_id (streams s ! slot) then (Some (Http2_Error HTTP2_PROTOCOL_ERROR), s)
      else (None, update_stream slot (\<lambda>stream. stream\<lparr>stream_priority := priority\<rparr>)
              (take_siblings (stream_id (streams s ! slot)) priority (move_parent slot priority s))))"
  by (simp add: prioritise_stream_def Let_def move_parent_def take_siblings_def open_streams_def)

lemma move_parent_ok:
  assumes "well_formed s"
  shows "well_formed (move_parent slot priority s) \<and> stream_count (move_parent slot priority s) = stream_count s
    \<and> (\<forall>i. stream_id (streams (move_parent slot priority s) ! i) = stream_id (streams s ! i))"
proof -
  have "well_formed (update_stream parent f s) \<and> (\<forall>i. stream_id (streams (update_stream parent f s) ! i) = stream_id (streams s ! i))"
    if "find_stream s (dependency priority) = Some parent" and f: "f = (\<lambda>p. p\<lparr>stream_priority := (stream_priority p)\<lparr>dependency := d\<rparr>\<rparr>)"
    for parent d f
    using update_stream_well [OF assms, of parent f] find_stream_Some [OF that(1)] well_formed_parts(1) [OF assms]
    by (simp add: f stream_ok_def)
  then show ?thesis using assms by (auto simp: move_parent_def split: option.split)
qed

lemma take_siblings_ok:
  assumes "well_formed s"
  shows "well_formed (take_siblings sid priority s) \<and> stream_count (take_siblings sid priority s) = stream_count s
    \<and> open_ids (take_siblings sid priority s) = open_ids s"
proof -
  note ok = well_formed_parts(1) [OF assms]
  let ?ss = "map (take_over sid (dependency priority)) (open_streams s)"
  have "length ?ss = stream_count s" "map stream_id ?ss = open_ids s"
    "list_all (stream_ok (last_stream_id s) (push_stream_id s)) ?ss"
    using ok by (simp_all add: open_ids_def list_all_iff streams_ok_def)
  then show ?thesis
    using replace_streams_well [OF assms, of ?ss] replace_streams(2) [OF ok, of ?ss] assms
    by (simp add: take_siblings_def)
qed

lemma prioritise_stream_well:
  assumes "well_formed s" and "slot < stream_count s"
  shows "well_formed (snd (prioritise_stream s slot priority))"
    and "stream_count (snd (prioritise_stream s slot priority)) = stream_count s"
proof -
  define s1 where "s1 = move_parent slot priority s"
  define s2 where "s2 = take_siblings (stream_id (streams s ! slot)) priority s1"
  have s2: "well_formed s2" "stream_count s2 = stream_count s"
    using move_parent_ok [OF assms(1), of slot priority] take_siblings_ok [of s1] by (simp_all add: s1_def s2_def)
  have "well_formed (update_stream slot (\<lambda>stream. stream\<lparr>stream_priority := priority\<rparr>) s2)"
    by (rule update_stream_well) (use s2 assms(2) in \<open>simp_all add: stream_ok_def\<close>)
  then show "well_formed (snd (prioritise_stream s slot priority))"
    "stream_count (snd (prioritise_stream s slot priority)) = stream_count s"
    using assms(1) s2 by (simp_all add: prioritise_stream_eq s1_def s2_def)
qed

section \<open>Relations\<close>

lemma acyclic_sink:
  assumes "acyclic D" and "\<And>a. a \<in> S \<Longrightarrow> (x, a) \<notin> D\<^sup>*"
  shows "acyclic (D \<union> S \<times> {x})"
proof -
  have "(u, v) \<in> D\<^sup>+ \<or> (\<exists>a \<in> S. (u, a) \<in> D\<^sup>* \<and> (x, v) \<in> D\<^sup>*)" if "(u, v) \<in> (D \<union> S \<times> {x})\<^sup>+" for u v
    using that
  proof (induction rule: trancl_induct)
    case (step v w)
    then show ?case
      using assms(2) by (auto intro: trancl_into_trancl rtrancl_into_rtrancl trancl_into_rtrancl)
  qed (use assms(2) in \<open>auto intro: rtrancl_refl\<close>)
  then show ?thesis
    using assms unfolding acyclic_def by (meson rtrancl_trans)
qed

lemma rtrancl_avoid:
  assumes "(v, x) \<in> R\<^sup>*"
  shows "(v, x) \<in> (R - {x} \<times> UNIV)\<^sup>*"
  using assms
proof (induction rule: converse_rtrancl_induct)
  case (step y z)
  then show ?case
    by (cases "y = x") (auto intro: converse_rtrancl_into_rtrancl)
qed simp

lemma acyclic_add_edge: "acyclic R \<Longrightarrow> (b, a) \<notin> R\<^sup>* \<Longrightarrow> acyclic (insert (a, b) R)"
  by (simp add: acyclic_insert)

section \<open>Dependencies by slot\<close>

text \<open>The edges of a table whose slots carry the identifiers \<open>I\<close> and the dependencies \<open>D\<close>.\<close>

definition edges :: "nat \<Rightarrow> (nat \<Rightarrow> u32) \<Rightarrow> (nat \<Rightarrow> u32) \<Rightarrow> (u32 \<times> u32) set" where
  "edges n I D = {(I i, D i) | i. i < n \<and> D i \<noteq> 0}"

definition ids_ok :: "nat \<Rightarrow> (nat \<Rightarrow> u32) \<Rightarrow> bool" where
  "ids_ok n I \<longleftrightarrow> inj_on I {..<n} \<and> (\<forall>i < n. I i \<noteq> 0)"

lemma inj_iff: "ids_ok n I \<Longrightarrow> i < n \<Longrightarrow> j < n \<Longrightarrow> I i = I j \<longleftrightarrow> i = j"
  by (auto simp: ids_ok_def inj_on_def)

lemma no_out: "ids_ok n I \<Longrightarrow> i < n \<Longrightarrow> D i = 0 \<Longrightarrow> (I i, b) \<in> (edges n I D)\<^sup>* \<Longrightarrow> b = I i"
  by (erule converse_rtranclE) (auto simp: edges_def inj_iff)

lemma edges_update:
  assumes ids: "ids_ok n I" and "j < n"
  shows "edges n I (D(j := d)) = (edges n I D - {I j} \<times> UNIV) \<union> (if d = 0 then {} else {(I j, d)})"
proof (intro set_eqI iffI)
  fix e assume "e \<in> edges n I (D(j := d))"
  then obtain i where "i < n" "e = (I i, (D(j := d)) i)" "(D(j := d)) i \<noteq> 0" by (auto simp: edges_def)
  then show "e \<in> (edges n I D - {I j} \<times> UNIV) \<union> (if d = 0 then {} else {(I j, d)})"
    using assms by (cases "i = j") (auto simp: edges_def inj_iff [OF ids])
next
  fix e assume "e \<in> (edges n I D - {I j} \<times> UNIV) \<union> (if d = 0 then {} else {(I j, d)})"
  then show "e \<in> edges n I (D(j := d))"
  proof
    assume "e \<in> edges n I D - {I j} \<times> UNIV"
    then obtain i where "i < n" "e = (I i, D i)" "D i \<noteq> 0" "i \<noteq> j" by (auto simp: edges_def)
    then show ?thesis by (auto simp: edges_def intro!: exI [of _ i])
  qed (use assms in \<open>auto simp: edges_def intro!: exI [of _ j] split: if_splits\<close>)
qed

lemma moved_acyclic:
  assumes ids: "ids_ok n I" and "slot < n" and "j < n" and "j \<noteq> slot" and "acyclic (edges n I D)" and "(I j, I slot) \<in> (edges n I D)\<^sup>*"
  shows "acyclic (edges n I (D(j := D slot))) \<and> (I j, I slot) \<notin> (edges n I (D(j := D slot)))\<^sup>*"
proof -
  let ?R = "edges n I D" and ?B = "edges n I D - {I j} \<times> UNIV" and ?d = "D slot"
  have neq: "I j \<noteq> I slot" using inj_iff [OF ids assms(3,2)] assms(4) by blast
  have sub: "?B\<^sup>* \<subseteq> ?R\<^sup>*" by (rule rtrancl_mono) blast
  have B: "acyclic ?B" using assms(5) by (rule acyclic_subset) blast
  show ?thesis
  proof (cases "?d = 0")
    case True
    then show ?thesis
      using edges_update [OF ids assms(3), of D 0] B neq no_out [OF ids assms(3), of "D(j := 0)" "I slot"] by auto
  next
    case False
    have edge: "(I slot, ?d) \<in> ?R" using assms(2) False by (auto simp: edges_def)
    have eq: "edges n I (D(j := ?d)) = insert (I j, ?d) ?B"
      using edges_update [OF ids assms(3), of D ?d] False by auto
    have loop: "(?d, I slot) \<notin> ?R\<^sup>*"
      using assms(5) edge by (auto simp: acyclic_def dest: rtrancl_into_trancl2)
    have ahead: "(?d, I j) \<notin> ?B\<^sup>*"
      using loop sub assms(6) by (meson rtrancl_trans subsetD)
    have "(I j, I slot) \<notin> (insert (I j, ?d) ?B)\<^sup>*"
    proof
      assume "(I j, I slot) \<in> (insert (I j, ?d) ?B)\<^sup>*"
      then have "(I j, I slot) \<in> ?B\<^sup>* \<or> (?d, I slot) \<in> ?B\<^sup>*"
        unfolding rtrancl_insert by blast
      then show False
        using loop sub neq by (auto elim: converse_rtranclE)
    qed
    then show ?thesis
      using acyclic_add_edge [OF B ahead] by (simp add: eq)
  qed
qed

text \<open>The placing of a slot below \<open>q\<close>, once \<open>q\<close> does not sit below it.\<close>

lemma placed_acyclic:
  assumes ids: "ids_ok n I" and "slot < n" and "acyclic (edges n I D)" and "q \<noteq> I slot" and "(q, I slot) \<notin> (edges n I D)\<^sup>*"
    and "D' = (\<lambda>i. if i = slot then q else if moved \<and> D i = q then I slot else D i)"
  shows "acyclic (edges n I D')"
proof -
  let ?x = "I slot"
  define S where "S = (if moved then {I i | i. i < n \<and> i \<noteq> slot \<and> D i = q} else {})"
  define C where "C = edges n I D - ({?x} \<union> S) \<times> UNIV"
  define E where "E = (if q = 0 then C else insert (?x, q) C)"
  have subC: "C\<^sup>* \<subseteq> (edges n I D)\<^sup>*" unfolding C_def by (rule rtrancl_mono) blast
  have outC: "(?x, b) \<in> C\<^sup>* \<Longrightarrow> b = ?x" for b
    by (erule converse_rtranclE) (auto simp: C_def)
  have C: "acyclic C" using assms(3) unfolding C_def by (rule acyclic_subset) blast
  have E: "acyclic E"
    using C acyclic_add_edge [OF C, of q ?x] assms(5) subC by (auto simp: E_def)
  have S: "a \<noteq> ?x" "q \<noteq> 0 \<Longrightarrow> (a, q) \<in> edges n I D" if "a \<in> S" for a
    using that inj_iff [OF ids] assms(2) by (auto simp: S_def edges_def split: if_splits)
  have "(?x, a) \<notin> E\<^sup>*" if a: "a \<in> S" for a
  proof
    assume path: "(?x, a) \<in> E\<^sup>*"
    show False
    proof (cases "q = 0")
      case True
      then show False using path outC S(1) [OF a] by (simp add: E_def)
    next
      case False
      then have "(?x, a) \<in> C\<^sup>* \<or> (q, a) \<in> C\<^sup>*"
        using path by (auto simp: E_def rtrancl_insert)
      then have "(q, a) \<in> (edges n I D)\<^sup>*" using outC S(1) [OF a] subC by blast
      then have "(q, q) \<in> (edges n I D)\<^sup>+" using S(2) [OF a False] by (rule rtrancl_into_trancl1)
      then show False using assms(3) by (simp add: acyclic_def)
    qed
  qed
  then have "acyclic (E \<union> S \<times> {?x})" by (rule acyclic_sink [OF E])
  moreover have "edges n I D' \<subseteq> E \<union> S \<times> {?x}"
  proof
    fix e assume "e \<in> edges n I D'"
    then obtain i where i: "i < n" "e = (I i, D' i)" "D' i \<noteq> 0" by (auto simp: edges_def)
    consider "i = slot" | "i \<noteq> slot" "moved" "D i = q" | "i \<noteq> slot" "\<not> (moved \<and> D i = q)" by blast
    then show "e \<in> E \<union> S \<times> {?x}"
    proof cases
      case 1
      then show ?thesis using i assms(6) by (simp add: E_def)
    next
      case 2
      then show ?thesis using i assms(6) by (auto simp: S_def)
    next
      case 3
      then have "(I i, D i) \<in> edges n I D" and Di: "D' i = D i" using i assms(6) by (auto simp: edges_def)
      moreover have "I i \<noteq> ?x" "I i \<notin> S"
        using 3 i(1) inj_iff [OF ids] assms(2) by (auto simp: S_def split: if_splits)
      ultimately show ?thesis using i(2) by (auto simp: E_def C_def)
    qed
  qed
  ultimately show ?thesis by (rule acyclic_subset)
qed

section \<open>The tree of a session\<close>

definition dep :: "http2_session \<Rightarrow> nat \<Rightarrow> u32" where
  "dep s i = dependency (stream_priority (streams s ! i))"

definition ids :: "http2_session \<Rightarrow> nat \<Rightarrow> u32" where
  "ids s i = stream_id (streams s ! i)"

definition deps :: "http2_session \<Rightarrow> (u32 \<times> u32) set" where
  "deps s = edges (stream_count s) (ids s) (dep s)"

lemma deps_iff: "(a, b) \<in> deps s \<longleftrightarrow> (\<exists>i < stream_count s. a = ids s i \<and> b = dep s i \<and> dep s i \<noteq> 0)"
  by (auto simp: deps_def edges_def)

lemma edges_cong:
  "(\<And>i. i < n \<Longrightarrow> I i = I' i) \<Longrightarrow> (\<And>i. i < n \<Longrightarrow> D i = D' i) \<Longrightarrow> edges n I D = edges n I' D'"
  by (auto simp: edges_def) metis+

lemma session_ids: "streams_ok s \<Longrightarrow> ids_ok (stream_count s) (ids s)"
  using stream_ok_nth by (auto simp: ids_ok_def inj_on_def ids_def streams_ok_distinct stream_ok_def)

lemma deps_keeps: "keeps s s' \<Longrightarrow> stream_count s' = stream_count s \<Longrightarrow> deps s' = deps s"
  unfolding deps_def by (auto simp: keeps_def stream_kept_def ids_def dep_def intro!: edges_cong)

lemma find_ids: "streams_ok s \<Longrightarrow> i < stream_count s \<Longrightarrow> find_stream s (ids s i) = Some i"
  by (simp add: ids_def find_stream_nth)

text \<open>The walks of the code follow the edges, as many of them as there are steps left.\<close>

lemma descends_from_sound: "streams_ok s \<Longrightarrow> descends_from s n v x \<Longrightarrow> (v, x) \<in> (deps s)\<^sup>*"
proof (induction n arbitrary: v)
  case (Suc n)
  show ?case
  proof (cases "v = x")
    case False
    then obtain i where i: "find_stream s v = Some i" "descends_from s n (dep s i) x" "v \<noteq> 0"
      using Suc.prems(2) by (auto simp: dep_def split: if_splits option.splits)
    then have "dep s i \<noteq> 0" using Suc.prems by (cases n) auto
    then have "(v, dep s i) \<in> deps s"
      using find_stream_Some [OF i(1)] by (auto simp: deps_iff ids_def)
    then show ?thesis using Suc.IH [OF Suc.prems(1) i(2)] by (rule converse_rtrancl_into_rtrancl)
  qed simp
qed simp

lemma descends_from_complete:
  "streams_ok s \<Longrightarrow> x \<noteq> 0 \<Longrightarrow> (v, x) \<in> (deps s) ^^ k \<Longrightarrow> k < n \<Longrightarrow> descends_from s n v x"
proof (induction k arbitrary: v n)
  case 0
  then show ?case by (cases n) auto
next
  case (Suc k)
  obtain m where n: "n = Suc m" using Suc.prems(4) by (cases n) auto
  obtain w where w: "(v, w) \<in> deps s" "(w, x) \<in> (deps s) ^^ k"
    using relpow_Suc_E2 [OF Suc.prems(3)] by blast
  then obtain i where i: "i < stream_count s" "v = ids s i" "w = dep s i" by (auto simp: deps_iff)
  have "v \<noteq> 0" using session_ids [OF Suc.prems(1)] i by (auto simp: ids_ok_def)
  then show ?case
    using Suc.IH [OF Suc.prems(1,2) w(2), of m] Suc.prems(4) i find_ids [OF Suc.prems(1) i(1)]
    by (simp add: n dep_def)
qed

lemma relpow_mono_set:
  fixes R S :: "('a \<times> 'a) set"
  shows "(x, y) \<in> R ^^ k \<Longrightarrow> R \<subseteq> S \<Longrightarrow> (x, y) \<in> S ^^ k"
  by (induction k arbitrary: y) auto

text \<open>A path to an open stream needs no more steps than the other streams there are.\<close>

lemma short_path:
  assumes "streams_ok s" and "slot < stream_count s" and "(v, ids s slot) \<in> (deps s)\<^sup>*"
  shows "\<exists>k < stream_count s. (v, ids s slot) \<in> (deps s) ^^ k"
proof -
  let ?R = "deps s - {ids s slot} \<times> UNIV" and ?f = "\<lambda>i. (ids s i, dep s i)"
  have sub: "?R \<subseteq> ?f ` ({..<stream_count s} - {slot})"
    by (auto simp: deps_iff image_iff)
  then have fin: "finite ?R" by (rule finite_subset) simp
  have "card ?R \<le> card (?f ` ({..<stream_count s} - {slot}))"
    using sub by (rule card_mono [rotated]) simp
  also have "\<dots> \<le> card ({..<stream_count s} - {slot})"
    by (rule card_image_le) simp
  also have "\<dots> < stream_count s" using assms(2) by simp
  finally have "card ?R < stream_count s" .
  moreover obtain k where "k \<le> card ?R" "(v, ids s slot) \<in> ?R ^^ k"
    using rtrancl_avoid [OF assms(3)] unfolding rtrancl_finite_eq_relpow [OF fin] by blast
  ultimately show ?thesis
    using relpow_mono_set [of v "ids s slot" k ?R "deps s"] by (auto intro!: exI [of _ k])
qed

lemma descends_iff:
  assumes "streams_ok s" and "slot < stream_count s" and "stream_count s \<le> n"
  shows "descends_from s n v (ids s slot) \<longleftrightarrow> (v, ids s slot) \<in> (deps s)\<^sup>*"
proof
  assume "(v, ids s slot) \<in> (deps s)\<^sup>*"
  then obtain k where k: "k < stream_count s" "(v, ids s slot) \<in> (deps s) ^^ k"
    using short_path [OF assms(1,2)] by blast
  have "ids s slot \<noteq> 0" using session_ids [OF assms(1)] assms(2) by (simp add: ids_ok_def)
  then show "descends_from s n v (ids s slot)"
    using descends_from_complete [OF assms(1) _ k(2)] k(1) assms(3) by simp
qed (rule descends_from_sound [OF assms(1)])

text \<open>A stream that has something to write and a window to write it in.\<close>

definition writing :: "http2_session \<Rightarrow> nat \<Rightarrow> bool" where
  "writing s i \<longleftrightarrow> pending (streams s ! i) \<noteq> [] \<and> stream_send_window (streams s ! i) > 0"

lemma blocked_from_sound:
  "streams_ok s \<Longrightarrow> blocked_from s n v \<Longrightarrow> \<exists>i < stream_count s. writing s i \<and> (v, ids s i) \<in> (deps s)\<^sup>*"
proof (induction n arbitrary: v)
  case (Suc n)
  then obtain i where i: "find_stream s v = Some i" "writing s i \<or> blocked_from s n (dep s i)"
    by (auto simp: dep_def writing_def Let_def split: if_splits option.splits)
  note v = find_stream_Some [OF i(1)]
  show ?case
  proof (cases "writing s i")
    case True
    then show ?thesis using v by (auto simp: ids_def intro!: exI [of _ i])
  next
    case False
    then have next_blocked: "blocked_from s n (dep s i)" using i(2) by blast
    then obtain j where j: "j < stream_count s" "writing s j" "(dep s i, ids s j) \<in> (deps s)\<^sup>*"
      using Suc.IH Suc.prems(1) by blast
    have "dep s i \<noteq> 0" using next_blocked by (cases n) auto
    then have "(v, dep s i) \<in> deps s" using v by (auto simp: deps_iff ids_def)
    then show ?thesis using j converse_rtrancl_into_rtrancl by metis
  qed
qed simp

lemma blocked_from_complete:
  "streams_ok s \<Longrightarrow> (v, ids s i) \<in> (deps s) ^^ k \<Longrightarrow> i < stream_count s \<Longrightarrow> writing s i \<Longrightarrow> k < n \<Longrightarrow> blocked_from s n v"
proof (induction k arbitrary: v n)
  case 0
  then obtain m where "n = Suc m" by (cases n) auto
  moreover have "v = ids s i" using 0(2) by simp
  moreover have "ids s i \<noteq> 0" using session_ids [OF 0(1)] 0(3) by (auto simp: ids_ok_def)
  ultimately show ?case
    using 0 find_ids [OF 0(1,3)] by (simp add: writing_def Let_def)
next
  case (Suc k)
  obtain m where n: "n = Suc m" using Suc.prems(5) by (cases n) auto
  obtain w where w: "(v, w) \<in> deps s" "(w, ids s i) \<in> (deps s) ^^ k"
    using relpow_Suc_E2 [OF Suc.prems(2)] by blast
  then obtain j where j: "j < stream_count s" "v = ids s j" "w = dep s j" by (auto simp: deps_iff)
  have "v \<noteq> 0" using session_ids [OF Suc.prems(1)] j by (auto simp: ids_ok_def)
  then show ?case
    using Suc.IH [OF Suc.prems(1) w(2) Suc.prems(3,4), of m] Suc.prems(5) j find_ids [OF Suc.prems(1) j(1)]
    by (simp add: n dep_def Let_def)
qed

lemma blocked_iff:
  assumes "streams_ok s" and "stream_count s \<le> n"
  shows "blocked_from s n v \<longleftrightarrow> (\<exists>i < stream_count s. writing s i \<and> (v, ids s i) \<in> (deps s)\<^sup>*)"
proof
  assume "\<exists>i < stream_count s. writing s i \<and> (v, ids s i) \<in> (deps s)\<^sup>*"
  then obtain i where i: "i < stream_count s" "writing s i" "(v, ids s i) \<in> (deps s)\<^sup>*" by blast
  then obtain k where k: "k < stream_count s" "(v, ids s i) \<in> (deps s) ^^ k"
    using short_path [OF assms(1)] by blast
  show "blocked_from s n v"
    using blocked_from_complete [OF assms(1) k(2) i(1,2), of n] k(1) assms(2) by simp
qed (rule blocked_from_sound [OF assms(1)])

section \<open>The placing and the closing keep the tree free of cycles\<close>

lemma move_parent_dep:
  assumes "streams_ok s" and "slot < stream_count s" and "dependency priority \<noteq> ids s slot"
  shows "\<exists>D. dep (move_parent slot priority s) = D \<and> ids (move_parent slot priority s) = ids s \<and>
    (acyclic (deps s) \<longrightarrow> acyclic (edges (stream_count s) (ids s) D) \<and>
       (dependency priority, ids s slot) \<notin> (edges (stream_count s) (ids s) D)\<^sup>*)"
proof (cases "(dependency priority, ids s slot) \<in> (deps s)\<^sup>*")
  case True
  then obtain w where "(dependency priority, w) \<in> deps s"
    using assms(3) by (metis converse_rtranclE)
  then obtain j where j: "j < stream_count s" "ids s j = dependency priority"
    by (auto simp: deps_iff)
  then have "j \<noteq> slot" using assms(3) by auto
  have "descends s (dependency priority) (stream_id (streams s ! slot))"
    using descends_iff [OF assms(1,2) order_refl, of "dependency priority"] True by (simp add: descends_def ids_def)
  moreover have "find_stream s (dependency priority) = Some j"
    using find_ids [OF assms(1) j(1)] j(2) by simp
  ultimately have "dep (move_parent slot priority s) = (dep s)(j := dep s slot)"
    "ids (move_parent slot priority s) = ids s"
    using j(1) assms(1) by (auto simp: move_parent_def dep_def ids_def fun_eq_iff)
  then show ?thesis
    using moved_acyclic [OF session_ids [OF assms(1)] assms(2) j(1) \<open>j \<noteq> slot\<close>, of "dep s"] True j(2)
    by (auto simp: deps_def)
next
  case False
  then have "\<not> descends s (dependency priority) (stream_id (streams s ! slot))"
    using descends_iff [OF assms(1,2) order_refl, of "dependency priority"] by (simp add: descends_def ids_def)
  then show ?thesis
    using False by (simp add: move_parent_def deps_def)
qed

lemma take_siblings_dep:
  assumes "streams_ok s" and "i < stream_count s"
  shows "ids (take_siblings sid priority s) i = ids s i"
    and "dep (take_siblings sid priority s) i =
      (if exclusive priority \<and> ids s i \<noteq> sid \<and> dep s i = dependency priority then sid else dep s i)"
  using assms by (auto simp: take_siblings_def ids_def dep_def nth_append take_over_def)

lemma prioritise_acyclic:
  assumes "well_formed s" and "slot < stream_count s" and "acyclic (deps s)"
  shows "acyclic (deps (snd (prioritise_stream s slot priority)))"
proof (cases "dependency priority = ids s slot")
  case True
  then show ?thesis using assms(3) by (simp add: prioritise_stream_eq ids_def)
next
  case False
  note ok = well_formed_parts(1) [OF assms(1)]
  define s1 where "s1 = move_parent slot priority s"
  define s2 where "s2 = take_siblings (ids s slot) priority s1"
  define s3 where "s3 = update_stream slot (\<lambda>stream. stream\<lparr>stream_priority := priority\<rparr>) s2"
  have s1: "streams_ok s1" "stream_count s1 = stream_count s"
    using move_parent_ok [OF assms(1), of slot priority] well_formed_parts(1) by (simp_all add: s1_def)
  obtain D where D: "dep s1 = D" "ids s1 = ids s" "acyclic (edges (stream_count s) (ids s) D)"
    "(dependency priority, ids s slot) \<notin> (edges (stream_count s) (ids s) D)\<^sup>*"
    using move_parent_dep [OF ok assms(2) False] assms(3) by (auto simp: s1_def)
  have s2: "streams_ok s2" "stream_count s2 = stream_count s"
    using take_siblings_ok [of s1 "ids s slot" priority] move_parent_ok [OF assms(1), of slot priority] s1(2)
      well_formed_parts(1) by (simp_all add: s1_def s2_def)
  have nth: "dep s3 i = (if i = slot then dependency priority else dep s2 i)" "ids s3 i = ids s2 i" for i
    using s2 assms(2) by (simp_all add: s3_def dep_def ids_def)
  have sib: "ids s2 i = ids s i" "dep s2 i = (if exclusive priority \<and> ids s i \<noteq> ids s slot \<and> D i = dependency priority
      then ids s slot else D i)" if "i < stream_count s" for i
    using take_siblings_dep [OF s1(1), of i "ids s slot" priority] that s1(2) D(1,2) by (simp_all add: s2_def)
  have dep3: "dep s3 i = (if i = slot then dependency priority
      else if exclusive priority \<and> D i = dependency priority then ids s slot else D i)" and ids3: "ids s3 i = ids s i"
    if "i < stream_count s" for i
    using nth [of i] sib [OF that] inj_iff [OF session_ids [OF ok] that assms(2)] by simp_all
  have count3: "stream_count s3 = stream_count s" using s2(2) by (simp add: s3_def)
  have "deps s3 = edges (stream_count s) (ids s) (\<lambda>i. if i = slot then dependency priority
      else if exclusive priority \<and> D i = dependency priority then ids s slot else D i)"
    unfolding deps_def count3 by (rule edges_cong [OF ids3 dep3])
  then have "acyclic (deps s3)"
    using placed_acyclic [OF session_ids [OF ok] assms(2) D(3) False D(4) refl, of "exclusive priority"] by simp
  then show ?thesis
    using False unfolding prioritise_stream_eq s3_def s2_def s1_def ids_def by simp
qed

lemma remove_stream_deps:
  assumes "streams_ok s" and "slot < stream_count s"
  shows "deps (remove_stream slot (stream_count s - 1) s) \<subseteq> (deps s)\<^sup>+"
proof
  fix e assume "e \<in> deps (remove_stream slot (stream_count s - 1) s)"
  then obtain i where i: "i < stream_count s - 1" "e = (ids (remove_stream slot (stream_count s - 1) s) i,
      dep (remove_stream slot (stream_count s - 1) s) i)" "dep (remove_stream slot (stream_count s - 1) s) i \<noteq> 0"
    by (cases e) (auto simp: deps_iff)
  define j where "j = old_slot slot (stream_count s - 1) i"
  have j: "j < stream_count s" using old_slot_less [OF assms(2) i(1)] by (simp add: j_def)
  have e: "e = (ids s j, if dep s j = ids s slot then dep s slot else dep s j)"
    and nz: "(if dep s j = ids s slot then dep s slot else dep s j) \<noteq> 0"
    using i(2,3) unfolding ids_def dep_def j_def remove_stream_nth [OF assms i(1)] reparent_simps by blast+
  show "e \<in> (deps s)\<^sup>+"
  proof (cases "dep s j = ids s slot")
    case True
    have "ids s slot \<noteq> 0" using session_ids [OF assms(1)] assms(2) by (simp add: ids_ok_def)
    then have "(ids s j, ids s slot) \<in> deps s" using True j by (auto simp: deps_iff)
    moreover have "(ids s slot, dep s slot) \<in> deps s" using True nz assms(2) by (auto simp: deps_iff)
    ultimately show ?thesis using e True by (simp add: trancl.trancl_into_trancl)
  next
    case False
    then show ?thesis using e nz j by (auto simp: deps_iff intro!: r_into_trancl)
  qed
qed

lemma open_stream_deps:
  assumes "well_formed s"
  shows "deps (fst (open_stream s sid)) = deps s"
proof -
  note ok = well_formed_parts(1) [OF assms]
  have "deps ((add_stream (new_stream s sid) s)\<lparr>last_stream_id := sid\<rparr>) = deps s" if "stream_count s < HTTP2_STREAM_SLOTS"
  proof -
    have nth: "streams ((add_stream (new_stream s sid) s)\<lparr>last_stream_id := sid\<rparr>) ! i =
        (if i = stream_count s then new_stream s sid else streams s ! i)" for i
      using add_stream_nth [OF ok that, of "new_stream s sid" i] by simp
    define s' where "s' = (add_stream (new_stream s sid) s)\<lparr>last_stream_id := sid\<rparr>"
    have s': "stream_count s' = Suc (stream_count s)" "dep s' (stream_count s) = 0"
      "dep s' i = dep s i" "ids s' i = ids s i" if "i < stream_count s" for i
      using nth that by (simp_all add: s'_def dep_def ids_def new_stream_def) (simp add: add_stream_def)
    have "dep s' (stream_count s) = 0" "stream_count s' = Suc (stream_count s)"
      using nth by (simp_all add: s'_def dep_def new_stream_def) (simp add: add_stream_def)
    then have "deps s' = deps s"
      using s'(3,4) by (auto simp: deps_iff less_Suc_eq) fastforce+
    then show ?thesis by (simp add: s'_def)
  qed
  then show ?thesis by (cases rule: open_stream_cases [of sid s]) simp_all
qed

text \<open>The edge that a new stream brings with it, as a promise below the stream it is made on.\<close>

lemma add_stream_deps:
  assumes "streams_ok s" and "stream_count s < HTTP2_STREAM_SLOTS" and "dependency (stream_priority stream) \<noteq> 0"
  shows "deps (add_stream stream s) = insert (stream_id stream, dependency (stream_priority stream)) (deps s)"
proof -
  note nth = add_stream_nth [OF assms(1,2), of stream]
  have "stream_count (add_stream stream s) = Suc (stream_count s)" by (simp add: add_stream_def)
  then show ?thesis
    using assms(3) nth by (auto simp: deps_iff less_Suc_eq ids_def dep_def) force+
qed

lemma add_stream_acyclic:
  assumes "streams_ok s" and "stream_count s < HTTP2_STREAM_SLOTS" and "dependency (stream_priority stream) \<noteq> 0"
    and "acyclic (deps s)"
  shows "acyclic (deps (add_stream stream s)) \<longleftrightarrow> (dependency (stream_priority stream), stream_id stream) \<notin> (deps s)\<^sup>*"
  using assms(4) unfolding add_stream_deps [OF assms(1-3)] by (simp add: acyclic_insert)

lemma remove_stream_acyclic:
  assumes "streams_ok s" and "slot < stream_count s" and "acyclic (deps s)"
  shows "acyclic (deps (remove_stream slot (stream_count s - 1) s))"
proof (rule acyclic_subset)
  show "acyclic ((deps s)\<^sup>+)" using assms(3) by (simp add: acyclic_def)
qed (use remove_stream_deps [OF assms(1,2)] in simp)

context handler
begin

lemma close_acyclic:
  assumes "well_formed s" and "slot < stream_count s" and "acyclic (deps s)"
  shows "acyclic (deps (close_stream driver s slot))"
proof -
  define r where "r = release_stream driver s slot"
  have r: "well_formed r" "stream_count r = stream_count s" "keeps s r"
    using release_stream_ok [OF assms(1,2)] by (simp_all add: r_def)
  then have "acyclic (deps r)" using deps_keeps assms(3) by simp
  then have "acyclic (deps (remove_stream slot (stream_count r - 1) r))"
    using remove_stream_acyclic [OF well_formed_parts(1) [OF r(1)]] assms(2) r(2) by simp
  then show ?thesis using r(2) by (simp add: close_stream_def r_def)
qed

end

text \<open>In a tree without cycles one of the streams that have something to write is not kept from it.\<close>

lemma unblocked_exists:
  assumes "well_formed s" and "acyclic (deps s)" and "i < stream_count s" and "writing s i"
  shows "\<exists>j < stream_count s. writing s j \<and> \<not> blocked s j"
proof -
  have ok: "streams_ok s" using well_formed_parts(1) [OF assms(1)] .
  have "deps s \<subseteq> (\<lambda>i. (ids s i, dep s i)) ` {..<stream_count s}" by (auto simp: deps_iff)
  then have "finite (deps s)" by (rule finite_subset) simp
  then have "wf ((deps s)\<inverse>)" using assms(2) by (rule finite_acyclic_wf_converse)
  then have wf: "wf (((deps s)\<inverse>)\<^sup>+)" by (rule wf_trancl)
  show ?thesis
    using wf assms(3,4)
  proof (induction "ids s i" arbitrary: i rule: wf_induct_rule)
    case less
    show ?case
    proof (cases "blocked s i")
      case True
      then obtain j where j: "j < stream_count s" "writing s j" "(dep s i, ids s j) \<in> (deps s)\<^sup>*"
        using blocked_iff [OF ok order_refl] by (auto simp: blocked_def dep_def)
      have "dep s i \<noteq> 0"
        using True by (auto simp: blocked_def dep_def) (metis blocked_from.elims(2))
      then have "(ids s i, ids s j) \<in> (deps s)\<^sup>+"
        using less(2) j(3) by (auto simp: deps_iff intro!: rtrancl_into_trancl2 [of _ "dep s i"])
      then show ?thesis using less(1) [of j] j by (simp add: trancl_converse)
    qed (use less in blast)
  qed
qed

section \<open>Properties of the tree\<close>


lemma two_streams_deps [simp]: "deps two_streams = {}"
proof -
  have "dep two_streams i = 0" if "i < stream_count two_streams" for i
    using that two_streams_simps(6,7) by (cases i) (auto simp: dep_def new_stream_def less_Suc_eq numeral_2_eq_2 One_nat_def)
  then show ?thesis by (auto simp: deps_iff)
qed


text \<open>
  The cycle: the peer places its stream 1 below stream 2, which is not open, and the promise made on
  stream 1 is the one of stream 2. Each of the two is then kept from writing by the other, and both
  keep their data for as long as their windows are open.
\<close>

lemma push_cycle:
  fixes promise :: http2_stream
  assumes "stream_id promise = 2" and "dependency (stream_priority promise) = 1"
  defines "placed \<equiv> snd (prioritise_stream two_streams 0 \<lparr>dependency = 2, weight = 16, exclusive = False\<rparr>)"
  shows "\<not> acyclic (deps (add_stream promise placed))"
proof -
  have ok: "well_formed two_streams" "0 < stream_count two_streams" by simp_all
  have placed: "well_formed placed" "stream_count placed = stream_count two_streams"
    using prioritise_stream_well [OF ok, of "\<lparr>dependency = 2, weight = 16, exclusive = False\<rparr>"] by (simp_all add: placed_def)
  have id: "stream_id (streams two_streams ! 0) = 1" by (simp add: new_stream_def)
  define moved where "moved = move_parent 0 \<lparr>dependency = 2, weight = 16, exclusive = False\<rparr> two_streams"
  have moved: "well_formed moved" "stream_count moved = 2" "stream_id (streams moved ! 0) = 1"
    using move_parent_ok [OF ok(1), of 0 "\<lparr>dependency = 2, weight = 16, exclusive = False\<rparr>"] id
    by (simp_all add: moved_def)
  have "placed = update_stream 0 (\<lambda>stream. stream\<lparr>stream_priority := \<lparr>dependency = 2, weight = 16, exclusive = False\<rparr>\<rparr>) moved"
    by (simp add: placed_def prioritise_stream_eq new_stream_def take_siblings_def moved_def)
  then have "ids placed 0 = 1" "dep placed 0 = 2"
    using moved well_formed_parts(1) [OF moved(1)] by (simp_all add: ids_def dep_def)
  then have "(1, 2) \<in> deps placed"
    using placed(2) by (auto simp: deps_iff intro!: exI [of _ 0])
  then have "(2, 2) \<in> (deps (add_stream promise placed))\<^sup>+"
    using add_stream_deps [OF well_formed_parts(1) [OF placed(1)], of promise] assms(1,2) placed(2)
    by (auto intro: trancl_into_trancl2)
  then show ?thesis by (auto simp: acyclic_def)
qed

text \<open>C7: the walks of the code over the tree are exact, although the number of open streams bounds them:
  a stream descends from another precisely when a path of dependencies leads to it, and a stream is kept
  from writing precisely when such a path leads to an open stream that has something to write and a window
  to write it in. A larger bound changes nothing.\<close>

theorem walks_exact:
  assumes "well_formed s" and "slot < stream_count s" and "stream_count s \<le> n"
  shows "(descends s v (ids s slot) \<longleftrightarrow> (v, ids s slot) \<in> (deps s)\<^sup>*)
    \<and> (blocked s slot \<longleftrightarrow> (\<exists>i < stream_count s. writing s i \<and> (dep s slot, ids s i) \<in> (deps s)\<^sup>*))
    \<and> descends_from s n v (ids s slot) = descends s v (ids s slot)
    \<and> blocked_from s n (dep s slot) = blocked s slot"
  using descends_iff [OF well_formed_parts(1) [OF assms(1)] assms(2)]
    blocked_iff [OF well_formed_parts(1) [OF assms(1)]] assms(3)
  by (simp add: descends_def blocked_def dep_def)

theorem walks_exact_witness:
  "(descends two_streams 3 (ids two_streams 0) \<longleftrightarrow> (3, ids two_streams 0) \<in> (deps two_streams)\<^sup>*)
    \<and> (blocked two_streams 0 \<longleftrightarrow>
        (\<exists>i < stream_count two_streams. writing two_streams i \<and> (dep two_streams 0, ids two_streams i) \<in> (deps two_streams)\<^sup>*))
    \<and> descends_from two_streams 9 3 (ids two_streams 0) = descends two_streams 3 (ids two_streams 0)
    \<and> blocked_from two_streams 9 (dep two_streams 0) = blocked two_streams 0"
  by (rule walks_exact) simp_all

end
