(* ===== verification/Http2_Flow.thy ===== *)
theory Http2_Flow
  imports Http2_Output Http2_Priorities
begin

text \<open>
  The flow control of \<^verbatim>\<open>src/src/viriatum/stream/stream_http2.c\<close>: what the operations of
  \<open>Http2_Output\<close> append to the connection, that they keep the invariant of the session, and the
  correctness of the flushing of a stream. The abstract view of what a stream holds back is the
  sequence of its bytes with a marker where a message ends (\<open>unsent\<close>); a turn of the loop moves
  one frame from the front of it to the connection.
\<close>

section \<open>The queue of writes\<close>

text \<open>The bytes that wait to be written to the connection.\<close>

definition wire :: "http2_session \<Rightarrow> bytes" where
  "wire s = concat (map fst (write_queue s))"

lemma outstanding_append: "outstanding (q @ q') = outstanding q + outstanding q'"
  by (induction q rule: outstanding.induct) (auto split: completion.splits)

lemma write_connection_simps [simp]:
  "streams (write_connection data c s) = streams s" "stream_count (write_connection data c s) = stream_count s"
  "wire (write_connection data c s) = wire s @ data" "send_window (write_connection data c s) = send_window s"
  "remote (write_connection data c s) = remote s" "last_stream_id (write_connection data c s) = last_stream_id s"
  "push_stream_id (write_connection data c s) = push_stream_id s" "decoder (write_connection data c s) = decoder s"
  "current_request (write_connection data c s) = current_request s" "receive_window (write_connection data c s) = receive_window s"
  "current_handler (write_connection data c s) = current_handler s" "base_handler (write_connection data c s) = base_handler s"
  "events (write_connection data c s) = events s" "goaway (write_connection data c s) = goaway s"
  by (simp_all add: write_connection_def wire_def)

lemma write_wrapped_simps [simp]:
  "streams (write_wrapped data sid cb s) = streams s" "stream_count (write_wrapped data sid cb s) = stream_count s"
  "wire (write_wrapped data sid cb s) = wire s @ data" "send_window (write_wrapped data sid cb s) = send_window s"
  "remote (write_wrapped data sid cb s) = remote s" "last_stream_id (write_wrapped data sid cb s) = last_stream_id s"
  "push_stream_id (write_wrapped data sid cb s) = push_stream_id s" "current_request (write_wrapped data sid cb s) = current_request s"
  "events (write_wrapped data sid cb s) = events s"
  by (simp_all add: write_wrapped_def) (simp add: wire_def)

lemma wire_update [simp]: "wire (update_stream slot f s) = wire s"
  by (simp add: wire_def)

text \<open>A change of the streams aside, what is written is all that these operations change.\<close>

lemma well_formed_queue:
  assumes "well_formed s" and "mset cbs = outstanding q"
  shows "well_formed (s\<lparr>write_queue := q, callbacks := cbs\<rparr>)"
  using assms by (simp add: well_formed_def streams_ok_def open_ids_def open_streams_def block_size_def)

lemma write_connection_well:
  assumes "well_formed s" and "c = No_callback \<or> c = Close_callback"
  shows "well_formed (write_connection data c s)"
proof -
  have "write_connection data c s = s\<lparr>write_queue := write_queue s @ [(data, c)], callbacks := callbacks s\<rparr>"
    by (simp add: write_connection_def)
  then show ?thesis
    using well_formed_queue [OF assms(1), of "callbacks s" "write_queue s @ [(data, c)]"] assms
    by (auto simp: well_formed_parts(7) outstanding_append)
qed

lemma write_wrapped_well:
  assumes "well_formed s"
  shows "well_formed (write_wrapped data sid cb s)"
proof -
  have "write_wrapped data sid cb s = s\<lparr>write_queue := write_queue s @ [(data, Stream_callback (wrap sid cb))],
      callbacks := callbacks s @ [wrap sid cb]\<rparr>"
    by (simp add: write_wrapped_def write_connection_def)
  then show ?thesis
    using well_formed_queue [OF assms, of "callbacks s @ [wrap sid cb]"
        "write_queue s @ [(data, Stream_callback (wrap sid cb))]"] assms
    by (simp add: well_formed_parts(7) outstanding_append)
qed

lemma write_keeps [simp]: "keeps s (write_connection data c s)" "keeps s (write_wrapped data sid cb s)"
  by (simp_all add: keeps_def session_kept_def write_wrapped_def write_connection_def)

section \<open>Frames of the connection\<close>

lemma fresh_simps [simp]: "length (fresh n) = n" "memcpy (fresh n) 0 bs = bs @ drop (length bs) (fresh n)"
  by (simp_all add: fresh_def memcpy_def)

lemma write_value_ok:
  "write_value type sid v s =
     (None, write_connection (frame_header 4 type 0 sid @ number_bytes v) No_callback s)"
  by (simp add: write_value_def encode_value_ok)

lemma write_settings_ok:
  "write_settings ack s =
     (None, write_connection
        (if ack then frame_header 0 HTTP2_SETTINGS HTTP2_FLAG_ACK 0
         else frame_header 30 HTTP2_SETTINGS 0 0 @ settings_payload (session_settings s)) No_callback s)"
  by (simp add: write_settings_def encode_settings_ok encode_frame_ok)

lemma write_ping_ok:
  assumes "8 \<le> length data"
  shows "write_ping data s =
    (None, write_connection (frame_header 8 HTTP2_PING HTTP2_FLAG_ACK 0 @ take 8 data) No_callback s)"
proof -
  let ?h = "frame_header 8 HTTP2_PING HTTP2_FLAG_ACK 0"
  have "encode_frame_http2 (fresh 17) 17 8 HTTP2_PING HTTP2_FLAG_ACK 0 = (None, memcpy (fresh 17) 0 ?h)"
    by (rule encode_frame_ok) simp_all
  moreover have "memcpy (memcpy (fresh 17) 0 ?h) 9 (take 8 data) = ?h @ take 8 data"
    using assms by (simp add: memcpy_def)
  ultimately show ?thesis using assms by (simp add: write_ping_def)
qed

definition goaway_frame :: "u32 \<Rightarrow> u32 \<Rightarrow> bytes" where
  "goaway_frame sid code =
     frame_header 8 HTTP2_GOAWAY 0 0 @ number_bytes (sid AND HTTP2_MAX_STREAM_ID) @ number_bytes code"

lemma write_goaway_ok:
  "write_goaway code s =
     (None, if goaway s then close_connection s
            else write_connection (goaway_frame (last_stream_id s) code) Close_callback (s\<lparr>goaway := True\<rparr>))"
  by (simp add: write_goaway_def encode_goaway_ok goaway_frame_def)

lemma write_goaway_well: "well_formed s \<Longrightarrow> well_formed (snd (write_goaway code s))"
proof -
  assume ok: "well_formed s"
  have "same_core s (close_connection s)" "same_core s (s\<lparr>goaway := True\<rparr>)"
    by (simp_all add: same_core_def close_connection_def)
  then show ?thesis
    using ok write_connection_well [of "s\<lparr>goaway := True\<rparr>" Close_callback] by (simp add: write_goaway_ok well_formed_core)
qed

section \<open>Windows and settings of the peer\<close>

lemma update_window_well:
  assumes "well_formed s"
  shows "well_formed (snd (update_window s sid increment))"
proof (cases "find_stream s sid")
  case None
  have "well_formed (s\<lparr>send_window := w\<rparr>)" if "w \<le> int HTTP2_MAX_WINDOW_SIZE" for w
    using assms that by (simp add: well_formed_def streams_ok_def open_ids_def open_streams_def block_size_def)
  then show ?thesis using None assms by (simp add: update_window_def)
next
  case (Some slot)
  have window: "well_formed (s\<lparr>send_window := w\<rparr>)" if "w \<le> int HTTP2_MAX_WINDOW_SIZE" for w
    using assms that by (simp add: well_formed_def streams_ok_def open_ids_def open_streams_def block_size_def)
  have "well_formed (update_stream slot (\<lambda>stream. stream\<lparr>stream_send_window := stream_send_window stream + int (unat increment)\<rparr>) s)"
    if "stream_send_window (streams s ! slot) \<le> int HTTP2_MAX_WINDOW_SIZE - int (unat increment)"
    by (rule update_stream_well) (use assms that find_stream_Some [OF Some] in \<open>simp_all add: stream_ok_def\<close>)
  then show ?thesis
    using Some assms window by (simp add: update_window_def)
qed

definition shift_window :: "int \<Rightarrow> http2_stream \<Rightarrow> http2_stream" where
  "shift_window d stream = stream\<lparr>stream_send_window := stream_send_window stream + d\<rparr>"

lemma shift_windows_None:
  "list_all (\<lambda>stream. stream_send_window stream + d \<le> int HTTP2_MAX_WINDOW_SIZE) ss \<Longrightarrow>
     shift_windows d ss = (None, map (shift_window d) ss)"
  by (induction d ss rule: shift_windows.induct) (auto simp: shift_window_def)

lemma shift_windows_Some:
  "d > 0 \<Longrightarrow> \<not> list_all (\<lambda>stream. stream_send_window stream + d \<le> int HTTP2_MAX_WINDOW_SIZE) ss \<Longrightarrow>
     fst (shift_windows d ss) = Some (Http2_Error HTTP2_FLOW_CONTROL_ERROR)"
  by (induction d ss rule: shift_windows.induct) (auto split: prod.splits)

lemma shift_windows_ok:
  assumes "list_all (stream_ok peer own) ss"
  shows "list_all (stream_ok peer own) (snd (shift_windows d ss)) \<and>
    map stream_id (snd (shift_windows d ss)) = map stream_id ss"
  using assms by (induction d ss rule: shift_windows.induct) (auto simp: stream_ok_def split: prod.splits)

lemma length_shift_windows [simp]: "length (snd (shift_windows d ss)) = length ss"
  by (induction d ss rule: shift_windows.induct) (auto split: prod.splits)

lemma apply_settings_well:
  assumes "well_formed s"
  shows "well_formed (snd (apply_settings s data))"
proof -
  note parts = well_formed_parts [OF assms]
  obtain r settings where dec: "decode_settings_http2 data (remote s) = (r, settings)" by fastforce
  have settings: "settings_ok settings"
    using decode_settings_ok [OF parts(3), of data] dec by simp
  define s1 where "s1 = s\<lparr>remote := settings\<rparr>"
  have s1: "well_formed s1"
    using assms settings by (simp add: well_formed_def s1_def streams_ok_def open_ids_def open_streams_def block_size_def)
  define d where "d = int (initial_window_size settings) - int (initial_window_size (remote s))"
  define shifted where "shifted = (if d \<noteq> 0 then shift_windows d (take (stream_count s1) (streams s1))
      else (None, take (stream_count s1) (streams s1)))"
  define s2 where "s2 = s1\<lparr>streams := snd shifted @ drop (stream_count s1) (streams s1)\<rparr>"
  have ok1: "streams_ok s1" using s1 well_formed_parts(1) by blast
  then have all: "list_all (stream_ok (last_stream_id s1) (push_stream_id s1)) (open_streams s1)"
    by (simp add: streams_ok_def)
  have "length (snd shifted) = stream_count s1 \<and> map stream_id (snd shifted) = open_ids s1
      \<and> list_all (stream_ok (last_stream_id s1) (push_stream_id s1)) (snd shifted)"
    using ok1 all shift_windows_ok [OF all, of d]
    by (simp add: shifted_def open_ids_def open_streams_def streams_ok_def min_def)
  then have "streams_ok s2" "open_ids s2 = open_ids s1"
    using replace_streams [OF ok1, of "snd shifted"] by (simp_all add: s2_def)
  then have s2: "well_formed s2"
    using s1 by (simp add: well_formed_def block_size_def) (simp add: s2_def)
  have enc: "well_formed (s2\<lparr>encoder := t\<rparr>)" if "table_ok t" for t
    using s2 that by (simp add: well_formed_def streams_ok_def open_ids_def open_streams_def block_size_def)
  have resize: "table_ok (snd (resize_hpack_table (encoder s2) n))" for n
    using dynamic.resize_ok well_formed_parts(5) [OF s2] by blast
  have eq: "apply_settings s data =
      (case r of Some e \<Rightarrow> (Some e, s1)
       | None \<Rightarrow> (case fst shifted of Some e \<Rightarrow> (Some e, s2)
         | None \<Rightarrow> if header_table_size settings < HPACK_TABLE_SIZE then
             (case resize_hpack_table (encoder s2) (header_table_size settings) of
                (Some e, t) \<Rightarrow> (Some (Http2_Error HTTP2_COMPRESSION_ERROR), s2\<lparr>encoder := t\<rparr>)
              | (None, t) \<Rightarrow> (None, s2\<lparr>encoder := t\<rparr>))
             else (None, s2)))"
    unfolding apply_settings_def dec Let_def s2_def shifted_def d_def s1_def by (simp split: option.splits)
  show ?thesis
    unfolding eq using s1 s2 enc resize [of "header_table_size settings"]
    by (auto split: option.splits prod.splits)
qed

section \<open>The flushing of a stream\<close>

text \<open>What is held back: the bytes in order, with a marker at the end of a message.\<close>

definition fragment_rest :: "http2_pending \<Rightarrow> bytes" where
  "fragment_rest f = drop (pending_offset f) (pending_data f)"

definition marked :: "bytes \<Rightarrow> bool \<Rightarrow> byte option list" where
  "marked bs final = map Some bs @ (if final then [None] else [])"

definition unsent :: "http2_pending list \<Rightarrow> byte option list" where
  "unsent fs = concat (map (\<lambda>f. marked (fragment_rest f) (pending_last f)) fs)"

lemma unsent_simps [simp]:
  "unsent [] = []" "unsent (f # fs) = marked (fragment_rest f) (pending_last f) @ unsent fs"
  "unsent (fs @ gs) = unsent fs @ unsent gs"
  by (simp_all add: unsent_def)

definition data_frame :: "u32 \<Rightarrow> bytes \<times> bool \<Rightarrow> bytes" where
  "data_frame sid chunk =
     frame_header (length (fst chunk)) HTTP2_DATA (if snd chunk then HTTP2_FLAG_END_STREAM else 0) sid @ fst chunk"

lemma data_header_ok:
  "allowed \<le> HTTP2_MAX_FRAME_SIZE \<Longrightarrow> data_header allowed final sid =
     frame_header allowed HTTP2_DATA (if final then HTTP2_FLAG_END_STREAM else 0) sid"
  by (simp add: data_header_def encode_frame_ok)

lemma allowed_size_bounds:
  assumes "0 < window" and "0 < max_frame_size (remote s)"
  shows "allowed_size s window remaining \<le> remaining" "allowed_size s window remaining \<le> max_frame_size (remote s)"
    "int (allowed_size s window remaining) \<le> window"
    "0 < remaining \<Longrightarrow> 0 < allowed_size s window remaining"
  using assms by (auto simp: allowed_size_def Let_def)

text \<open>The smaller of the two windows.\<close>

definition open_window :: "http2_session \<Rightarrow> nat \<Rightarrow> int" where
  "open_window s slot = min (stream_send_window (streams s ! slot)) (send_window s)"

text \<open>One turn: a frame leaves the front of what is held back.\<close>

definition flushed_chunk :: "nat \<Rightarrow> http2_session \<Rightarrow> bytes \<times> bool \<Rightarrow> http2_session \<Rightarrow> bool" where
  "flushed_chunk slot s chunk s' \<longleftrightarrow>
     wire s' = wire s @ data_frame (stream_id (streams s ! slot)) chunk
     \<and> unsent (pending (streams s ! slot)) = marked (fst chunk) (snd chunk) @ unsent (pending (streams s' ! slot))
     \<and> length (fst chunk) \<le> max_frame_size (remote s)
     \<and> send_window s' = send_window s - int (length (fst chunk))
     \<and> stream_send_window (streams s' ! slot) = stream_send_window (streams s ! slot) - int (length (fst chunk))
     \<and> int (length (fst chunk)) \<le> open_window s slot"

definition stream_same :: "nat \<Rightarrow> http2_session \<Rightarrow> http2_session \<Rightarrow> bool" where
  "stream_same slot s s' \<longleftrightarrow> stream_count s' = stream_count s \<and> length (streams s') = length (streams s)
     \<and> (\<forall>i. i \<noteq> slot \<longrightarrow> streams s' ! i = streams s ! i)
     \<and> push_stream_id s' = push_stream_id s \<and> current_request s' = current_request s
     \<and> current_handler s' = current_handler s \<and> encoder s' = encoder s \<and> closed s' = closed s \<and> events s' = events s"

lemma flush_step_None: "flush_step slot s = None \<longleftrightarrow> pending (streams s ! slot) = [] \<or> open_window s slot \<le> 0"
  by (auto simp: flush_step_def open_window_def Let_def split: list.splits)

lemma flush_step_Some:
  fixes s :: http2_session and slot :: nat
  defines "stream \<equiv> streams s ! slot"
  assumes "pending stream = f # rest" and "0 < open_window s slot"
  defines "a \<equiv> allowed_size s (open_window s slot) (length (fragment_rest f))"
  defines "whole \<equiv> a = length (fragment_rest f)"
  defines "s2 \<equiv> account_fragment slot a (pending_last f \<and> whole)
      (write_connection (data_header a (pending_last f \<and> whole) (stream_id stream)) No_callback s)"
  shows "flush_step slot s = Some
    (if whole then write_wrapped (take a (fragment_rest f)) (stream_id stream) (pending_callback f)
         (update_stream slot (\<lambda>stream. stream\<lparr>pending := rest\<rparr>) s2)
     else write_connection (take a (fragment_rest f)) No_callback
         (update_stream slot (\<lambda>stream. stream\<lparr>pending := f\<lparr>pending_offset := pending_offset f + a\<rparr> # rest\<rparr>) s2))"
proof -
  have window: "(if stream_send_window stream < send_window s then stream_send_window stream else send_window s)
      = open_window s slot" and "\<not> open_window s slot \<le> 0"
    using assms(3) by (auto simp: open_window_def stream_def min_def)
  have rest: "length (pending_data f) - pending_offset f = length (fragment_rest f)"
    by (simp add: fragment_rest_def)
  have zero: "pending_offset f = 0 \<Longrightarrow> fragment_rest f = pending_data f"
    by (simp add: fragment_rest_def)
  show ?thesis
    unfolding flush_step_def Let_def stream_def [symmetric] assms(2) list.case window rest a_def [symmetric]
      whole_def [symmetric] s2_def [symmetric] fragment_rest_def [symmetric]
    using \<open>\<not> open_window s slot \<le> 0\<close> zero by auto
qed

lemma account_fragment_simps [simp]:
  "stream_count (account_fragment slot a final s) = stream_count s"
  "length (streams (account_fragment slot a final s)) = length (streams s)"
  "wire (account_fragment slot a final s) = wire s" "send_window (account_fragment slot a final s) = send_window s - int a"
  "write_queue (account_fragment slot a final s) = write_queue s" "callbacks (account_fragment slot a final s) = callbacks s"
  "remote (account_fragment slot a final s) = remote s" "last_stream_id (account_fragment slot a final s) = last_stream_id s"
  "push_stream_id (account_fragment slot a final s) = push_stream_id s"
  "current_request (account_fragment slot a final s) = current_request s"
  "current_handler (account_fragment slot a final s) = current_handler s"
  "encoder (account_fragment slot a final s) = encoder s" "closed (account_fragment slot a final s) = closed s"
  "events (account_fragment slot a final s) = events s"
  by (simp_all add: account_fragment_def wire_def Let_def update_stream_def)

definition accounted :: "nat \<Rightarrow> bool \<Rightarrow> http2_stream \<Rightarrow> http2_stream" where
  "accounted a final stream =
     (let stream' = stream\<lparr>stream_send_window := stream_send_window stream - int a\<rparr>
      in if final then
           stream'\<lparr>complete := True,
             stream_state := (if stream_state stream' = HTTP2_STATE_OPEN then HTTP2_STATE_HALF_CLOSED_LOCAL
                              else stream_state stream')\<rparr>
         else stream')"

lemma account_fragment_eq:
  "account_fragment slot a final s = update_stream slot (accounted a final) (s\<lparr>send_window := send_window s - int a\<rparr>)"
  by (simp add: account_fragment_def accounted_def [abs_def])

lemma accounted_simps [simp]:
  "stream_id (accounted a final stream) = stream_id stream" "pending (accounted a final stream) = pending stream"
  "stream_send_window (accounted a final stream) = stream_send_window stream - int a"
  "stream_receive_window (accounted a final stream) = stream_receive_window stream"
  "stream_request (accounted a final stream) = stream_request stream" "stream_kept stream (accounted a final stream)"
  "weight (stream_priority (accounted a final stream)) = weight (stream_priority stream)"
  "dependency (stream_priority (accounted a final stream)) = dependency (stream_priority stream)"
  by (simp_all add: accounted_def Let_def stream_kept_def)

lemma account_fragment_well:
  assumes "well_formed s" and "slot < stream_count s"
  shows "well_formed (account_fragment slot a final s)"
  unfolding account_fragment_eq
proof (rule update_stream_well)
  show "well_formed (s\<lparr>send_window := send_window s - int a\<rparr>)"
    using assms(1) by (simp add: well_formed_def streams_ok_def open_ids_def open_streams_def block_size_def)
qed (use assms(2) in \<open>auto simp: stream_ok_def\<close>)

lemma account_fragment_keeps:
  assumes "well_formed s" and "slot < stream_count s"
  shows "keeps s (account_fragment slot a final s)"
proof -
  have "streams_ok (s\<lparr>send_window := send_window s - int a\<rparr>)"
    using well_formed_parts(1) [OF assms(1)] by (simp add: streams_ok_def open_ids_def open_streams_def)
  then have "keeps (s\<lparr>send_window := send_window s - int a\<rparr>) (account_fragment slot a final s)"
    unfolding account_fragment_eq using assms(2) by (intro update_stream_keeps) simp_all
  then show ?thesis
    by (rule keeps_trans [rotated]) (simp add: keeps_def session_kept_def)
qed

lemma flush_step_ok:
  assumes "well_formed s" and "slot < stream_count s" and "flush_step slot s = Some s'"
  shows "(\<exists>chunk. flushed_chunk slot s chunk s') \<and> well_formed s' \<and> keeps s s' \<and> stream_same slot s s'
    \<and> flush_fuel (pending (streams s' ! slot)) < flush_fuel (pending (streams s ! slot))
    \<and> length (pending (streams s' ! slot)) \<le> length (pending (streams s ! slot))"
proof -
  define stream where "stream = streams s ! slot"
  have "pending stream \<noteq> []" and window: "0 < open_window s slot"
    using assms(3) flush_step_None [of slot s] by (auto simp: stream_def)
  then obtain f rest where pend: "pending (streams s ! slot) = f # rest" by (auto simp: stream_def neq_Nil_conv)
  have fragments: "fragment_ok f" "list_all fragment_ok rest"
    using stream_ok_nth [OF well_formed_parts(1) [OF assms(1)] assms(2)] pend by (simp_all add: stream_ok_def)
  define a where "a = allowed_size s (open_window s slot) (length (fragment_rest f))"
  have frame: "0 < max_frame_size (remote s)" "max_frame_size (remote s) \<le> HTTP2_MAX_FRAME_SIZE"
    using well_formed_parts(3) [OF assms(1)] by (simp_all add: settings_ok_def)
  note a = allowed_size_bounds [OF window frame(1), of "length (fragment_rest f)", folded a_def]
  define whole where "whole \<longleftrightarrow> a = length (fragment_rest f)"
  define fin where "fin \<longleftrightarrow> pending_last f \<and> whole"
  define s1 where "s1 = write_connection (data_header a fin (stream_id stream)) No_callback s"
  define s2 where "s2 = account_fragment slot a fin s1"
  define fs where "fs = (if whole then rest else f\<lparr>pending_offset := pending_offset f + a\<rparr> # rest)"
  define s3 where "s3 = update_stream slot (\<lambda>stream. stream\<lparr>pending := fs\<rparr>) s2"
  have s1: "well_formed s1" "keeps s s1"
    using write_connection_well [OF assms(1)] by (simp_all add: s1_def)
  have s2: "well_formed s2" "keeps s s2"
    using account_fragment_well [OF s1(1)] account_fragment_keeps [OF s1(1)] keeps_trans [OF s1(2)] assms(2)
    by (simp_all add: s2_def s1_def)
  have count2: "slot < stream_count s2" using assms(2) by (simp add: s2_def s1_def)
  have offsets: "list_all fragment_ok fs"
    using fragments a(1) by (auto simp: fs_def fragment_ok_def fragment_rest_def)
  have s3: "well_formed s3" "keeps s s3"
  proof -
    show "well_formed s3"
      unfolding s3_def by (rule update_stream_well) (use s2 count2 offsets in \<open>simp_all add: stream_ok_def\<close>)
    have "keeps s2 s3"
      unfolding s3_def by (rule update_stream_keeps)
        (use well_formed_parts(1) [OF s2(1)] count2 in \<open>simp_all add: stream_kept_def\<close>)
    then show "keeps s s3" by (rule keeps_trans [OF s2(2)])
  qed
  have s': "s' = (if whole then write_wrapped (take a (fragment_rest f)) (stream_id stream) (pending_callback f) s3
      else write_connection (take a (fragment_rest f)) No_callback s3)"
    using flush_step_Some [of s slot f rest, OF pend window] assms(3)
    unfolding a_def [symmetric] whole_def [symmetric] fin_def [symmetric] stream_def [symmetric] s1_def [symmetric]
      s2_def [symmetric] by (simp add: s3_def fs_def split: if_splits)
  have "well_formed s'" "keeps s s'"
    using s3 write_wrapped_well write_connection_well keeps_trans [OF s3(2) write_keeps(1)]
      keeps_trans [OF s3(2) write_keeps(2)] by (simp_all add: s')
  moreover have slot: "slot < length (streams s)"
    using streams_ok_length [OF well_formed_parts(1) [OF assms(1)] assms(2)] .
  have nth: "streams s' ! i = (if i = slot then (accounted a fin stream)\<lparr>pending := fs\<rparr> else streams s ! i)" for i
    using slot by (simp add: s' s3_def s2_def s1_def streams_update account_fragment_eq stream_def)
  have "stream_same slot s s'"
    using nth by (simp add: stream_same_def s' s3_def s2_def s1_def)
      (simp add: write_wrapped_def write_connection_def)
  moreover have "flushed_chunk slot s (take a (fragment_rest f), fin) s'"
  proof -
    have "unsent (pending stream) = marked (take a (fragment_rest f)) fin @ unsent fs"
      using pend a(1) by (auto simp: marked_def fs_def fin_def whole_def fragment_rest_def stream_def add.commute
          simp flip: map_append drop_drop)
    moreover have "data_header a fin (stream_id stream) = frame_header a HTTP2_DATA (if fin then HTTP2_FLAG_END_STREAM else 0) (stream_id stream)"
      using a(2) frame(2) by (intro data_header_ok) simp
    ultimately show ?thesis
      using a nth by (cases fin; simp add: flushed_chunk_def data_frame_def stream_def)
        (simp_all add: s' s3_def s2_def s1_def stream_def)
  qed
  moreover have "0 < a \<and> a < length (fragment_rest f)" if "\<not> whole"
    using a(1,4) that by (cases "a = 0") (auto simp: whole_def)
  then have "flush_fuel (pending (streams s' ! slot)) < flush_fuel (pending stream)"
    using nth pend fragments(1) by (auto simp: flush_fuel_def fs_def whole_def fragment_rest_def fragment_ok_def stream_def)
  moreover have "length (pending (streams s' ! slot)) \<le> length (pending stream)"
    using nth pend by (simp add: fs_def stream_def)
  ultimately show ?thesis by (auto simp: stream_def)
qed

text \<open>The loop: the frames it writes, with enough fuel.\<close>

definition chunks_size :: "(bytes \<times> bool) list \<Rightarrow> nat" where
  "chunks_size chunks = sum_list (map (\<lambda>chunk. length (fst chunk)) chunks)"

definition flushed :: "nat \<Rightarrow> http2_session \<Rightarrow> (bytes \<times> bool) list \<Rightarrow> http2_session \<Rightarrow> bool" where
  "flushed slot s chunks s' \<longleftrightarrow>
     wire s' = wire s @ concat (map (data_frame (stream_id (streams s ! slot))) chunks)
     \<and> unsent (pending (streams s ! slot)) =
         concat (map (\<lambda>chunk. marked (fst chunk) (snd chunk)) chunks) @ unsent (pending (streams s' ! slot))
     \<and> list_all (\<lambda>chunk. length (fst chunk) \<le> max_frame_size (remote s)) chunks
     \<and> send_window s' = send_window s - int (chunks_size chunks)
     \<and> stream_send_window (streams s' ! slot) = stream_send_window (streams s ! slot) - int (chunks_size chunks)
     \<and> min 0 (open_window s slot) \<le> open_window s' slot"

lemma stream_same_refl [simp]: "stream_same slot s s"
  by (simp add: stream_same_def)

lemma stream_same_trans: "stream_same slot s s' \<Longrightarrow> stream_same slot s' s'' \<Longrightarrow> stream_same slot s s''"
  by (simp add: stream_same_def)

lemma flushed_Nil: "flushed slot s [] s"
  by (simp add: flushed_def chunks_size_def)

lemma flushed_Cons:
  assumes "flushed_chunk slot s chunk s'" and "flushed slot s' chunks s''" and "keeps s s'" and "slot < stream_count s"
  shows "flushed slot s (chunk # chunks) s''"
proof -
  have "remote s' = remote s" "stream_id (streams s' ! slot) = stream_id (streams s ! slot)"
    using assms(3,4) by (auto simp: keeps_def session_kept_def stream_kept_def)
  moreover have "0 \<le> open_window s' slot"
    using assms(1) by (auto simp: flushed_chunk_def open_window_def)
  ultimately show ?thesis
    using assms(1,2) by (auto simp: flushed_def flushed_chunk_def chunks_size_def min_def split: if_splits)
qed

lemma flush_loop_ok:
  assumes "well_formed s" and "slot < stream_count s" and "flush_fuel (pending (streams s ! slot)) \<le> n"
  shows "(\<exists>chunks. flushed slot s chunks (flush_loop slot n s)) \<and> well_formed (flush_loop slot n s)
    \<and> keeps s (flush_loop slot n s) \<and> stream_same slot s (flush_loop slot n s)
    \<and> flush_step slot (flush_loop slot n s) = None
    \<and> length (pending (streams (flush_loop slot n s) ! slot)) \<le> length (pending (streams s ! slot))"
  using assms
proof (induction n arbitrary: s)
  case 0
  then have "pending (streams s ! slot) = []"
    by (cases "pending (streams s ! slot)") (simp_all add: flush_fuel_def)
  then show ?case using 0 flushed_Nil [of slot s] by (auto simp: flush_step_None)
next
  case (Suc n)
  show ?case
  proof (cases "flush_step slot s")
    case None
    then show ?thesis using Suc.prems flushed_Nil [of slot s] by auto
  next
    case (Some s')
    note step = flush_step_ok [OF Suc.prems(1,2) Some]
    have "slot < stream_count s'" using step keeps_count [of s s' slot] Suc.prems(2) by blast
    then show ?thesis
      using Suc.IH [of s'] step Suc.prems(2,3) Some flushed_Cons keeps_trans stream_same_trans by auto blast
  qed
qed

lemma flush_stream_ok:
  assumes "well_formed s" and "slot < stream_count s"
  shows "(\<exists>chunks. flushed slot s chunks (flush_stream slot s)) \<and> well_formed (flush_stream slot s)
    \<and> keeps s (flush_stream slot s) \<and> stream_same slot s (flush_stream slot s)
    \<and> (pending (streams (flush_stream slot s) ! slot) = [] \<or> open_window (flush_stream slot s) slot \<le> 0)
    \<and> length (pending (streams (flush_stream slot s) ! slot)) \<le> length (pending (streams s ! slot))"
  using flush_loop_ok [OF assms order_refl] by (simp add: flush_stream_def flush_step_None)

text \<open>More turns than the fuel change nothing.\<close>

lemma flush_loop_fixed: "flush_step slot s = None \<Longrightarrow> flush_loop slot n s = s"
  by (cases n) simp_all

lemma flush_loop_add: "flush_loop slot (m + n) s = flush_loop slot n (flush_loop slot m s)"
  by (induction m arbitrary: s) (auto simp: flush_loop_fixed split: option.splits)

section \<open>Scheduling\<close>

lemma choose_stream_Some:
  "choose_stream s slots chosen = Some slot \<Longrightarrow> chosen = Some slot \<or> slot \<in> set slots \<and> able_to_write s slot"
  by (induction s slots chosen rule: choose_stream.induct) (auto split: if_splits option.splits)

lemma choose_stream_None: "choose_stream s slots chosen = None \<longleftrightarrow> chosen = None \<and> \<not> list_ex (able_to_write s) slots"
  by (induction s slots chosen rule: choose_stream.induct) (auto split: option.splits)

lemma schedule_rounds_ok: "well_formed s \<Longrightarrow> well_formed (schedule_rounds n s) \<and> keeps s (schedule_rounds n s)
    \<and> stream_count (schedule_rounds n s) = stream_count s"
proof (induction n arbitrary: s)
  case (Suc n)
  show ?case
  proof (cases "choose_stream s [0..<stream_count s] None")
    case (Some slot)
    then have less: "slot < stream_count s" using choose_stream_Some [OF Some] by simp
    note flush = flush_stream_ok [OF Suc.prems less]
    then show ?thesis
      using Suc.IH [of "flush_stream slot s"] Some keeps_trans [of s "flush_stream slot s"]
      by (auto simp: Let_def stream_same_def)
  qed (use Suc.prems in simp)
qed simp

lemma schedule_ok: "well_formed s \<Longrightarrow> well_formed (schedule s) \<and> keeps s (schedule s)
    \<and> stream_count (schedule s) = stream_count s"
  unfolding schedule_def by (rule schedule_rounds_ok)

section \<open>The writing operations of a response\<close>

lemma current_stream_less:
  assumes "current_stream s = Some slot"
  shows "slot < stream_count s" and "current_request s = Some (stream_id (streams s ! slot))"
  using assms find_stream_Some by (auto simp: current_stream_def split: option.splits)

lemma append_pending_well:
  assumes "well_formed s" and "slot < stream_count s" and "fragment_ok f"
  shows "well_formed (update_stream slot (\<lambda>stream. stream\<lparr>pending := pending stream @ [f]\<rparr>) s)"
    and "keeps s (update_stream slot (\<lambda>stream. stream\<lparr>pending := pending stream @ [f]\<rparr>) s)"
  using assms well_formed_parts(1)
  by (auto intro!: update_stream_well update_stream_keeps simp: stream_ok_def stream_kept_def)

lemma write_chunk_ok:
  assumes "well_formed s"
  shows "well_formed (write_chunk data final cb s) \<and> keeps s (write_chunk data final cb s)
    \<and> stream_count (write_chunk data final cb s) = stream_count s"
proof (cases "current_stream s")
  case (Some slot)
  define f where "f = \<lparr>pending_data = data, pending_offset = 0, pending_last = final, pending_callback = cb\<rparr>"
  define s1 where "s1 = update_stream slot (\<lambda>stream. stream\<lparr>pending := pending stream @ [f]\<rparr>) s"
  have "well_formed s1" "keeps s s1" "stream_count s1 = stream_count s"
    using append_pending_well [OF assms current_stream_less(1) [OF Some], of f]
    by (simp_all add: s1_def f_def fragment_ok_def)
  then show ?thesis
    using schedule_ok [of s1] keeps_trans [of s s1] Some by (simp add: write_chunk_def f_def s1_def)
qed (use assms in \<open>simp add: write_chunk_def\<close>)

lemma write_flush_ok:
  assumes "well_formed s"
  shows "well_formed (write_flush data cb s) \<and> keeps s (write_flush data cb s)
    \<and> stream_count (write_flush data cb s) = stream_count s"
proof (cases "current_stream s")
  case (Some slot)
  define f :: "http2_stream \<Rightarrow> http2_stream" where "f = (\<lambda>stream. stream\<lparr>stream_state :=
      (if stream_state stream = HTTP2_STATE_RESERVED_LOCAL then HTTP2_STATE_HALF_CLOSED_REMOTE else stream_state stream)\<rparr>)"
  have "well_formed (update_stream slot f s)" "keeps s (update_stream slot f s)"
    using update_kept [OF assms current_stream_less(1) [OF Some], of f] by (simp_all add: f_def stream_kept_def)
  then show ?thesis
    using Some write_wrapped_well keeps_trans [of s "update_stream slot f s"] by (simp add: write_flush_def Let_def f_def)
qed (use assms in \<open>simp add: write_flush_def\<close>)

lemma encode_hpack_table:
  "encode_hpack t buffer n offset h False = (r, t', buffer', offset') \<Longrightarrow> t' = t"
  by (auto simp: encode_hpack_def split: prod.splits option.splits bool.splits if_splits)

lemma encode_field_session [simp]: "snd (snd (encode_field buffer offset h s)) = s"
proof -
  obtain r t b n where e: "encode_hpack (encoder s) buffer (length buffer) offset h False = (r, t, b, n)"
    using prod_cases4 by blast
  then show ?thesis
    using encode_hpack_table [OF e] by (simp add: encode_field_def)
qed

lemma write_field_session [simp]: "snd (snd (write_field buffer offset name v s)) = s"
  by (simp add: write_field_def Let_def)

lemma write_status_session [simp]: "snd (snd (write_status buffer code s)) = s"
proof -
  obtain b n where "encode_field buffer HTTP2_HEADER_SIZE \<lparr>header_name = ascii '':status'', header_value = decimal code\<rparr> s
      = (b, n, s)"
    using encode_field_session [of buffer HTTP2_HEADER_SIZE _ s] by (metis prod.collapse)
  then show ?thesis by (simp add: write_status_def)
qed

lemma write_end_ok:
  assumes "well_formed s"
  shows "well_formed (snd (write_end buffer offset final s)) \<and> keeps s (snd (write_end buffer offset final s))
    \<and> stream_count (snd (write_end buffer offset final s)) = stream_count s"
proof (cases "current_stream s")
  case (Some slot)
  define f :: "http2_stream \<Rightarrow> http2_stream" where "f = (\<lambda>stream. stream\<lparr>complete := True, stream_state :=
      (if stream_state stream = HTTP2_STATE_OPEN then HTTP2_STATE_HALF_CLOSED_LOCAL else stream_state stream)\<rparr>)"
  have "well_formed (update_stream slot f s)" "keeps s (update_stream slot f s)"
    using update_kept [OF assms current_stream_less(1) [OF Some], of f] by (simp_all add: f_def stream_kept_def)
  then show ?thesis
    using Some assms by (simp add: write_end_def Let_def f_def)
qed (use assms in \<open>simp add: write_end_def Let_def\<close>)

section \<open>The completion of a write\<close>

context handler
begin

lemma callback_well:
  assumes "well_formed (s\<lparr>callbacks := remove1 cb (callbacks s)\<rparr>)"
  shows "well_formed (callback_http2 driver cb s)"
proof -
  define s1 where "s1 = s\<lparr>callbacks := remove1 cb (callbacks s)\<rparr>"
  have s1: "well_formed s1" and find: "find_stream s1 = find_stream s"
    using assms open_cong(3) [of s1 s] by (simp_all add: s1_def)
  show ?thesis
  proof (cases "find_stream s (callback_stream_id cb)")
    case None
    then show ?thesis using s1 by (simp add: callback_http2_def s1_def)
  next
    case (Some slot)
    then have less: "slot < stream_count s1" using find_stream_Some [OF Some] by (simp add: s1_def)
    define s2 where "s2 = activate_http2 s1 slot"
    have s2: "well_formed s2" "slot < stream_count s2"
      using activate_well [OF s1 less] less by (simp_all add: s2_def)
    define s3 where "s3 = (case callback_function cb of None \<Rightarrow> s2 | Some f \<Rightarrow> deliver driver (On_written f) s2)"
    have s3: "well_formed s3" "slot < stream_count s3"
      using s2 deliver_well [OF s2(1)] keeps_count [OF deliver_keeps [OF s2(1)] s2(2)]
      by (auto simp: s3_def split: option.splits)
    define s4 where "s4 = update_stream slot (\<lambda>stream. stream\<lparr>stream_handler := current_handler s3\<rparr>) s3"
    have s4: "well_formed s4" "slot < stream_count s4"
      unfolding s4_def using s3 by (auto intro!: update_stream_well simp: stream_ok_def)
    have "callback_http2 driver cb s =
        (if complete (streams s4 ! slot) \<and> pending (streams s4 ! slot) = [] then close_stream driver s4 slot else s4)"
      unfolding callback_http2_def Let_def Some option.case s1_def [symmetric] s2_def [symmetric] s3_def [symmetric]
        s4_def [symmetric] ..
    then show ?thesis using s4 close_stream_well(1) by simp
  qed
qed

lemma complete_write_well:
  assumes "well_formed s"
  shows "well_formed (complete_write driver s)"
proof (cases "write_queue s")
  case (Cons e rest)
  obtain data c where e: "e = (data, c)" by fastforce
  define s1 where "s1 = s\<lparr>write_queue := rest\<rparr>"
  note queue = well_formed_parts(7) [OF assms, unfolded Cons e]
  have plain: "well_formed s1" if "c = No_callback \<or> c = Close_callback"
    using well_formed_queue [OF assms, of "callbacks s" rest] queue that by (auto simp: s1_def)
  have "well_formed (close_connection s1)" if "c = Close_callback"
    using plain that well_formed_core [of s1 "close_connection s1"] by (simp add: same_core_def close_connection_def)
  moreover have "well_formed (callback_http2 driver cb s1)" if "c = Stream_callback cb" for cb
  proof (rule callback_well)
    have "mset (remove1 cb (callbacks s)) = outstanding rest"
      using queue that by simp
    then show "well_formed (s1\<lparr>callbacks := remove1 cb (callbacks s1)\<rparr>)"
      using well_formed_queue [OF assms, of "remove1 cb (callbacks s)" rest] by (simp add: s1_def)
  qed
  ultimately show ?thesis
    using plain by (cases c) (simp_all add: complete_write_def Cons e s1_def)
qed (use assms in \<open>simp add: complete_write_def\<close>)

end

section \<open>Properties of the flow control\<close>

text \<open>A session whose first stream holds three bytes that close its message.\<close>

definition loaded :: http2_session where
  "loaded = update_stream 0 (\<lambda>stream. stream\<lparr>pending :=
     [\<lparr>pending_data = [1, 2, 3], pending_offset = 0, pending_last = True, pending_callback = None\<rparr>]\<rparr>) two_streams"

lemma loaded_simps [simp]:
  "well_formed loaded" "stream_count loaded = 2" "remote loaded = create_settings_http2"
  "pending (streams loaded ! 0) = [\<lparr>pending_data = [1, 2, 3], pending_offset = 0, pending_last = True, pending_callback = None\<rparr>]"
  "stream_send_window (streams loaded ! 0) = 65535" "send_window loaded = 65535"
proof -
  have ok: "streams_ok two_streams" using well_formed_parts(1) by simp
  show "well_formed loaded"
    unfolding loaded_def by (rule update_stream_well) (simp_all add: stream_ok_def fragment_ok_def)
  show "pending (streams loaded ! 0) = [\<lparr>pending_data = [1, 2, 3], pending_offset = 0, pending_last = True, pending_callback = None\<rparr>]"
    "stream_send_window (streams loaded ! 0) = 65535"
    using ok by (simp_all add: loaded_def new_stream_def create_settings_http2_def)
qed (simp_all add: loaded_def)

lemma loaded_deps [simp]: "deps loaded = {}"
proof -
  have "keeps two_streams loaded"
    unfolding loaded_def by (rule update_stream_keeps) (simp_all add: stream_kept_def well_formed_parts(1))
  then show ?thesis using deps_keeps [of two_streams loaded] by simp
qed

text \<open>C8: what the flushing of a stream writes is a sequence of DATA frames of that stream, none of them
  larger than the frame the peer accepts, that together carry exactly what the stream stops holding back:
  the bytes in their order, none lost and none twice, with END_STREAM precisely on the frame that carries
  the end of the message. Both windows go down by the size of the payload written and neither is driven
  below zero.\<close>

theorem flush_in_order:
  assumes "well_formed s" and "slot < stream_count s"
  shows "\<exists>chunks. let s' = flush_stream slot s; sid = stream_id (streams s ! slot) in
     wire s' = wire s @ concat (map (data_frame sid) chunks)
     \<and> unsent (pending (streams s ! slot)) =
         concat (map (\<lambda>chunk. marked (fst chunk) (snd chunk)) chunks) @ unsent (pending (streams s' ! slot))
     \<and> list_all (\<lambda>chunk. length (fst chunk) \<le> max_frame_size (remote s)) chunks
     \<and> send_window s' = send_window s - int (chunks_size chunks)
     \<and> stream_send_window (streams s' ! slot) = stream_send_window (streams s ! slot) - int (chunks_size chunks)
     \<and> min 0 (open_window s slot) \<le> open_window s' slot"
  using flush_stream_ok [OF assms] by (auto simp: flushed_def Let_def)

theorem flush_in_order_witness:
  "\<exists>chunks. let s' = flush_stream 0 loaded; sid = stream_id (streams loaded ! 0) in
     wire s' = wire loaded @ concat (map (data_frame sid) chunks)
     \<and> unsent (pending (streams loaded ! 0)) =
         concat (map (\<lambda>chunk. marked (fst chunk) (snd chunk)) chunks) @ unsent (pending (streams s' ! 0))
     \<and> list_all (\<lambda>chunk. length (fst chunk) \<le> max_frame_size (remote loaded)) chunks
     \<and> send_window s' = send_window loaded - int (chunks_size chunks)
     \<and> stream_send_window (streams s' ! 0) = stream_send_window (streams loaded ! 0) - int (chunks_size chunks)
     \<and> min 0 (open_window loaded 0) \<le> open_window s' 0"
  by (rule flush_in_order) simp_all

text \<open>C9: the flushing of a stream ends, and it ends for one of two reasons only: the stream holds nothing
  any more, or one of the windows is closed. The number of bytes and of fragments that are held bounds its
  turns, so that more of them would change nothing.\<close>

theorem flush_ends:
  assumes "well_formed s" and "slot < stream_count s"
  shows "(pending (streams (flush_stream slot s) ! slot) = [] \<or> open_window (flush_stream slot s) slot \<le> 0)
    \<and> flush_loop slot (flush_fuel (pending (streams s ! slot)) + extra) s = flush_stream slot s"
  using flush_stream_ok [OF assms] flush_loop_fixed [of slot "flush_stream slot s"]
  by (simp add: flush_loop_add flush_step_None flush_stream_def)

theorem flush_ends_witness:
  "(pending (streams (flush_stream 0 loaded) ! 0) = [] \<or> open_window (flush_stream 0 loaded) 0 \<le> 0)
    \<and> flush_loop 0 (flush_fuel (pending (streams loaded ! 0)) + 100) loaded = flush_stream 0 loaded"
  by (rule flush_ends) simp_all

lemma frame_not_empty: "data_frame sid chunk \<noteq> []"
  by (simp add: data_frame_def frame_header_def)

text \<open>The first turn writes a frame, and what is written is never taken back.\<close>

lemma flush_loop_grows:
  "well_formed s \<Longrightarrow> slot < stream_count s \<Longrightarrow> length (wire s) \<le> length (wire (flush_loop slot n s))"
proof (induction n arbitrary: s)
  case (Suc n)
  show ?case
  proof (cases "flush_step slot s")
    case (Some s')
    note step = flush_step_ok [OF Suc.prems Some]
    then have "length (wire s) \<le> length (wire s')" by (auto simp: flushed_chunk_def)
    moreover have "slot < stream_count s'" using step keeps_count [of s s' slot] Suc.prems(2) by blast
    ultimately show ?thesis using Suc.IH [of s'] step Some by simp
  qed simp
qed simp

lemma flush_writes:
  assumes "well_formed s" and "slot < stream_count s" and "pending (streams s ! slot) \<noteq> []" and "0 < open_window s slot"
  shows "length (wire s) < length (wire (flush_stream slot s))"
proof -
  obtain s' where s': "flush_step slot s = Some s'"
    using flush_step_None [of slot s] assms(3,4) by auto
  note step = flush_step_ok [OF assms(1,2) s']
  then obtain chunk where "flushed_chunk slot s chunk s'" by blast
  then have "length (wire s) < length (wire s')"
    using frame_not_empty [of "stream_id (streams s ! slot)" chunk] by (simp add: flushed_chunk_def)
  moreover have "slot < stream_count s'" using step keeps_count [of s s' slot] assms(2) by blast
  moreover obtain n where n: "flush_fuel (pending (streams s ! slot)) = Suc n"
    using assms(3) by (cases "pending (streams s ! slot)") (auto simp: flush_fuel_def)
  ultimately show ?thesis
    using flush_loop_grows [of s' slot n] step s' by (simp add: flush_stream_def n)
qed

lemma schedule_grows: "well_formed s \<Longrightarrow> length (wire s) \<le> length (wire (schedule_rounds n s))"
proof (induction n arbitrary: s)
  case (Suc n)
  show ?case
  proof (cases "choose_stream s [0..<stream_count s] None")
    case (Some slot)
    then have less: "slot < stream_count s" using choose_stream_Some [OF Some] by simp
    have "length (wire s) \<le> length (wire (flush_stream slot s))"
      unfolding flush_stream_def by (rule flush_loop_grows [OF Suc.prems less])
    then show ?thesis
      using Suc.IH [of "flush_stream slot s"] flush_stream_ok [OF Suc.prems less] Some
      by (auto simp: Let_def)
  qed simp
qed simp

text \<open>C10: the scheduling makes progress: in a tree without cycles, when the window of the connection is open
  and any stream holds something and has a window of its own, a stream is chosen that holds something
  and has a window of its own, and above which no path of dependencies leads to another that has both;
  flushing it writes at least one frame, which the rest of the scheduling leaves on the wire.\<close>

theorem schedule_progress:
  assumes "well_formed s" and "acyclic (deps s)" and "slot < stream_count s"
    and "pending (streams s ! slot) \<noteq> []" and "0 < stream_send_window (streams s ! slot)" and "0 < send_window s"
  shows "\<exists>c < stream_count s. choose_stream s [0..<stream_count s] None = Some c
    \<and> pending (streams s ! c) \<noteq> [] \<and> 0 < stream_send_window (streams s ! c)
    \<and> \<not> (\<exists>i < stream_count s. pending (streams s ! i) \<noteq> [] \<and> 0 < stream_send_window (streams s ! i)
          \<and> (dep s c, ids s i) \<in> (deps s)\<^sup>*)
    \<and> length (wire s) < length (wire (flush_stream c s)) \<and> length (wire (flush_stream c s)) \<le> length (wire (schedule s))"
proof -
  obtain j where j: "j < stream_count s" "writing s j" "\<not> blocked s j"
    using unblocked_exists [OF assms(1-3)] assms(4,5) by (auto simp: writing_def)
  then have "list_ex (able_to_write s) [0..<stream_count s]"
    by (auto simp: list_ex_iff able_to_write_def writing_def)
  then obtain c where c: "choose_stream s [0..<stream_count s] None = Some c"
    using choose_stream_None [of s "[0..<stream_count s]" None] by auto
  then have able: "c < stream_count s" "able_to_write s c"
    using choose_stream_Some [OF c] by auto
  have free: "\<not> (\<exists>i < stream_count s. writing s i \<and> (dep s c, ids s i) \<in> (deps s)\<^sup>*)"
    using able(2) blocked_iff [OF well_formed_parts(1) [OF assms(1)] order_refl]
    by (simp add: able_to_write_def blocked_def dep_def)
  define s' where "s' = flush_stream c s"
  have "length (wire s) < length (wire s')"
    unfolding s'_def by (rule flush_writes [OF assms(1) able(1)])
      (use able(2) assms(6) in \<open>simp_all add: able_to_write_def open_window_def\<close>)
  moreover have "well_formed s'" using flush_stream_ok [OF assms(1) able(1)] by (simp add: s'_def)
  moreover have "schedule s = (if length (pending (streams s' ! c)) = length (pending (streams s ! c)) then s'
      else schedule_rounds 127 s')"
    unfolding schedule_def HTTP2_STREAM_SLOTS_def HTTP2_MAX_CONCURRENT_def
    by (simp only: s'_def c schedule_rounds.simps(2) [of 127, simplified] option.case Let_def)
  ultimately have "length (wire s) < length (wire s')" "length (wire s') \<le> length (wire (schedule s))"
    using schedule_grows [of s' 127] by simp_all
  then show ?thesis
    using c able free unfolding s'_def able_to_write_def writing_def by blast
qed

theorem schedule_progress_witness:
  "\<exists>c < stream_count loaded. choose_stream loaded [0..<stream_count loaded] None = Some c
    \<and> pending (streams loaded ! c) \<noteq> [] \<and> 0 < stream_send_window (streams loaded ! c)
    \<and> \<not> (\<exists>i < stream_count loaded. pending (streams loaded ! i) \<noteq> [] \<and> 0 < stream_send_window (streams loaded ! i)
          \<and> (dep loaded c, ids loaded i) \<in> (deps loaded)\<^sup>*)
    \<and> length (wire loaded) < length (wire (flush_stream c loaded))
    \<and> length (wire (flush_stream c loaded)) \<le> length (wire (schedule loaded))"
  by (rule schedule_progress [where slot = 0]) (simp_all add: acyclic_def)

text \<open>The stream that a round chooses is the heaviest of the ones able to write.\<close>

lemma choose_stream_mono:
  "choose_stream s slots (Some d) = Some c \<Longrightarrow>
     weight (stream_priority (streams s ! d)) \<le> weight (stream_priority (streams s ! c))"
proof (induction slots arbitrary: d)
  case (Cons slot slots)
  then show ?case
    using Cons.IH [of d] Cons.IH [of slot] by (force split: if_splits)
qed simp

lemma choose_stream_heaviest:
  "choose_stream s slots chosen = Some c \<Longrightarrow> j \<in> set slots \<Longrightarrow> able_to_write s j \<Longrightarrow>
     weight (stream_priority (streams s ! j)) \<le> weight (stream_priority (streams s ! c))"
proof (induction slots arbitrary: chosen)
  case (Cons slot slots)
  show ?case
  proof (cases "j = slot")
    case True
    then show ?thesis
      using Cons.prems choose_stream_mono [of s slots slot c] choose_stream_mono [of s slots _ c]
      by (auto split: option.splits if_splits) (meson le_trans linorder_not_less)
  next
    case False
    then show ?thesis
      using Cons.IH Cons.prems by (auto split: option.splits if_splits)
  qed
qed simp

text \<open>C11: when the scheduling writes anything at all it starts with a stream that is able to write (it holds
  something, its window is open and no stream above it in the tree waits to write), and no other stream able
  to write is heavier than it; when no stream is able to write the session is left as it is.\<close>

theorem schedule_order:
  "case choose_stream s [0..<stream_count s] None of
      None \<Rightarrow> schedule s = s \<and> \<not> list_ex (able_to_write s) [0..<stream_count s]
    | Some c \<Rightarrow> schedule s \<in> {flush_stream c s, schedule_rounds 127 (flush_stream c s)}
        \<and> c < stream_count s \<and> able_to_write s c
        \<and> list_all (\<lambda>j. if able_to_write s j
              then weight (stream_priority (streams s ! j)) \<le> weight (stream_priority (streams s ! c)) else True)
            [0..<stream_count s]"
proof (cases "choose_stream s [0..<stream_count s] None")
  case None
  then have "schedule_rounds n s = s" for n by (cases n) simp_all
  then show ?thesis
    using None choose_stream_None [of s "[0..<stream_count s]" None] by (simp add: schedule_def)
next
  case (Some c)
  have "schedule s \<in> {flush_stream c s, schedule_rounds 127 (flush_stream c s)}"
    unfolding schedule_def HTTP2_STREAM_SLOTS_def HTTP2_MAX_CONCURRENT_def
    by (simp only: Some schedule_rounds.simps(2) [of 127, simplified] option.case Let_def) simp
  then show ?thesis
    using Some choose_stream_Some [OF Some] choose_stream_heaviest [OF Some] by (simp add: list_all_iff)
qed

text \<open>A change of the initial window that the peer makes is carried over to every open stream: when the
  settings are applied, the window of each stream moves by the very difference, so that what the stream has
  spent of its window is unchanged, none goes beyond 2 ^ 31 - 1, and the streams are otherwise as they were.\<close>

theorem settings_carry:
  assumes "well_formed s" and "apply_settings s data = (None, s')" and "slot < stream_count s"
  shows "stream_send_window (streams s' ! slot) - int (initial_window_size (remote s'))
      = stream_send_window (streams s ! slot) - int (initial_window_size (remote s))
    \<and> stream_send_window (streams s' ! slot) \<le> int HTTP2_MAX_WINDOW_SIZE
    \<and> stream_kept (streams s ! slot) (streams s' ! slot) \<and> stream_count s' = stream_count s
    \<and> remote s' = snd (decode_settings_http2 data (remote s)) \<and> send_window s' = send_window s"
proof -
  note ok = well_formed_parts(1) [OF assms(1)]
  obtain r settings where dec: "decode_settings_http2 data (remote s) = (r, settings)" by fastforce
  define s1 where "s1 = s\<lparr>remote := settings\<rparr>"
  define d where "d = int (initial_window_size settings) - int (initial_window_size (remote s))"
  define shifted where "shifted = (if d \<noteq> 0 then shift_windows d (take (stream_count s1) (streams s1))
      else (None, take (stream_count s1) (streams s1)))"
  define s2 where "s2 = s1\<lparr>streams := snd shifted @ drop (stream_count s1) (streams s1)\<rparr>"
  have none: "r = None" "fst shifted = None" and s': "streams s' = streams s2" "remote s' = settings"
      "stream_count s' = stream_count s" "send_window s' = send_window s" "last_stream_id s' = last_stream_id s"
      "push_stream_id s' = push_stream_id s"
    using assms(2) unfolding apply_settings_def dec Let_def prod.case s2_def shifted_def d_def s1_def
    by (auto split: option.splits prod.splits if_splits)
  have "snd shifted = map (shift_window d) (take (stream_count s) (streams s))"
  proof (cases "d = 0")
    case True
    then show ?thesis by (simp add: shifted_def s1_def shift_window_def map_idI)
  next
    case False
    have "list_all (\<lambda>stream. stream_send_window stream + d \<le> int HTTP2_MAX_WINDOW_SIZE) (open_streams s)"
    proof (cases "d > 0")
      case True
      then show ?thesis
        using none(2) False shift_windows_Some [OF True, of "open_streams s"] by (auto simp: shifted_def s1_def open_streams_def)
    next
      case below: False
      then show ?thesis
        using ok unfolding list_all_iff streams_ok_def by (fastforce simp: stream_ok_def)
    qed
    then show ?thesis
      using False shift_windows_None by (simp add: shifted_def s1_def open_streams_def)
  qed
  then have nth: "streams s' ! slot = shift_window d (streams s ! slot)"
    using s'(1) assms(3) streams_ok_length [OF ok assms(3)] by (auto simp: s2_def s1_def nth_append)
  have "well_formed s'" using apply_settings_well [OF assms(1), of data] assms(2) by simp
  then have "stream_ok (last_stream_id s') (push_stream_id s') (streams s' ! slot)"
    using stream_ok_nth well_formed_parts(1) assms(3) s'(3) by simp
  then show ?thesis
    using nth s' dec by (auto simp: shift_window_def d_def stream_kept_def stream_ok_def)
qed

theorem settings_carry_witness:
  "stream_send_window (streams (snd (apply_settings two_streams [])) ! 1)
      - int (initial_window_size (remote (snd (apply_settings two_streams []))))
      = stream_send_window (streams two_streams ! 1) - int (initial_window_size (remote two_streams))
    \<and> stream_send_window (streams (snd (apply_settings two_streams [])) ! 1) \<le> int HTTP2_MAX_WINDOW_SIZE
    \<and> stream_kept (streams two_streams ! 1) (streams (snd (apply_settings two_streams [])) ! 1)
    \<and> stream_count (snd (apply_settings two_streams [])) = stream_count two_streams
    \<and> remote (snd (apply_settings two_streams [])) = snd (decode_settings_http2 [] (remote two_streams))
    \<and> send_window (snd (apply_settings two_streams [])) = send_window two_streams"
proof (rule settings_carry)
  have "fst (apply_settings two_streams []) = None"
    by (simp add: apply_settings_def decode_settings_http2_def Let_def create_settings_http2_def HPACK_TABLE_SIZE_def)
  then show "apply_settings two_streams [] = (None, snd (apply_settings two_streams []))"
    by (metis prod.collapse)
qed simp_all

text \<open>The scheduling stops as soon as the stream it has chosen keeps its last fragment, even when others are
  able to write: a stream whose window is smaller than its fragment ends the rounds.\<close>

lemma schedule_starves:
  assumes "well_formed s" and "choose_stream s [0..<stream_count s] None = Some c"
    and "pending (streams s ! c) = [f]" and "stream_send_window (streams s ! c) < int (length (fragment_rest f))"
    and "i \<noteq> c"
  shows "schedule s = flush_stream c s" and "streams (schedule s) ! i = streams s ! i"
proof -
  have c: "c < stream_count s" "able_to_write s c" using choose_stream_Some [OF assms(2)] by simp_all
  define s' where "s' = flush_stream c s"
  obtain chunks where chunks: "flushed c s chunks s'"
    using flush_stream_ok [OF assms(1) c(1)] by (auto simp: s'_def)
  have same: "stream_same c s s'" and shrink: "length (pending (streams s' ! c)) \<le> 1"
    using flush_stream_ok [OF assms(1) c(1)] assms(3) by (simp_all add: s'_def)
  have "pending (streams s' ! c) \<noteq> []"
  proof
    assume none: "pending (streams s' ! c) = []"
    have "length (filter (\<lambda>x. x \<noteq> None) (concat (map (\<lambda>chunk. marked (fst chunk) (snd chunk)) cs))) = chunks_size cs" for cs
      by (induction cs) (simp_all add: chunks_size_def marked_def filter_map comp_def)
    moreover have "length (filter (\<lambda>x. x \<noteq> None) (unsent [f])) = length (fragment_rest f)"
      by (simp add: marked_def filter_map comp_def)
    ultimately have "chunks_size chunks = length (fragment_rest f)"
      using chunks none assms(3) by (simp add: flushed_def)
    then show False
      using chunks assms(4) c(2) by (auto simp: flushed_def open_window_def able_to_write_def)
  qed
  then have "length (pending (streams s' ! c)) = length (pending (streams s ! c))"
    using shrink assms(3) by (cases "pending (streams s' ! c)") auto
  then show eq: "schedule s = flush_stream c s"
    unfolding schedule_def HTTP2_STREAM_SLOTS_def HTTP2_MAX_CONCURRENT_def
    by (simp only: s'_def assms(2) schedule_rounds.simps(2) [of 127, simplified] option.case Let_def simp_thms if_True)
  show "streams (schedule s) ! i = streams s ! i"
    using same assms(5) by (simp add: eq stream_same_def s'_def)
qed

end
