(* ===== verification/Http2_Handler.thy ===== *)
theory Http2_Handler
  imports Http2_Input Http2_Flow
begin

text \<open>
  The session together with the handlers it drives. Inside the contract of \<open>handler\<close> every operation
  that reads what arrives (\<open>Http2_Block\<close>, \<open>Http2_Input\<close>) keeps the invariant of the session. The
  contract is then discharged for the handlers of the code: a handler is a script that answers every
  event with operations of the session itself (the responses of \<^verbatim>\<open>write_status_http2\<close> and the
  others, the payload of \<^verbatim>\<open>write_chunk_http2\<close>, the promises of
  \<^verbatim>\<open>push_stream_http2_connection\<close>, which drive the handler again), so that the theorems hold for
  every script and every sequence of bytes.
\<close>

section \<open>A stream that stays open along an operation\<close>

definition serving :: "nat \<Rightarrow> http2_session \<Rightarrow> bool" where
  "serving slot s \<longleftrightarrow> well_formed s \<and> slot < stream_count s"

definition evolves :: "http2_session \<Rightarrow> http2_session \<Rightarrow> bool" where
  "evolves s s' \<longleftrightarrow> well_formed s' \<and> keeps s s'"

lemma evolves_trans: "evolves s s' \<Longrightarrow> evolves s' s'' \<Longrightarrow> evolves s s''"
  by (auto simp: evolves_def intro: keeps_trans)

lemma evolves_serving: "evolves s s' \<Longrightarrow> slot < stream_count s \<Longrightarrow> serving slot s'"
  unfolding evolves_def serving_def using keeps_count by blast

lemma serving_update:
  assumes "serving slot s" and "stream_id (f (streams s ! slot)) = stream_id (streams s ! slot)"
    and "stream_ok (last_stream_id s) (push_stream_id s) (streams s ! slot) \<Longrightarrow>
      stream_ok (last_stream_id s) (push_stream_id s) (f (streams s ! slot))"
  shows "serving slot (update_stream slot f s)"
  using assms update_stream_well by (auto simp: serving_def)

lemma serving_activate: "serving slot s \<Longrightarrow> serving slot (activate_http2 s slot)"
  using activate_well by (simp add: serving_def)

lemma serving_decoder: "serving slot s \<Longrightarrow> block_ok t \<Longrightarrow> serving slot (s\<lparr>decoder := t\<rparr>)"
  by (simp add: serving_def well_formed_def streams_ok_def open_ids_def open_streams_def block_size_def)

lemma serving_request:
  assumes "serving slot s"
    and "length (request_path (f (stream_request (streams s ! slot)))) < VIRIATUM_MAX_URL_SIZE"
    and "length (request_authority (f (stream_request (streams s ! slot)))) < VIRIATUM_MAX_PATH_SIZE"
  shows "serving slot (update_request slot f s)"
  unfolding update_request_def by (rule serving_update) (use assms in \<open>simp_all add: stream_ok_def\<close>)

lemma serving_stream_ok: "serving slot s \<Longrightarrow> stream_ok (last_stream_id s) (push_stream_id s) (streams s ! slot)"
  using stream_ok_nth well_formed_parts(1) by (simp add: serving_def)

lemma append_path_length:
  "length (request_path request) < VIRIATUM_MAX_URL_SIZE \<Longrightarrow>
     length (request_path (append_path_http_request request data)) < VIRIATUM_MAX_URL_SIZE"
  by (auto simp: append_path_http_request_def Let_def)

lemma append_path_authority [simp]:
  "request_authority (append_path_http_request request data) = request_authority request"
  by (simp add: append_path_http_request_def Let_def)

section \<open>Header blocks\<close>

lemma header_pseudo_ok:
  assumes "serving (block_slot b) s"
  shows "serving (block_slot b) (fst (snd (header_pseudo (s, b) h))) \<and>
    block_slot (snd (snd (header_pseudo (s, b) h))) = block_slot b"
proof -
  define slot where "slot = block_slot b"
  have bounds: "length (request_path (stream_request (streams s ! slot))) < VIRIATUM_MAX_URL_SIZE"
    "length (request_authority (stream_request (streams s ! slot))) < VIRIATUM_MAX_PATH_SIZE"
    using serving_stream_ok [OF assms] by (simp_all add: stream_ok_def slot_def)
  have req: "serving slot (update_request slot (\<lambda>r. r\<lparr>request_method := m\<rparr>) s)"
    "serving slot (update_request slot (\<lambda>r. r\<lparr>request_scheme := c\<rparr>) s)"
    "serving slot (update_request slot (\<lambda>r. append_path_http_request r v) s)"
    "length a < VIRIATUM_MAX_PATH_SIZE \<Longrightarrow> serving slot (update_request slot (\<lambda>r. r\<lparr>request_authority := a\<rparr>) s)" for m c v a
    using assms bounds append_path_length by (auto intro!: serving_request simp: slot_def)
  show ?thesis
    using assms req unfolding header_pseudo_def prod.case Let_def slot_def [symmetric]
    by (auto simp: slot_def)
qed

context handler
begin

lemma serving_deliver: "serving slot s \<Longrightarrow> serving slot (deliver driver e s)"
  unfolding serving_def using deliver_well deliver_keeps keeps_count by blast

lemma evolves_deliver: "evolves s s' \<Longrightarrow> evolves s (deliver driver e s')"
  unfolding evolves_def using deliver_well deliver_keeps keeps_trans by blast

lemma set_handler_evolves:
  assumes "well_formed s" and "slot < stream_count s"
  shows "evolves s (set_handler driver slot s)"
proof -
  define s1 where "s1 = update_stream slot (\<lambda>stream. stream\<lparr>stream_handler := Some (base_handler s)\<rparr>) s"
  have s1: "evolves s s1"
    using update_kept [OF assms, of "\<lambda>stream. stream\<lparr>stream_handler := Some (base_handler s)\<rparr>"]
    by (simp add: evolves_def s1_def stream_kept_def)
  have less: "slot < stream_count s1" using assms(2) by (simp add: s1_def)
  define s2 where "s2 = deliver driver Handler_set (activate_http2 s1 slot)"
  have s2: "evolves s s2"
    using s1 activate_well [of s1 slot] less keeps_trans [OF _ activate_keeps] assms(2)
    unfolding s2_def by (intro evolves_deliver) (auto simp: evolves_def)
  then have "well_formed s2" "slot < stream_count s2"
    using evolves_serving [OF s2 assms(2)] by (simp_all add: serving_def)
  then have "evolves s2 (update_stream slot (\<lambda>stream. stream\<lparr>stream_handler := current_handler s2\<rparr>) s2)"
    using update_kept [of s2 slot "\<lambda>stream. stream\<lparr>stream_handler := current_handler s2\<rparr>"]
    by (simp add: evolves_def stream_kept_def)
  then show ?thesis
    using evolves_trans [OF s2] by (simp add: set_handler_def Let_def s1_def s2_def)
qed

lemma pseudo_ok:
  assumes "serving (block_slot b) s"
  shows "serving (block_slot b) (fst (snd (pseudo_http2 driver (s, b)))) \<and>
    block_slot (snd (snd (pseudo_http2 driver (s, b)))) = block_slot b"
  using assms by (simp add: pseudo_http2_def Let_def serving_deliver)

lemma header_regular_ok:
  assumes "serving (block_slot b) s"
  shows "serving (block_slot b) (fst (snd (header_regular driver (s, b) h))) \<and>
    block_slot (snd (snd (header_regular driver (s, b) h))) = block_slot b"
proof -
  have "serving (block_slot b) (update_stream (block_slot b) (\<lambda>stream. stream\<lparr>content_length := n, announced := True\<rparr>) s)"
    "serving (block_slot b) (update_stream (block_slot b) (\<lambda>stream. stream\<lparr>content_length := n, announced := announced stream\<rparr>) s)" for n
    using assms by (auto intro!: serving_update simp: stream_ok_def)
  then show ?thesis
    using assms by (auto simp: header_regular_def Let_def serving_deliver split: option.splits prod.splits)
qed

lemma header_ok:
  assumes "serving slot (fst p)" and "block_slot (snd p) = slot"
  shows "serving slot (fst (snd (header_http2 driver p h))) \<and> block_slot (snd (snd (header_http2 driver p h))) = slot"
proof -
  obtain s b where p: "p = (s, b)" by fastforce
  obtain r s1 b1 where q: "(if \<not> block_regular b then pseudo_http2 driver (s, b) else (None, s, b)) = (r, s1, b1)"
    using prod_cases3 by blast
  have s1: "serving slot s1" "block_slot b1 = slot"
    using pseudo_ok [of b s] assms q by (auto simp: p split: if_splits)
  show ?thesis
    using header_pseudo_ok [of b s h] header_regular_ok [of "b1\<lparr>block_regular := True\<rparr>" s1 h] assms s1 q
    by (auto simp: header_http2_def p split: option.splits)
qed

lemma block_serving:
  assumes "serving slot s"
  shows "serving slot (snd (block_http2 driver s slot data))"
proof -
  define b where "b = \<lparr>block_slot = slot, block_regular = False, block_flushed = False, block_pseudo = 0,
      block_trailers = headers_complete (streams s ! slot)\<rparr>"
  define s1 where "s1 = (if stream_handler (streams s ! slot) = None then set_handler driver slot s else s)"
  have "serving slot s1"
    using assms evolves_serving [OF set_handler_evolves, of s slot slot] by (auto simp: s1_def serving_def)
  define s3 where "s3 = (if \<not> block_trailers b then deliver driver On_message_begin (activate_http2 s1 slot)
      else activate_http2 s1 slot)"
  have s3: "serving slot s3"
    using \<open>serving slot s1\<close> by (simp add: s3_def serving_deliver serving_activate)
  obtain r t s4 b4 where dec: "decode_hpack (decoder s3) data (header_http2 driver) (s3, b) = (r, t, s4, b4)"
    using prod_cases4 by blast
  have step: "serving slot (fst (snd (header_http2 driver q h))) \<and> block_slot (snd (snd (header_http2 driver q h))) = slot"
    if "serving slot (fst q) \<and> block_slot (snd q) = slot" for q h
    using header_ok [of slot q h] that by blast
  have "block_ok (decoder s3)" "serving slot (fst (s3, b)) \<and> block_slot (snd (s3, b)) = slot"
    using s3 well_formed_parts(4) [of s3] by (simp_all add: b_def serving_def)
  note inv' = decode_hpack_invariant [where P = "\<lambda>q. serving slot (fst q) \<and> block_slot (snd q) = slot",
      OF this _ dec, unfolded fst_conv snd_conv]
  have inv: "block_ok t" "serving slot s4 \<and> block_slot b4 = slot"
    using inv' step by blast+
  define s5 where "s5 = s4\<lparr>decoder := t\<rparr>"
  have s5: "serving slot s5" using inv serving_decoder by (simp add: s5_def)
  obtain r6 s6 b6 where pseudo: "pseudo_http2 driver (s5, b4) = (r6, s6, b6)"
    using prod_cases3 by blast
  have s6: "serving slot s6" using pseudo_ok [of b4 s5] s5 inv(2) pseudo by simp
  define s7 where "s7 = (if \<not> block_trailers b then deliver driver On_headers_complete
      (update_stream slot (\<lambda>stream. stream\<lparr>headers_complete := True\<rparr>) s6) else s6)"
  have s7: "serving slot s7"
    using s6 by (auto simp: s7_def stream_ok_def intro!: serving_deliver serving_update)
  define s8 where "s8 = update_stream slot (\<lambda>stream. stream\<lparr>stream_handler := current_handler s7\<rparr>) s7"
  have s8: "serving slot s8"
    using s7 by (auto simp: s8_def stream_ok_def intro!: serving_update)
  have "block_http2 driver s slot data =
      (if r \<noteq> None then (Some compression_error, s5)
       else (case r6 of Some e \<Rightarrow> (Some e, s6)
         | None \<Rightarrow> (None, if end_stream (streams s8 ! slot) then deliver driver On_message_complete s8 else s8)))"
    unfolding block_http2_def Let_def b_def [symmetric] s1_def [symmetric] s3_def [symmetric] dec prod.case
      s5_def [symmetric] pseudo s7_def [symmetric] s8_def [symmetric] by (simp split: option.splits)
  then show ?thesis
    using s5 s6 s8 by (auto simp: serving_deliver split: option.splits)
qed

end

section \<open>Promises\<close>

lemma even_step:
  fixes n :: u32
  assumes "n mod 2 = 0" and "n \<le> HTTP2_MAX_STREAM_ID"
  shows "(n + 2) mod 2 = 0" and "n < n + 2"
proof -
  have "unat n \<le> 2147483647" using assms(2) by (simp add: HTTP2_MAX_STREAM_ID_def word_le_nat_alt)
  then have *: "unat (n + 2) = unat n + 2" by (subst unat_add_lem [THEN iffD1]) simp_all
  then show "n < n + 2" by (simp add: word_less_nat_alt)
  have "unat n mod 2 = 0" using arg_cong [OF assms(1), of unat] by (simp only: unat_mod) simp
  then show "(n + 2) mod 2 = 0" using * by (simp add: word_arith_nat_mod)
qed

lemma promised_stream_ok:
  assumes "settings_ok (remote s)" and "initial_window_size (session_settings s) \<le> HTTP2_DEFAULT_WINDOW_SIZE"
    and "sid \<noteq> 0" and "sid mod 2 = 0" and "sid \<le> own"
    and "length (request_authority request) < VIRIATUM_MAX_PATH_SIZE"
  shows "stream_ok peer own (promised_stream s sid parent request path)"
  using assms append_path_length
  by (simp add: stream_ok_def promised_stream_def settings_ok_def even_id_def create_http_request_def)

lemma push_block_session [simp]: "snd (snd (push_block buffer request path s)) = s"
  by (simp add: push_block_def split: prod.splits) (metis encode_field_session snd_conv)

context handler
begin

lemma push_stream_evolves:
  assumes "well_formed s" and "slot < stream_count s" and "push_stream_id s \<le> HTTP2_MAX_STREAM_ID"
  shows "evolves s (snd (push_stream driver s slot path))"
proof (cases "\<not> enable_push (remote s) \<or>
    stream_count s \<ge> max_concurrent_streams (remote s) \<or> stream_count s \<ge> HTTP2_STREAM_SLOTS")
  case True
  then show ?thesis using assms(1) by (auto simp: push_stream_def evolves_def)
next
  case False
  note parts = well_formed_parts [OF assms(1)]
  have less: "stream_count s < HTTP2_STREAM_SLOTS" using False by simp
  define sid where "sid = push_stream_id s + 2"
  have sid: "sid mod 2 = 0" "push_stream_id s < sid"
    using even_step [of "push_stream_id s"] assms(1,3) by (simp_all add: sid_def well_formed_def)
  define s1 where "s1 = s\<lparr>push_stream_id := sid\<rparr>"
  have ids1: "open_ids s1 = open_ids s" by (simp add: s1_def open_ids_def open_streams_def)
  have "streams_ok s1"
    using streams_ok_ids [OF parts(1), of "last_stream_id s" sid] sid(2) by (simp add: s1_def)
  then have s1: "well_formed s1" "keeps s s1"
    using assms(1) ids1 sid(1) by (auto simp: well_formed_def s1_def block_size_def keeps_def session_kept_def)
  define request where "request = stream_request (streams s1 ! slot)"
  define parent where "parent = stream_id (streams s1 ! slot)"
  obtain buffer offset s2 where block: "push_block (fresh (HTTP2_HEADER_SIZE + 4 + VIRIATUM_HTTP_SIZE)) request path s1
      = (buffer, offset, s2)" using prod_cases3 by blast
  then have s2: "s2 = s1" using push_block_session [of _ request path s1] by (metis snd_conv)
  obtain e buffer' where enc: "encode_frame_http2 buffer (length buffer) (offset - HTTP2_HEADER_SIZE) HTTP2_PUSH_PROMISE
      HTTP2_FLAG_END_HEADERS parent = (e, buffer')" by fastforce
  define s3 where "s3 = write_connection (take offset (encode_number_http2 buffer' HTTP2_HEADER_SIZE sid)) No_callback s1"
  have s3: "well_formed s3" "keeps s s3" "streams_ok s3"
    using write_connection_well [OF s1(1)] keeps_trans [OF s1(2)] well_formed_parts(1) by (simp_all add: s3_def)
  define stream where "stream = promised_stream s3 sid parent request path"
  define s4 where "s4 = add_stream stream s3"
  have auth: "length (request_authority request) < VIRIATUM_MAX_PATH_SIZE"
    using stream_ok_nth [OF parts(1) assms(2)] by (simp add: request_def s1_def stream_ok_def)
  have stream: "stream_ok (last_stream_id s3) (push_stream_id s3) stream" "stream_id stream = sid"
    unfolding stream_def using sid auth parts(3,10)
    by (intro promised_stream_ok; auto simp: s3_def s1_def write_connection_def) (simp add: promised_stream_def)
  have less3: "stream_count s3 < HTTP2_STREAM_SLOTS" using less by (simp add: s3_def s1_def)
  have "sid \<notin> set (open_ids s3)"
    using fresh_even [OF parts(1) sid] by (simp add: s3_def s1_def open_ids_def open_streams_def)
  then have added: "streams_ok s4" "open_ids s4 = open_ids s3 @ [sid]"
    using add_stream_ok [OF s3(3) less3 stream(1)] stream(2) by (simp_all add: s4_def)
  have "well_formed s4"
    using s3(1) added by (auto simp: well_formed_def block_size_def s4_def add_stream_def)
  moreover have "keeps s3 s4"
    using add_stream_nth [OF s3(3) less3, of stream]
    by (simp add: keeps_def s4_def) (simp add: add_stream_def session_kept_def)
  ultimately have s4: "evolves s s4" using keeps_trans [OF s3(2)] by (simp add: evolves_def)
  define promised where "promised = stream_count s3"
  have promised: "promised < stream_count s4" by (simp add: promised_def s4_def add_stream_def)
  define s4' where "s4' = set_handler driver promised s4"
  have s4': "evolves s4 s4'" "promised < stream_count s4'"
    using set_handler_evolves [of s4 promised] promised evolves_serving s4 by (auto simp: s4'_def evolves_def serving_def)
  define s5 where "s5 = activate_http2 s4' promised"
  have s5: "evolves s4 s5"
    using s4' activate_well keeps_trans [OF _ activate_keeps] by (auto simp: s5_def evolves_def)
  define s6 where "s6 = deliver driver On_message_begin s5"
  define s7 where "s7 = deliver driver (On_url (request_path (stream_request (streams s6 ! promised)))) s6"
  define s8 where "s8 = deliver driver On_headers_complete s7"
  define s9 where "s9 = deliver driver On_message_complete s8"
  have s9: "evolves s4 s9"
    unfolding s9_def s8_def s7_def s6_def by (intro evolves_deliver s5)
  define s10 where "s10 = update_stream promised (\<lambda>stream. stream\<lparr>stream_handler := current_handler s9\<rparr>) s9"
  have "serving promised s9" using evolves_serving [OF s9 promised] .
  then have "evolves s9 s10"
    using update_kept [of s9 promised "\<lambda>stream. stream\<lparr>stream_handler := current_handler s9\<rparr>"]
    by (simp add: serving_def evolves_def s10_def stream_kept_def)
  then have s10: "evolves s s10" using s4 s9 evolves_trans by blast
  have "serving slot s10" using evolves_serving [OF s10 assms(2)] .
  then have final: "evolves s (activate_http2 s10 slot)"
    using activate_well s10 keeps_trans [OF _ activate_keeps] by (auto simp: serving_def evolves_def)
  have eq: "push_stream driver s slot path =
      (if sid > HTTP2_MAX_STREAM_ID then (None, s1)
       else (case e of Some err \<Rightarrow> (Some err, s2) | None \<Rightarrow> (None, activate_http2 s10 slot)))"
    using False unfolding push_stream_def Let_def sid_def [symmetric] s1_def [symmetric] request_def [symmetric]
      parent_def [symmetric] block prod.case enc s2 s3_def [symmetric] stream_def [symmetric] promised_def [symmetric]
      add_stream_def [symmetric] s4_def [symmetric]
    by (simp add: s10_def s9_def s8_def s7_def s6_def s5_def s4'_def s4_def add_stream_def stream_def promised_def
        split: option.splits)
  show ?thesis
    unfolding eq using s1 final by (auto simp: s2 evolves_def split: option.splits)
qed

end

section \<open>The cases of a frame\<close>

text \<open>A frame that has arrived complete.\<close>

definition frame_ok :: "http2_frame \<Rightarrow> bool" where
  "frame_ok frame \<longleftrightarrow> (case frame_payload frame of None \<Rightarrow> False | Some payload \<Rightarrow> length payload = frame_length frame)"

lemma frame_okD: "frame_ok frame \<Longrightarrow> \<exists>payload. frame_payload frame = Some payload \<and> length payload = frame_length frame"
  by (auto simp: frame_ok_def split: option.splits)

lemma write_value_well: "well_formed s \<Longrightarrow> well_formed (snd (write_value type sid v s))"
  by (simp add: write_value_ok write_connection_well)

lemma serving_write: "serving slot s \<Longrightarrow> serving slot (snd (write_value type sid v s))"
  by (simp add: serving_def write_value_ok write_connection_well)

lemma well_formed_block:
  assumes "well_formed s" and "block_size (s\<lparr>block_data := d\<rparr>) \<le> HTTP2_MAX_BLOCK"
  shows "well_formed (s\<lparr>block_data := d\<rparr>)"
  using assms unfolding well_formed_def streams_ok_def open_ids_def open_streams_def by simp

lemma gather_well:
  assumes "well_formed s"
  shows "well_formed (snd (gather_http2 s data))"
proof (cases "block_size s + length data > HTTP2_MAX_BLOCK")
  case False
  define d where "d = Some ((case block_data s of None \<Rightarrow> [] | Some gathered \<Rightarrow> gathered) @ data)"
  have "block_size (s\<lparr>block_data := d\<rparr>) \<le> HTTP2_MAX_BLOCK"
    using False by (cases "block_data s") (simp_all add: block_size_def d_def)
  then show ?thesis
    using False well_formed_block [OF assms] by (simp add: gather_http2_def d_def)
qed (use assms in \<open>simp add: gather_http2_def\<close>)

lemma gather_count [simp]: "stream_count (snd (gather_http2 s data)) = stream_count s"
  by (simp add: gather_http2_def)

lemma reset_block_well: "well_formed s \<Longrightarrow> well_formed (reset_block s)"
  by (simp add: reset_block_def well_formed_def streams_ok_def open_ids_def open_streams_def block_size_def)

lemma reset_block_count [simp]: "stream_count (reset_block s) = stream_count s"
  by (simp add: reset_block_def)

text \<open>Fields that the invariant does not look at.\<close>

lemma mark_well [simp]:
  "well_formed (s\<lparr>refused := n\<rparr>) = well_formed s"
  "well_formed (s\<lparr>continuation := n, continuation_flags := fl\<rparr>) = well_formed s"
  "well_formed (s\<lparr>goaway := g\<rparr>) = well_formed s"
  "well_formed (close_connection s) = well_formed s"
  by (rule well_formed_core, simp add: same_core_def close_connection_def)+

lemma receive_well:
  assumes "well_formed s" and "w \<le> int HTTP2_DEFAULT_WINDOW_SIZE"
  shows "well_formed (s\<lparr>receive_window := w\<rparr>)"
  using assms unfolding well_formed_def streams_ok_def open_ids_def open_streams_def block_size_def by simp

lemma write_value_receive [simp]:
  "receive_window (snd (write_value type sid v s)) = receive_window s"
  "streams (snd (write_value type sid v s)) = streams s"
  "stream_count (snd (write_value type sid v s)) = stream_count s"
  by (simp_all add: write_value_ok)

lemma gather_fragment_well: "well_formed s \<Longrightarrow> well_formed (snd (gather_fragment s fragment))"
  by (simp add: gather_fragment_def gather_well split: sum.splits)

lemma gather_fragment_count [simp]: "stream_count (snd (gather_fragment s fragment)) = stream_count s"
  by (simp add: gather_fragment_def split: sum.splits)

lemma and_then_well:
  assumes "well_formed (snd result)" and "\<And>s. result = (None, s) \<Longrightarrow> well_formed s \<Longrightarrow> well_formed (snd (rest s))"
  shows "well_formed (snd (and_then result rest))"
  using assms by (cases result) (auto simp: and_then_def split: option.splits)

text \<open>
  What is given back to the windows of the connection and of a stream is what the frame has taken, so
  none grows beyond what it started with.
\<close>

lemma widen_serving:
  assumes "serving slot s" and "receive_window s + int n \<le> int HTTP2_DEFAULT_WINDOW_SIZE"
    and "stream_receive_window (streams s ! slot) + int n \<le> int HTTP2_DEFAULT_WINDOW_SIZE"
  shows "serving slot (widen slot sid n s)"
proof -
  define s1 where "s1 = snd (write_value HTTP2_WINDOW_UPDATE 0 (of_nat n) s)"
  define s2 where "s2 = s1\<lparr>receive_window := receive_window s1 + int n\<rparr>"
  have "serving slot s2"
    using assms(1,2) receive_well [of s1] serving_write [OF assms(1)] by (simp add: s2_def s1_def serving_def)
  then have s3: "serving slot (snd (write_value HTTP2_WINDOW_UPDATE sid (of_nat n) s2))"
    by (rule serving_write)
  have "stream_receive_window (streams (snd (write_value HTTP2_WINDOW_UPDATE sid (of_nat n) s2)) ! slot) + int n
      \<le> int HTTP2_DEFAULT_WINDOW_SIZE"
    using assms(3) by (simp add: s2_def s1_def)
  then show ?thesis
    using assms(1) serving_update [OF s3, of "\<lambda>stream. stream\<lparr>stream_receive_window := stream_receive_window stream + int n\<rparr>"]
    unfolding widen_def Let_def s1_def [symmetric] s2_def [symmetric] by (simp add: stream_ok_def)
qed

lemma discard_block_well: "well_formed s \<Longrightarrow> well_formed (snd (discard_block s))"
proof -
  assume ok: "well_formed s"
  obtain r t u where dec: "decode_hpack (decoder s) (assembled s) discard_http2 () = (r, t, u)"
    using prod_cases3 by blast
  have "block_ok t"
    using decode_hpack_invariant(1) [where P = "\<lambda>_. True", OF _ _ _ dec] well_formed_parts(4) [OF ok] by simp
  then have "well_formed (s\<lparr>decoder := t\<rparr>)"
    using ok by (simp add: well_formed_def streams_ok_def open_ids_def open_streams_def block_size_def)
  then show ?thesis
    by (simp add: discard_block_def dec Let_def reset_block_well)
qed

lemma handle_refused_well: "well_formed s \<Longrightarrow> well_formed (snd (handle_refused s frame))"
  by (auto simp: handle_refused_def Let_def write_value_well gather_fragment_well discard_block_well
      intro!: and_then_well split: sum.splits)

context handler
begin

lemma end_of_data_well:
  assumes "serving slot s"
  shows "well_formed (snd (end_of_data driver slot s))"
proof -
  have "serving slot (update_stream slot (\<lambda>stream. stream\<lparr>end_stream := True, stream_state := HTTP2_STATE_HALF_CLOSED_REMOTE\<rparr>) s)"
    using assms by (intro serving_update) (simp_all add: stream_ok_def)
  from this serving_deliver [OF this] show ?thesis
    by (simp add: end_of_data_def Let_def serving_def)
qed

lemma handle_data_well:
  assumes "well_formed s" and "\<And>slot. found = Some slot \<Longrightarrow> slot < stream_count s"
    and "receive_window s + int (frame_length frame) \<le> int HTTP2_DEFAULT_WINDOW_SIZE"
  shows "well_formed (snd (handle_data driver s frame found))"
proof (cases found)
  case (Some slot)
  then have s: "serving slot s" using assms by (simp add: serving_def)
  then have less: "slot < length (streams s)" using well_formed_parts(8,9) [of s] by (simp add: serving_def)
  define n where "n = int (frame_length frame)"
  define s1 where "s1 = update_stream slot (\<lambda>stream. stream\<lparr>stream_receive_window := stream_receive_window stream - n\<rparr>) s"
  have "serving slot s1"
    unfolding s1_def using s by (intro serving_update) (simp_all add: stream_ok_def n_def)
  moreover have "stream_receive_window (streams s1 ! slot) + n \<le> int HTTP2_DEFAULT_WINDOW_SIZE"
    using serving_stream_ok [OF s] less by (simp add: s1_def stream_ok_def update_stream_def)
  moreover have "receive_window s1 + n \<le> int HTTP2_DEFAULT_WINDOW_SIZE" using assms(3) by (simp add: s1_def n_def)
  ultimately have s1: "serving slot s1 \<and> stream_receive_window (streams s1 ! slot) + n \<le> int HTTP2_DEFAULT_WINDOW_SIZE
      \<and> receive_window s1 + n \<le> int HTTP2_DEFAULT_WINDOW_SIZE" by blast
  define s2 where "s2 payload = update_stream slot (\<lambda>stream. stream\<lparr>received := received stream + of_nat (length payload)\<rparr>) s1"
    for payload :: bytes
  define s4 where "s4 payload = (if payload \<noteq> [] then deliver driver (On_body payload) (activate_http2 (s2 payload) slot)
      else activate_http2 (s2 payload) slot)" for payload
  have s4: "serving slot (widen slot (frame_stream_id frame) (frame_length frame) (s4 payload))" for payload
  proof -
    have s2: "serving slot (s2 payload)"
      unfolding s2_def using s1 by (intro serving_update) (simp_all add: stream_ok_def)
    have *: "receive_window (s2 payload) + n \<le> int HTTP2_DEFAULT_WINDOW_SIZE"
      "stream_receive_window (streams (s2 payload) ! slot) + n \<le> int HTTP2_DEFAULT_WINDOW_SIZE"
      using s1 less by (simp_all add: s2_def s1_def update_stream_def)
    have act: "evolves (s2 payload) (activate_http2 (s2 payload) slot)"
      using s2 serving_activate [OF s2] activate_keeps by (simp add: evolves_def serving_def)
    then have evolves: "evolves (s2 payload) (s4 payload)"
      using evolves_deliver [OF act, of "On_body payload"] by (cases "payload = []") (simp_all add: s4_def)
    then have "receive_window (s4 payload) = receive_window (s2 payload)"
      "stream_receive_window (streams (s4 payload) ! slot) = stream_receive_window (streams (s2 payload) ! slot)"
      using s2 by (auto simp: evolves_def keeps_def session_kept_def stream_kept_def serving_def)
    then show ?thesis
      using widen_serving [OF evolves_serving [OF evolves]] s2 * by (simp add: serving_def n_def)
  qed
  show ?thesis
    unfolding handle_data_def Some option.case Let_def n_def [symmetric] s1_def [symmetric] s2_def [symmetric]
      s4_def [symmetric]
    using s1 s4 end_of_data_well by (auto simp: serving_def split: sum.splits)
qed (use assms(1) in \<open>simp add: handle_data_def\<close>)

lemma handle_block_well: "serving slot s \<Longrightarrow> well_formed (snd (handle_block driver slot s))"
  using block_serving [of slot s "assembled s"]
  by (cases "block_http2 driver s slot (assembled s)") (simp add: handle_block_def serving_def reset_block_well)

lemma headers_priority_serving:
  "serving slot s \<Longrightarrow> serving slot (snd (headers_priority s frame slot payload))"
  using prioritise_stream_well [of s slot] by (auto simp: headers_priority_def serving_def split: sum.splits)

lemma headers_on_stream_well:
  assumes "serving slot s"
  shows "well_formed (snd (headers_on_stream driver s frame slot))"
proof (cases "strip_padding_http2 frame")
  case (Inr payload)
  define fragment where "fragment = block_fragment frame payload"
  obtain r s1 where prio: "headers_priority s frame slot payload = (r, s1)" by fastforce
  then have s1: "serving slot s1" using headers_priority_serving [OF assms, of frame payload] by simp
  define s2 where "s2 = (if frame_flags frame AND HTTP2_FLAG_END_STREAM \<noteq> 0
      then update_stream slot (\<lambda>stream. stream\<lparr>end_stream := True, stream_state := HTTP2_STATE_HALF_CLOSED_REMOTE\<rparr>) s1 else s1)"
  have "serving slot (update_stream slot (\<lambda>stream. stream\<lparr>end_stream := True, stream_state := HTTP2_STATE_HALF_CLOSED_REMOTE\<rparr>) s1)"
    using s1 by (intro serving_update) (simp_all add: stream_ok_def)
  then have s2: "serving slot s2" using s1 by (simp add: s2_def)
  obtain r3 s3 where gather: "gather_fragment s2 fragment = (r3, s3)" by fastforce
  have s3: "serving slot s3"
    using gather_fragment_well [of s2 fragment] gather_fragment_count [of s2 fragment] s2 gather by (simp add: serving_def)
  have "headers_on_stream driver s frame slot =
      (case r of Some e \<Rightarrow> (Some e, s1)
       | None \<Rightarrow> (case r3 of Some e \<Rightarrow> (Some e, s3)
         | None \<Rightarrow> if frame_flags frame AND HTTP2_FLAG_END_HEADERS = 0
             then (None, s3\<lparr>continuation := frame_stream_id frame, continuation_flags := frame_flags frame\<rparr>)
             else handle_block driver slot s3))"
    unfolding headers_on_stream_def Inr sum.case prio and_then_def prod.case s2_def [symmetric] Let_def
      fragment_def [symmetric] gather by (simp split: option.splits)
  then show ?thesis
    using s1 s3 handle_block_well by (auto simp: serving_def split: option.splits)
qed (use assms in \<open>simp add: headers_on_stream_def serving_def\<close>)

lemma handle_headers_well:
  assumes "well_formed s" and "\<And>slot. found = Some slot \<Longrightarrow> slot < stream_count s"
  shows "well_formed (snd (handle_headers driver s frame found))"
proof (cases found)
  case None
  obtain s1 r where open1: "open_stream s (frame_stream_id frame) = (s1, r)" by fastforce
  show ?thesis
  proof (cases r)
    case (Inl e)
    then have "s1 = s" using open_stream_error open1 by blast
    then show ?thesis
      using None open1 Inl assms(1) by (simp add: handle_headers_def handle_refused_well)
  next
    case (Inr slot)
    then have "serving slot s1"
      using open_stream_well [OF assms(1)] open1 by (simp add: serving_def)
    then show ?thesis
      using None open1 Inr headers_on_stream_well by (simp add: handle_headers_def)
  qed
next
  case (Some slot)
  then have s: "serving slot s" using assms by (simp add: serving_def)
  then have "serving slot (update_request slot (\<lambda>r. r\<lparr>request_trailers := True\<rparr>) s)"
    using serving_stream_ok [OF s] by (intro serving_request) (simp_all add: stream_ok_def)
  then show ?thesis
    using Some s assms(1) headers_on_stream_well by (simp add: handle_headers_def)
qed

lemma handle_continuation_well:
  assumes "well_formed s"
  shows "well_formed (snd (handle_continuation driver s frame))"
proof -
  have "well_formed (snd (and_then (gather_http2 s payload)
      (\<lambda>s1. if frame_flags frame AND HTTP2_FLAG_END_HEADERS = 0 then (None, s1)
         else if refused s1 = continuation s1 then discard_block s1
         else (case find_stream s1 (continuation s1) of
                 None \<Rightarrow> (Some protocol_error, s1)
               | Some slot \<Rightarrow> handle_block driver slot s1))))" for payload
  proof (rule and_then_well)
    show "well_formed (snd (if frame_flags frame AND HTTP2_FLAG_END_HEADERS = 0 then (None, s1)
         else if refused s1 = continuation s1 then discard_block s1
         else (case find_stream s1 (continuation s1) of
                 None \<Rightarrow> (Some protocol_error, s1)
               | Some slot \<Rightarrow> handle_block driver slot s1)))" if "well_formed s1" for s1
      using that find_stream_Some discard_block_well handle_block_well
      by (auto simp: serving_def split: option.splits)
  qed (use assms gather_well in simp)
  then show ?thesis
    using assms by (simp add: handle_continuation_def split: option.splits)
qed

lemma handle_frame_well:
  assumes "well_formed s" and "frame_ok frame"
  shows "well_formed (snd (handle_frame driver s frame))"
proof -
  obtain payload where payload: "frame_payload frame = Some payload" "length payload = frame_length frame"
    using frame_okD [OF assms(2)] by blast
  define s1 where "s1 = (if frame_type frame = HTTP2_DATA
      then s\<lparr>receive_window := receive_window s - int (frame_length frame)\<rparr> else s)"
  have s1: "well_formed s1"
    using assms(1) receive_well [of s "receive_window s - int (frame_length frame)"] well_formed_parts(11) [OF assms(1)]
    by (simp add: s1_def)
  have taken: "receive_window s1 + int (frame_length frame) \<le> int HTTP2_DEFAULT_WINDOW_SIZE" if "frame_type frame = HTTP2_DATA"
    using that well_formed_parts(11) [OF assms(1)] by (simp add: s1_def)
  define found where "found = (if frame_stream_id frame = 0 then None else find_stream s1 (frame_stream_id frame))"
  have found: "slot < stream_count s1" if "found = Some slot" for slot
    using that find_stream_Some by (auto simp: found_def split: if_splits)
  have "well_formed (snd (handle_priority s1 frame found))"
    using s1 found prioritise_stream_well(1) by (auto simp: handle_priority_def payload split: sum.splits option.splits)
  moreover have "well_formed (snd (handle_settings s1 frame))"
    using s1 apply_settings_well schedule_ok
    by (auto simp: handle_settings_def payload write_settings_ok write_connection_well intro!: and_then_well)
  moreover have "well_formed (snd (handle_ping s1 frame))" if "frame_length frame = 8"
    using s1 that payload by (simp add: handle_ping_def write_ping_ok write_connection_well)
  moreover have "well_formed (snd (handle_window_update s1 frame))"
  proof (cases "read_bytes payload 0 4")
    case (Inr number)
    obtain r s2 where upd: "update_window s1 (frame_stream_id frame)
        (decode_number_http2 number AND of_nat HTTP2_MAX_WINDOW_SIZE) = (r, s2)" by fastforce
    then have "well_formed s2" using update_window_well [OF s1] by (metis snd_conv)
    then show ?thesis
      using schedule_ok write_value_well unfolding handle_window_update_def payload option.case Inr sum.case upd prod.case
      by (auto intro!: and_then_well)
  qed (use s1 in \<open>simp add: handle_window_update_def payload\<close>)
  moreover have "well_formed (case found of None \<Rightarrow> s1 | Some slot \<Rightarrow> close_stream driver s1 slot)"
    using s1 found close_stream_well(1) by (auto split: option.splits)
  moreover have "frame_length frame = 8" if "verify_frame_http2 frame (session_settings s) = None" "frame_type frame = HTTP2_PING"
    using that by (auto simp: verify_frame_http2_def Let_def split: if_splits)
  ultimately have "well_formed (snd (dispatch_frame driver s1 frame found))"
    if "verify_frame_http2 frame (session_settings s) = None"
    using that s1 found handle_data_well [OF s1 found taken] handle_headers_well handle_continuation_well
    unfolding dispatch_frame_def Let_def by simp
  then show ?thesis
    using assms(1) s1 unfolding handle_frame_def s1_def [symmetric] Let_def found_def [symmetric]
    by (auto split: option.splits)
qed

end

section \<open>The data of the connection\<close>

text \<open>What the loop takes off the buffer is a frame that has arrived complete.\<close>

lemma decoded_frame:
  assumes "decode_frame_http2 (drop (read_offset s) (received_buffer s)) = Inr frame" and "frame_payload frame \<noteq> None"
  shows "frame_ok frame" and "read_offset s + (HTTP2_HEADER_SIZE + frame_length frame) \<le> length (received_buffer s)"
  using decode_frame_cases [OF assms(1)] assms(2) by (auto simp: frame_ok_def split: if_splits)

lemma read_offset_well:
  assumes "well_formed s" and "n \<le> length (received_buffer s)"
  shows "well_formed (s\<lparr>read_offset := n\<rparr>)"
  using assms unfolding well_formed_def streams_ok_def open_ids_def open_streams_def block_size_def by simp

lemma received_buffer_well:
  assumes "well_formed s" and "n \<le> length buffer"
  shows "well_formed (s\<lparr>received_buffer := buffer, read_offset := n\<rparr>)"
  using assms unfolding well_formed_def streams_ok_def open_ids_def open_streams_def block_size_def by simp

lemma compact_buffer_well: "well_formed s \<Longrightarrow> well_formed (compact_buffer s)"
  by (simp add: compact_buffer_def received_buffer_well)

context handler
begin

lemma frames_loop_well: "well_formed s \<Longrightarrow> well_formed (snd (frames_loop driver n s))"
proof (induction n arbitrary: s)
  case (Suc n)
  define unread where "unread = drop (read_offset s) (received_buffer s)"
  show ?case
  proof (cases "decode_frame_http2 unread")
    case (Inr frame)
    show ?thesis
    proof (cases "frame_payload frame = None")
      case False
      define s1 where "s1 = s\<lparr>read_offset := read_offset s + (HTTP2_HEADER_SIZE + frame_length frame)\<rparr>"
      note frame = decoded_frame [OF Inr [unfolded unread_def] False]
      have "well_formed s1" using read_offset_well [OF Suc.prems frame(2)] by (simp add: s1_def)
      then have "well_formed (snd (handle_frame driver s1 frame))" using handle_frame_well frame(1) by blast
      then show ?thesis
        using Suc Inr False write_goaway_well unfolding frames_loop.simps Let_def unread_def [symmetric] Inr sum.case s1_def [symmetric]
        by (auto split: prod.splits option.splits)
    qed (use Suc.prems Inr write_goaway_well in \<open>simp add: unread_def [symmetric]\<close>)
  qed (use Suc.prems in \<open>simp add: unread_def [symmetric]\<close>)
qed simp

lemma read_frames_well:
  assumes "well_formed s"
  shows "well_formed (read_frames driver s)"
proof -
  obtain b s' where loop: "frames_loop driver (Suc (length (received_buffer s) - read_offset s)) s = (b, s')"
    by fastforce
  have "well_formed s'"
    using frames_loop_well [OF assms] loop by (metis snd_conv)
  then show ?thesis
    by (cases b) (simp_all add: read_frames_def loop compact_buffer_well del: frames_loop.simps)
qed

lemma data_handler_well:
  assumes "well_formed s"
  shows "well_formed (data_handler driver s data)"
proof -
  define s1 where "s1 = s\<lparr>received_buffer := received_buffer s @ data\<rparr>"
  have s1: "well_formed s1"
    using received_buffer_well [OF assms, of "read_offset s" "received_buffer s @ data"] assms
    by (simp add: s1_def well_formed_def)
  have "well_formed (snd (write_settings False (s1\<lparr>read_offset := read_offset s1 + HTTP2_PREFACE_SIZE, preface := True\<rparr>)))"
    if "\<not> length (received_buffer s1) - read_offset s1 < HTTP2_PREFACE_SIZE"
  proof -
    have "well_formed (s1\<lparr>read_offset := read_offset s1 + HTTP2_PREFACE_SIZE\<rparr>)"
      using that by (intro read_offset_well [OF s1]) simp
    moreover have "same_core (s1\<lparr>read_offset := read_offset s1 + HTTP2_PREFACE_SIZE\<rparr>)
        (s1\<lparr>read_offset := read_offset s1 + HTTP2_PREFACE_SIZE, preface := True\<rparr>)"
      by (simp add: same_core_def)
    ultimately show ?thesis
      using well_formed_core by (simp add: write_settings_ok write_connection_well del: HTTP2_PREFACE_SIZE_def)
  qed
  then show ?thesis
    using s1 read_frames_well unfolding data_handler_def Let_def s1_def [symmetric] by simp
qed

end

section \<open>The handlers\<close>

text \<open>
  What a handler does on an event: a response, built and flushed as the handlers of the code do it, a
  fragment of payload, a promise on the stream that is current, the switch to another handler, or
  nothing. Each action is chosen from the session as the handler finds it at that point.
\<close>

datatype action =
    Respond nat "(bytes \<times> bytes) list" bool "nat option"
  | Send bytes bool "nat option"
  | Promise bytes
  | Switch_handler "nat option"
  | Stay

type_synonym script = "handler_event \<Rightarrow> (http2_session \<Rightarrow> action) list"

fun write_fields :: "bytes \<Rightarrow> nat \<Rightarrow> (bytes \<times> bytes) list \<Rightarrow> http2_session \<Rightarrow> bytes \<times> nat \<times> http2_session" where
  "write_fields buffer offset [] s = (buffer, offset, s)"
| "write_fields buffer offset ((name, v) # pairs) s =
     (case write_field buffer offset name v s of (buffer', offset', s') \<Rightarrow> write_fields buffer' offset' pairs s')"

definition respond :: "nat \<Rightarrow> (bytes \<times> bytes) list \<Rightarrow> bool \<Rightarrow> nat option \<Rightarrow> http2_session \<Rightarrow> http2_session" where
  "respond code pairs final callback s =
     (case write_status (fresh VIRIATUM_HTTP_SIZE) code s of
        (b1, o1, s1) \<Rightarrow>
     (case write_fields b1 o1 pairs s1 of
        (b2, o2, s2) \<Rightarrow>
     (case write_end b2 o2 final s2 of
        (b3, s3) \<Rightarrow> write_flush (take o2 b3) callback s3)))"

definition run_action :: "driver \<Rightarrow> (http2_session \<Rightarrow> action) \<Rightarrow> http2_session \<Rightarrow> http2_session" where
  "run_action driver act s =
     (case act s of
        Respond code pairs final callback \<Rightarrow> respond code pairs final callback s
      | Send data final callback \<Rightarrow> write_chunk data final callback s
      | Promise path \<Rightarrow>
          (case current_stream s of
             None \<Rightarrow> s
           | Some slot \<Rightarrow> snd (push_stream driver s slot path))
      | Switch_handler h \<Rightarrow> s\<lparr>current_handler := h\<rparr>
      | Stay \<Rightarrow> s)"

text \<open>A promise drives the handler again; the depth bounds the promises made inside of promises.\<close>

primrec scripted :: "nat \<Rightarrow> script \<Rightarrow> driver" where
  "scripted 0 script event s = s"
| "scripted (Suc depth) script event s = fold (run_action (scripted depth script)) (script event) s"

text \<open>
  The code asks nothing of a handler, and there are two things that one must not do: to promise a
  stream while it is being unset, since the gap of the stream that is closed is then filled with the
  stream that was the last before the handler was called, and the promised one is lost, and to
  promise one after the identifiers of this end have run out, since the identifier of the connection
  is a word of 32 bits that goes on being raised by 2 past the last identifier, and returns to 0. A
  script is sparing when it does neither, and every script becomes sparing when such promises are
  left out of it.
\<close>

definition spares :: "handler_event \<Rightarrow> http2_session \<Rightarrow> action \<Rightarrow> bool" where
  "spares event s a \<longleftrightarrow>
     (case a of Promise path \<Rightarrow> event \<noteq> Handler_unset \<and> push_stream_id s \<le> HTTP2_MAX_STREAM_ID | _ \<Rightarrow> True)"

definition sparing :: "script \<Rightarrow> bool" where
  "sparing script \<longleftrightarrow> (\<forall>event. \<forall>act \<in> set (script event). \<forall>s. spares event s (act s))"

definition spared :: "script \<Rightarrow> script" where
  "spared script event = map (\<lambda>act s. if spares event s (act s) then act s else Stay) (script event)"

lemma spared_sparing: "sparing script \<Longrightarrow> spared script = script"
  by (rule ext) (auto simp: sparing_def spared_def fun_eq_iff intro!: map_idI)

lemma write_fields_session [simp]: "snd (snd (write_fields buffer offset pairs s)) = s"
proof (induction buffer offset pairs s rule: write_fields.induct)
  case (2 buffer offset name v pairs s)
  obtain b n where "write_field buffer offset name v s = (b, n, s)"
    using write_field_session by (metis prod.collapse)
  then show ?case using "2.IH" by simp
qed simp

lemma respond_ok:
  assumes "well_formed s"
  shows "evolves s (respond code pairs final cb s) \<and> stream_count (respond code pairs final cb s) = stream_count s"
proof -
  obtain b1 o1 where e1: "write_status (fresh VIRIATUM_HTTP_SIZE) code s = (b1, o1, s)"
    using write_status_session by (metis prod.collapse)
  obtain b2 o2 where e2: "write_fields b1 o1 pairs s = (b2, o2, s)"
    using write_fields_session by (metis prod.collapse)
  obtain b3 s3 where e3: "write_end b2 o2 final s = (b3, s3)" by fastforce
  have "well_formed s3" "keeps s s3" "stream_count s3 = stream_count s"
    using write_end_ok [OF assms, of b2 o2 final] e3 by simp_all
  then show ?thesis
    using write_flush_ok [of s3] keeps_trans unfolding respond_def e1 prod.case e2 e3 evolves_def by metis
qed

text \<open>The contract of a handler, for every script.\<close>

lemma run_action_ok:
  assumes "handler driver" and "well_formed s" and "spares event s (act s)"
  shows "evolves s (run_action driver act s)
    \<and> (event = Handler_unset \<longrightarrow> stream_count (run_action driver act s) = stream_count s)"
proof (cases "act s")
  case (Respond code pairs final cb)
  then show ?thesis using respond_ok [OF assms(2)] by (simp add: run_action_def)
next
  case (Send data final cb)
  then show ?thesis using write_chunk_ok [OF assms(2)] by (simp add: run_action_def evolves_def)
next
  case (Promise path)
  then have "event \<noteq> Handler_unset" and room: "push_stream_id s \<le> HTTP2_MAX_STREAM_ID"
    using assms(3) by (simp_all add: spares_def)
  then show ?thesis
    using Promise assms(2) handler.push_stream_evolves [OF assms(1,2) current_stream_less(1) room, of _ path]
    by (auto simp: run_action_def evolves_def split: option.splits)
next
  case (Switch_handler h)
  have "well_formed (s\<lparr>current_handler := h\<rparr>) = well_formed s"
    by (rule well_formed_core) (simp add: same_core_def)
  then show ?thesis
    using Switch_handler assms(2) by (simp add: run_action_def evolves_def keeps_def session_kept_def)
qed (use assms(2) in \<open>simp add: run_action_def evolves_def\<close>)

lemma fold_actions_ok:
  assumes "handler driver" and "well_formed s" and "\<And>act s. act \<in> set actions \<Longrightarrow> spares event s (act s)"
  shows "evolves s (fold (run_action driver) actions s)
    \<and> (event = Handler_unset \<longrightarrow> stream_count (fold (run_action driver) actions s) = stream_count s)"
  using assms(2,3)
proof (induction actions arbitrary: s)
  case (Cons act actions)
  have step: "evolves s (run_action driver act s)
    \<and> (event = Handler_unset \<longrightarrow> stream_count (run_action driver act s) = stream_count s)"
    by (rule run_action_ok [OF assms(1) Cons.prems(1)]) (simp add: Cons.prems(2))
  then show ?case
    using Cons.IH [of "run_action driver act s"] Cons.prems(2) evolves_trans by (auto simp: evolves_def)
qed (simp add: evolves_def)

lemma scripted_handler: "handler (scripted depth (spared script))"
proof (induction depth)
  case 0
  show ?case by unfold_locales simp_all
next
  case (Suc depth)
  have "spares event s (act s)" if "act \<in> set (spared script event)" for event act s
    using that by (auto simp: spared_def spares_def)
  then have "evolves s (scripted (Suc depth) (spared script) event s)
      \<and> (event = Handler_unset \<longrightarrow> stream_count (scripted (Suc depth) (spared script) event s) = stream_count s)"
    if "well_formed s" for event s
    unfolding scripted.simps by (rule fold_actions_ok [OF Suc that])
  then show ?case
    unfolding evolves_def by unfold_locales blast+
qed

interpretation served: handler "scripted depth (spared script)" for depth script
  by (rule scripted_handler)

end
