(* ===== verification/Http2_Connection.thy ===== *)
theory Http2_Connection
  imports Http2_Handler
begin

text \<open>
  The connection of \<^verbatim>\<open>src/src/viriatum/stream/stream_http2.c\<close> as a state machine: the steps that the
  layers around the session drive (data that arrives, a write that completes, a handler that
  resumes), the sessions they reach, and what holds in every one of them.
\<close>

section \<open>Steps\<close>

inductive session_step :: "driver \<Rightarrow> http2_session \<Rightarrow> http2_session \<Rightarrow> bool" for driver where
  receive: "session_step driver s (data_handler driver s data)"
| written: "session_step driver s (complete_write driver s)"
| resumed: "session_step driver s (deliver driver event s)"

inductive_cases session_stepE: "session_step driver s s'"

text \<open>The errors of a frame are errors of the protocol.\<close>

lemma strip_padding_errors:
  assumes "frame_ok frame" and "strip_padding_http2 frame = Inl e"
  shows "e = Http2_Error HTTP2_PROTOCOL_ERROR"
proof -
  obtain payload where "frame_payload frame = Some payload" "length payload = frame_length frame"
    using frame_okD [OF assms(1)] by blast
  from strip_padding_guarded [OF this] show ?thesis using assms(2) by (auto simp: Let_def split: if_splits)
qed

lemma decode_priority_errors: "decode_priority_http2 data = Inl e \<Longrightarrow> e = Http2_Error HTTP2_FRAME_SIZE_ERROR"
  by (auto simp: decode_priority_guarded Let_def split: if_splits)

definition protocol :: "error option \<Rightarrow> bool" where
  "protocol r \<longleftrightarrow> (case r of None \<Rightarrow> True | Some e \<Rightarrow> (case e of Http2_Error _ \<Rightarrow> True | _ \<Rightarrow> False))"

lemma protocol_simps [simp]: "protocol None" "protocol (Some (Http2_Error e))"
  by (simp_all add: protocol_def)

lemma and_then_protocol:
  "protocol (fst result) \<Longrightarrow> (\<And>s. result = (None, s) \<Longrightarrow> protocol (fst (rest s))) \<Longrightarrow> protocol (fst (and_then result rest))"
  by (cases result) (auto simp: and_then_def split: option.splits)

lemma gather_protocol: "protocol (fst (gather_http2 s data))"
  by (simp add: gather_http2_def)

text \<open>The priority of a header block is only read, and skipped, when the payload holds one.\<close>

lemma gather_fragment_protocol:
  assumes "has_priority frame \<Longrightarrow> HTTP2_PRIORITY_SIZE \<le> length payload"
  shows "protocol (fst (gather_fragment s (block_fragment frame payload)))"
  using assms gather_protocol by (simp add: gather_fragment_def block_fragment_def)

lemma prioritise_protocol: "protocol (fst (prioritise_stream s slot priority))"
  by (simp add: prioritise_stream_def Let_def)

lemma discard_protocol: "protocol (fst (discard_block s))"
  by (simp add: discard_block_def Let_def split: prod.splits)

lemma update_window_protocol: "protocol (fst (update_window s sid n))"
  by (simp add: update_window_def split: option.splits)

lemma decode_settings_protocol: "protocol (fst (decode_settings_http2 data s))"
proof -
  have "apply_setting i v t = (r, t') \<Longrightarrow> protocol r" for i v t r t'
    by (auto simp: apply_setting_def split: if_splits)
  then have "length data mod HTTP2_SETTING_SIZE = 0 \<Longrightarrow> protocol (fst (decode_settings_loop data s))"
    by (induction data s rule: decode_settings_loop.induct) (auto split: prod.splits option.splits)
  then show ?thesis by (simp add: decode_settings_http2_def)
qed

lemma shift_windows_protocol: "protocol (fst (shift_windows d ss))"
  by (induction d ss rule: shift_windows.induct) (auto split: prod.splits)

lemma apply_settings_protocol: "protocol (fst (apply_settings s data))"
  using decode_settings_protocol [of data "remote s"] shift_windows_protocol
  by (auto simp: apply_settings_def Let_def split: prod.splits option.splits if_splits) (metis fst_conv)+

lemma pseudo_protocol: "protocol (fst (pseudo_http2 driver p))"
  by (cases p) (simp add: pseudo_http2_def Let_def)

lemma block_protocol: "protocol (fst (block_http2 driver s slot data))"
proof -
  define b where "b = \<lparr>block_slot = slot, block_regular = False, block_flushed = False, block_pseudo = 0,
      block_trailers = headers_complete (streams s ! slot)\<rparr>"
  define s3 where "s3 = (if \<not> block_trailers b
      then deliver driver On_message_begin
        (activate_http2 (if stream_handler (streams s ! slot) = None then set_handler driver slot s else s) slot)
      else activate_http2 (if stream_handler (streams s ! slot) = None then set_handler driver slot s else s) slot)"
  obtain r t s4 b4 where dec: "decode_hpack (decoder s3) data (header_http2 driver) (s3, b) = (r, t, s4, b4)"
    using prod_cases4 by blast
  obtain r6 s6 b6 where pseudo: "pseudo_http2 driver (s4\<lparr>decoder := t\<rparr>, b4) = (r6, s6, b6)"
    using prod_cases3 by blast
  have "fst (block_http2 driver s slot data) = (if r \<noteq> None then Some compression_error else r6)"
    unfolding block_http2_def Let_def b_def [symmetric] s3_def [symmetric] dec prod.case pseudo
    by (simp split: option.split)
  then show ?thesis
    using pseudo_protocol [of driver "(s4\<lparr>decoder := t\<rparr>, b4)"] pseudo by simp
qed

lemma handle_block_protocol: "protocol (fst (handle_block driver slot s))"
  using block_protocol [of driver s slot "assembled s"]
  by (cases "block_http2 driver s slot (assembled s)") (simp add: handle_block_def)

lemma headers_on_stream_protocol:
  assumes "frame_ok frame"
  shows "protocol (fst (headers_on_stream driver s frame slot))"
proof -
  have "protocol (fst (headers_priority s frame slot payload))" for payload
    using prioritise_protocol by (auto simp: headers_priority_def dest!: decode_priority_errors split: sum.splits)
  moreover have "HTTP2_PRIORITY_SIZE \<le> length payload"
    if "headers_priority s frame slot payload = (None, s1)" "has_priority frame" for payload s1
    using that by (simp add: headers_priority_def split: if_splits)
  then have "protocol (fst (gather_fragment s2 (block_fragment frame payload)))"
    if "headers_priority s frame slot payload = (None, s1)" for payload s1 s2
    using that gather_fragment_protocol by blast
  ultimately show ?thesis
    using handle_block_protocol
    by (auto simp: headers_on_stream_def Let_def dest!: strip_padding_errors [OF assms] intro!: and_then_protocol
        split: sum.splits)
qed

lemma open_stream_protocol: "open_stream s sid = (s', Inl e) \<Longrightarrow> protocol (Some e)"
  by (auto simp: open_stream_def Let_def split: if_splits)

lemma handle_headers_protocol:
  assumes "frame_ok frame"
  shows "protocol (fst (handle_headers driver s frame found))"
proof -
  have refused: "protocol (fst (handle_refused s frame))" for s
    using gather_fragment_protocol discard_protocol
    by (auto simp: handle_refused_def Let_def dest!: strip_padding_errors [OF assms] intro!: and_then_protocol split: sum.splits)
  show ?thesis
    using headers_on_stream_protocol [OF assms] refused
    by (auto simp: handle_headers_def dest!: open_stream_protocol split: option.splits prod.splits sum.splits)
qed

lemma handle_data_protocol:
  assumes "frame_ok frame"
  shows "protocol (fst (handle_data driver s frame (Some slot)))"
  by (auto simp: handle_data_def end_of_data_def Let_def dest!: strip_padding_errors [OF assms] split: sum.splits)

lemma verify_data_found:
  "verify_stream s frame found = None \<Longrightarrow> frame_type frame = HTTP2_DATA \<Longrightarrow> found \<noteq> None"
  by (cases found) (auto simp: verify_stream_def state_http2_def Let_def split: if_splits)

text \<open>How a frame is judged before its own case: refused with an error, or dispatched.\<close>

lemma handle_frame_cases:
  obtains (malformed) e where "verify_frame_http2 frame (session_settings s) = Some e"
      "handle_frame driver s frame = (Some e, s)"
    | (interleaved) "continuation s \<noteq> 0" "frame_type frame \<noteq> HTTP2_CONTINUATION \<or> frame_stream_id frame \<noteq> continuation s"
      "handle_frame driver s frame = (Some protocol_error, s)"
    | (overrun) s' where "frame_type frame = HTTP2_DATA" "receive_window s < int (frame_length frame)"
      "handle_frame driver s frame = (Some (Http2_Error HTTP2_FLOW_CONTROL_ERROR), s')"
    | (refused) s' found e where "verify_stream s' frame found = Some e" "handle_frame driver s frame = (Some e, s')"
    | (dispatched) s' found where "verify_frame_http2 frame (session_settings s) = None"
      "continuation s = 0 \<or> frame_type frame = HTTP2_CONTINUATION \<and> frame_stream_id frame = continuation s"
      "s' = (if frame_type frame = HTTP2_DATA then s\<lparr>receive_window := receive_window s - int (frame_length frame)\<rparr> else s)"
      "frame_type frame = HTTP2_DATA \<Longrightarrow> int (frame_length frame) \<le> receive_window s"
      "found = (if frame_stream_id frame = 0 then None else find_stream s (frame_stream_id frame))"
      "frame_stream_id frame = 0 \<or> verify_stream s' frame found = None"
      "handle_frame driver s frame = dispatch_frame driver s' frame found"
proof -
  define s1 where "s1 = (if frame_type frame = HTTP2_DATA
      then s\<lparr>receive_window := receive_window s - int (frame_length frame)\<rparr> else s)"
  define found where "found = (if frame_stream_id frame = 0 then None else find_stream s1 (frame_stream_id frame))"
  have find: "find_stream s1 = find_stream s"
    using open_cong(3) [of s1 s] by (simp add: s1_def)
  note eq = handle_frame_def [of driver s frame, folded s1_def, unfolded Let_def, folded s1_def, folded found_def]
  show ?thesis
  proof (cases "verify_frame_http2 frame (session_settings s)")
    case (Some e)
    then show ?thesis using malformed eq by simp
  next
    case verified: None
    show ?thesis
    proof (cases "continuation s \<noteq> 0 \<and> (frame_type frame \<noteq> HTTP2_CONTINUATION \<or> frame_stream_id frame \<noteq> continuation s)")
      case True
      then show ?thesis using interleaved eq verified by simp
    next
      case alone: False
      show ?thesis
      proof (cases "frame_type frame = HTTP2_DATA \<and> receive_window s1 < 0")
        case True
        then show ?thesis
          using overrun [of s1] eq verified alone by (auto simp: s1_def)
      next
        case window: False
        show ?thesis
        proof (cases "if frame_stream_id frame \<noteq> 0 then verify_stream s1 frame found else None")
          case (Some e)
          then have "verify_stream s1 frame found = Some e" by (simp split: if_splits)
          moreover have "handle_frame driver s frame = (Some e, s1)"
            using eq verified alone window Some by auto
          ultimately show ?thesis by (rule refused)
        next
          case None
          have "handle_frame driver s frame = dispatch_frame driver s1 frame found"
            using eq verified alone window None by auto
          then show ?thesis
            using dispatched [of s1 found] verified alone window None find
            by (auto simp: s1_def found_def split: if_splits)
        qed
      qed
    qed
  qed
qed

lemma handle_frame_protocol:
  assumes "frame_ok frame"
  shows "protocol (fst (handle_frame driver s frame))"
proof -
  obtain payload where payload: "frame_payload frame = Some payload" "length payload = frame_length frame"
    using frame_okD [OF assms] by blast
  have dispatch: "protocol (fst (dispatch_frame driver s frame found))"
    if "frame_type frame = HTTP2_DATA \<Longrightarrow> found \<noteq> None"
      and sized: "frame_type frame = HTTP2_PING \<Longrightarrow> frame_length frame = 8"
        "frame_type frame = HTTP2_WINDOW_UPDATE \<Longrightarrow> frame_length frame = 4" for s found
  proof -
    have "protocol (fst (handle_continuation driver s frame))"
      using gather_protocol discard_protocol handle_block_protocol
      by (auto simp: handle_continuation_def payload intro!: and_then_protocol split: option.splits)
    moreover have "protocol (fst (handle_priority s frame found))"
      using prioritise_protocol
      by (auto simp: handle_priority_def payload dest!: decode_priority_errors split: sum.splits option.splits)
    moreover have "protocol (fst (handle_settings s frame))"
      using apply_settings_protocol by (auto simp: handle_settings_def payload write_settings_ok intro!: and_then_protocol)
    moreover have "protocol (fst (handle_window_update s frame))"
      if "frame_type frame = HTTP2_WINDOW_UPDATE"
    proof -
      have number: "read_bytes payload 0 4 = Inr (take 4 payload)"
        using sized(2) [OF that] payload(2) by simp
      obtain r s' where "update_window s (frame_stream_id frame) (decode_number_http2 (take 4 payload) AND of_nat HTTP2_MAX_WINDOW_SIZE)
          = (r, s')" by fastforce
      then show ?thesis
        using update_window_protocol [of s "frame_stream_id frame" "decode_number_http2 (take 4 payload) AND of_nat HTTP2_MAX_WINDOW_SIZE"]
        by (auto simp: handle_window_update_def payload number intro!: and_then_protocol)
    qed
    moreover have "protocol (fst (handle_ping s frame))" if "frame_type frame = HTTP2_PING"
    proof -
      have "read_bytes payload 0 HTTP2_PING_SIZE = Inr (take HTTP2_PING_SIZE payload)"
        using sized(1) [OF that] payload(2) by simp
      then show ?thesis
        by (simp add: handle_ping_def payload write_ping_def split: prod.splits option.splits)
          (simp add: encode_frame_http2_def split: if_splits)
    qed
    moreover have "protocol (fst (handle_data driver s frame found))" if "frame_type frame = HTTP2_DATA"
      using that \<open>frame_type frame = HTTP2_DATA \<Longrightarrow> found \<noteq> None\<close> handle_data_protocol [OF assms] by auto
    ultimately show ?thesis
      using handle_headers_protocol [OF assms] unfolding dispatch_frame_def Let_def by simp
  qed
  have "protocol (verify_frame_http2 frame settings)" for settings
    by (simp add: verify_frame_http2_def Let_def)
  moreover have "protocol (verify_stream s frame found)" for s found
    by (simp add: verify_stream_def Let_def split: http2_stream_state.splits)
  ultimately show ?thesis
  proof (cases rule: handle_frame_cases [of frame s driver])
    case (dispatched s' found)
    have "found \<noteq> None" if "frame_type frame = HTTP2_DATA"
    proof -
      have "frame_stream_id frame \<noteq> 0"
        using dispatched(1) that by (auto simp: verify_frame_http2_def Let_def split: if_splits)
      then show ?thesis using dispatched(6) that verify_data_found by blast
    qed
    moreover have "frame_type frame = HTTP2_PING \<Longrightarrow> frame_length frame = 8"
      "frame_type frame = HTTP2_WINDOW_UPDATE \<Longrightarrow> frame_length frame = 4"
      using dispatched(1) by (auto simp: verify_frame_http2_def Let_def split: if_splits)
    ultimately show ?thesis
      using dispatched(7) dispatch by simp
  qed (simp_all, metis+)
qed

section \<open>Every session that is reached\<close>

context handler
begin

lemma session_step_well: "session_step driver s s' \<Longrightarrow> well_formed s \<Longrightarrow> well_formed s'"
  by (induction rule: session_step.induct) (simp_all add: data_handler_well complete_write_well deliver_well)

lemma reached_well: "(session_step driver)\<^sup>*\<^sup>* s s' \<Longrightarrow> well_formed s \<Longrightarrow> well_formed s'"
  by (induction rule: rtranclp_induct) (auto intro: session_step_well)

end



text \<open>C2: the error that the handling of a complete frame ends with, if any, is one of the codes of the
  protocol. The error \<open>Out_Of_Bounds\<close>, which the handling has when it follows a stream that the
  connection does not hold, and when it reads a byte that lies outside of the payload of the frame
  (the padding, the priority, the entries of the settings, the increment of a window, the data of a
  ping), is not one of them: the checks that the code makes before are enough for every frame, and
  what goes into the GOAWAY frame is a code that the peer understands.\<close>

theorem frame_errors:
  assumes "decode_frame_http2 data = Inr frame" and "frame_payload frame \<noteq> None"
  shows "case fst (handle_frame driver s frame) of None \<Rightarrow> True
    | Some e \<Rightarrow> (\<exists>code. e = Http2_Error code \<and> error_code e \<le> 13)"
proof -
  have "frame_ok frame"
    using decode_frame_cases [OF assms(1)] assms(2) by (auto simp: frame_ok_def split: if_splits)
  moreover have "http2_error_code code \<le> 13" for code by (cases code) simp_all
  ultimately show ?thesis
    using handle_frame_protocol [of frame driver s] by (auto simp: protocol_def split: option.splits error.splits)
qed

theorem frame_errors_witness:
  "case fst (handle_frame (\<lambda>_ s. s) empty_session
      \<lparr>frame_length = 1, frame_type = 0, frame_flags = 1, frame_stream_id = 1, frame_payload = Some [7]\<rparr>) of None \<Rightarrow> True
    | Some e \<Rightarrow> (\<exists>code. e = Http2_Error code \<and> error_code e \<le> 13)"
proof (rule frame_errors [where data = "frame_header 1 0 1 1 @ [7]"])
  show "decode_frame_http2 (frame_header 1 0 1 1 @ [7]) = Inr
      \<lparr>frame_length = 1, frame_type = 0, frame_flags = 1, frame_stream_id = 1, frame_payload = Some [7]\<rparr>"
    using decode_frame_ok [of "[7]" 0 1 1 "[]"] by (simp add: HTTP2_MAX_STREAM_ID_def)
qed simp

end
