(* ===== verification/Http2_Splitting.thy ===== *)
theory Http2_Splitting
  imports Http2_Flow
begin

text \<open>
  The splitting of a block of headers that is larger than the frame the peer accepts
  (\<^verbatim>\<open>_split_http2_connection\<close> of \<^verbatim>\<open>src/src/viriatum/stream/stream_http2.c\<close>): the frames it builds carry the
  block in order, none is larger than what the peer accepts, and the buffer that is allocated for them is
  filled exactly.
\<close>

section \<open>A frame at a position of a buffer\<close>

definition whole_frame :: "byte \<Rightarrow> byte \<Rightarrow> u32 \<Rightarrow> bytes \<Rightarrow> bytes" where
  "whole_frame type flags sid fragment = frame_header (length fragment) type flags sid @ fragment"

lemma length_whole_frame [simp]: "length (whole_frame type flags sid fragment) = 9 + length fragment"
  by (simp add: whole_frame_def)

lemma frame_at_ok:
  assumes "offset + (9 + length fragment) \<le> length buffer" and "length fragment \<le> HTTP2_MAX_FRAME_SIZE"
  shows "frame_at buffer offset type flags sid fragment = memcpy buffer offset (whole_frame type flags sid fragment)"
proof -
  have "encode_frame_http2 (drop offset buffer) (length buffer - offset) (length fragment) type flags sid =
      (None, memcpy (drop offset buffer) 0 (frame_header (length fragment) type flags sid))"
    using assms by (intro encode_frame_ok) simp_all
  moreover have "take offset buffer @ memcpy (drop offset buffer) 0 (frame_header (length fragment) type flags sid) =
      memcpy buffer offset (frame_header (length fragment) type flags sid)"
    using assms(1) by (simp add: memcpy_def add.commute)
  ultimately show ?thesis
    using memcpy_memcpy [of offset "frame_header (length fragment) type flags sid" fragment buffer] assms(1)
    by (simp add: frame_at_def whole_frame_def)
qed

section \<open>The fragments of a block\<close>

function fragments :: "nat \<Rightarrow> bytes \<Rightarrow> bytes list" where
  "fragments allowed block =
     (if block = [] \<or> allowed = 0 then [] else take allowed block # fragments allowed (drop allowed block))"
  by pat_completeness auto
termination by (relation "measure (length \<circ> snd)") auto

declare fragments.simps [simp del]

lemma fragments_simps [simp]:
  "fragments allowed [] = []"
  "0 < allowed \<Longrightarrow> block \<noteq> [] \<Longrightarrow> fragments allowed block = take allowed block # fragments allowed (drop allowed block)"
  by (simp_all add: fragments.simps [of allowed])

lemma concat_fragments: "0 < allowed \<Longrightarrow> concat (fragments allowed block) = block"
proof (induction allowed block rule: fragments.induct)
  case (1 allowed block)
  then show ?case by (cases "block = []") simp_all
qed

lemma fragments_size: "list_all (\<lambda>f. length f \<le> allowed) (fragments allowed block)"
proof (induction allowed block rule: fragments.induct)
  case (1 allowed block)
  show ?case
  proof (cases "block = [] \<or> allowed = 0")
    case True
    then have "fragments allowed block = []" unfolding fragments.simps [of allowed block] by simp
    then show ?thesis by simp
  qed (use 1 in simp)
qed

lemma ceiling_step:
  fixes n a :: nat
  assumes "0 < a" and "0 < n"
  shows "(n + a - 1) div a = Suc ((n - a + a - 1) div a)"
proof (cases "n \<le> a")
  case True
  have "(a + (n - 1)) div a = Suc 0"
    using div_add_self1 [of a "n - 1"] assms True by simp
  moreover have "n + a - 1 = a + (n - 1)" using assms(2) by simp
  moreover have "(n - a + a - 1) div a = 0" using assms(1) True by simp
  ultimately show ?thesis by (simp only:)
next
  case False
  then have "n + a - 1 = a + (n - a + a - 1)" using assms(1) by simp
  moreover have "(a + (n - a + a - 1)) div a = Suc ((n - a + a - 1) div a)"
    using div_add_self1 [of a "n - a + a - 1"] assms(1) by linarith
  ultimately show ?thesis by (simp only:)
qed

lemma fragments_count: "0 < allowed \<Longrightarrow> length (fragments allowed block) = (length block + allowed - 1) div allowed"
proof (induction allowed block rule: fragments.induct)
  case (1 allowed block)
  show ?case
  proof (cases "block = []")
    case True
    then show ?thesis using 1(2) by simp
  next
    case False
    then have "length (fragments allowed (drop allowed block)) = (length block - allowed + allowed - 1) div allowed"
      using 1 by (simp only: length_drop simp_thms)
    moreover have "0 < length block" using False by simp
    ultimately show ?thesis
      using False 1(2) ceiling_step [OF 1(2), of "length block"] by (simp only: fragments_simps list.size) simp
  qed
qed

text \<open>The frames that continue a block, the last of them closing it.\<close>

fun continuations :: "u32 \<Rightarrow> bytes list \<Rightarrow> bytes" where
  "continuations sid [] = []"
| "continuations sid (f # fs) =
     whole_frame HTTP2_CONTINUATION (if fs = [] then HTTP2_FLAG_END_HEADERS else 0) sid f @ continuations sid fs"

lemma length_continuations: "length (continuations sid fs) = length (concat fs) + 9 * length fs"
  by (induction fs) simp_all

section \<open>The loop\<close>

lemma split_loop_ok:
  assumes "0 < allowed" and "allowed \<le> HTTP2_MAX_FRAME_SIZE" and "position \<le> length data"
    and "length (fragments allowed (drop position data)) \<le> n"
    and "offset + length (continuations sid (fragments allowed (drop position data))) \<le> length buffer"
    and "split_loop n allowed sid data buffer offset position = (buffer', offset')"
  shows "offset' = offset + length (continuations sid (fragments allowed (drop position data)))
    \<and> take offset' buffer' = take offset buffer @ continuations sid (fragments allowed (drop position data))"
  using assms
proof (induction n arbitrary: buffer offset position)
  case 0
  then show ?case by simp
next
  case (Suc n)
  show ?case
  proof (cases "position < length data")
    case False
    then show ?thesis using Suc.prems by simp
  next
    case True
    let ?rest = "drop position data"
    define fragment where "fragment = take allowed ?rest"
    have size: "(if length data - position < allowed then length data - position else allowed) = length fragment"
      using True by (simp add: fragment_def)
    have frag: "take (length fragment) ?rest = fragment" by (auto simp: fragment_def min_def)
    have next_rest: "drop (position + length fragment) data = drop allowed ?rest"
      by (cases "length ?rest \<le> allowed") (simp_all add: fragment_def add.commute)
    have rest: "fragments allowed ?rest = fragment # fragments allowed (drop (position + length fragment) data)"
      using True Suc.prems(1) next_rest by (simp add: fragment_def)
    have final: "fragments allowed (drop (position + length fragment) data) = [] \<longleftrightarrow> position + length fragment = length data"
    proof -
      have "position + length fragment \<le> length data" using True by (auto simp: fragment_def min_def)
      then show ?thesis
        using fragments_simps(2) [OF Suc.prems(1), of "drop (position + length fragment) data"]
        by (cases "position + length fragment = length data") auto
    qed
    define frame where "frame = whole_frame HTTP2_CONTINUATION
        (if position + length fragment = length data then HTTP2_FLAG_END_HEADERS else 0) sid fragment"
    let ?more = "continuations sid (fragments allowed (drop (position + length fragment) data))"
    have conts: "continuations sid (fragments allowed ?rest) = frame @ ?more"
      using final by (simp add: rest frame_def)
    have room: "offset + length frame + length ?more \<le> length buffer"
      using Suc.prems(5) by (simp add: conts)
    have small: "length fragment \<le> HTTP2_MAX_FRAME_SIZE" using Suc.prems(2) by (simp add: fragment_def)
    define buffer1 where "buffer1 = memcpy buffer offset frame"
    have at: "frame_at buffer offset HTTP2_CONTINUATION
        (if position + length fragment = length data then HTTP2_FLAG_END_HEADERS else 0) sid fragment = buffer1"
      using room small unfolding buffer1_def frame_def by (intro frame_at_ok) simp_all
    have "split_loop n allowed sid data buffer1 (offset + length frame) (position + length fragment) = (buffer', offset')"
      using Suc.prems(6) True at
      by (simp add: Let_def size frag frame_def fragment_def [symmetric] del: HTTP2_CONTINUATION_def HTTP2_FLAG_END_HEADERS_def)
        (simp add: add.assoc)
    moreover have within: "position + length fragment \<le> length data" using True by (auto simp: fragment_def min_def)
    moreover have few: "length (fragments allowed (drop (position + length fragment) data)) \<le> n"
      using Suc.prems(4) by (simp add: rest)
    moreover have "offset + length frame + length ?more \<le> length buffer1" using room by (simp add: buffer1_def)
    ultimately have "offset' = offset + length frame + length ?more \<and>
        take offset' buffer' = take (offset + length frame) buffer1 @ ?more"
      by (intro Suc.IH Suc.prems(1,2))
    moreover have "take (offset + length frame) buffer1 = take offset buffer @ frame"
      unfolding buffer1_def using room by (intro take_memcpy) simp
    ultimately show ?thesis unfolding conts by (elim conjE) (simp only: length_append append.assoc add.assoc simp_thms)
  qed
qed

section \<open>The splitting\<close>

lemma split_block_larger:
  assumes "settings_ok (remote s)" and "max_frame_size (remote s) < length block"
  defines "allowed \<equiv> max_frame_size (remote s)"
  shows "split_block s (frame_header (length block) type flags sid @ block) =
    whole_frame type (flags AND NOT HTTP2_FLAG_END_HEADERS) (sid AND HTTP2_MAX_STREAM_ID) (take allowed block) @
    continuations (sid AND HTTP2_MAX_STREAM_ID) (fragments allowed (drop allowed block))"
proof -
  let ?sid = "sid AND HTTP2_MAX_STREAM_ID" and ?header = "frame_header (length block) type flags sid"
  define data where "data = ?header @ block"
  have allowed: "0 < allowed" "allowed \<le> HTTP2_MAX_FRAME_SIZE" "allowed < length block"
    using assms by (auto simp: settings_ok_def)
  have bytes: "data ! 3 = type" "data ! 4 = flags" "decode_number_http2 (drop 5 data) = ?sid"
    by (simp_all add: data_def frame_header_def)
  have sid: "?sid AND HTTP2_MAX_STREAM_ID = ?sid" by (simp add: and.assoc)
  define n where "n = (length block + allowed - 1) div allowed"
  have frags: "fragments allowed block = take allowed block # fragments allowed (drop allowed block)"
    using allowed by (intro fragments_simps(2)) auto
  have n: "n = Suc (length (fragments allowed (drop allowed block)))"
    using fragments_count [OF allowed(1), of block] frags by (simp add: n_def)
  let ?conts = "continuations ?sid (fragments allowed (drop allowed block))"
  let ?first = "whole_frame type (flags AND NOT HTTP2_FLAG_END_HEADERS) ?sid (take allowed block)"
  define buffer where "buffer = fresh (length block + n * 9)"
  have total: "length ?first + length ?conts = length buffer"
    using allowed by (simp add: buffer_def n length_continuations concat_fragments)
  define buffer1 where "buffer1 = memcpy buffer 0 ?first"
  have at: "frame_at buffer 0 type (flags AND NOT HTTP2_FLAG_END_HEADERS) ?sid (take allowed block) = buffer1"
    unfolding buffer1_def by (rule frame_at_ok) (use total allowed in simp_all)
  obtain buffer2 offset where loop: "split_loop n allowed ?sid data buffer1 (9 + allowed) (9 + allowed) = (buffer2, offset)"
    by fastforce
  have len1: "length ?first = 9 + allowed" using allowed by simp
  have drop1: "drop (9 + allowed) data = drop allowed block"
    by (simp add: data_def)
  have "offset = 9 + allowed + length ?conts \<and> take offset buffer2 = take (9 + allowed) buffer1 @ ?conts"
    unfolding drop1 [symmetric]
    by (rule split_loop_ok [OF allowed(1,2) _ _ _ loop])
      (use n total len1 allowed in \<open>simp_all add: drop1 data_def buffer1_def\<close>)
  then have "take offset buffer2 = take (9 + allowed) buffer1 @ ?conts" ..
  moreover have "take (9 + allowed) buffer1 = ?first"
    using take_memcpy [of 0 ?first buffer] total len1 by (simp add: buffer1_def)
  moreover have "split_block s data = take offset buffer2"
    using allowed(3) bytes at loop unfolding split_block_def Let_def sid bytes allowed_def [symmetric]
    by (simp add: data_def buffer_def n_def drop_append)
  ultimately show ?thesis unfolding data_def by (simp only:)
qed

lemma split_block_fits:
  "length block \<le> max_frame_size (remote s) \<Longrightarrow>
     split_block s (frame_header (length block) type flags sid @ block) = frame_header (length block) type flags sid @ block"
  by (simp add: split_block_def Let_def)

text \<open>C12: a block of headers that is larger than the frame the peer accepts is written as a sequence of
  frames it does accept: the first keeps the type and the flags of the original except for END_HEADERS,
  the others continue it on the same stream and only the last of them carries END_HEADERS, no fragment is
  larger than the peer accepts, and the fragments put together are the block. A block that fits is written
  as it stands, and only such a block is; the first fragment of any other is as large as the peer accepts.\<close>

theorem split_reassembles:
  assumes "settings_ok (remote s)"
  shows "\<exists>first rest. first @ concat rest = block
    \<and> list_all (\<lambda>f. length f \<le> max_frame_size (remote s)) (first # rest)
    \<and> split_block s (frame_header (length block) type flags sid @ block) =
        whole_frame type (if rest = [] then flags else flags AND NOT HTTP2_FLAG_END_HEADERS)
          (if rest = [] then sid else sid AND HTTP2_MAX_STREAM_ID) first
        @ continuations (sid AND HTTP2_MAX_STREAM_ID) rest
    \<and> (if length block \<le> max_frame_size (remote s)
        then rest = [] \<and> split_block s (frame_header (length block) type flags sid @ block)
               = frame_header (length block) type flags sid @ block
        else rest \<noteq> [] \<and> length first = max_frame_size (remote s))"
proof (cases "length block \<le> max_frame_size (remote s)")
  case True
  then show ?thesis
    using split_block_fits [OF True] by (intro exI [of _ block] exI [of _ "[]"]) (simp add: whole_frame_def)
next
  case False
  define allowed where "allowed = max_frame_size (remote s)"
  have allowed: "0 < allowed" "allowed < length block" using assms False by (auto simp: allowed_def settings_ok_def)
  then have rest: "fragments allowed (drop allowed block) \<noteq> []"
    using fragments_simps(2) [of allowed "drop allowed block"] by simp
  then show ?thesis
    using split_block_larger [OF assms, of block] allowed concat_fragments [OF allowed(1), of "drop allowed block"]
      fragments_size [of allowed "drop allowed block"]
    by (intro exI [of _ "take allowed block"] exI [of _ "fragments allowed (drop allowed block)"])
      (use rest False in \<open>simp add: allowed_def\<close>)
qed

theorem split_reassembles_witness:
  "\<exists>first rest. first @ concat rest = [0x88, 0x84]
    \<and> list_all (\<lambda>f. length f \<le> max_frame_size (remote empty_session)) (first # rest)
    \<and> split_block empty_session (frame_header (length [0x88 :: byte, 0x84]) HTTP2_HEADERS 5 1 @ [0x88, 0x84]) =
        whole_frame HTTP2_HEADERS (if rest = [] then 5 else 5 AND NOT HTTP2_FLAG_END_HEADERS)
          (if rest = [] then 1 else 1 AND HTTP2_MAX_STREAM_ID) first
        @ continuations (1 AND HTTP2_MAX_STREAM_ID) rest
    \<and> (if length [0x88 :: byte, 0x84] \<le> max_frame_size (remote empty_session)
        then rest = [] \<and> split_block empty_session (frame_header (length [0x88 :: byte, 0x84]) HTTP2_HEADERS 5 1 @ [0x88, 0x84])
               = frame_header (length [0x88 :: byte, 0x84]) HTTP2_HEADERS 5 1 @ [0x88, 0x84]
        else rest \<noteq> [] \<and> length first = max_frame_size (remote empty_session))"
  by (rule split_reassembles) simp

end
