(* ===== verification/Http_Parser.thy ===== *)
theory Http_Parser
  imports Http_Request
begin

text \<open>
  The parser of HTTP/1.1 of \<^verbatim>\<open>src/src/viriatum/http/http_parser.c\<close>, built as every build of the
  repository builds it: \<^verbatim>\<open>HTTP_PARSER_STRICT\<close> is never defined, so \<^verbatim>\<open>STRICT_CHECK\<close> checks nothing.

  The record \<open>http_parser\<close> is the \<^verbatim>\<open>http_parser_t\<close>; \<open>scan\<close> holds the variables of
  \<^verbatim>\<open>process_data_http_parser\<close>, which are loaded from the structure when the function is entered
  and saved when its loop ends, never on an early return. A pointer into the received data is the
  block of memory it points into together with a position in it, so that a mark that outlived the
  block it points into can be told from one that has not. Every \<^verbatim>\<open>case\<close> of the loop is a function
  from the byte and the variables to the way it ends.

  A function that the code reaches through \<^verbatim>\<open>http_settings_t\<close> is an entry of the log of the calls;
  whether a callback is set and what \<^verbatim>\<open>on_headers_complete\<close> answers are functions of the calls
  made so far, as a handler may replace the callbacks while it is being called.
\<close>

section \<open>Data\<close>

definition CR :: byte where [simp]: "CR = 0x0d"
definition LF :: byte where [simp]: "LF = 0x0a"
definition SPACE :: byte where [simp]: "SPACE = 0x20"
definition TAB :: byte where [simp]: "TAB = 0x09"

definition HTTP_PROXY_CONNECTION :: bytes where "HTTP_PROXY_CONNECTION = ascii ''proxy-connection''"
definition HTTP_CONNECTION :: bytes where "HTTP_CONNECTION = ascii ''connection''"
definition HTTP_CONTENT_LENGTH :: bytes where "HTTP_CONTENT_LENGTH = ascii ''content-length''"
definition HTTP_TRANSFER_ENCODING :: bytes where "HTTP_TRANSFER_ENCODING = ascii ''transfer-encoding''"
definition HTTP_UPGRADE :: bytes where "HTTP_UPGRADE = ascii ''upgrade''"
definition HTTP_CHUNKED :: bytes where "HTTP_CHUNKED = ascii ''chunked''"
definition HTTP_KEEP_ALIVE :: bytes where "HTTP_KEEP_ALIVE = ascii ''keep-alive''"
definition HTTP_CLOSE :: bytes where "HTTP_CLOSE = ascii ''close''"

text \<open>The tables of 256 entries, whose upper half the sources leave to be zero.\<close>

definition tokens :: "byte list" where
  "tokens = replicate 32 0
     @ [0x20, 0x21, 0x22, 0x23, 0x24, 0x25, 0x26, 0x27, 0, 0, 0x2a, 0x2b, 0, 0x2d, 0x2e, 0x2f]
     @ ascii ''0123456789'' @ [0, 0, 0, 0, 0, 0]
     @ [0] @ ascii ''abcdefghijklmnopqrstuvwxyz'' @ [0, 0, 0, 0x5e, 0x5f]
     @ [0x60] @ ascii ''abcdefghijklmnopqrstuvwxyz'' @ [0, 0x7c, 0x7d, 0x7e, 0]
     @ replicate 128 0"

definition unhex :: "int list" where
  "unhex = replicate 48 (- 1) @ [0, 1, 2, 3, 4, 5, 6, 7, 8, 9, -1, -1, -1, -1, -1, -1]
     @ [-1, 10, 11, 12, 13, 14, 15] @ replicate 25 (- 1)
     @ [-1, 10, 11, 12, 13, 14, 15] @ replicate 25 (- 1)
     @ replicate 128 0"

definition normal_url_char :: "bool list" where
  "normal_url_char = replicate 32 False
     @ [False, True, True, False, True, True, True, True] @ replicate 23 True @ [False]
     @ replicate 63 True @ [False] @ replicate 128 False"

definition LOWER :: "byte \<Rightarrow> byte" where "LOWER b = b OR 0x20"
definition TOKEN :: "byte \<Rightarrow> byte" where "TOKEN b = tokens ! unat b"
definition IS_ALPHA :: "byte \<Rightarrow> bool" where "IS_ALPHA b \<longleftrightarrow> LOWER b \<ge> 0x61 \<and> LOWER b \<le> 0x7a"
definition IS_NUM :: "byte \<Rightarrow> bool" where "IS_NUM b \<longleftrightarrow> b \<ge> 0x30 \<and> b \<le> 0x39"
definition IS_ALPHANUM :: "byte \<Rightarrow> bool" where "IS_ALPHANUM b \<longleftrightarrow> IS_ALPHA b \<or> IS_NUM b"
definition IS_URL_CHAR :: "byte \<Rightarrow> bool" where "IS_URL_CHAR b \<longleftrightarrow> normal_url_char ! unat b \<or> b AND 0x80 \<noteq> 0"
definition IS_HOST_CHAR :: "byte \<Rightarrow> bool" where
  "IS_HOST_CHAR b \<longleftrightarrow> IS_ALPHANUM b \<or> b = 0x2e \<or> b = 0x2d \<or> b = 0x5f"

datatype http_request_type = HTTP_REQUEST | HTTP_RESPONSE | HTTP_BOTH

datatype http_parser_state =
    STATE_DEAD | STATE_START_REQ_OR_RES
  | STATE_RES_OR_RESP_H | STATE_START_RES | STATE_RES_H | STATE_RES_HT | STATE_RES_HTT | STATE_RES_HTTP
  | STATE_RES_FIRST_HTTP_MAJOR | STATE_RES_HTTP_MAJOR | STATE_RES_FIRST_HTTP_MINOR | STATE_RES_HTTP_MINOR
  | STATE_RES_FIRST_STATUS_CODE | STATE_RES_STATUS_CODE | STATE_RES_STATUS | STATE_RES_LINE_ALMOST_DONE
  | STATE_START_REQ | STATE_REQ_METHOD | STATE_REQ_SPACES_BEFORE_URL | STATE_REQ_SCHEMA
  | STATE_REQ_SCHEMA_SLASH | STATE_REQ_SCHEMA_SLASH_SLASH | STATE_REQ_HOST | STATE_REQ_PORT | STATE_REQ_PATH
  | STATE_REQ_QUERY_STRING_START | STATE_REQ_QUERY_STRING | STATE_REQ_FRAGMENT_START | STATE_REQ_FRAGMENT
  | STATE_REQ_HTTP_START | STATE_REQ_HTTP_H | STATE_REQ_HTTP_HT | STATE_REQ_HTTP_HTT | STATE_REQ_HTTP_HTTP
  | STATE_REQ_FIRST_HTTP_MAJOR | STATE_REQ_HTTP_MAJOR | STATE_REQ_FIRST_HTTP_MINOR | STATE_REQ_HTTP_MINOR
  | STATE_REQ_LINE_ALMOST_DONE
  | STATE_HEADER_FIELD_START | STATE_HEADER_FIELD | STATE_HEADER_VALUE_START | STATE_HEADER_VALUE
  | STATE_HEADER_VALUE_LWS | STATE_HEADER_ALMOST_DONE
  | STATE_CHUNK_SIZE_START | STATE_CHUNK_SIZE | STATE_CHUNK_PARAMETERS | STATE_CHUNK_SIZE_ALMOST_DONE
  | STATE_HEADERS_ALMOST_DONE
  | STATE_CHUNK_DATA | STATE_CHUNK_DATA_ALMOST_DONE | STATE_CHUNK_DATA_DONE
  | STATE_BODY_IDENTITY | STATE_BODY_IDENTITY_EOF

text \<open>The first value stands for the zero that the parser starts with, which the enumeration does not name.\<close>

datatype http_header_state =
    HEADER_STATE_UNSET
  | HEADER_STATE_GENERAL | HEADER_STATE_C | HEADER_STATE_CO | HEADER_STATE_CON
  | HEADER_STATE_MATCHING_CONNECTION | HEADER_STATE_MATCHING_PROXY_CONNECTION
  | HEADER_STATE_MATCHING_CONTENT_LENGTH | HEADER_STATE_MATCHING_TRANSFER_ENCODING
  | HEADER_STATE_MATCHING_UPGRADE
  | HEADER_STATE_CONNECTION | HEADER_STATE_CONTENT_LENGTH | HEADER_STATE_TRANSFER_ENCODING | HEADER_STATE_UPGRADE
  | HEADER_STATE_MATCHING_TRANSFER_ENCODING_CHUNKED | HEADER_STATE_MATCHING_CONNECTION_KEEP_ALIVE
  | HEADER_STATE_MATCHING_CONNECTION_CLOSE
  | HEADER_STATE_TRANSFER_ENCODING_CHUNKED | HEADER_STATE_CONNECTION_KEEP_ALIVE | HEADER_STATE_CONNECTION_CLOSE

text \<open>A pointer: the block of memory and the position in it.\<close>

type_synonym pointer = "nat \<times> nat"

record http_parser =
  parser_type :: http_request_type
  parser_flags :: byte
  parser_state :: http_parser_state
  parser_header_state :: http_header_state
  parser_index :: byte
  parser_read_count :: nat
  content_length :: int
  http_major :: nat
  http_minor :: nat
  status_code :: nat
  parser_method :: nat
  upgrade :: bool
  parser_request :: http_request
  parser_field_mark :: "pointer option"
  parser_value_mark :: "pointer option"
  parser_url_mark :: "pointer option"
  persistent_length :: nat

datatype http_callback =
    On_message_begin | On_url | On_line | On_header_field | On_header_value
  | On_headers_complete | On_body | On_message_complete

datatype http_call =
    Notify http_callback http_request
  | Hand http_callback http_request bytes

record http_settings =
  is_set :: "http_call list \<Rightarrow> http_callback \<Rightarrow> bool"
  on_headers_complete :: "http_call list \<Rightarrow> nat"

text \<open>
  What a call of \<^verbatim>\<open>process_data_http_parser\<close> reads: the block the data is in, the position at which
  it ends, and whether the build has the assertions on.
\<close>

record http_input =
  input_block :: nat
  input_buffer :: bytes
  input_end :: nat
  input_asserts :: bool

record scan =
  http_parser :: http_parser
  state :: http_parser_state
  header_state :: http_header_state
  index :: nat
  read_count :: nat
  header_field_mark :: "pointer option"
  header_value_mark :: "pointer option"
  url_mark :: "pointer option"
  parse_count :: nat
  calls :: "http_call list"

text \<open>
  How the handling of a byte ends: with the break of the switch, after skipping a number of bytes
  more than the one it handled, at the label of the errors, with a return that leaves the pointer at a position, with an assertion that
  fails, or with a read outside of the data.
\<close>

datatype outcome =
    Break scan
  | Skip scan nat
  | Error scan
  | Return scan nat
  | Abort scan
  | Wild scan

section \<open>Arithmetic of C\<close>

text \<open>An \<^verbatim>\<open>int\<close> wraps at 32 bits and an \<^verbatim>\<open>unsigned short\<close> at 16.\<close>

definition wrap_int :: "int \<Rightarrow> int" where "wrap_int x = (x + 2 ^ 31) mod 2 ^ 32 - 2 ^ 31"

definition wrap_short :: "nat \<Rightarrow> nat" where "wrap_short x = x mod 2 ^ 16"

definition digit :: "byte \<Rightarrow> nat" where "digit b = unat b - 0x30"

section \<open>The parser\<close>

definition http_should_keep_alive :: "http_parser \<Rightarrow> bool" where
  "http_should_keep_alive parser =
     (if http_major parser > 0 \<and> http_minor parser > 0
      then (if parser_flags parser AND FLAG_CLOSE \<noteq> 0 then False else True)
      else (if parser_flags parser AND FLAG_KEEP_ALIVE \<noteq> 0 then True else False))"

text \<open>The index is not initialised by the code, so it is an argument.\<close>

definition create_http_parser :: "byte \<Rightarrow> bool \<Rightarrow> http_parser" where
  "create_http_parser garbage request =
     \<lparr>parser_type = (if request then HTTP_REQUEST else HTTP_RESPONSE), parser_flags = 6,
      parser_state = (if request then STATE_START_REQ else STATE_START_RES),
      parser_header_state = HEADER_STATE_UNSET, parser_index = garbage, parser_read_count = 0,
      content_length = -1, http_major = 0, http_minor = 0, status_code = 0, parser_method = 0,
      upgrade = False, parser_request = create_http_request, parser_field_mark = None,
      parser_value_mark = None, parser_url_mark = None, persistent_length = 0\<rparr>"

definition update_request_http_parser :: "http_parser \<Rightarrow> http_parser" where
  "update_request_http_parser parser =
     (let request = (parser_request parser)
            \<lparr>request_version := get_http_version (http_major parser) (http_minor parser),
             request_method := parser_method parser, request_status_code := status_code parser,
             request_flags := parser_flags parser, request_content_length := persistent_length parser,
             request_trailers := parser_flags parser AND FLAG_TRAILING \<noteq> 0\<rparr>
      in parser\<lparr>parser_request :=
           (if http_should_keep_alive parser
            then request\<lparr>request_flags := request_flags request OR FLAG_KEEP_ALIVE\<rparr>
            else request\<lparr>request_flags := request_flags request AND NOT FLAG_KEEP_ALIVE\<rparr>)\<rparr>)"

definition update_parser :: "(http_parser \<Rightarrow> http_parser) \<Rightarrow> scan \<Rightarrow> scan" where
  "update_parser f sc = sc\<lparr>http_parser := f (http_parser sc)\<rparr>"

definition goto_state :: "http_parser_state \<Rightarrow> scan \<Rightarrow> scan" where
  "goto_state s sc = sc\<lparr>state := s\<rparr>"

definition http_callback :: "http_settings \<Rightarrow> http_callback \<Rightarrow> scan \<Rightarrow> scan" where
  "http_callback settings which sc =
     (if is_set settings (calls sc) which
      then let parser = update_request_http_parser (http_parser sc)
           in sc\<lparr>http_parser := parser, calls := calls sc @ [Notify which (parser_request parser)]\<rparr>
      else sc)"

text \<open>
  The data between a mark and the current position, which is no data at all when the mark points
  into a block that is not the one that is being read.
\<close>

definition marked :: "http_input \<Rightarrow> pointer \<Rightarrow> nat \<Rightarrow> bytes option" where
  "marked input mark position =
     (if fst mark = input_block input \<and> snd mark \<le> position \<and> position \<le> length (input_buffer input)
      then Some (take (position - snd mark) (drop (snd mark) (input_buffer input)))
      else None)"

definition http_callback_data ::
    "http_settings \<Rightarrow> http_input \<Rightarrow> http_callback \<Rightarrow> pointer option \<Rightarrow> nat \<Rightarrow> scan \<Rightarrow> scan option" where
  "http_callback_data settings input which mark position sc =
     (case mark of
        None \<Rightarrow> Some sc
      | Some m \<Rightarrow>
          if is_set settings (calls sc) which
          then let parser = update_request_http_parser (http_parser sc)
               in map_option (\<lambda>data. sc\<lparr>http_parser := parser,
                    calls := calls sc @ [Hand which (parser_request parser) data]\<rparr>) (marked input m position)
          else Some sc)"

definition callback_field :: "http_settings \<Rightarrow> http_input \<Rightarrow> nat \<Rightarrow> scan \<Rightarrow> scan option" where
  "callback_field settings input position sc =
     map_option (\<lambda>sc. sc\<lparr>header_field_mark := None\<rparr>)
       (http_callback_data settings input On_header_field (header_field_mark sc) position sc)"

definition callback_value :: "http_settings \<Rightarrow> http_input \<Rightarrow> nat \<Rightarrow> scan \<Rightarrow> scan option" where
  "callback_value settings input position sc =
     map_option (\<lambda>sc. sc\<lparr>header_value_mark := None\<rparr>)
       (http_callback_data settings input On_header_value (header_value_mark sc) position sc)"

definition callback_url :: "http_settings \<Rightarrow> http_input \<Rightarrow> nat \<Rightarrow> scan \<Rightarrow> scan option" where
  "callback_url settings input position sc =
     (case url_mark sc of
        None \<Rightarrow> Some sc
      | Some m \<Rightarrow>
          (case marked input m position of
             None \<Rightarrow> None
           | Some data \<Rightarrow>
               map_option (\<lambda>sc. sc\<lparr>url_mark := None\<rparr>)
                 (http_callback_data settings input On_url (url_mark sc) position
                   (update_parser (\<lambda>p. p\<lparr>parser_request := append_path_http_request (parser_request p) data\<rparr>) sc))))"

text \<open>What follows a callback with data, unless its mark was not to be read.\<close>

definition after :: "scan option \<Rightarrow> scan \<Rightarrow> (scan \<Rightarrow> outcome) \<Rightarrow> outcome" where
  "after called sc f = (case called of None \<Rightarrow> Wild sc | Some sc' \<Rightarrow> f sc')"

definition start_state :: "http_parser \<Rightarrow> http_parser_state" where
  "start_state parser = (if parser_type parser = HTTP_REQUEST then STATE_START_REQ else STATE_START_RES)"

text \<open>The end of a message: the callback, the state of the start and the count of the messages.\<close>

definition new_message :: "http_settings \<Rightarrow> scan \<Rightarrow> scan" where
  "new_message settings sc =
     (let sc = http_callback settings On_message_complete sc
      in sc\<lparr>state := start_state (http_parser sc), parse_count := parse_count sc + 1\<rparr>)"

definition begin_message :: "http_settings \<Rightarrow> scan \<Rightarrow> scan" where
  "begin_message settings sc =
     http_callback settings On_message_begin
       (update_parser (\<lambda>p. p\<lparr>parser_flags := 0, content_length := -1,
          parser_request := reset_http_request (parser_request p)\<rparr>) sc)"

definition end_line :: "http_settings \<Rightarrow> scan \<Rightarrow> scan" where
  "end_line settings sc = goto_state STATE_HEADER_FIELD_START (http_callback settings On_line sc)"

definition set_method :: "nat \<Rightarrow> scan \<Rightarrow> scan" where
  "set_method m sc = update_parser (\<lambda>p. p\<lparr>parser_method := m\<rparr>) sc"

section \<open>The request line: the method\<close>

definition first_method :: "byte \<Rightarrow> nat option" where
  "first_method b =
     (if b = 0x43 then Some HTTP_CONNECT else if b = 0x44 then Some HTTP_DELETE
      else if b = 0x47 then Some HTTP_GET else if b = 0x48 then Some HTTP_HEAD
      else if b = 0x4c then Some HTTP_LOCK else if b = 0x4d then Some HTTP_MKCOL
      else if b = 0x4e then Some HTTP_NOTIFY else if b = 0x4f then Some HTTP_OPTIONS
      else if b = 0x50 then Some HTTP_POST else if b = 0x52 then Some HTTP_REPORT
      else if b = 0x53 then Some HTTP_SUBSCRIBE else if b = 0x54 then Some HTTP_TRACE
      else if b = 0x55 then Some HTTP_UNLOCK else None)"

definition start_req_method_assign :: "byte \<Rightarrow> scan \<Rightarrow> outcome" where
  "start_req_method_assign b sc =
     (let sc = set_method 0 (sc\<lparr>index := 1\<rparr>)
      in case first_method b of
           None \<Rightarrow> Error sc
         | Some m \<Rightarrow> Break (goto_state STATE_REQ_METHOD (set_method m sc)))"

definition start_req :: "http_settings \<Rightarrow> byte \<Rightarrow> scan \<Rightarrow> outcome" where
  "start_req settings b sc =
     (if b = CR \<or> b = LF then Break sc
      else let sc = begin_message settings sc
           in if \<not> IS_ALPHA b then Error sc else start_req_method_assign b sc)"

text \<open>The character of a string of the sources at an index, the terminator included.\<close>

definition char_at :: "bytes \<Rightarrow> nat \<Rightarrow> byte" where "char_at s i = (s @ [0]) ! i"

definition other_method :: "nat \<Rightarrow> nat \<Rightarrow> byte \<Rightarrow> nat option" where
  "other_method method i b =
     (if method = HTTP_CONNECT then
        (if i = 1 \<and> b = 0x48 then Some HTTP_CHECKOUT
         else if i = 2 \<and> b = 0x50 then Some HTTP_COPY else None)
      else if method = HTTP_MKCOL then
        (if i = 1 \<and> b = 0x4f then Some HTTP_MOVE
         else if i = 1 \<and> b = 0x45 then Some HTTP_MERGE
         else if i = 1 \<and> b = 0x2d then Some HTTP_MSEARCH
         else if i = 2 \<and> b = 0x41 then Some HTTP_MKACTIVITY else None)
      else if i = 1 \<and> method = HTTP_POST then
        (if b = 0x52 then Some HTTP_PROPFIND else if b = 0x55 then Some HTTP_PUT
         else if b = 0x41 then Some HTTP_PATCH else None)
      else if i = 2 \<and> method = HTTP_UNLOCK \<and> b = 0x53 then Some HTTP_UNSUBSCRIBE
      else if i = 4 \<and> method = HTTP_PROPFIND \<and> b = 0x50 then Some HTTP_PROPPATCH
      else None)"

definition req_method :: "byte \<Rightarrow> scan \<Rightarrow> outcome" where
  "req_method b sc =
     (if b = 0 then Error sc
      else
        let method = parser_method (http_parser sc); matcher = http_method_strings ! (method - 1);
            next = (\<lambda>sc. Break (sc\<lparr>index := index sc + 1\<rparr>))
        in if b = SPACE \<and> char_at matcher (index sc) = 0 then next (goto_state STATE_REQ_SPACES_BEFORE_URL sc)
           else if b = char_at matcher (index sc) then next sc
           else case other_method method (index sc) b of None \<Rightarrow> Error sc | Some m \<Rightarrow> next (set_method m sc))"

section \<open>The request line: the target\<close>

definition spaces_before_url :: "http_input \<Rightarrow> nat \<Rightarrow> byte \<Rightarrow> scan \<Rightarrow> outcome" where
  "spaces_before_url input position b sc =
     (if b = SPACE then Break sc
      else
        let connect = parser_method (http_parser sc) = HTTP_CONNECT;
            sc' = sc\<lparr>url_mark := Some (input_block input, position)\<rparr>
        in if b = 0x2f \<or> b = 0x2a then Break (goto_state STATE_REQ_PATH sc')
           else if IS_ALPHA b \<or> connect \<and> IS_NUM b
           then Break (goto_state (if connect then STATE_REQ_HOST else STATE_REQ_SCHEMA) sc')
           else Error sc)"

text \<open>The ends of a target: a space before the version, or the end of a line that has no version.\<close>

definition url_then_version :: "http_settings \<Rightarrow> http_input \<Rightarrow> nat \<Rightarrow> scan \<Rightarrow> outcome" where
  "url_then_version settings input position sc =
     after (callback_url settings input position sc) sc (\<lambda>sc. Break (goto_state STATE_REQ_HTTP_START sc))"

definition old_version :: "scan \<Rightarrow> scan" where
  "old_version sc = update_parser (\<lambda>p. p\<lparr>http_major := 0, http_minor := 9\<rparr>) sc"

definition url_end :: "http_settings \<Rightarrow> http_input \<Rightarrow> nat \<Rightarrow> byte \<Rightarrow> scan \<Rightarrow> outcome option" where
  "url_end settings input position b sc =
     (if b = SPACE then Some (url_then_version settings input position sc)
      else if b = CR then
        Some (after (callback_url settings input position sc) sc
               (\<lambda>sc. Break (goto_state STATE_REQ_LINE_ALMOST_DONE (old_version sc))))
      else if b = LF then
        Some (after (callback_url settings input position sc) sc (\<lambda>sc. Break (end_line settings (old_version sc))))
      else None)"

definition req_schema :: "byte \<Rightarrow> scan \<Rightarrow> outcome" where
  "req_schema b sc =
     (if IS_ALPHA b then Break sc
      else if b = 0x3a then Break (goto_state STATE_REQ_SCHEMA_SLASH sc)
      else Error sc)"

definition req_host :: "http_settings \<Rightarrow> http_input \<Rightarrow> nat \<Rightarrow> byte \<Rightarrow> scan \<Rightarrow> outcome" where
  "req_host settings input position b sc =
     (if IS_HOST_CHAR b then Break sc
      else if b = 0x3a then Break (goto_state STATE_REQ_PORT sc)
      else if b = 0x2f then Break (goto_state STATE_REQ_PATH sc)
      else if b = SPACE then url_then_version settings input position sc
      else if b = 0x3f then Break (goto_state STATE_REQ_QUERY_STRING_START sc)
      else Error sc)"

definition req_port :: "http_settings \<Rightarrow> http_input \<Rightarrow> nat \<Rightarrow> byte \<Rightarrow> scan \<Rightarrow> outcome" where
  "req_port settings input position b sc =
     (if IS_NUM b then Break sc
      else if b = 0x2f then Break (goto_state STATE_REQ_PATH sc)
      else if b = SPACE then url_then_version settings input position sc
      else if b = 0x3f then Break (goto_state STATE_REQ_QUERY_STRING_START sc)
      else Error sc)"

definition req_path :: "http_settings \<Rightarrow> http_input \<Rightarrow> nat \<Rightarrow> byte \<Rightarrow> scan \<Rightarrow> outcome" where
  "req_path settings input position b sc =
     (if IS_URL_CHAR b then Break sc
      else case url_end settings input position b sc of
             Some out \<Rightarrow> out
           | None \<Rightarrow>
               if b = 0x3f then Break (goto_state STATE_REQ_QUERY_STRING_START sc)
               else if b = 0x23 then Break (goto_state STATE_REQ_FRAGMENT_START sc)
               else Error sc)"

definition req_query_string_start :: "http_settings \<Rightarrow> http_input \<Rightarrow> nat \<Rightarrow> byte \<Rightarrow> scan \<Rightarrow> outcome" where
  "req_query_string_start settings input position b sc =
     (if IS_URL_CHAR b then Break (goto_state STATE_REQ_QUERY_STRING sc)
      else if b = 0x3f then Break sc
      else case url_end settings input position b sc of
             Some out \<Rightarrow> out
           | None \<Rightarrow> if b = 0x23 then Break (goto_state STATE_REQ_FRAGMENT_START sc) else Error sc)"

definition req_query_string :: "http_settings \<Rightarrow> http_input \<Rightarrow> nat \<Rightarrow> byte \<Rightarrow> scan \<Rightarrow> outcome" where
  "req_query_string settings input position b sc =
     (if IS_URL_CHAR b then Break sc
      else if b = 0x3f then Break sc
      else case url_end settings input position b sc of
             Some out \<Rightarrow> out
           | None \<Rightarrow> if b = 0x23 then Break (goto_state STATE_REQ_FRAGMENT_START sc) else Error sc)"

definition req_fragment_start :: "http_settings \<Rightarrow> http_input \<Rightarrow> nat \<Rightarrow> byte \<Rightarrow> scan \<Rightarrow> outcome" where
  "req_fragment_start settings input position b sc =
     (if IS_URL_CHAR b then Break (goto_state STATE_REQ_FRAGMENT sc)
      else case url_end settings input position b sc of
             Some out \<Rightarrow> out
           | None \<Rightarrow>
               if b = 0x3f then Break (goto_state STATE_REQ_FRAGMENT sc)
               else if b = 0x23 then Break sc
               else Error sc)"

definition req_fragment :: "http_settings \<Rightarrow> http_input \<Rightarrow> nat \<Rightarrow> byte \<Rightarrow> scan \<Rightarrow> outcome" where
  "req_fragment settings input position b sc =
     (if IS_URL_CHAR b then Break sc
      else case url_end settings input position b sc of
             Some out \<Rightarrow> out
           | None \<Rightarrow> if b = 0x3f \<or> b = 0x23 then Break sc else Error sc)"

section \<open>The version\<close>

definition req_http_start :: "byte \<Rightarrow> scan \<Rightarrow> outcome" where
  "req_http_start b sc =
     (if b = 0x48 then Break (goto_state STATE_REQ_HTTP_H sc) else if b = SPACE then Break sc else Error sc)"

definition first_http_major :: "http_parser_state \<Rightarrow> byte \<Rightarrow> scan \<Rightarrow> outcome" where
  "first_http_major next b sc =
     (if b < 0x31 \<or> b > 0x39 then Error sc
      else Break (goto_state next (update_parser (\<lambda>p. p\<lparr>http_major := digit b\<rparr>) sc)))"

definition next_http_major :: "http_parser_state \<Rightarrow> byte \<Rightarrow> scan \<Rightarrow> outcome" where
  "next_http_major next b sc =
     (if b = 0x2e then Break (goto_state next sc)
      else if \<not> IS_NUM b then Error sc
      else
        let sc = update_parser (\<lambda>p. p\<lparr>http_major := wrap_short (http_major p * 10 + digit b)\<rparr>) sc
        in if http_major (http_parser sc) > 999 then Error sc else Break sc)"

definition first_http_minor :: "http_parser_state \<Rightarrow> byte \<Rightarrow> scan \<Rightarrow> outcome" where
  "first_http_minor next b sc =
     (if \<not> IS_NUM b then Error sc
      else Break (goto_state next (update_parser (\<lambda>p. p\<lparr>http_minor := digit b\<rparr>) sc)))"

definition next_http_minor :: "byte \<Rightarrow> scan \<Rightarrow> outcome" where
  "next_http_minor b sc =
     (if \<not> IS_NUM b then Error sc
      else
        let sc = update_parser (\<lambda>p. p\<lparr>http_minor := wrap_short (http_minor p * 10 + digit b)\<rparr>) sc
        in if http_minor (http_parser sc) > 999 then Error sc else Break sc)"

definition req_http_minor :: "http_settings \<Rightarrow> byte \<Rightarrow> scan \<Rightarrow> outcome" where
  "req_http_minor settings b sc =
     (if b = CR then Break (goto_state STATE_REQ_LINE_ALMOST_DONE sc)
      else if b = LF then Break (end_line settings sc)
      else next_http_minor b sc)"

definition req_line_almost_done :: "http_settings \<Rightarrow> byte \<Rightarrow> scan \<Rightarrow> outcome" where
  "req_line_almost_done settings b sc = (if b \<noteq> LF then Error sc else Break (end_line settings sc))"

section \<open>The line of a response\<close>

definition res_or_resp_h :: "byte \<Rightarrow> scan \<Rightarrow> outcome" where
  "res_or_resp_h b sc =
     (if b = 0x54 then Break (goto_state STATE_RES_HT (update_parser (\<lambda>p. p\<lparr>parser_type := HTTP_RESPONSE\<rparr>) sc))
      else if b \<noteq> 0x45 then Error sc
      else Break (goto_state STATE_REQ_METHOD
             (update_parser (\<lambda>p. p\<lparr>parser_type := HTTP_REQUEST, parser_method := HTTP_HEAD\<rparr>) (sc\<lparr>index := 2\<rparr>))))"

definition start_req_or_res :: "http_settings \<Rightarrow> byte \<Rightarrow> scan \<Rightarrow> outcome" where
  "start_req_or_res settings b sc =
     (if b = CR \<or> b = LF then Break sc
      else let sc = begin_message settings sc
           in if b = 0x48 then Break (goto_state STATE_RES_OR_RESP_H sc)
              else start_req_method_assign b (update_parser (\<lambda>p. p\<lparr>parser_type := HTTP_REQUEST\<rparr>) sc))"

definition start_res :: "http_settings \<Rightarrow> byte \<Rightarrow> scan \<Rightarrow> outcome" where
  "start_res settings b sc =
     (let sc = begin_message settings sc
      in if b = 0x48 then Break (goto_state STATE_RES_H sc)
         else if b = CR \<or> b = LF then Break sc
         else Error sc)"

definition res_http_minor :: "byte \<Rightarrow> scan \<Rightarrow> outcome" where
  "res_http_minor b sc =
     (if b = SPACE then Break (goto_state STATE_RES_FIRST_STATUS_CODE sc) else next_http_minor b sc)"

definition res_first_status_code :: "byte \<Rightarrow> scan \<Rightarrow> outcome" where
  "res_first_status_code b sc =
     (if \<not> IS_NUM b then (if b = SPACE then Break sc else Error sc)
      else Break (goto_state STATE_RES_STATUS_CODE (update_parser (\<lambda>p. p\<lparr>status_code := digit b\<rparr>) sc)))"

definition res_status_code :: "http_settings \<Rightarrow> byte \<Rightarrow> scan \<Rightarrow> outcome" where
  "res_status_code settings b sc =
     (if \<not> IS_NUM b then
        (if b = SPACE then Break (goto_state STATE_RES_STATUS sc)
         else if b = CR then Break (goto_state STATE_RES_LINE_ALMOST_DONE sc)
         else if b = LF then Break (end_line settings sc)
         else Error sc)
      else
        let sc = update_parser (\<lambda>p. p\<lparr>status_code := wrap_short (status_code p * 10 + digit b)\<rparr>) sc
        in if status_code (http_parser sc) > 999 then Error sc else Break sc)"

definition res_status :: "http_settings \<Rightarrow> byte \<Rightarrow> scan \<Rightarrow> outcome" where
  "res_status settings b sc =
     (if b = CR then Break (goto_state STATE_RES_LINE_ALMOST_DONE sc)
      else if b = LF then Break (end_line settings sc)
      else Break sc)"

section \<open>The end of the headers\<close>

text \<open>The size of the payload decides how the message goes on once its headers are over.\<close>

definition payload_follows :: "http_settings \<Rightarrow> scan \<Rightarrow> outcome" where
  "payload_follows settings sc =
     (let parser = http_parser sc
      in if parser_flags parser AND FLAG_SKIPBODY \<noteq> 0 then Break (new_message settings sc)
         else if parser_flags parser AND FLAG_CHUNKED \<noteq> 0 then Break (goto_state STATE_CHUNK_SIZE_START sc)
         else if content_length parser = 0 then Break (new_message settings sc)
         else if content_length parser > 0
         then Break (update_parser (\<lambda>p. p\<lparr>persistent_length := nat (content_length p)\<rparr>)
                (goto_state STATE_BODY_IDENTITY sc))
         else if parser_type parser = HTTP_REQUEST \<or> http_should_keep_alive parser
         then Break (new_message settings sc)
         else Break (goto_state STATE_BODY_IDENTITY_EOF sc))"

text \<open>The call of the handler, whose answer may tell that the message has no body.\<close>

definition announce_headers :: "http_settings \<Rightarrow> scan \<Rightarrow> scan" where
  "announce_headers settings sc =
     (let parser = update_request_http_parser ((http_parser sc)
            \<lparr>persistent_length := (if content_length (http_parser sc) > 0 then nat (content_length (http_parser sc)) else 0)\<rparr>)
      in sc\<lparr>http_parser := parser, calls := calls sc @ [Notify On_headers_complete (parser_request parser)]\<rparr>)"

definition after_headers :: "http_settings \<Rightarrow> nat \<Rightarrow> scan \<Rightarrow> outcome" where
  "after_headers settings position sc =
     (if upgrade (http_parser sc)
      then Return (http_callback settings On_message_complete sc) (position + 1)
      else payload_follows settings sc)"

definition headers_almost_done :: "http_settings \<Rightarrow> nat \<Rightarrow> byte \<Rightarrow> scan \<Rightarrow> outcome" where
  "headers_almost_done settings position b sc =
     (if parser_flags (http_parser sc) AND FLAG_TRAILING \<noteq> 0 then Break (new_message settings sc)
      else
        let sc = sc\<lparr>read_count := 0\<rparr>;
            sc = (if parser_flags (http_parser sc) AND FLAG_UPGRADE \<noteq> 0 \<or> parser_method (http_parser sc) = HTTP_CONNECT
                  then update_parser (\<lambda>p. p\<lparr>upgrade := True\<rparr>) sc else sc)
        in if is_set settings (calls sc) On_headers_complete
           then
             let sc = announce_headers settings sc; answer = on_headers_complete settings (calls sc)
             in if answer = 0 then after_headers settings position sc
                else if answer = 1
                then after_headers settings position
                       (update_parser (\<lambda>p. p\<lparr>parser_flags := parser_flags p OR FLAG_SKIPBODY\<rparr>) sc)
                else Return (update_parser (\<lambda>p. p\<lparr>parser_state := state sc\<rparr>) sc) position
           else after_headers settings position sc)"

section \<open>The headers\<close>

definition header_field_start :: "http_settings \<Rightarrow> http_input \<Rightarrow> nat \<Rightarrow> byte \<Rightarrow> scan \<Rightarrow> outcome" where
  "header_field_start settings input position b sc =
     (if b = CR then Break (goto_state STATE_HEADERS_ALMOST_DONE sc)
      else if b = LF then headers_almost_done settings position b (goto_state STATE_HEADERS_ALMOST_DONE sc)
      else if TOKEN b = 0 then Error sc
      else Break (goto_state STATE_HEADER_FIELD
             (sc\<lparr>header_field_mark := Some (input_block input, position), index := 0,
                header_state :=
                  (if TOKEN b = 0x63 then HEADER_STATE_C
                   else if TOKEN b = 0x70 then HEADER_STATE_MATCHING_PROXY_CONNECTION
                   else if TOKEN b = 0x74 then HEADER_STATE_MATCHING_TRANSFER_ENCODING
                   else if TOKEN b = 0x75 then HEADER_STATE_MATCHING_UPGRADE
                   else HEADER_STATE_GENERAL)\<rparr>)))"

text \<open>One more character of a name or of a value that is being compared with a string.\<close>

definition matching :: "bytes \<Rightarrow> http_header_state \<Rightarrow> byte \<Rightarrow> scan \<Rightarrow> scan" where
  "matching name matched token sc =
     (let i = index sc + 1; sc = sc\<lparr>index := i\<rparr>
      in if i > length name \<or> token \<noteq> char_at name i then sc\<lparr>header_state := HEADER_STATE_GENERAL\<rparr>
         else if i = length name - 1 then sc\<lparr>header_state := matched\<rparr>
         else sc)"

definition field_token :: "http_input \<Rightarrow> byte \<Rightarrow> byte \<Rightarrow> scan \<Rightarrow> outcome" where
  "field_token input b token sc =
     (let step = sc\<lparr>index := index sc + 1\<rparr>
      in case header_state sc of
           HEADER_STATE_GENERAL \<Rightarrow> Break sc
         | HEADER_STATE_C \<Rightarrow>
             Break (step\<lparr>header_state := (if token = 0x6f then HEADER_STATE_CO else HEADER_STATE_GENERAL)\<rparr>)
         | HEADER_STATE_CO \<Rightarrow>
             Break (step\<lparr>header_state := (if token = 0x6e then HEADER_STATE_CON else HEADER_STATE_GENERAL)\<rparr>)
         | HEADER_STATE_CON \<Rightarrow>
             Break (step\<lparr>header_state :=
               (if token = 0x6e then HEADER_STATE_MATCHING_CONNECTION
                else if token = 0x74 then HEADER_STATE_MATCHING_CONTENT_LENGTH
                else HEADER_STATE_GENERAL)\<rparr>)
         | HEADER_STATE_MATCHING_CONNECTION \<Rightarrow> Break (matching HTTP_CONNECTION HEADER_STATE_CONNECTION token sc)
         | HEADER_STATE_MATCHING_PROXY_CONNECTION \<Rightarrow>
             Break (matching HTTP_PROXY_CONNECTION HEADER_STATE_CONNECTION token sc)
         | HEADER_STATE_MATCHING_CONTENT_LENGTH \<Rightarrow>
             Break (matching HTTP_CONTENT_LENGTH HEADER_STATE_CONTENT_LENGTH token sc)
         | HEADER_STATE_MATCHING_TRANSFER_ENCODING \<Rightarrow>
             Break (matching HTTP_TRANSFER_ENCODING HEADER_STATE_TRANSFER_ENCODING token sc)
         | HEADER_STATE_MATCHING_UPGRADE \<Rightarrow> Break (matching HTTP_UPGRADE HEADER_STATE_UPGRADE token sc)
         | HEADER_STATE_CONNECTION \<Rightarrow> Break (if b \<noteq> SPACE then sc\<lparr>header_state := HEADER_STATE_GENERAL\<rparr> else sc)
         | HEADER_STATE_CONTENT_LENGTH \<Rightarrow> Break (if b \<noteq> SPACE then sc\<lparr>header_state := HEADER_STATE_GENERAL\<rparr> else sc)
         | HEADER_STATE_TRANSFER_ENCODING \<Rightarrow> Break (if b \<noteq> SPACE then sc\<lparr>header_state := HEADER_STATE_GENERAL\<rparr> else sc)
         | HEADER_STATE_UPGRADE \<Rightarrow> Break (if b \<noteq> SPACE then sc\<lparr>header_state := HEADER_STATE_GENERAL\<rparr> else sc)
         | _ \<Rightarrow> if input_asserts input then Abort sc else Break sc)"

definition header_field :: "http_settings \<Rightarrow> http_input \<Rightarrow> nat \<Rightarrow> byte \<Rightarrow> scan \<Rightarrow> outcome" where
  "header_field settings input position b sc =
     (if TOKEN b \<noteq> 0 then field_token input b (TOKEN b) sc
      else if b = 0x3a then
        after (callback_field settings input position sc) sc (\<lambda>sc. Break (goto_state STATE_HEADER_VALUE_START sc))
      else if b = CR then
        after (callback_field settings input position (goto_state STATE_HEADER_ALMOST_DONE sc)) sc Break
      else if b = LF then
        after (callback_field settings input position sc) sc (\<lambda>sc. Break (goto_state STATE_HEADER_FIELD_START sc))
      else Error sc)"

text \<open>The first character of a value decides what the value is going to be compared with.\<close>

definition first_value :: "byte \<Rightarrow> scan \<Rightarrow> outcome" where
  "first_value b sc =
     (case header_state sc of
        HEADER_STATE_UPGRADE \<Rightarrow>
          Break (update_parser (\<lambda>p. p\<lparr>parser_flags := parser_flags p OR FLAG_UPGRADE\<rparr>)
            (sc\<lparr>header_state := HEADER_STATE_GENERAL\<rparr>))
      | HEADER_STATE_TRANSFER_ENCODING \<Rightarrow>
          Break (sc\<lparr>header_state := (if LOWER b = 0x63 then HEADER_STATE_MATCHING_TRANSFER_ENCODING_CHUNKED
                                    else HEADER_STATE_GENERAL)\<rparr>)
      | HEADER_STATE_CONTENT_LENGTH \<Rightarrow>
          if \<not> IS_NUM b then Error sc
          else Break (update_parser (\<lambda>p. p\<lparr>content_length := int (digit b)\<rparr>) sc)
      | HEADER_STATE_CONNECTION \<Rightarrow>
          Break (sc\<lparr>header_state := (if LOWER b = 0x6b then HEADER_STATE_MATCHING_CONNECTION_KEEP_ALIVE
                                    else if LOWER b = 0x63 then HEADER_STATE_MATCHING_CONNECTION_CLOSE
                                    else HEADER_STATE_GENERAL)\<rparr>)
      | _ \<Rightarrow> Break (sc\<lparr>header_state := HEADER_STATE_GENERAL\<rparr>))"

definition header_value_start :: "http_settings \<Rightarrow> http_input \<Rightarrow> nat \<Rightarrow> byte \<Rightarrow> scan \<Rightarrow> outcome" where
  "header_value_start settings input position b sc =
     (if b = SPACE \<or> b = TAB then Break sc
      else
        let sc = sc\<lparr>header_value_mark := Some (input_block input, position), state := STATE_HEADER_VALUE, index := 0\<rparr>
        in if b = CR then
             after (callback_value settings input position sc) sc
               (\<lambda>sc. Break (goto_state STATE_HEADER_ALMOST_DONE (sc\<lparr>header_state := HEADER_STATE_GENERAL\<rparr>)))
           else if b = LF then
             after (callback_value settings input position sc) sc (\<lambda>sc. Break (goto_state STATE_HEADER_FIELD_START sc))
           else first_value b sc)"

definition header_almost_done :: "scan \<Rightarrow> outcome" where
  "header_almost_done sc =
     (let sc = goto_state STATE_HEADER_VALUE_LWS sc; raise = (\<lambda>f. update_parser (\<lambda>p. p\<lparr>parser_flags := parser_flags p OR f\<rparr>) sc)
      in case header_state sc of
           HEADER_STATE_CONNECTION_KEEP_ALIVE \<Rightarrow> Break (raise FLAG_KEEP_ALIVE)
         | HEADER_STATE_CONNECTION_CLOSE \<Rightarrow> Break (raise FLAG_CLOSE)
         | HEADER_STATE_TRANSFER_ENCODING_CHUNKED \<Rightarrow> Break (raise FLAG_CHUNKED)
         | _ \<Rightarrow> Break sc)"

definition value_char :: "http_input \<Rightarrow> byte \<Rightarrow> scan \<Rightarrow> outcome" where
  "value_char input b sc =
     (case header_state sc of
        HEADER_STATE_GENERAL \<Rightarrow> Break sc
      | HEADER_STATE_CONNECTION \<Rightarrow> if input_asserts input then Abort sc else Break sc
      | HEADER_STATE_TRANSFER_ENCODING \<Rightarrow> if input_asserts input then Abort sc else Break sc
      | HEADER_STATE_CONTENT_LENGTH \<Rightarrow>
          if b = SPACE then Break sc
          else if \<not> IS_NUM b then Error sc
          else Break (update_parser
                 (\<lambda>p. p\<lparr>content_length := wrap_int (wrap_int (content_length p * 10) + int (digit b))\<rparr>) sc)
      | HEADER_STATE_MATCHING_TRANSFER_ENCODING_CHUNKED \<Rightarrow>
          Break (matching HTTP_CHUNKED HEADER_STATE_TRANSFER_ENCODING_CHUNKED (LOWER b) sc)
      | HEADER_STATE_MATCHING_CONNECTION_KEEP_ALIVE \<Rightarrow>
          Break (matching HTTP_KEEP_ALIVE HEADER_STATE_CONNECTION_KEEP_ALIVE (LOWER b) sc)
      | HEADER_STATE_MATCHING_CONNECTION_CLOSE \<Rightarrow>
          Break (matching HTTP_CLOSE HEADER_STATE_CONNECTION_CLOSE (LOWER b) sc)
      | HEADER_STATE_TRANSFER_ENCODING_CHUNKED \<Rightarrow>
          Break (if b \<noteq> SPACE then sc\<lparr>header_state := HEADER_STATE_GENERAL\<rparr> else sc)
      | HEADER_STATE_CONNECTION_KEEP_ALIVE \<Rightarrow>
          Break (if b \<noteq> SPACE then sc\<lparr>header_state := HEADER_STATE_GENERAL\<rparr> else sc)
      | HEADER_STATE_CONNECTION_CLOSE \<Rightarrow>
          Break (if b \<noteq> SPACE then sc\<lparr>header_state := HEADER_STATE_GENERAL\<rparr> else sc)
      | _ \<Rightarrow> Break (sc\<lparr>state := STATE_HEADER_VALUE, header_state := HEADER_STATE_GENERAL\<rparr>))"

definition header_value :: "http_settings \<Rightarrow> http_input \<Rightarrow> nat \<Rightarrow> byte \<Rightarrow> scan \<Rightarrow> outcome" where
  "header_value settings input position b sc =
     (if b = CR then
        after (callback_value settings input position sc) sc (\<lambda>sc. Break (goto_state STATE_HEADER_ALMOST_DONE sc))
      else if b = LF then after (callback_value settings input position sc) sc header_almost_done
      else value_char input b sc)"

definition header_value_lws :: "http_settings \<Rightarrow> http_input \<Rightarrow> nat \<Rightarrow> byte \<Rightarrow> scan \<Rightarrow> outcome" where
  "header_value_lws settings input position b sc =
     (if b = SPACE \<or> b = TAB then Break (goto_state STATE_HEADER_VALUE_START sc)
      else header_field_start settings input position b (goto_state STATE_HEADER_FIELD_START sc))"

section \<open>The payload\<close>

text \<open>
  The call with a part of the payload: the size is a \<^verbatim>\<open>size_t\<close>, so that a negative length is a
  size that no data has.
\<close>

definition call_body :: "http_settings \<Rightarrow> http_input \<Rightarrow> nat \<Rightarrow> nat \<Rightarrow> scan \<Rightarrow> scan option" where
  "call_body settings input position n sc =
     (if \<not> is_set settings (calls sc) On_body then Some sc
      else if position + n \<le> length (input_buffer input)
      then Some (sc\<lparr>calls := calls sc @
             [Hand On_body (parser_request (http_parser sc)) (take n (drop position (input_buffer input)))]\<rparr>)
      else None)"

definition body_identity :: "http_settings \<Rightarrow> http_input \<Rightarrow> nat \<Rightarrow> scan \<Rightarrow> outcome" where
  "body_identity settings input position sc =
     (let to_read = min (int (input_end input - position)) (content_length (http_parser sc))
      in if to_read < 0 then Wild sc
         else if to_read > 0 then
           after (call_body settings input position (nat to_read) sc) sc (\<lambda>sc.
             let sc = update_parser (\<lambda>p. p\<lparr>content_length := content_length p - to_read\<rparr>) sc
             in Skip (if content_length (http_parser sc) = 0 then new_message settings sc else sc) (nat to_read - 1))
         else Break sc)"

definition body_identity_eof :: "http_settings \<Rightarrow> http_input \<Rightarrow> nat \<Rightarrow> scan \<Rightarrow> outcome" where
  "body_identity_eof settings input position sc =
     (let to_read = input_end input - position
      in after (call_body settings input position to_read sc) sc (\<lambda>sc. Skip sc (to_read - 1)))"

text \<open>The assertions of a chunk, on the count that nothing increments and on the flag.\<close>

definition chunk_asserted :: "http_input \<Rightarrow> scan \<Rightarrow> bool" where
  "chunk_asserted input sc \<longleftrightarrow> \<not> input_asserts input \<or> parser_flags (http_parser sc) AND FLAG_CHUNKED \<noteq> 0"

definition chunk_size_start :: "http_input \<Rightarrow> byte \<Rightarrow> scan \<Rightarrow> outcome" where
  "chunk_size_start input b sc =
     (if input_asserts input \<and> read_count sc \<noteq> 1 \<or> \<not> chunk_asserted input sc then Abort sc
      else if unhex ! unat b = -1 then Error sc
      else Break (goto_state STATE_CHUNK_SIZE (update_parser (\<lambda>p. p\<lparr>content_length := unhex ! unat b\<rparr>) sc)))"

definition chunk_size :: "http_input \<Rightarrow> byte \<Rightarrow> scan \<Rightarrow> outcome" where
  "chunk_size input b sc =
     (if \<not> chunk_asserted input sc then Abort sc
      else if b = CR then Break (goto_state STATE_CHUNK_SIZE_ALMOST_DONE sc)
      else if unhex ! unat b = -1 then
        (if b = 0x3b \<or> b = SPACE then Break (goto_state STATE_CHUNK_PARAMETERS sc) else Error sc)
      else Break (update_parser
             (\<lambda>p. p\<lparr>content_length := wrap_int (wrap_int (content_length p * 16) + unhex ! unat b)\<rparr>) sc))"

definition chunk_parameters :: "http_input \<Rightarrow> byte \<Rightarrow> scan \<Rightarrow> outcome" where
  "chunk_parameters input b sc =
     (if \<not> chunk_asserted input sc then Abort sc
      else if b = CR then Break (goto_state STATE_CHUNK_SIZE_ALMOST_DONE sc)
      else Break sc)"

definition chunk_size_almost_done :: "http_settings \<Rightarrow> http_input \<Rightarrow> scan \<Rightarrow> outcome" where
  "chunk_size_almost_done settings input sc =
     (if \<not> chunk_asserted input sc then Abort sc
      else
        let sc = sc\<lparr>read_count := 0\<rparr>
        in if content_length (http_parser sc) = 0
           then Break (end_line settings (update_parser (\<lambda>p. p\<lparr>parser_flags := parser_flags p OR FLAG_TRAILING\<rparr>) sc))
           else Break (goto_state STATE_CHUNK_DATA sc))"

definition chunk_data :: "http_settings \<Rightarrow> http_input \<Rightarrow> nat \<Rightarrow> scan \<Rightarrow> outcome" where
  "chunk_data settings input position sc =
     (if \<not> chunk_asserted input sc then Abort sc
      else
        let to_read = min (int (input_end input - position)) (content_length (http_parser sc));
            finish = (\<lambda>sc. update_parser (\<lambda>p. p\<lparr>content_length := content_length p - to_read\<rparr>)
              (if to_read = content_length (http_parser sc) then goto_state STATE_CHUNK_DATA_ALMOST_DONE sc else sc))
        in if to_read < 0 then Wild sc
           else if to_read > 0 then
             after (call_body settings input position (nat to_read) sc) sc (\<lambda>sc. Skip (finish sc) (nat to_read - 1))
           else Break (finish sc))"

definition chunk_next :: "http_parser_state \<Rightarrow> http_input \<Rightarrow> scan \<Rightarrow> outcome" where
  "chunk_next next input sc = (if \<not> chunk_asserted input sc then Abort sc else Break (goto_state next sc))"

section \<open>The loop\<close>

definition handle_byte :: "http_settings \<Rightarrow> http_input \<Rightarrow> nat \<Rightarrow> byte \<Rightarrow> scan \<Rightarrow> outcome" where
  "handle_byte settings input position b sc =
     (case state sc of
        STATE_START_REQ_OR_RES \<Rightarrow> start_req_or_res settings b sc
      | STATE_RES_OR_RESP_H \<Rightarrow> res_or_resp_h b sc
      | STATE_START_RES \<Rightarrow> start_res settings b sc
      | STATE_RES_H \<Rightarrow> Break (goto_state STATE_RES_HT sc)
      | STATE_RES_HT \<Rightarrow> Break (goto_state STATE_RES_HTT sc)
      | STATE_RES_HTT \<Rightarrow> Break (goto_state STATE_RES_HTTP sc)
      | STATE_RES_HTTP \<Rightarrow> Break (goto_state STATE_RES_FIRST_HTTP_MAJOR sc)
      | STATE_RES_FIRST_HTTP_MAJOR \<Rightarrow> first_http_major STATE_RES_HTTP_MAJOR b sc
      | STATE_RES_HTTP_MAJOR \<Rightarrow> next_http_major STATE_RES_FIRST_HTTP_MINOR b sc
      | STATE_RES_FIRST_HTTP_MINOR \<Rightarrow> first_http_minor STATE_RES_HTTP_MINOR b sc
      | STATE_RES_HTTP_MINOR \<Rightarrow> res_http_minor b sc
      | STATE_RES_FIRST_STATUS_CODE \<Rightarrow> res_first_status_code b sc
      | STATE_RES_STATUS_CODE \<Rightarrow> res_status_code settings b sc
      | STATE_RES_STATUS \<Rightarrow> res_status settings b sc
      | STATE_RES_LINE_ALMOST_DONE \<Rightarrow> Break (end_line settings sc)
      | STATE_START_REQ \<Rightarrow> start_req settings b sc
      | STATE_REQ_METHOD \<Rightarrow> req_method b sc
      | STATE_REQ_SPACES_BEFORE_URL \<Rightarrow> spaces_before_url input position b sc
      | STATE_REQ_SCHEMA \<Rightarrow> req_schema b sc
      | STATE_REQ_SCHEMA_SLASH \<Rightarrow> Break (goto_state STATE_REQ_SCHEMA_SLASH_SLASH sc)
      | STATE_REQ_SCHEMA_SLASH_SLASH \<Rightarrow> Break (goto_state STATE_REQ_HOST sc)
      | STATE_REQ_HOST \<Rightarrow> req_host settings input position b sc
      | STATE_REQ_PORT \<Rightarrow> req_port settings input position b sc
      | STATE_REQ_PATH \<Rightarrow> req_path settings input position b sc
      | STATE_REQ_QUERY_STRING_START \<Rightarrow> req_query_string_start settings input position b sc
      | STATE_REQ_QUERY_STRING \<Rightarrow> req_query_string settings input position b sc
      | STATE_REQ_FRAGMENT_START \<Rightarrow> req_fragment_start settings input position b sc
      | STATE_REQ_FRAGMENT \<Rightarrow> req_fragment settings input position b sc
      | STATE_REQ_HTTP_START \<Rightarrow> req_http_start b sc
      | STATE_REQ_HTTP_H \<Rightarrow> Break (goto_state STATE_REQ_HTTP_HT sc)
      | STATE_REQ_HTTP_HT \<Rightarrow> Break (goto_state STATE_REQ_HTTP_HTT sc)
      | STATE_REQ_HTTP_HTT \<Rightarrow> Break (goto_state STATE_REQ_HTTP_HTTP sc)
      | STATE_REQ_HTTP_HTTP \<Rightarrow> Break (goto_state STATE_REQ_FIRST_HTTP_MAJOR sc)
      | STATE_REQ_FIRST_HTTP_MAJOR \<Rightarrow> first_http_major STATE_REQ_HTTP_MAJOR b sc
      | STATE_REQ_HTTP_MAJOR \<Rightarrow> next_http_major STATE_REQ_FIRST_HTTP_MINOR b sc
      | STATE_REQ_FIRST_HTTP_MINOR \<Rightarrow> first_http_minor STATE_REQ_HTTP_MINOR b sc
      | STATE_REQ_HTTP_MINOR \<Rightarrow> req_http_minor settings b sc
      | STATE_REQ_LINE_ALMOST_DONE \<Rightarrow> req_line_almost_done settings b sc
      | STATE_HEADER_FIELD_START \<Rightarrow> header_field_start settings input position b sc
      | STATE_HEADER_FIELD \<Rightarrow> header_field settings input position b sc
      | STATE_HEADER_VALUE_START \<Rightarrow> header_value_start settings input position b sc
      | STATE_HEADER_VALUE \<Rightarrow> header_value settings input position b sc
      | STATE_HEADER_ALMOST_DONE \<Rightarrow> header_almost_done sc
      | STATE_HEADER_VALUE_LWS \<Rightarrow> header_value_lws settings input position b sc
      | STATE_HEADERS_ALMOST_DONE \<Rightarrow> headers_almost_done settings position b sc
      | STATE_BODY_IDENTITY \<Rightarrow> body_identity settings input position sc
      | STATE_BODY_IDENTITY_EOF \<Rightarrow> body_identity_eof settings input position sc
      | STATE_CHUNK_SIZE_START \<Rightarrow> chunk_size_start input b sc
      | STATE_CHUNK_SIZE \<Rightarrow> chunk_size input b sc
      | STATE_CHUNK_PARAMETERS \<Rightarrow> chunk_parameters input b sc
      | STATE_CHUNK_SIZE_ALMOST_DONE \<Rightarrow> chunk_size_almost_done settings input sc
      | STATE_CHUNK_DATA \<Rightarrow> chunk_data settings input position sc
      | STATE_CHUNK_DATA_ALMOST_DONE \<Rightarrow> chunk_next STATE_CHUNK_DATA_DONE input sc
      | STATE_CHUNK_DATA_DONE \<Rightarrow> chunk_next STATE_CHUNK_SIZE_START input sc
      | STATE_DEAD \<Rightarrow> if input_asserts input then Abort sc else Error sc)"

text \<open>
  The loop over the data: it stops at the end of the data and at the end of a message. The
  position with which it stops is the one the pointer has.
\<close>

datatype stop =
    Stopped scan nat
  | Failed scan
  | Returned scan nat
  | Aborted scan
  | Read_outside scan

function loop :: "http_settings \<Rightarrow> http_input \<Rightarrow> nat \<Rightarrow> scan \<Rightarrow> stop" where
  "loop settings input position sc =
     (if position \<ge> input_end input \<or> parse_count sc > 0 then Stopped sc position
      else case handle_byte settings input position (input_buffer input ! position) sc of
             Break sc \<Rightarrow> loop settings input (position + 1) sc
           | Skip sc n \<Rightarrow> loop settings input (position + n + 1) sc
           | Error sc \<Rightarrow> Failed sc
           | Return sc n \<Rightarrow> Returned sc n
           | Abort sc \<Rightarrow> Aborted sc
           | Wild sc \<Rightarrow> Read_outside sc)"
  by pat_completeness auto
termination by (relation "measure (\<lambda>(settings, input, position, sc). input_end input - position)") auto

declare loop.simps [simp del]

definition load_scan :: "http_parser \<Rightarrow> http_call list \<Rightarrow> scan" where
  "load_scan parser cs =
     \<lparr>http_parser = parser, state = parser_state parser, header_state = parser_header_state parser,
      index = unat (parser_index parser), read_count = parser_read_count parser,
      header_field_mark = parser_field_mark parser, header_value_mark = parser_value_mark parser,
      url_mark = parser_url_mark parser, parse_count = 0, calls = cs\<rparr>"

definition save_scan :: "scan \<Rightarrow> http_parser" where
  "save_scan sc = (http_parser sc)
     \<lparr>parser_state := state sc, parser_header_state := header_state sc, parser_index := of_nat (index sc),
      parser_read_count := read_count sc, parser_field_mark := header_field_mark sc,
      parser_value_mark := header_value_mark sc, parser_url_mark := url_mark sc\<rparr>"

text \<open>
  What a call leaves: the value it returns, unless an assertion or a read outside of the data
  ends the program.
\<close>

datatype processed =
    Value int
  | Assertion
  | Out_of_data

definition process_empty :: "http_settings \<Rightarrow> http_parser \<Rightarrow> http_call list \<Rightarrow> processed \<times> http_parser \<times> http_call list" where
  "process_empty settings parser cs =
     (case parser_state parser of
        STATE_BODY_IDENTITY_EOF \<Rightarrow>
          (let sc = http_callback settings On_message_complete (load_scan parser cs)
           in (Value 0, http_parser sc, calls sc))
      | STATE_DEAD \<Rightarrow> (Value 0, parser, cs)
      | STATE_START_REQ_OR_RES \<Rightarrow> (Value 0, parser, cs)
      | STATE_START_RES \<Rightarrow> (Value 0, parser, cs)
      | STATE_START_REQ \<Rightarrow> (Value 0, parser, cs)
      | _ \<Rightarrow> (Value 1, parser, cs))"

definition end_of_input :: "http_settings \<Rightarrow> scan \<Rightarrow> scan" where
  "end_of_input settings sc = (if state sc = STATE_BODY_IDENTITY_EOF then new_message settings sc else sc)"

definition process_data_http_parser ::
    "http_settings \<Rightarrow> http_input \<Rightarrow> nat \<Rightarrow> http_parser \<Rightarrow> http_call list \<Rightarrow> processed \<times> http_parser \<times> http_call list" where
  "process_data_http_parser settings input start parser cs =
     (if input_end input \<le> start then process_empty settings parser cs
      else case loop settings input start (load_scan parser cs) of
             Stopped sc position \<Rightarrow>
               (let sc = end_of_input settings sc in (Value (int (position - start)), save_scan sc, calls sc))
           | Failed sc \<Rightarrow> (Value (- 1), http_parser sc, calls sc)
           | Returned sc position \<Rightarrow> (Value (int (position - start)), http_parser sc, calls sc)
           | Aborted sc \<Rightarrow> (Assertion, http_parser sc, calls sc)
           | Read_outside sc \<Rightarrow> (Out_of_data, http_parser sc, calls sc))"

end
