(* ===== verification/Http_Parser_Safety.thy ===== *)
theory Http_Parser_Safety
  imports Http_Parser
begin

text \<open>
  The invariant of the parser of HTTP/1.1: what the variables of the loop hold in every state, so
  that no string or table is read outside of its bounds, no mark points outside of the data it
  marks and the assertions hold, save for the two defects of the chunks that the theorems name.
\<close>

named_theorems parser_defs \<open>the functions that handle a byte\<close>

declare start_req_or_res_def [parser_defs] res_or_resp_h_def [parser_defs] start_res_def [parser_defs]
  first_http_major_def [parser_defs] next_http_major_def [parser_defs] first_http_minor_def [parser_defs]
  next_http_minor_def [parser_defs] res_http_minor_def [parser_defs] res_first_status_code_def [parser_defs]
  res_status_code_def [parser_defs] res_status_def [parser_defs] req_http_start_def [parser_defs]
  req_http_minor_def [parser_defs] req_line_almost_done_def [parser_defs] req_schema_def [parser_defs]
  chunk_parameters_def [parser_defs] chunk_next_def [parser_defs]
  chunk_size_almost_done_def [parser_defs] chunk_size_def [parser_defs] chunk_size_start_def [parser_defs]

lemma update_simps [simp]:
  "http_parser (update_parser f sc) = f (http_parser sc)"
  "state (update_parser f sc) = state sc"
  "header_state (update_parser f sc) = header_state sc"
  "index (update_parser f sc) = index sc"
  "read_count (update_parser f sc) = read_count sc"
  "header_field_mark (update_parser f sc) = header_field_mark sc"
  "header_value_mark (update_parser f sc) = header_value_mark sc"
  "url_mark (update_parser f sc) = url_mark sc"
  "parse_count (update_parser f sc) = parse_count sc"
  "calls (update_parser f sc) = calls sc"
  by (simp_all add: update_parser_def)

lemma goto_simps [simp]:
  "state (goto_state s sc) = s"
  "http_parser (goto_state s sc) = http_parser sc"
  "header_state (goto_state s sc) = header_state sc"
  "index (goto_state s sc) = index sc"
  "read_count (goto_state s sc) = read_count sc"
  "header_field_mark (goto_state s sc) = header_field_mark sc"
  "header_value_mark (goto_state s sc) = header_value_mark sc"
  "url_mark (goto_state s sc) = url_mark sc"
  "parse_count (goto_state s sc) = parse_count sc"
  "calls (goto_state s sc) = calls sc"
  by (simp_all add: goto_state_def)

lemma set_method_simps [simp]: "index (set_method m sc) = index sc"
  by (simp add: set_method_def)

section \<open>The invariant\<close>

definition method_string :: "nat \<Rightarrow> bytes" where "method_string m = http_method_strings ! (m - 1)"

text \<open>How far the comparison of a name or of a value has gone.\<close>

fun progress_ok :: "http_header_state \<Rightarrow> nat \<Rightarrow> bool" where
  "progress_ok HEADER_STATE_C i = (i = 0)"
| "progress_ok HEADER_STATE_CO i = (i = 1)"
| "progress_ok HEADER_STATE_CON i = (i = 2)"
| "progress_ok HEADER_STATE_MATCHING_CONNECTION i = (3 \<le> i \<and> i < 9)"
| "progress_ok HEADER_STATE_MATCHING_PROXY_CONNECTION i = (i < 15)"
| "progress_ok HEADER_STATE_MATCHING_CONTENT_LENGTH i = (3 \<le> i \<and> i < 13)"
| "progress_ok HEADER_STATE_MATCHING_TRANSFER_ENCODING i = (i < 16)"
| "progress_ok HEADER_STATE_MATCHING_UPGRADE i = (i < 6)"
| "progress_ok HEADER_STATE_MATCHING_TRANSFER_ENCODING_CHUNKED i = (i < 6)"
| "progress_ok HEADER_STATE_MATCHING_CONNECTION_KEEP_ALIVE i = (i < 9)"
| "progress_ok HEADER_STATE_MATCHING_CONNECTION_CLOSE i = (i < 4)"
| "progress_ok _ i = True"

text \<open>The states of the comparison of a name, and of a value.\<close>

definition field_state :: "http_header_state \<Rightarrow> bool" where
  "field_state h \<longleftrightarrow> h \<in> {HEADER_STATE_GENERAL, HEADER_STATE_C, HEADER_STATE_CO, HEADER_STATE_CON,
     HEADER_STATE_MATCHING_CONNECTION, HEADER_STATE_MATCHING_PROXY_CONNECTION,
     HEADER_STATE_MATCHING_CONTENT_LENGTH, HEADER_STATE_MATCHING_TRANSFER_ENCODING,
     HEADER_STATE_MATCHING_UPGRADE, HEADER_STATE_CONNECTION, HEADER_STATE_CONTENT_LENGTH,
     HEADER_STATE_TRANSFER_ENCODING, HEADER_STATE_UPGRADE}"

definition value_state :: "http_header_state \<Rightarrow> bool" where
  "value_state h \<longleftrightarrow> h \<in> {HEADER_STATE_GENERAL, HEADER_STATE_CONTENT_LENGTH,
     HEADER_STATE_MATCHING_TRANSFER_ENCODING_CHUNKED, HEADER_STATE_MATCHING_CONNECTION_KEEP_ALIVE,
     HEADER_STATE_MATCHING_CONNECTION_CLOSE, HEADER_STATE_TRANSFER_ENCODING_CHUNKED,
     HEADER_STATE_CONNECTION_KEEP_ALIVE, HEADER_STATE_CONNECTION_CLOSE}"

definition mark_ok :: "nat \<Rightarrow> nat \<Rightarrow> pointer option \<Rightarrow> bool" where
  "mark_ok block position mark \<longleftrightarrow> (\<forall>m\<in>set_option mark. fst m = block \<and> snd m \<le> position)"

definition chunk_states :: "http_parser_state set" where
  "chunk_states = {STATE_CHUNK_SIZE_START, STATE_CHUNK_SIZE, STATE_CHUNK_PARAMETERS, STATE_CHUNK_SIZE_ALMOST_DONE,
     STATE_CHUNK_DATA, STATE_CHUNK_DATA_ALMOST_DONE, STATE_CHUNK_DATA_DONE}"

definition scan_ok :: "nat \<Rightarrow> nat \<Rightarrow> scan \<Rightarrow> bool" where
  "scan_ok block position sc \<longleftrightarrow>
     index sc \<le> 17
     \<and> state sc \<noteq> STATE_DEAD
     \<and> (state sc = STATE_REQ_METHOD \<longrightarrow>
          1 \<le> parser_method (http_parser sc) \<and> parser_method (http_parser sc) \<le> 24
          \<and> index sc \<le> length (method_string (parser_method (http_parser sc))))
     \<and> (state sc = STATE_HEADER_FIELD \<longrightarrow> field_state (header_state sc) \<and> progress_ok (header_state sc) (index sc))
     \<and> (state sc = STATE_HEADER_VALUE \<longrightarrow> value_state (header_state sc) \<and> progress_ok (header_state sc) (index sc))
     \<and> (state sc \<in> chunk_states \<longrightarrow> parser_flags (http_parser sc) AND FLAG_CHUNKED \<noteq> 0)
     \<and> (state sc = STATE_CHUNK_DATA \<longrightarrow> content_length (http_parser sc) \<noteq> 0)
     \<and> (state sc = STATE_BODY_IDENTITY \<longrightarrow> content_length (http_parser sc) > 0)
     \<and> read_count sc = 0
     \<and> mark_ok block position (header_field_mark sc)
     \<and> mark_ok block position (header_value_mark sc)
     \<and> mark_ok block position (url_mark sc)"

text \<open>
  How a byte may be handled: what goes on keeps the invariant, a return is the one of a message that
  changes the protocol or of a handler that refuses it, an assertion fails only for the
  count at the start of a chunk, and data is read outside of the input only for a negative length.
\<close>

fun outcome_ok :: "http_settings \<Rightarrow> http_input \<Rightarrow> nat \<Rightarrow> outcome \<Rightarrow> bool" where
  "outcome_ok settings input position (Break sc) = scan_ok (input_block input) (position + 1) sc"
| "outcome_ok settings input position (Skip sc n) =
     (scan_ok (input_block input) (position + n + 1) sc \<and> position + n < input_end input)"
| "outcome_ok settings input position (Error sc) = True"
| "outcome_ok settings input position (Return sc n) =
     (position \<le> n \<and> n \<le> position + 1 \<and>
      (upgrade (http_parser sc) \<or> (\<exists>cs. 1 < on_headers_complete settings cs)))"
| "outcome_ok settings input position (Abort sc) =
     (input_asserts input \<and> parser_flags (http_parser sc) AND FLAG_CHUNKED \<noteq> 0)"
| "outcome_ok settings input position (Wild sc) =
     (parser_flags (http_parser sc) AND FLAG_CHUNKED \<noteq> 0 \<and> content_length (http_parser sc) < 0)"

section \<open>What the callbacks keep\<close>

lemma update_request_simps [simp]:
  "parser_type (update_request_http_parser p) = parser_type p"
  "parser_flags (update_request_http_parser p) = parser_flags p"
  "content_length (update_request_http_parser p) = content_length p"
  "parser_method (update_request_http_parser p) = parser_method p"
  "upgrade (update_request_http_parser p) = upgrade p"
  "http_major (update_request_http_parser p) = http_major p"
  "http_minor (update_request_http_parser p) = http_minor p"
  "status_code (update_request_http_parser p) = status_code p"
  "persistent_length (update_request_http_parser p) = persistent_length p"
  by (simp_all add: update_request_http_parser_def Let_def)

lemma callback_simps [simp]:
  "state (http_callback settings which sc) = state sc"
  "header_state (http_callback settings which sc) = header_state sc"
  "index (http_callback settings which sc) = index sc"
  "read_count (http_callback settings which sc) = read_count sc"
  "header_field_mark (http_callback settings which sc) = header_field_mark sc"
  "header_value_mark (http_callback settings which sc) = header_value_mark sc"
  "url_mark (http_callback settings which sc) = url_mark sc"
  "parse_count (http_callback settings which sc) = parse_count sc"
  "parser_type (http_parser (http_callback settings which sc)) = parser_type (http_parser sc)"
  "parser_flags (http_parser (http_callback settings which sc)) = parser_flags (http_parser sc)"
  "content_length (http_parser (http_callback settings which sc)) = content_length (http_parser sc)"
  "parser_method (http_parser (http_callback settings which sc)) = parser_method (http_parser sc)"
  "upgrade (http_parser (http_callback settings which sc)) = upgrade (http_parser sc)"
  by (simp_all add: http_callback_def Let_def)

lemma mark_ok_simps [simp]:
  "mark_ok block position None"
  "mark_ok block position (Some (block, i)) \<longleftrightarrow> i \<le> position"
  by (simp_all add: mark_ok_def)

lemma mark_ok_mono: "mark_ok block position m \<Longrightarrow> position \<le> position' \<Longrightarrow> mark_ok block position' m"
  by (auto simp: mark_ok_def)

lemma scan_ok_mono: "scan_ok block position sc \<Longrightarrow> position \<le> position' \<Longrightarrow> scan_ok block position' sc"
  unfolding scan_ok_def using mark_ok_mono by blast

text \<open>What a callback with data leaves, when its mark is as the invariant says.\<close>

definition same_scan :: "scan \<Rightarrow> scan \<Rightarrow> bool" where
  "same_scan sc sc' \<longleftrightarrow> state sc' = state sc \<and> header_state sc' = header_state sc \<and> index sc' = index sc
     \<and> read_count sc' = read_count sc \<and> parse_count sc' = parse_count sc
     \<and> parser_type (http_parser sc') = parser_type (http_parser sc)
     \<and> parser_flags (http_parser sc') = parser_flags (http_parser sc)
     \<and> content_length (http_parser sc') = content_length (http_parser sc)
     \<and> parser_method (http_parser sc') = parser_method (http_parser sc)
     \<and> (header_field_mark sc' = header_field_mark sc \<or> header_field_mark sc' = None)
     \<and> (header_value_mark sc' = header_value_mark sc \<or> header_value_mark sc' = None)
     \<and> (url_mark sc' = url_mark sc \<or> url_mark sc' = None)"

lemma callback_data_ok:
  assumes "mark_ok (input_block input) position mark" and "position \<le> length (input_buffer input)"
  obtains sc' where "http_callback_data settings input which mark position sc = Some sc'" and "same_scan sc sc'"
    and "header_field_mark sc' = header_field_mark sc" and "header_value_mark sc' = header_value_mark sc"
    and "url_mark sc' = url_mark sc"
proof (cases "mark = None \<or> \<not> is_set settings (calls sc) which")
  case True
  then have "http_callback_data settings input which mark position sc = Some sc"
    by (auto simp: http_callback_data_def split: option.split)
  then show ?thesis by (rule that) (simp_all add: same_scan_def)
next
  case False
  then obtain m where m: "mark = Some m" by (cases mark) auto
  then obtain data where data: "marked input m position = Some data"
    using assms by (auto simp: marked_def mark_ok_def)
  define parser where "parser = update_request_http_parser (http_parser sc)"
  define sc1 where "sc1 = sc\<lparr>http_parser := parser, calls := calls sc @ [Hand which (parser_request parser) data]\<rparr>"
  have "http_callback_data settings input which mark position sc = Some sc1"
    using False m data by (simp add: http_callback_data_def parser_def sc1_def Let_def)
  then show ?thesis by (rule that) (simp_all add: same_scan_def sc1_def parser_def)
qed

lemma callback_field_ok:
  assumes "mark_ok (input_block input) position (header_field_mark sc)" and "position \<le> length (input_buffer input)"
  obtains sc' where "callback_field settings input position sc = Some sc'" and "same_scan sc sc'"
  by (rule callback_data_ok [OF assms, where sc = sc and which = On_header_field and settings = settings])
    (auto simp: callback_field_def same_scan_def intro: that)

lemma callback_value_ok:
  assumes "mark_ok (input_block input) position (header_value_mark sc)" and "position \<le> length (input_buffer input)"
  obtains sc' where "callback_value settings input position sc = Some sc'" and "same_scan sc sc'"
  by (rule callback_data_ok [OF assms, where sc = sc and which = On_header_value and settings = settings])
    (auto simp: callback_value_def same_scan_def intro: that)

lemma callback_url_ok:
  assumes "mark_ok (input_block input) position (url_mark sc)" and "position \<le> length (input_buffer input)"
  obtains sc' where "callback_url settings input position sc = Some sc'" and "same_scan sc sc'"
proof (cases "url_mark sc")
  case None
  then show ?thesis by (intro that [of sc]) (simp_all add: callback_url_def same_scan_def)
next
  case (Some m)
  then obtain data where data: "marked input m position = Some data"
    using assms by (auto simp: marked_def mark_ok_def)
  define sc1 where "sc1 = update_parser (\<lambda>p. p\<lparr>parser_request := append_path_http_request (parser_request p) data\<rparr>) sc"
  obtain sc2 where "http_callback_data settings input On_url (url_mark sc) position sc1 = Some sc2" and "same_scan sc1 sc2"
    by (rule callback_data_ok [OF assms, where sc = sc1 and which = On_url and settings = settings])
  then show ?thesis
    using Some data by (intro that [of "sc2\<lparr>url_mark := None\<rparr>"])
      (auto simp: callback_url_def same_scan_def sc1_def)
qed

section \<open>Every state keeps the invariant\<close>

lemma mark_step:
  assumes "mark_ok block position m" and "m' = m \<or> m' = None \<or> m' = Some (block, position)"
  shows "mark_ok block (Suc position) m'"
  using assms by (auto simp: mark_ok_def)

definition plain :: "http_parser_state \<Rightarrow> bool" where
  "plain s \<longleftrightarrow> s \<notin> chunk_states \<and>
     s \<notin> {STATE_DEAD, STATE_REQ_METHOD, STATE_HEADER_FIELD, STATE_HEADER_VALUE, STATE_BODY_IDENTITY}"

lemma plain_state:
  assumes "scan_ok block position sc" and "plain (state sc')"
    and "index sc' = index sc \<or> index sc' = 0" and "read_count sc' = read_count sc \<or> read_count sc' = 0"
    and "header_field_mark sc' = header_field_mark sc \<or> header_field_mark sc' = None \<or>
      header_field_mark sc' = Some (block, position)"
    and "header_value_mark sc' = header_value_mark sc \<or> header_value_mark sc' = None \<or>
      header_value_mark sc' = Some (block, position)"
    and "url_mark sc' = url_mark sc \<or> url_mark sc' = None \<or> url_mark sc' = Some (block, position)"
  shows "scan_ok block (Suc position) sc'"
proof -
  have old: "index sc \<le> 17" "read_count sc = 0" "mark_ok block position (header_field_mark sc)"
    "mark_ok block position (header_value_mark sc)" "mark_ok block position (url_mark sc)"
    using assms(1) by (simp_all add: scan_ok_def)
  have "index sc' \<le> 17" and "read_count sc' = 0" using assms(3,4) old by auto
  moreover have "state sc' \<noteq> STATE_DEAD" "state sc' \<noteq> STATE_REQ_METHOD" "state sc' \<noteq> STATE_HEADER_FIELD"
    "state sc' \<noteq> STATE_HEADER_VALUE" "state sc' \<noteq> STATE_BODY_IDENTITY" "state sc' \<notin> chunk_states"
    "state sc' \<noteq> STATE_CHUNK_DATA"
    using assms(2) by (auto simp: plain_def chunk_states_def)
  ultimately show ?thesis
    using mark_step [OF old(3) assms(5)] mark_step [OF old(4) assms(6)] mark_step [OF old(5) assms(7)]
    unfolding scan_ok_def by simp
qed

lemma begin_message_simps [simp]:
  "state (begin_message settings sc) = state sc"
  "index (begin_message settings sc) = index sc"
  "read_count (begin_message settings sc) = read_count sc"
  "header_field_mark (begin_message settings sc) = header_field_mark sc"
  "header_value_mark (begin_message settings sc) = header_value_mark sc"
  "url_mark (begin_message settings sc) = url_mark sc"
  by (simp_all add: begin_message_def)

lemma end_line_simps [simp]:
  "state (end_line settings sc) = STATE_HEADER_FIELD_START"
  "index (end_line settings sc) = index sc"
  "read_count (end_line settings sc) = read_count sc"
  "header_field_mark (end_line settings sc) = header_field_mark sc"
  "header_value_mark (end_line settings sc) = header_value_mark sc"
  "url_mark (end_line settings sc) = url_mark sc"
  by (simp_all add: end_line_def)

lemma new_message_simps [simp]:
  "state (new_message settings sc) = start_state (http_parser sc)"
  "index (new_message settings sc) = index sc"
  "read_count (new_message settings sc) = read_count sc"
  "header_field_mark (new_message settings sc) = header_field_mark sc"
  "header_value_mark (new_message settings sc) = header_value_mark sc"
  "url_mark (new_message settings sc) = url_mark sc"
  by (simp_all add: new_message_def start_state_def Let_def)

lemma scan_ok_basic: "scan_ok block position sc \<Longrightarrow> index sc \<le> 17 \<and> read_count sc = 0"
  by (simp add: scan_ok_def)

lemma plain_simps [simp]:
  "plain (start_state p)"
  "plain STATE_START_REQ_OR_RES" "plain STATE_RES_OR_RESP_H" "plain STATE_START_RES" "plain STATE_RES_H"
  "plain STATE_RES_HT" "plain STATE_RES_HTT" "plain STATE_RES_HTTP" "plain STATE_RES_FIRST_HTTP_MAJOR"
  "plain STATE_RES_HTTP_MAJOR" "plain STATE_RES_FIRST_HTTP_MINOR" "plain STATE_RES_HTTP_MINOR"
  "plain STATE_RES_FIRST_STATUS_CODE" "plain STATE_RES_STATUS_CODE" "plain STATE_RES_STATUS"
  "plain STATE_RES_LINE_ALMOST_DONE" "plain STATE_START_REQ" "plain STATE_REQ_SPACES_BEFORE_URL"
  "plain STATE_REQ_SCHEMA" "plain STATE_REQ_SCHEMA_SLASH" "plain STATE_REQ_SCHEMA_SLASH_SLASH"
  "plain STATE_REQ_HOST" "plain STATE_REQ_PORT" "plain STATE_REQ_PATH" "plain STATE_REQ_QUERY_STRING_START"
  "plain STATE_REQ_QUERY_STRING" "plain STATE_REQ_FRAGMENT_START" "plain STATE_REQ_FRAGMENT"
  "plain STATE_REQ_HTTP_START" "plain STATE_REQ_HTTP_H" "plain STATE_REQ_HTTP_HT" "plain STATE_REQ_HTTP_HTT"
  "plain STATE_REQ_HTTP_HTTP" "plain STATE_REQ_FIRST_HTTP_MAJOR" "plain STATE_REQ_HTTP_MAJOR"
  "plain STATE_REQ_FIRST_HTTP_MINOR" "plain STATE_REQ_HTTP_MINOR" "plain STATE_REQ_LINE_ALMOST_DONE"
  "plain STATE_HEADER_FIELD_START" "plain STATE_HEADER_VALUE_START" "plain STATE_HEADER_VALUE_LWS"
  "plain STATE_HEADER_ALMOST_DONE" "plain STATE_HEADERS_ALMOST_DONE" "plain STATE_BODY_IDENTITY_EOF"
  by (simp_all add: plain_def chunk_states_def start_state_def)

text \<open>The states whose handling only moves to another of the plain ones.\<close>

lemma plain_goto:
  assumes "scan_ok block position sc" and "plain s"
  shows "scan_ok block (Suc position) (goto_state s sc)"
    and "scan_ok block (Suc position) (goto_state s (update_parser f sc))"
    and "scan_ok block (Suc position) (end_line settings sc)"
    and "scan_ok block (Suc position) (end_line settings (update_parser f sc))"
    and "scan_ok block (Suc position) (new_message settings sc)"
  by (rule plain_state [OF assms(1)]; use assms(2) in simp)+

lemma plain_update:
  assumes "scan_ok block position sc" and "plain (state sc)"
  shows "scan_ok block (Suc position) (update_parser f sc)"
  by (rule plain_state [OF assms(1)]; use assms(2) in simp)

lemma scan_ok_Suc: "scan_ok block position sc \<Longrightarrow> scan_ok block (Suc position) sc"
  by (rule scan_ok_mono, assumption, simp)

lemma same_scan_ok:
  assumes "same_scan sc sc'" and "scan_ok block position sc"
  shows "scan_ok block position sc'"
proof -
  have same: "state sc' = state sc" "header_state sc' = header_state sc" "index sc' = index sc"
    "read_count sc' = read_count sc" "parser_flags (http_parser sc') = parser_flags (http_parser sc)"
    "content_length (http_parser sc') = content_length (http_parser sc)"
    "parser_method (http_parser sc') = parser_method (http_parser sc)"
    and marks: "header_field_mark sc' = header_field_mark sc \<or> header_field_mark sc' = None"
    "header_value_mark sc' = header_value_mark sc \<or> header_value_mark sc' = None"
    "url_mark sc' = url_mark sc \<or> url_mark sc' = None"
    using assms(1) unfolding same_scan_def by simp_all
  have keep: "m' = m \<or> m' = None \<Longrightarrow> mark_ok block position m \<Longrightarrow> mark_ok block position m'" for m m'
    by auto
  show ?thesis
    using assms(2) keep [OF marks(1)] keep [OF marks(2)] keep [OF marks(3)] unfolding scan_ok_def same by blast
qed

lemma first_method_ok: "first_method b = Some m \<Longrightarrow> 1 \<le> m \<and> m \<le> 24 \<and> 1 \<le> length (method_string m)"
  by (auto simp: first_method_def method_string_def http_method_strings_def split: if_splits)

lemma scan_ok_marks:
  "scan_ok block position sc \<Longrightarrow> mark_ok block (Suc position) (header_field_mark sc) \<and>
     mark_ok block (Suc position) (header_value_mark sc) \<and> mark_ok block (Suc position) (url_mark sc)"
  unfolding scan_ok_def using mark_step by blast

lemma method_assign_ok:
  assumes "scan_ok (input_block input) position sc"
  shows "outcome_ok settings input position (start_req_method_assign b sc)"
proof (cases "first_method b")
  case (Some m)
  then show ?thesis
    using scan_ok_marks [OF assms] scan_ok_basic [OF assms] first_method_ok [OF Some]
    by (simp add: start_req_method_assign_def Let_def scan_ok_def chunk_states_def set_method_def)
qed (simp add: start_req_method_assign_def Let_def)

lemma begin_message_ok:
  assumes "scan_ok block position sc" and "plain (state sc)"
  shows "scan_ok block position (update_parser f (begin_message settings sc))"
    and "scan_ok block position (begin_message settings sc)"
  using assms by (auto simp: scan_ok_def plain_def chunk_states_def)

lemma start_states_ok:
  assumes ok: "scan_ok (input_block input) position sc" and plain: "plain (state sc)"
  shows "outcome_ok settings input position (start_req settings b sc)"
    and "outcome_ok settings input position (start_req_or_res settings b sc)"
    and "outcome_ok settings input position (start_res settings b sc)"
    and "outcome_ok settings input position (res_or_resp_h b sc)"
proof -
  note begun = begin_message_ok [OF ok plain]
  show "outcome_ok settings input position (start_req settings b sc)"
    using scan_ok_Suc [OF ok] method_assign_ok [OF begun(2)] by (simp add: start_req_def Let_def)
  show "outcome_ok settings input position (start_req_or_res settings b sc)"
    using scan_ok_Suc [OF ok] method_assign_ok [OF begun(1)] plain_goto(1) [OF begun(2), of STATE_RES_OR_RESP_H]
    by (simp add: start_req_or_res_def Let_def)
  show "outcome_ok settings input position (start_res settings b sc)"
    using scan_ok_Suc [OF begun(2)] plain_goto(1) [OF begun(2), of STATE_RES_H]
    by (simp add: start_res_def Let_def)
  show "outcome_ok settings input position (res_or_resp_h b sc)"
    using plain_goto(2) [OF ok, of STATE_RES_HT] scan_ok_marks [OF ok] scan_ok_basic [OF ok]
    by (simp add: res_or_resp_h_def scan_ok_def chunk_states_def method_string_def http_method_strings_def)
qed

section \<open>The request line\<close>

lemma method_string_simps [simp]:
  "length (method_string 1) = 6" "length (method_string (Suc 0)) = 6" "length (method_string 2) = 3"
  "length (method_string 3) = 4" "length (method_string 4) = 4" "length (method_string 5) = 3"
  "length (method_string 6) = 7" "length (method_string 8) = 5" "length (method_string 9) = 4"
  "length (method_string 11) = 5" "length (method_string 12) = 4" "length (method_string 13) = 8"
  "length (method_string 14) = 9" "length (method_string 15) = 6" "length (method_string 17) = 10"
  "length (method_string 18) = 8" "length (method_string 19) = 5" "length (method_string 20) = 8"
  "length (method_string 23) = 11" "length (method_string 24) = 5"
  by (simp_all add: method_string_def http_method_strings_def)

lemma method_string_short: "1 \<le> m \<Longrightarrow> m \<le> 24 \<Longrightarrow> length (method_string m) \<le> 11"
proof -
  assume "1 \<le> m" "m \<le> 24"
  then have "m - 1 < length http_method_strings" by (simp add: http_method_strings_def)
  moreover have "list_all (\<lambda>s. length s \<le> 11) http_method_strings" by (simp add: http_method_strings_def)
  ultimately show ?thesis by (simp add: method_string_def list_all_length)
qed

lemma char_at_end: "char_at s (length s) = 0"
  by (simp add: char_at_def)

lemma other_method_ok:
  "other_method m i b = Some m' \<Longrightarrow> 1 \<le> m' \<and> m' \<le> 24 \<and> Suc i \<le> length (method_string m')"
  by (auto simp: other_method_def split: if_splits)

lemma req_method_ok:
  assumes ok: "scan_ok (input_block input) position sc" and "state sc = STATE_REQ_METHOD"
  shows "outcome_ok settings input position (req_method b sc)"
proof -
  let ?m = "parser_method (http_parser sc)"
  have meth: "1 \<le> ?m" "?m \<le> 24" "index sc \<le> length (method_string ?m)"
    using assms by (simp_all add: scan_ok_def)
  note short = method_string_short [OF meth(1,2)]
  have next_ok: "outcome_ok settings input position (Break (sc'\<lparr>index := Suc (index sc)\<rparr>))"
    if "sc' = sc \<and> Suc (index sc) \<le> length (method_string ?m)
      \<or> sc' = goto_state STATE_REQ_SPACES_BEFORE_URL sc
      \<or> (\<exists>m. sc' = set_method m sc \<and> 1 \<le> m \<and> m \<le> 24 \<and> Suc (index sc) \<le> length (method_string m))" for sc'
    using that
  proof (elim disjE exE conjE)
    fix m
    assume "sc' = set_method m sc" and m: "1 \<le> m" "m \<le> 24" and "Suc (index sc) \<le> length (method_string m)"
    then show ?thesis
      using assms(2) scan_ok_marks [OF ok] scan_ok_basic [OF ok] method_string_short [OF m]
      by (simp add: scan_ok_def chunk_states_def set_method_def)
  next
    assume "sc' = goto_state STATE_REQ_SPACES_BEFORE_URL sc"
    then show ?thesis
      using scan_ok_marks [OF ok] scan_ok_basic [OF ok] meth short
      by (simp add: scan_ok_def chunk_states_def)
  next
    assume "sc' = sc" and "Suc (index sc) \<le> length (method_string ?m)"
    then show ?thesis
      using assms(2) scan_ok_marks [OF ok] scan_ok_basic [OF ok] meth short
      by (simp add: scan_ok_def chunk_states_def)
  qed
  have inside: "b \<noteq> 0 \<Longrightarrow> b = char_at (method_string ?m) (index sc) \<Longrightarrow> Suc (index sc) \<le> length (method_string ?m)"
    using meth(3) char_at_end [of "method_string ?m"] by (cases "index sc = length (method_string ?m)") auto
  show ?thesis
  proof (cases "b = 0 \<or> b = SPACE \<and> char_at (method_string ?m) (index sc) = 0 \<or> b = char_at (method_string ?m) (index sc)")
    case True
    then show ?thesis
      using next_ok [of sc] next_ok [of "goto_state STATE_REQ_SPACES_BEFORE_URL sc"] inside
      by (auto simp: req_method_def Let_def method_string_def)
  next
    case False
    then show ?thesis
      using next_ok [of "set_method _ sc"] other_method_ok [of ?m "index sc" b]
      by (auto simp: req_method_def Let_def method_string_def split: option.split)
  qed
qed

lemma url_then_ok:
  assumes ok: "scan_ok (input_block input) position sc" and "position \<le> length (input_buffer input)"
    and f: "\<And>sc'. scan_ok (input_block input) position sc' \<Longrightarrow> outcome_ok settings input position (f sc')"
  shows "outcome_ok settings input position (after (callback_url settings input position sc) sc f)"
proof -
  obtain sc' where "callback_url settings input position sc = Some sc'" and "same_scan sc sc'"
    using callback_url_ok [of input position sc settings] ok assms(2) unfolding scan_ok_def by blast
  then show ?thesis using f same_scan_ok [OF _ ok] by (simp add: after_def)
qed

lemma url_then_version_ok:
  assumes "scan_ok (input_block input) position sc" and "position \<le> length (input_buffer input)"
  shows "outcome_ok settings input position (url_then_version settings input position sc)"
  unfolding url_then_version_def
  by (rule url_then_ok [OF assms]) (use plain_goto(1) in simp)

lemma url_end_ok:
  assumes "scan_ok (input_block input) position sc" and "position \<le> length (input_buffer input)"
    and "url_end settings input position b sc = Some out"
  shows "outcome_ok settings input position out"
proof -
  have cr: "outcome_ok settings input position (after (callback_url settings input position sc) sc
      (\<lambda>sc. Break (goto_state STATE_REQ_LINE_ALMOST_DONE (old_version sc))))"
    by (rule url_then_ok [OF assms(1,2)]) (use plain_goto(2) in \<open>simp add: old_version_def\<close>)
  have lf: "outcome_ok settings input position (after (callback_url settings input position sc) sc
      (\<lambda>sc. Break (end_line settings (old_version sc))))"
    by (rule url_then_ok [OF assms(1,2)]) (use plain_goto(4) [OF _ plain_simps(1)] in \<open>simp add: old_version_def\<close>)
  show ?thesis
    using assms(3) url_then_version_ok [OF assms(1,2), of settings] cr lf
    by (auto simp: url_end_def split: if_splits)
qed

lemma targets_ok:
  assumes ok: "scan_ok (input_block input) position sc" and room: "position \<le> length (input_buffer input)"
    and "plain (state sc)"
  shows "outcome_ok settings input position (req_schema b sc)"
    and "outcome_ok settings input position (req_host settings input position b sc)"
    and "outcome_ok settings input position (req_port settings input position b sc)"
    and "outcome_ok settings input position (req_path settings input position b sc)"
    and "outcome_ok settings input position (req_query_string_start settings input position b sc)"
    and "outcome_ok settings input position (req_query_string settings input position b sc)"
    and "outcome_ok settings input position (req_fragment_start settings input position b sc)"
    and "outcome_ok settings input position (req_fragment settings input position b sc)"
    and "outcome_ok settings input position (spaces_before_url input position b sc)"
  subgoal using scan_ok_Suc [OF ok] plain_goto(1) [OF ok] by (simp add: req_schema_def)
  subgoal using scan_ok_Suc [OF ok] plain_goto(1) [OF ok] url_then_version_ok [OF ok room] by (simp add: req_host_def)
  subgoal using scan_ok_Suc [OF ok] plain_goto(1) [OF ok] url_then_version_ok [OF ok room] by (simp add: req_port_def)
  subgoal using scan_ok_Suc [OF ok] plain_goto(1) [OF ok] url_end_ok [OF ok room]
    by (simp add: req_path_def split: option.split)
  subgoal using scan_ok_Suc [OF ok] plain_goto(1) [OF ok] url_end_ok [OF ok room]
    by (simp add: req_query_string_start_def split: option.split)
  subgoal using scan_ok_Suc [OF ok] plain_goto(1) [OF ok] url_end_ok [OF ok room]
    by (simp add: req_query_string_def split: option.split)
  subgoal using scan_ok_Suc [OF ok] plain_goto(1) [OF ok] url_end_ok [OF ok room]
    by (simp add: req_fragment_start_def split: option.split)
  subgoal using scan_ok_Suc [OF ok] plain_goto(1) [OF ok] url_end_ok [OF ok room]
    by (simp add: req_fragment_def split: option.split)
  subgoal
    using scan_ok_Suc [OF ok] plain_state [OF ok, where sc' = "goto_state s (sc\<lparr>url_mark := Some (input_block input, position)\<rparr>)" for s]
    by (simp add: spaces_before_url_def Let_def)
  done

lemma lines_ok:
  assumes ok: "scan_ok (input_block input) position sc" and plain: "plain (state sc)"
  shows "outcome_ok settings input position (req_http_start b sc)"
    and "plain s \<Longrightarrow> outcome_ok settings input position (first_http_major s b sc)"
    and "plain s \<Longrightarrow> outcome_ok settings input position (next_http_major s b sc)"
    and "plain s \<Longrightarrow> outcome_ok settings input position (first_http_minor s b sc)"
    and "outcome_ok settings input position (req_http_minor settings b sc)"
    and "outcome_ok settings input position (res_http_minor b sc)"
    and "outcome_ok settings input position (req_line_almost_done settings b sc)"
    and "outcome_ok settings input position (res_first_status_code b sc)"
    and "outcome_ok settings input position (res_status_code settings b sc)"
    and "outcome_ok settings input position (res_status settings b sc)"
  using scan_ok_Suc [OF ok] plain_goto(1,2) [OF ok] plain_goto(3-) [OF ok plain] plain_update [OF ok plain]
  by (simp_all add: parser_defs Let_def)

section \<open>The headers\<close>

lemma payload_follows_ok:
  assumes ok: "scan_ok (input_block input) position sc"
  shows "outcome_ok settings input position (payload_follows settings sc)"
proof -
  have "scan_ok (input_block input) (Suc position) (goto_state STATE_CHUNK_SIZE_START sc)"
    if "parser_flags (http_parser sc) AND FLAG_CHUNKED \<noteq> 0"
    using that scan_ok_marks [OF ok] scan_ok_basic [OF ok] by (simp add: scan_ok_def)
  moreover have "scan_ok (input_block input) (Suc position)
      (update_parser (\<lambda>p. p\<lparr>persistent_length := nat (content_length p)\<rparr>) (goto_state STATE_BODY_IDENTITY sc))"
    if "content_length (http_parser sc) > 0"
    using that scan_ok_marks [OF ok] scan_ok_basic [OF ok] by (simp add: scan_ok_def chunk_states_def)
  ultimately show ?thesis
    using plain_goto(5) [OF ok plain_simps(1)] plain_goto(1) [OF ok] by (simp add: payload_follows_def Let_def)
qed

text \<open>What the end of the headers reads of the variables is only what every state has.\<close>

lemma headers_kept:
  assumes "scan_ok block position sc" and "plain (state sc')" and "index sc' = index sc"
    and "read_count sc' = 0" and "header_field_mark sc' = header_field_mark sc"
    and "header_value_mark sc' = header_value_mark sc" and "url_mark sc' = url_mark sc"
  shows "scan_ok block position sc'"
  using assms by (auto simp: scan_ok_def plain_def chunk_states_def)

lemma announce_simps [simp]:
  "state (announce_headers settings sc) = state sc" "index (announce_headers settings sc) = index sc"
  "read_count (announce_headers settings sc) = read_count sc"
  "header_field_mark (announce_headers settings sc) = header_field_mark sc"
  "header_value_mark (announce_headers settings sc) = header_value_mark sc"
  "url_mark (announce_headers settings sc) = url_mark sc"
  by (simp_all add: announce_headers_def Let_def)

lemma after_headers_ok:
  "scan_ok (input_block input) position sc \<Longrightarrow> outcome_ok settings input position (after_headers settings position sc)"
  by (simp add: after_headers_def payload_follows_ok)

lemma headers_almost_done_ok:
  assumes ok: "scan_ok (input_block input) position sc" and "plain (state sc)"
  shows "outcome_ok settings input position (headers_almost_done settings position b sc)"
proof -
  have "outcome_ok settings input position (after_headers settings position sc')"
    if "state sc' = state sc" "index sc' = index sc" "read_count sc' = 0"
      "header_field_mark sc' = header_field_mark sc" "header_value_mark sc' = header_value_mark sc"
      "url_mark sc' = url_mark sc" for sc'
    using that assms by (intro after_headers_ok headers_kept [OF ok]) simp_all
  moreover have "0 < on_headers_complete settings cs \<longleftrightarrow> on_headers_complete settings cs = Suc 0"
    if "\<not> (\<exists>cs. 1 < on_headers_complete settings cs)" for cs
  proof -
    have "\<not> 1 < on_headers_complete settings cs" using that by blast
    then show ?thesis by auto
  qed
  ultimately show ?thesis
    using plain_goto(5) [OF ok plain_simps(1), of settings]
    by (cases "\<exists>cs. 1 < on_headers_complete settings cs") (simp_all add: headers_almost_done_def Let_def)
qed

lemma header_field_start_ok:
  assumes ok: "scan_ok (input_block input) position sc" and "plain (state sc)"
  shows "outcome_ok settings input position (header_field_start settings input position b sc)"
proof -
  have "scan_ok (input_block input) position (goto_state STATE_HEADERS_ALMOST_DONE sc)"
    using scan_ok_basic [OF ok] by (intro headers_kept [OF ok]) simp_all
  then have "outcome_ok settings input position (headers_almost_done settings position b' (goto_state STATE_HEADERS_ALMOST_DONE sc))" for b'
    by (rule headers_almost_done_ok) simp
  moreover have "scan_ok (input_block input) (Suc position) (goto_state STATE_HEADER_FIELD
      (sc\<lparr>header_field_mark := Some (input_block input, position), index := 0, header_state := h\<rparr>))"
    if "field_state h \<and> progress_ok h 0" for h
    using that scan_ok_marks [OF ok] scan_ok_basic [OF ok] by (simp add: scan_ok_def chunk_states_def)
  ultimately show ?thesis
    using plain_goto(1) [OF ok] by (simp add: header_field_start_def field_state_def)
qed

lemma matching_ok:
  assumes "progress_ok (header_state sc) (index sc)" and "index sc \<le> length name - 2" and "length name \<le> 17" and "2 \<le> length name"
    and "\<And>i. Suc i < length name - 1 \<Longrightarrow> progress_ok (header_state sc) i \<Longrightarrow> progress_ok (header_state sc) (Suc i)"
    and "\<And>i. progress_ok matched i"
  shows "progress_ok (header_state (matching name matched token sc)) (index (matching name matched token sc))
    \<and> index (matching name matched token sc) \<le> 17
    \<and> header_state (matching name matched token sc) \<in> {HEADER_STATE_GENERAL, matched, header_state sc}"
  using assms by (auto simp: matching_def Let_def)

lemma matching_simps [simp]:
  "http_parser (matching name matched token sc) = http_parser sc"
  "state (matching name matched token sc) = state sc"
  "read_count (matching name matched token sc) = read_count sc"
  "header_field_mark (matching name matched token sc) = header_field_mark sc"
  "header_value_mark (matching name matched token sc) = header_value_mark sc"
  "url_mark (matching name matched token sc) = url_mark sc"
  "parse_count (matching name matched token sc) = parse_count sc"
  "calls (matching name matched token sc) = calls sc"
  by (simp_all add: matching_def Let_def)

lemma strings_length [simp]:
  "length HTTP_CONNECTION = 10" "length HTTP_PROXY_CONNECTION = 16" "length HTTP_CONTENT_LENGTH = 14"
  "length HTTP_TRANSFER_ENCODING = 17" "length HTTP_UPGRADE = 7" "length HTTP_CHUNKED = 7"
  "length HTTP_KEEP_ALIVE = 10" "length HTTP_CLOSE = 5"
  by (simp_all add: HTTP_CONNECTION_def HTTP_PROXY_CONNECTION_def HTTP_CONTENT_LENGTH_def
      HTTP_TRANSFER_ENCODING_def HTTP_UPGRADE_def HTTP_CHUNKED_def HTTP_KEEP_ALIVE_def HTTP_CLOSE_def)

text \<open>A byte of a name or of a value changes the comparison and nothing else of what the invariant reads.\<close>

lemma compared_ok:
  assumes ok: "scan_ok block position sc"
    and "state sc' = state sc" and "state sc = STATE_HEADER_FIELD \<or> state sc = STATE_HEADER_VALUE"
    and "state sc = STATE_HEADER_FIELD \<Longrightarrow> field_state (header_state sc')"
    and "state sc = STATE_HEADER_VALUE \<Longrightarrow> value_state (header_state sc')"
    and "progress_ok (header_state sc') (index sc')" and "index sc' \<le> 17" and "read_count sc' = read_count sc"
    and "header_field_mark sc' = header_field_mark sc" and "header_value_mark sc' = header_value_mark sc"
    and "url_mark sc' = url_mark sc"
  shows "scan_ok block (Suc position) sc'"
  using assms(3)
proof
  assume "state sc = STATE_HEADER_FIELD"
  then show ?thesis
    using assms(2,4) assms(6-) scan_ok_marks [OF ok] scan_ok_basic [OF ok] unfolding scan_ok_def
    by (simp add: chunk_states_def)
next
  assume "state sc = STATE_HEADER_VALUE"
  then show ?thesis
    using assms(2,5) assms(6-) scan_ok_marks [OF ok] scan_ok_basic [OF ok] unfolding scan_ok_def
    by (simp add: chunk_states_def)
qed

lemma field_token_ok:
  assumes ok: "scan_ok (input_block input) position sc" and field: "state sc = STATE_HEADER_FIELD"
  shows "outcome_ok settings input position (field_token input b token sc)"
proof -
  have now: "field_state (header_state sc)" "progress_ok (header_state sc) (index sc)"
    using assms by (simp_all add: scan_ok_def)
  note basic = scan_ok_basic [OF ok]
  have go: "outcome_ok settings input position (Break sc')"
    if "field_state (header_state sc')" "progress_ok (header_state sc') (index sc')" "index sc' \<le> 17"
      "state sc' = state sc" "read_count sc' = read_count sc" "header_field_mark sc' = header_field_mark sc"
      "header_value_mark sc' = header_value_mark sc" "url_mark sc' = url_mark sc" for sc'
    using that field by (simp, intro compared_ok [OF ok]) simp_all
  have match: "outcome_ok settings input position (Break (matching name matched token sc))"
    if "index sc \<le> length name - 2" "length name \<le> 17" "2 \<le> length name"
      "\<And>i. Suc i < length name - 1 \<Longrightarrow> progress_ok (header_state sc) i \<Longrightarrow> progress_ok (header_state sc) (Suc i)"
      "\<And>i. progress_ok matched i" "field_state matched" for name matched
    using matching_ok [OF now(2) that(1-5), of token] that(6) now(1)
    by (intro go) (auto simp: field_state_def)
  show ?thesis
    using now basic
    by (cases "header_state sc")
      (auto simp: field_token_def Let_def field_state_def intro!: match go simp del: outcome_ok.simps)
qed

lemma callback_then_ok:
  assumes ok: "scan_ok (input_block input) position sc" and room: "position \<le> length (input_buffer input)"
    and f: "\<And>sc'. scan_ok (input_block input) position sc' \<Longrightarrow> state sc' = state sc \<Longrightarrow> outcome_ok settings input position (f sc')"
  shows "outcome_ok settings input position (after (callback_field settings input position sc) sc f)"
    and "outcome_ok settings input position (after (callback_value settings input position sc) sc f)"
proof -
  have marks: "mark_ok (input_block input) position (header_field_mark sc)"
    "mark_ok (input_block input) position (header_value_mark sc)"
    using ok by (simp_all add: scan_ok_def)
  obtain sc1 where "callback_field settings input position sc = Some sc1" and "same_scan sc sc1"
    using callback_field_ok [OF marks(1) room] .
  then show "outcome_ok settings input position (after (callback_field settings input position sc) sc f)"
    using f same_scan_ok [OF _ ok] by (simp add: after_def same_scan_def)
  obtain sc2 where "callback_value settings input position sc = Some sc2" and "same_scan sc sc2"
    using callback_value_ok [OF marks(2) room] .
  then show "outcome_ok settings input position (after (callback_value settings input position sc) sc f)"
    using f same_scan_ok [OF _ ok] by (simp add: after_def same_scan_def)
qed

lemma header_field_ok:
  assumes ok: "scan_ok (input_block input) position sc" and "state sc = STATE_HEADER_FIELD"
    and room: "position \<le> length (input_buffer input)"
  shows "outcome_ok settings input position (header_field settings input position b sc)"
proof -
  have next_ok: "outcome_ok settings input position (after (callback_field settings input position sc) sc (\<lambda>sc. Break (goto_state s sc)))"
    if "plain s" for s
    by (rule callback_then_ok [OF ok room]) (use plain_goto(1) that in simp)
  have "scan_ok (input_block input) position (goto_state STATE_HEADER_ALMOST_DONE sc)"
    using scan_ok_basic [OF ok] by (intro headers_kept [OF ok]) simp_all
  then have "outcome_ok settings input position
      (after (callback_field settings input position (goto_state STATE_HEADER_ALMOST_DONE sc)) sc' Break)" for sc'
  proof -
    assume ok': "scan_ok (input_block input) position (goto_state STATE_HEADER_ALMOST_DONE sc)"
    then have "outcome_ok settings input position (after (callback_field settings input position (goto_state STATE_HEADER_ALMOST_DONE sc))
        (goto_state STATE_HEADER_ALMOST_DONE sc) Break)"
      by (rule callback_then_ok(1) [OF _ room]) (simp add: scan_ok_Suc)
    moreover obtain sc1 where "callback_field settings input position (goto_state STATE_HEADER_ALMOST_DONE sc) = Some sc1"
      using callback_field_ok [OF _ room, of "goto_state STATE_HEADER_ALMOST_DONE sc"] ok' unfolding scan_ok_def by blast
    ultimately show ?thesis by (simp add: after_def)
  qed
  then show ?thesis
    using next_ok field_token_ok [OF ok assms(2)] by (simp add: header_field_def)
qed

lemma first_value_ok:
  assumes "state sc = STATE_HEADER_VALUE" and "index sc = 0" and "read_count sc = 0"
    and "mark_ok (input_block input) (Suc position) (header_field_mark sc)"
    and "mark_ok (input_block input) (Suc position) (header_value_mark sc)"
    and "mark_ok (input_block input) (Suc position) (url_mark sc)"
  shows "outcome_ok settings input position (first_value b sc)"
proof -
  have go: "outcome_ok settings input position (Break (update_parser f (sc\<lparr>header_state := h\<rparr>)))"
    "outcome_ok settings input position (Break (sc\<lparr>header_state := h\<rparr>))"
    if "value_state h" and "progress_ok h 0" for f h
    using that assms by (simp_all add: scan_ok_def chunk_states_def)
  have same: "outcome_ok settings input position (Break (update_parser f sc))"
    if "header_state sc = HEADER_STATE_CONTENT_LENGTH" for f
    using assms that by (simp add: scan_ok_def chunk_states_def value_state_def)
  show ?thesis
    unfolding first_value_def
    by (cases "header_state sc") (auto simp: value_state_def intro!: go same simp del: outcome_ok.simps(1))
qed

lemma header_value_start_ok:
  assumes ok: "scan_ok (input_block input) position sc" and plain: "plain (state sc)"
    and room: "position \<le> length (input_buffer input)"
  shows "outcome_ok settings input position (header_value_start settings input position b sc)"
proof -
  define sc1 where "sc1 = sc\<lparr>header_value_mark := Some (input_block input, position), state := STATE_HEADER_VALUE, index := 0\<rparr>"
  have marks: "mark_ok (input_block input) position (header_field_mark sc)"
    "mark_ok (input_block input) position (url_mark sc)"
    using ok by (simp_all add: scan_ok_def)
  obtain sc2 where called: "callback_value settings input position sc1 = Some sc2" "same_scan sc1 sc2"
    using callback_value_ok [OF _ room, of sc1] by (auto simp: sc1_def)
  have "scan_ok (input_block input) position (sc1\<lparr>state := STATE_HEADER_VALUE_START\<rparr>)"
    using marks scan_ok_basic [OF ok] by (simp add: scan_ok_def sc1_def chunk_states_def)
  then have base: "scan_ok (input_block input) position (sc2\<lparr>state := STATE_HEADER_VALUE_START\<rparr>)"
    by (rule same_scan_ok [rotated]) (use called(2) in \<open>simp add: same_scan_def\<close>)
  have "scan_ok (input_block input) (Suc position) (goto_state STATE_HEADER_ALMOST_DONE (sc2\<lparr>header_state := HEADER_STATE_GENERAL\<rparr>))"
    "scan_ok (input_block input) (Suc position) (goto_state STATE_HEADER_FIELD_START sc2)"
    by (rule plain_state [OF base]; simp)+
  moreover have "outcome_ok settings input position (first_value b sc1)"
    using scan_ok_marks [OF ok] scan_ok_basic [OF ok] by (intro first_value_ok) (simp_all add: sc1_def)
  ultimately show ?thesis
    using called(1) scan_ok_Suc [OF ok] by (simp add: header_value_start_def sc1_def [symmetric] after_def)
qed

lemma header_almost_done_ok:
  assumes ok: "scan_ok (input_block input) position sc"
  shows "outcome_ok settings input position (header_almost_done sc)"
proof -
  have "scan_ok (input_block input) (Suc position) (update_parser f (goto_state STATE_HEADER_VALUE_LWS sc))"
    "scan_ok (input_block input) (Suc position) (goto_state STATE_HEADER_VALUE_LWS sc)" for f
    by (rule plain_state [OF ok]; simp)+
  then show ?thesis by (cases "header_state sc") (simp_all add: header_almost_done_def Let_def)
qed

lemma value_char_ok:
  assumes ok: "scan_ok (input_block input) position sc" and "state sc = STATE_HEADER_VALUE"
  shows "outcome_ok settings input position (value_char input b sc)"
proof -
  have now: "value_state (header_state sc)" "progress_ok (header_state sc) (index sc)"
    using assms by (simp_all add: scan_ok_def)
  note basic = scan_ok_basic [OF ok]
  have go: "outcome_ok settings input position (Break sc')"
    if "value_state (header_state sc')" "progress_ok (header_state sc') (index sc')" "index sc' \<le> 17"
      "state sc' = state sc" "read_count sc' = read_count sc" "header_field_mark sc' = header_field_mark sc"
      "header_value_mark sc' = header_value_mark sc" "url_mark sc' = url_mark sc" for sc'
    using that assms(2) by (simp, intro compared_ok [OF ok]) simp_all
  have match: "outcome_ok settings input position (Break (matching name matched token sc))"
    if "index sc \<le> length name - 2" "length name \<le> 17" "2 \<le> length name"
      "\<And>i. Suc i < length name - 1 \<Longrightarrow> progress_ok (header_state sc) i \<Longrightarrow> progress_ok (header_state sc) (Suc i)"
      "\<And>i. progress_ok matched i" "value_state matched" for name matched token
    using matching_ok [OF now(2) that(1-5), of token] that(6) now(1)
    by (intro go) (auto simp: value_state_def)
  show ?thesis
    using now basic
    by (cases "header_state sc")
      (auto simp: value_char_def value_state_def intro!: match go simp del: outcome_ok.simps(1))
qed

lemma header_value_ok:
  assumes ok: "scan_ok (input_block input) position sc" and "state sc = STATE_HEADER_VALUE"
    and room: "position \<le> length (input_buffer input)"
  shows "outcome_ok settings input position (header_value settings input position b sc)"
proof -
  have "outcome_ok settings input position (after (callback_value settings input position sc) sc
      (\<lambda>sc. Break (goto_state STATE_HEADER_ALMOST_DONE sc)))"
    by (rule callback_then_ok [OF ok room]) (use plain_goto(1) in simp)
  moreover have "outcome_ok settings input position (after (callback_value settings input position sc) sc header_almost_done)"
    by (rule callback_then_ok [OF ok room]) (rule header_almost_done_ok)
  ultimately show ?thesis
    using value_char_ok [OF ok assms(2)] by (simp add: header_value_def)
qed

lemma header_value_lws_ok:
  assumes ok: "scan_ok (input_block input) position sc" and "plain (state sc)"
  shows "outcome_ok settings input position (header_value_lws settings input position b sc)"
proof -
  have "scan_ok (input_block input) position (goto_state STATE_HEADER_FIELD_START sc)"
    using scan_ok_basic [OF ok] by (intro headers_kept [OF ok]) simp_all
  then show ?thesis
    using header_field_start_ok plain_goto(1) [OF ok] by (simp add: header_value_lws_def)
qed

section \<open>The payload\<close>

lemma call_body_ok:
  assumes "position + n \<le> length (input_buffer input)"
  obtains sc' where "call_body settings input position n sc = Some sc'" and "same_scan sc sc'"
    and "header_field_mark sc' = header_field_mark sc" and "header_value_mark sc' = header_value_mark sc"
    and "url_mark sc' = url_mark sc"
proof (cases "is_set settings (calls sc) On_body")
  case True
  then show ?thesis
    using assms by (intro that [of "sc\<lparr>calls := calls sc @
      [Hand On_body (parser_request (http_parser sc)) (take n (drop position (input_buffer input)))]\<rparr>"])
      (simp_all add: call_body_def same_scan_def)
next
  case False
  then show ?thesis by (intro that [of sc]) (simp_all add: call_body_def same_scan_def)
qed

lemma body_identity_ok:
  assumes ok: "scan_ok (input_block input) position sc" and "state sc = STATE_BODY_IDENTITY"
    and "position < input_end input" and "input_end input \<le> length (input_buffer input)"
  shows "outcome_ok settings input position (body_identity settings input position sc)"
proof -
  define to_read where "to_read = min (int (input_end input - position)) (content_length (http_parser sc))"
  have len: "content_length (http_parser sc) > 0" using assms by (simp add: scan_ok_def)
  then have pos: "to_read > 0" using assms(3) by (simp add: to_read_def)
  have bound: "position + nat to_read \<le> input_end input" using assms(3) by (auto simp: to_read_def min_def)
  obtain sc1 where sc1: "call_body settings input position (nat to_read) sc = Some sc1" "same_scan sc sc1"
    using call_body_ok [of position "nat to_read" input settings sc] bound assms(4) by auto
  define sc2 where "sc2 = update_parser (\<lambda>p. p\<lparr>content_length := content_length p - to_read\<rparr>) sc1"
  have ok1: "scan_ok (input_block input) position sc1" by (rule same_scan_ok [OF sc1(2) ok])
  have "scan_ok (input_block input) (position + (nat to_read - 1) + 1) (if content_length (http_parser sc2) = 0 then new_message settings sc2 else sc2)"
  proof (cases "content_length (http_parser sc2) = 0")
    case True
    have "scan_ok (input_block input) (Suc position) (new_message settings sc2)"
      by (rule plain_state [OF ok1]) (simp_all add: sc2_def)
    then show ?thesis using True by (auto intro: scan_ok_mono)
  next
    case False
    have "content_length (http_parser sc1) = content_length (http_parser sc)"
      using sc1(2) by (simp add: same_scan_def)
    moreover have "to_read \<le> content_length (http_parser sc)" by (simp add: to_read_def)
    ultimately have "content_length (http_parser sc2) > 0" using False by (simp add: sc2_def)
    then have "scan_ok (input_block input) position sc2"
      using ok1 sc1(2) assms(2) by (simp add: scan_ok_def sc2_def same_scan_def chunk_states_def)
    then show ?thesis using False by (auto intro: scan_ok_mono)
  qed
  moreover have "body_identity settings input position sc =
      Skip (if content_length (http_parser sc2) = 0 then new_message settings sc2 else sc2) (nat to_read - 1)"
    unfolding body_identity_def Let_def to_read_def [symmetric] using pos sc1(1) by (simp add: after_def sc2_def)
  ultimately show ?thesis using pos bound by simp
qed

lemma body_identity_eof_ok:
  assumes ok: "scan_ok (input_block input) position sc" and "plain (state sc)"
    and "position < input_end input" and "input_end input \<le> length (input_buffer input)"
  shows "outcome_ok settings input position (body_identity_eof settings input position sc)"
proof -
  obtain sc1 where sc1: "call_body settings input position (input_end input - position) sc = Some sc1" "same_scan sc sc1"
    using call_body_ok [of position "input_end input - position" input settings sc] assms(3,4) by auto
  have "scan_ok (input_block input) (Suc (position + (input_end input - position - 1))) sc1"
    using same_scan_ok [OF sc1(2) ok] by (rule scan_ok_mono) simp
  then show ?thesis using sc1(1) assms(3) by (simp add: body_identity_eof_def after_def)
qed

lemma chunk_update:
  assumes ok: "scan_ok block position sc" and "state sc' \<in> chunk_states" and "state sc' \<noteq> STATE_CHUNK_DATA"
    and "parser_flags (http_parser sc') AND FLAG_CHUNKED \<noteq> 0" and "index sc' = index sc" and "read_count sc' = 0"
    and "header_field_mark sc' = header_field_mark sc" and "header_value_mark sc' = header_value_mark sc"
    and "url_mark sc' = url_mark sc"
  shows "scan_ok block (Suc position) sc'"
proof -
  have "state sc' \<noteq> STATE_DEAD" "state sc' \<noteq> STATE_REQ_METHOD" "state sc' \<noteq> STATE_HEADER_FIELD"
    "state sc' \<noteq> STATE_HEADER_VALUE" "state sc' \<noteq> STATE_BODY_IDENTITY"
    using assms(2) by (auto simp: chunk_states_def)
  then show ?thesis
    using assms(3-) scan_ok_marks [OF ok] scan_ok_basic [OF ok] unfolding scan_ok_def by simp
qed

lemma chunk_states_ok:
  assumes ok: "scan_ok (input_block input) position sc" and chunk: "state sc \<in> chunk_states"
  shows "state sc = STATE_CHUNK_SIZE_START \<Longrightarrow> outcome_ok settings input position (chunk_size_start input b sc)"
    and "state sc = STATE_CHUNK_SIZE \<Longrightarrow> outcome_ok settings input position (chunk_size input b sc)"
    and "state sc = STATE_CHUNK_PARAMETERS \<Longrightarrow> outcome_ok settings input position (chunk_parameters input b sc)"
    and "outcome_ok settings input position (chunk_size_almost_done settings input sc)"
    and "s \<in> chunk_states \<Longrightarrow> s \<noteq> STATE_CHUNK_DATA \<Longrightarrow> outcome_ok settings input position (chunk_next s input sc)"
proof -
  have flag: "parser_flags (http_parser sc) AND FLAG_CHUNKED \<noteq> 0"
    using ok chunk by (simp add: scan_ok_def)
  then have asserted: "chunk_asserted input sc" by (simp add: chunk_asserted_def)
  note basic = scan_ok_basic [OF ok]
  have next_chunk: "scan_ok (input_block input) (Suc position) (goto_state s (update_parser f sc))"
    if "s \<in> chunk_states" "s \<noteq> STATE_CHUNK_DATA" "parser_flags (f (http_parser sc)) = parser_flags (http_parser sc)" for s f
    by (rule chunk_update [OF ok]) (use that flag basic in simp_all)
  have next_same: "scan_ok (input_block input) (Suc position) (goto_state s sc)"
    if "s \<in> chunk_states" "s \<noteq> STATE_CHUNK_DATA" for s
    by (rule chunk_update [OF ok]) (use that flag basic in simp_all)
  have stay: "scan_ok (input_block input) (Suc position) (update_parser f sc)"
    if "state sc \<noteq> STATE_CHUNK_DATA" "parser_flags (f (http_parser sc)) = parser_flags (http_parser sc)" for f
    by (rule chunk_update [OF ok]) (use that flag basic chunk in simp_all)
  show "state sc = STATE_CHUNK_SIZE_START \<Longrightarrow> outcome_ok settings input position (chunk_size_start input b sc)"
    using next_chunk [of STATE_CHUNK_SIZE] asserted flag by (simp add: chunk_size_start_def chunk_states_def)
  show "state sc = STATE_CHUNK_SIZE \<Longrightarrow> outcome_ok settings input position (chunk_size input b sc)"
    using next_same stay asserted by (simp add: chunk_size_def chunk_states_def)
  show "state sc = STATE_CHUNK_PARAMETERS \<Longrightarrow> outcome_ok settings input position (chunk_parameters input b sc)"
    using next_same scan_ok_Suc [OF ok] asserted by (simp add: chunk_parameters_def chunk_states_def)
  show "s \<in> chunk_states \<Longrightarrow> s \<noteq> STATE_CHUNK_DATA \<Longrightarrow> outcome_ok settings input position (chunk_next s input sc)"
    using next_same asserted by (simp add: chunk_next_def)
  have "scan_ok (input_block input) (Suc position) (end_line settings (update_parser f (sc\<lparr>read_count := 0\<rparr>)))" for f
    by (rule plain_state [OF ok]) simp_all
  moreover have "scan_ok (input_block input) (Suc position) (goto_state STATE_CHUNK_DATA (sc\<lparr>read_count := 0\<rparr>))"
    if "content_length (http_parser sc) \<noteq> 0"
    using that flag basic scan_ok_marks [OF ok] by (simp add: scan_ok_def)
  ultimately show "outcome_ok settings input position (chunk_size_almost_done settings input sc)"
    using asserted by (simp add: chunk_size_almost_done_def Let_def)
qed

lemma chunk_data_ok:
  assumes ok: "scan_ok (input_block input) position sc" and chunk: "state sc = STATE_CHUNK_DATA"
    and "position < input_end input" and "input_end input \<le> length (input_buffer input)"
  shows "outcome_ok settings input position (chunk_data settings input position sc)"
proof -
  have flag: "parser_flags (http_parser sc) AND FLAG_CHUNKED \<noteq> 0" and some: "content_length (http_parser sc) \<noteq> 0"
    using ok chunk by (simp_all add: scan_ok_def chunk_states_def)
  then have asserted: "chunk_asserted input sc" by (simp add: chunk_asserted_def)
  define to_read where "to_read = min (int (input_end input - position)) (content_length (http_parser sc))"
  define finish where "finish = (\<lambda>sc. update_parser (\<lambda>p. p\<lparr>content_length := content_length p - to_read\<rparr>)
      (if to_read = content_length (http_parser sc) then goto_state STATE_CHUNK_DATA_ALMOST_DONE sc else sc))"
  have unfolded: "chunk_data settings input position sc =
      (if to_read < 0 then Wild sc
       else if to_read > 0 then
         after (call_body settings input position (nat to_read) sc) sc (\<lambda>sc. Skip (finish sc) (nat to_read - 1))
       else Break (finish sc))"
    unfolding chunk_data_def Let_def to_read_def finish_def using asserted by simp
  have sign: "to_read \<noteq> 0" "to_read < 0 \<longleftrightarrow> content_length (http_parser sc) < 0"
    using some assms(3) by (auto simp: to_read_def min_def)
  show ?thesis
  proof (cases "to_read < 0")
    case True
    then show ?thesis using unfolded sign flag by simp
  next
    case False
    have bound: "position + nat to_read \<le> input_end input" using assms(3) by (auto simp: to_read_def min_def)
    obtain sc1 where sc1: "call_body settings input position (nat to_read) sc = Some sc1" "same_scan sc sc1"
      using call_body_ok [of position "nat to_read" input settings sc] bound assms(4) by auto
    have ok1: "scan_ok (input_block input) position sc1" by (rule same_scan_ok [OF sc1(2) ok])
    have kept: "content_length (http_parser sc1) = content_length (http_parser sc)" "state sc1 = STATE_CHUNK_DATA"
      "parser_flags (http_parser sc1) = parser_flags (http_parser sc)" "read_count sc1 = 0"
      using sc1(2) chunk scan_ok_basic [OF ok] by (simp_all add: same_scan_def)
    have "scan_ok (input_block input) (Suc position) (finish sc1)"
      using kept flag scan_ok_marks [OF ok1] scan_ok_basic [OF ok1]
      by (auto simp: finish_def scan_ok_def chunk_states_def)
    then have "scan_ok (input_block input) (position + (nat to_read - 1) + 1) (finish sc1)"
      by (rule scan_ok_mono) simp
    then show ?thesis using unfolded sign(1) False sc1(1) bound by (simp add: after_def)
  qed
qed

section \<open>The loop keeps the invariant\<close>

lemma handle_byte_ok:
  assumes ok: "scan_ok (input_block input) position sc"
    and inside: "position < input_end input" "input_end input \<le> length (input_buffer input)"
  shows "outcome_ok settings input position (handle_byte settings input position b sc)"
proof -
  have room: "position \<le> length (input_buffer input)" using inside by simp
  have alive: "state sc \<noteq> STATE_DEAD" using ok by (simp add: scan_ok_def)
  note facts = start_states_ok [OF ok] targets_ok [OF ok room] lines_ok [OF ok] header_field_start_ok [OF ok]
    header_value_start_ok [OF ok _ room] header_value_lws_ok [OF ok] headers_almost_done_ok [OF ok]
    body_identity_eof_ok [OF ok _ inside] plain_goto(1) [OF ok] plain_goto(3) [OF ok plain_simps(1)]
    req_method_ok [OF ok] header_field_ok [OF ok _ room] header_value_ok [OF ok _ room] header_almost_done_ok [OF ok]
    body_identity_ok [OF ok _ inside] chunk_states_ok [OF ok] chunk_data_ok [OF ok _ inside]
  show ?thesis
    using alive facts by (cases "state sc") (simp_all add: handle_byte_def chunk_states_def)
qed

fun stop_ok :: "http_settings \<Rightarrow> nat \<Rightarrow> http_input \<Rightarrow> stop \<Rightarrow> bool" where
  "stop_ok settings start input (Stopped sc position) =
     (scan_ok (input_block input) position sc \<and> start \<le> position \<and> position \<le> input_end input)"
| "stop_ok settings start input (Failed sc) = True"
| "stop_ok settings start input (Returned sc n) =
     (start \<le> n \<and> n \<le> input_end input \<and>
      (upgrade (http_parser sc) \<or> (\<exists>cs. 1 < on_headers_complete settings cs)))"
| "stop_ok settings start input (Aborted sc) =
     (input_asserts input \<and> parser_flags (http_parser sc) AND FLAG_CHUNKED \<noteq> 0)"
| "stop_ok settings start input (Read_outside sc) =
     (parser_flags (http_parser sc) AND FLAG_CHUNKED \<noteq> 0 \<and> content_length (http_parser sc) < 0)"

lemma loop_ok:
  assumes "scan_ok (input_block input) position sc" and "start \<le> position" and "position \<le> input_end input"
    and "input_end input \<le> length (input_buffer input)"
  shows "stop_ok settings start input (loop settings input position sc)"
  using assms
proof (induction settings input position sc rule: loop.induct)
  case (1 settings input position sc)
  show ?case
  proof (cases "position \<ge> input_end input \<or> parse_count sc > 0")
    case True
    then show ?thesis using 1 by (simp add: loop.simps [of settings input])
  next
    case False
    let ?out = "handle_byte settings input position (input_buffer input ! position) sc"
    have ok: "outcome_ok settings input position ?out"
      using handle_byte_ok False 1(3,6) by simp
    note unfolded = loop.simps [of settings input position sc]
    show ?thesis
    proof (cases ?out)
      case (Break sc')
      then show ?thesis using 1(1) [OF False Break] ok False 1(4,6) by (simp add: unfolded)
    next
      case (Skip sc' n)
      then show ?thesis using 1(2) [OF False Skip] ok False 1(4,6) by (simp add: unfolded)
    next
      case (Return sc' n)
      then show ?thesis using ok False 1(4) by (auto simp: unfolded)
    qed (use ok False in \<open>simp_all add: unfolded\<close>)
  qed
qed

section \<open>What a handler that refuses leaves\<close>

text \<open>
  The fields of the structure that the variables of the loop are loaded from. Nothing that the loop
  calls writes to them, save for the refusal of a message, which saves the state alone.
\<close>

definition saved :: "http_parser \<Rightarrow> http_header_state \<times> byte \<times> nat \<times> pointer option \<times> pointer option \<times> pointer option" where
  "saved p = (parser_header_state p, parser_index p, parser_read_count p, parser_field_mark p, parser_value_mark p,
     parser_url_mark p)"

definition refused_at :: "http_parser \<Rightarrow> http_parser \<Rightarrow> bool" where
  "refused_at p p' \<longleftrightarrow> parser_state p' = STATE_HEADERS_ALMOST_DONE \<and> saved p' = saved p"

abbreviation unsaved :: "http_parser \<Rightarrow> scan \<Rightarrow> bool" where
  "unsaved p sc \<equiv> saved (http_parser sc) = saved p"

fun outcome_saved :: "http_parser \<Rightarrow> outcome \<Rightarrow> bool" where
  "outcome_saved p (Break sc) = unsaved p sc"
| "outcome_saved p (Skip sc n) = unsaved p sc"
| "outcome_saved p (Return sc n) = (upgrade (http_parser sc) \<or> refused_at p (http_parser sc))"
| "outcome_saved p _ = True"

lemma saved_simps [simp]:
  "saved (p\<lparr>parser_type := t\<rparr>) = saved p" "saved (p\<lparr>parser_flags := fl\<rparr>) = saved p"
  "saved (p\<lparr>content_length := n\<rparr>) = saved p" "saved (p\<lparr>http_major := v\<rparr>) = saved p"
  "saved (p\<lparr>http_minor := v\<rparr>) = saved p" "saved (p\<lparr>status_code := v\<rparr>) = saved p"
  "saved (p\<lparr>parser_method := v\<rparr>) = saved p" "saved (p\<lparr>upgrade := u\<rparr>) = saved p"
  "saved (p\<lparr>parser_request := r\<rparr>) = saved p" "saved (p\<lparr>persistent_length := v\<rparr>) = saved p"
  "saved (p\<lparr>parser_state := s\<rparr>) = saved p"
  "saved (update_request_http_parser p) = saved p"
  by (simp_all add: saved_def update_request_http_parser_def Let_def)

lemma saved_calls [simp]:
  "saved (http_parser (http_callback settings which sc)) = saved (http_parser sc)"
  "saved (http_parser (begin_message settings sc)) = saved (http_parser sc)"
  "saved (http_parser (end_line settings sc)) = saved (http_parser sc)"
  "saved (http_parser (new_message settings sc)) = saved (http_parser sc)"
  "saved (http_parser (set_method m sc)) = saved (http_parser sc)"
  "saved (http_parser (old_version sc)) = saved (http_parser sc)"
  "saved (http_parser (announce_headers settings sc)) = saved (http_parser sc)"
  "saved (http_parser (matching name matched token sc)) = saved (http_parser sc)"
  by (simp_all add: http_callback_def begin_message_def end_line_def new_message_def set_method_def old_version_def
      announce_headers_def matching_def Let_def)

lemma callback_data_saved:
  "http_callback_data settings input which mark position sc = Some sc' \<Longrightarrow> saved (http_parser sc') = saved (http_parser sc)"
  by (auto simp: http_callback_data_def Let_def split: option.splits if_splits)

lemma callbacks_saved:
  "callback_field settings input position sc = Some sc' \<Longrightarrow> saved (http_parser sc') = saved (http_parser sc)"
  "callback_value settings input position sc = Some sc' \<Longrightarrow> saved (http_parser sc') = saved (http_parser sc)"
  "callback_url settings input position sc = Some sc' \<Longrightarrow> saved (http_parser sc') = saved (http_parser sc)"
  "call_body settings input position n sc = Some sc' \<Longrightarrow> saved (http_parser sc') = saved (http_parser sc)"
  by (auto simp: callback_field_def callback_value_def callback_url_def call_body_def
      dest!: callback_data_saved split: option.splits if_splits)

lemma after_saved:
  assumes "\<And>x. a = Some x \<Longrightarrow> outcome_saved p (f x)"
  shows "outcome_saved p (after a sc f)"
  using assms by (simp add: after_def split: option.split)

lemma url_saved:
  assumes "unsaved p sc"
  shows "outcome_saved p (url_then_version settings input position sc)"
    and "url_end settings input position b sc = Some out \<Longrightarrow> outcome_saved p out"
proof -
  show "outcome_saved p (url_then_version settings input position sc)"
    unfolding url_then_version_def by (rule after_saved) (use assms callbacks_saved(3) in simp)
  then show "outcome_saved p out" if "url_end settings input position b sc = Some out"
    using that assms by (auto simp: url_end_def intro!: after_saved dest!: callbacks_saved(3) split: if_splits)
qed

lemma targets_saved:
  assumes "unsaved p sc"
  shows "outcome_saved p (spaces_before_url input position b sc)"
    and "outcome_saved p (req_schema b sc)"
    and "outcome_saved p (req_host settings input position b sc)"
    and "outcome_saved p (req_port settings input position b sc)"
    and "outcome_saved p (req_path settings input position b sc)"
    and "outcome_saved p (req_query_string_start settings input position b sc)"
    and "outcome_saved p (req_query_string settings input position b sc)"
    and "outcome_saved p (req_fragment_start settings input position b sc)"
    and "outcome_saved p (req_fragment settings input position b sc)"
  using assms url_saved [OF assms]
  by (auto simp: spaces_before_url_def req_schema_def req_host_def req_port_def req_path_def req_query_string_start_def
      req_query_string_def req_fragment_start_def req_fragment_def Let_def split: option.split)

lemma starts_saved:
  assumes "unsaved p sc"
  shows "outcome_saved p (start_req_method_assign b sc)"
    and "outcome_saved p (start_req settings b sc)" and "outcome_saved p (start_res settings b sc)"
    and "outcome_saved p (start_req_or_res settings b sc)" and "outcome_saved p (res_or_resp_h b sc)"
    and "outcome_saved p (req_method b sc)"
  using assms
  by (auto simp: start_req_method_assign_def start_req_def start_res_def start_req_or_res_def res_or_resp_h_def
      req_method_def Let_def split: option.split)

lemma lines_saved:
  assumes "unsaved p sc"
  shows "outcome_saved p (req_http_start b sc)" and "outcome_saved p (first_http_major s b sc)"
    and "outcome_saved p (next_http_major s b sc)" and "outcome_saved p (first_http_minor s b sc)"
    and "outcome_saved p (next_http_minor b sc)" and "outcome_saved p (req_http_minor settings b sc)"
    and "outcome_saved p (res_http_minor b sc)" and "outcome_saved p (res_first_status_code b sc)"
    and "outcome_saved p (res_status_code settings b sc)" and "outcome_saved p (res_status settings b sc)"
    and "outcome_saved p (req_line_almost_done settings b sc)"
  using assms by (simp_all add: parser_defs Let_def)

lemma headers_almost_done_saved:
  assumes "unsaved p sc" and "state sc = STATE_HEADERS_ALMOST_DONE"
  shows "outcome_saved p (headers_almost_done settings position b sc)"
proof -
  have "outcome_saved p (after_headers settings position x)" if "unsaved p x" for x
    using that by (simp add: after_headers_def payload_follows_def Let_def)
  then show ?thesis
    using assms by (simp add: headers_almost_done_def Let_def refused_at_def)
qed

lemma header_field_start_saved:
  "unsaved p sc \<Longrightarrow> outcome_saved p (header_field_start settings input position b sc)"
  by (simp add: header_field_start_def headers_almost_done_saved)

lemma header_saved:
  assumes "unsaved p sc"
  shows "outcome_saved p (header_field settings input position b sc)"
    and "outcome_saved p (header_value_start settings input position b sc)"
    and "outcome_saved p (header_value settings input position b sc)"
    and "outcome_saved p (header_almost_done sc)"
    and "outcome_saved p (header_value_lws settings input position b sc)"
proof -
  have almost: "outcome_saved p (header_almost_done x)" if "unsaved p x" for x
    using that by (simp add: header_almost_done_def Let_def split: http_header_state.split)
  then show "outcome_saved p (header_almost_done sc)" using assms .
  show "outcome_saved p (header_value_lws settings input position b sc)"
    using assms by (simp add: header_value_lws_def header_field_start_saved)
  have "outcome_saved p (field_token input b token sc)" for token
    using assms by (simp add: field_token_def Let_def split: http_header_state.split)
  then show "outcome_saved p (header_field settings input position b sc)"
    using assms by (auto simp: header_field_def intro!: after_saved dest!: callbacks_saved(1))
  have "outcome_saved p (first_value b x)" if "unsaved p x" for x
    using that by (simp add: first_value_def split: http_header_state.split)
  then show "outcome_saved p (header_value_start settings input position b sc)"
    using assms by (auto simp: header_value_start_def Let_def intro!: after_saved dest!: callbacks_saved(2))
  have "outcome_saved p (value_char input b sc)"
    using assms by (simp add: value_char_def split: http_header_state.split)
  then show "outcome_saved p (header_value settings input position b sc)"
    using assms almost by (auto simp: header_value_def intro!: after_saved dest!: callbacks_saved(2))
qed

lemma bodies_saved:
  assumes "unsaved p sc"
  shows "outcome_saved p (body_identity settings input position sc)"
    and "outcome_saved p (body_identity_eof settings input position sc)"
    and "outcome_saved p (chunk_data settings input position sc)"
    and "outcome_saved p (chunk_size_start input b sc)" and "outcome_saved p (chunk_size input b sc)"
    and "outcome_saved p (chunk_parameters input b sc)" and "outcome_saved p (chunk_size_almost_done settings input sc)"
    and "outcome_saved p (chunk_next s input sc)"
  using assms
  by (auto simp: body_identity_def body_identity_eof_def chunk_data_def parser_defs Let_def
      intro!: after_saved dest!: callbacks_saved(4))

lemma handle_byte_saved:
  assumes "unsaved p sc"
  shows "outcome_saved p (handle_byte settings input position b sc)"
  using assms targets_saved [OF assms] starts_saved [OF assms] lines_saved [OF assms] header_saved [OF assms]
    bodies_saved [OF assms] header_field_start_saved [OF assms] headers_almost_done_saved [OF assms]
  by (cases "state sc") (simp_all add: handle_byte_def)

lemma loop_saved:
  assumes "unsaved p sc" and "loop settings input position sc = Returned sc' n"
  shows "upgrade (http_parser sc') \<or> refused_at p (http_parser sc')"
  using assms
proof (induction settings input position sc rule: loop.induct)
  case (1 settings input position sc)
  note step = handle_byte_saved [OF "1.prems"(1), of settings input position "input_buffer input ! position"]
  have more: "\<not> (input_end input \<le> position \<or> 0 < parse_count sc)"
    using "1.prems"(2) by (auto simp: loop.simps [of settings input position sc] split: if_splits)
  show ?case
  proof (cases "handle_byte settings input position (input_buffer input ! position) sc")
    case (Break x)
    then show ?thesis
      using "1.IH"(1) [OF more Break] step "1.prems"(2) more by (simp add: loop.simps [of settings input position sc])
  next
    case (Skip x m)
    then show ?thesis
      using "1.IH"(2) [OF more Skip] step "1.prems"(2) more by (simp add: loop.simps [of settings input position sc])
  qed (use step "1.prems"(2) more in \<open>auto simp: loop.simps [of settings input position sc]\<close>)
qed

section \<open>The invariant between two calls\<close>

text \<open>The invariant of the structure between two calls, for marks into the block that is read next.\<close>

definition parser_ok :: "nat \<Rightarrow> nat \<Rightarrow> http_parser \<Rightarrow> bool" where
  "parser_ok block position parser \<longleftrightarrow> scan_ok block position (load_scan parser [])"

lemma scan_ok_load: "scan_ok block position (load_scan parser cs) \<longleftrightarrow> parser_ok block position parser"
  by (simp add: parser_ok_def scan_ok_def load_scan_def)

lemma scan_ok_save:
  assumes "scan_ok block position sc"
  shows "parser_ok block position (save_scan sc)"
proof -
  have "index sc < 256" using assms by (simp add: scan_ok_def)
  then have "unat (of_nat (index sc) :: byte) = index sc" by (simp add: unat_of_nat_byte)
  then show ?thesis
    using assms unfolding parser_ok_def scan_ok_def load_scan_def save_scan_def by simp
qed

lemma refused_ok:
  assumes "parser_ok block position p" and "refused_at p p'"
  shows "parser_ok block position p'"
  using assms by (auto simp: parser_ok_def refused_at_def saved_def load_scan_def scan_ok_def chunk_states_def)

lemma parser_ok_mono: "parser_ok block position parser \<Longrightarrow> position \<le> position' \<Longrightarrow> parser_ok block position' parser"
  unfolding parser_ok_def by (rule scan_ok_mono)

lemma end_of_input_ok:
  assumes "scan_ok block position sc"
  shows "scan_ok block position (end_of_input settings sc)"
proof (cases "state sc = STATE_BODY_IDENTITY_EOF")
  case True
  have "scan_ok block position (new_message settings sc)"
    using scan_ok_basic [OF assms] by (intro headers_kept [OF assms]) simp_all
  then show ?thesis using True by (simp add: end_of_input_def)
qed (use assms in \<open>simp add: end_of_input_def\<close>)

lemma create_ok: "unat garbage \<le> 17 \<Longrightarrow> parser_ok block position (create_http_parser garbage request)"
  by (simp add: parser_ok_def scan_ok_def load_scan_def create_http_parser_def chunk_states_def)

text \<open>What a call of the parser may leave, at the position it has come to.\<close>

fun processed_ok :: "http_input \<Rightarrow> nat \<Rightarrow> http_parser \<Rightarrow> processed \<Rightarrow> bool" where
  "processed_ok input start parser (Value n) =
     (n = - 1 \<or> 0 \<le> n \<and> n \<le> int (max 1 (input_end input - start)) \<and>
      (upgrade parser \<or> parser_ok (input_block input) (start + nat n) parser))"
| "processed_ok input start parser Assertion = (input_asserts input \<and> parser_flags parser AND FLAG_CHUNKED \<noteq> 0)"
| "processed_ok input start parser Out_of_data = (parser_flags parser AND FLAG_CHUNKED \<noteq> 0 \<and> content_length parser < 0)"

lemma process_empty_ok:
  assumes "parser_ok (input_block input) start parser" and "parser_state parser \<noteq> STATE_BODY_IDENTITY_EOF"
  shows "case process_empty settings parser cs of (result, parser', cs') \<Rightarrow>
    processed_ok input start parser' result"
  using assms parser_ok_mono [OF assms(1), of "Suc start"]
  by (cases "parser_state parser") (simp_all add: process_empty_def)

text \<open>C3: the parser of HTTP/1.1 is memory safe on every input, up to the defects of its chunks. Between two
  calls its structure is well formed (the comparison of a method, of a name or of a value is inside of its
  string, the marks point into the data that has arrived, a chunk is only read for a chunked message), and a
  call with more data in the same block leaves it well formed at the position it returns, whatever the bytes
  are and whatever the callbacks answer, the refusal of a message included, unless it fails or the message
  changes the protocol. No string and no table is read outside of its bounds; the program is only aborted by
  the assertion of a chunk, in a build with the assertions on, and data outside of the input is only handed
  on for a chunk whose length has become negative.\<close>

theorem parser_safe:
  assumes "parser_ok (input_block input) start parser" and "start < input_end input"
    and "input_end input \<le> length (input_buffer input)"
  shows "case process_data_http_parser settings input start parser cs of (result, parser', cs') \<Rightarrow>
    processed_ok input start parser' result"
proof -
  let ?loop = "loop settings input start (load_scan parser cs)"
  have ok: "stop_ok settings start input ?loop"
    using assms by (intro loop_ok) (simp_all add: scan_ok_load)
  have unfolded: "process_data_http_parser settings input start parser cs = (case ?loop of
      Stopped sc position \<Rightarrow>
        (let sc = end_of_input settings sc in (Value (int (position - start)), save_scan sc, calls sc))
    | Failed sc \<Rightarrow> (Value (- 1), http_parser sc, calls sc)
    | Returned sc position \<Rightarrow> (Value (int (position - start)), http_parser sc, calls sc)
    | Aborted sc \<Rightarrow> (Assertion, http_parser sc, calls sc)
    | Read_outside sc \<Rightarrow> (Out_of_data, http_parser sc, calls sc))"
    using assms(2) by (simp add: process_data_http_parser_def)
  have inside: "int (position - start) \<le> int (max 1 (input_end input - start))" if "position \<le> input_end input" for position
  proof -
    have "position - start \<le> input_end input - start" using that by (simp add: diff_le_mono)
    then show ?thesis by (simp add: le_max_iff_disj del: of_nat_diff)
  qed
  show ?thesis
  proof (cases ?loop)
    case (Stopped sc position)
    then have "parser_ok (input_block input) position (save_scan (end_of_input settings sc))"
      using ok by (intro scan_ok_save end_of_input_ok) simp
    then show ?thesis using ok Stopped inside [of position] by (simp add: unfolded Let_def del: of_nat_diff)
  next
    case (Returned sc position)
    have "upgrade (http_parser sc) \<or> refused_at parser (http_parser sc)"
      by (rule loop_saved [OF _ Returned]) (simp add: load_scan_def)
    moreover have "start \<le> position" "position \<le> input_end input" using ok Returned by simp_all
    moreover have "parser_ok (input_block input) position (http_parser sc)" if "refused_at parser (http_parser sc)"
      using refused_ok [OF assms(1) that] parser_ok_mono \<open>start \<le> position\<close> by blast
    ultimately show ?thesis using Returned inside [of position] by (auto simp: unfolded simp del: of_nat_diff)
  qed (use ok in \<open>auto simp: unfolded\<close>)
qed

text \<open>A handler with every callback set that reads every message to its end.\<close>

definition plain_settings :: http_settings where
  "plain_settings = \<lparr>is_set = (\<lambda>cs which. True), on_headers_complete = (\<lambda>cs. 0)\<rparr>"

definition sample_input :: http_input where
  "sample_input = \<lparr>input_block = 0, input_buffer = ascii ''GET / '', input_end = 6, input_asserts = False\<rparr>"

theorem parser_safe_witness:
  "case process_data_http_parser plain_settings sample_input 0 (create_http_parser 0 True) [] of
    (result, parser', cs') \<Rightarrow> processed_ok sample_input 0 parser' result"
  by (rule parser_safe) (simp_all add: create_ok plain_settings_def sample_input_def ascii_def)

end
