(* ===== verification/Http_Parser_Splitting.thy ===== *)
theory Http_Parser_Splitting
  imports Http_Parser_Safety
begin

text \<open>
  The parser of HTTP/1.1 is given a message in as many parts as the network delivers it in, each
  call going on where the one before has stopped. The parts do not matter: the callbacks are the
  ones of a single call with all of the data, save that the payload is handed over in smaller parts.
\<close>

section \<open>Scans that differ in what is not read\<close>

text \<open>The calls with the payload handed over byte by byte.\<close>

fun flatten_call :: "http_call \<Rightarrow> http_call list" where
  "flatten_call (Notify which request) = [Notify which request]"
| "flatten_call (Hand which request data) =
     (if which = On_body then map (\<lambda>b. Hand On_body request [b]) data else [Hand which request data])"

definition flatten :: "http_call list \<Rightarrow> http_call list" where
  "flatten cs = concat (map flatten_call cs)"

lemma flatten_simps [simp]:
  "flatten [] = []"
  "flatten (cs @ cs') = flatten cs @ flatten cs'"
  "flatten (c # cs) = flatten_call c @ flatten cs"
  by (simp_all add: flatten_def)

lemma flatten_flatten [simp]: "flatten (flatten cs) = flatten cs"
proof (induction cs)
  case (Cons c cs)
  have "flatten (map (\<lambda>b. Hand On_body request [b]) data) = map (\<lambda>b. Hand On_body request [b]) data" for request data
    by (induction data) (simp_all add: flatten_def)
  then have "flatten (flatten_call c) = flatten_call c"
    by (cases c) (simp_all add: flatten_def)
  then show ?case using Cons by (simp add: flatten_def)
qed simp

text \<open>
  A handler that is steady: whether a callback is set and what it answers does not depend on the
  parts the payload came in, and a part of the payload does not set or unset the callback of the payload.
\<close>

definition steady :: "http_settings \<Rightarrow> bool" where
  "steady settings \<longleftrightarrow>
     (\<forall>cs. is_set settings (flatten cs) = is_set settings cs) \<and>
     (\<forall>cs. on_headers_complete settings (flatten cs) = on_headers_complete settings cs) \<and>
     (\<forall>cs request data. is_set settings (cs @ [Hand On_body request data]) On_body = is_set settings cs On_body)"

text \<open>What the structure holds of the variables is not read before the loop ends.\<close>

definition same_message :: "http_parser \<Rightarrow> http_parser \<Rightarrow> bool" where
  "same_message p p' \<longleftrightarrow> parser_type p' = parser_type p \<and> parser_flags p' = parser_flags p
     \<and> content_length p' = content_length p \<and> http_major p' = http_major p \<and> http_minor p' = http_minor p
     \<and> status_code p' = status_code p \<and> parser_method p' = parser_method p \<and> upgrade p' = upgrade p
     \<and> parser_request p' = parser_request p \<and> persistent_length p' = persistent_length p"

definition similar :: "scan \<Rightarrow> scan \<Rightarrow> bool" where
  "similar sc sc' \<longleftrightarrow> same_message (http_parser sc) (http_parser sc') \<and> state sc' = state sc
     \<and> header_state sc' = header_state sc \<and> index sc' = index sc \<and> read_count sc' = read_count sc
     \<and> header_field_mark sc' = header_field_mark sc \<and> header_value_mark sc' = header_value_mark sc
     \<and> url_mark sc' = url_mark sc \<and> parse_count sc' = parse_count sc
     \<and> flatten (calls sc') = flatten (calls sc)"

lemmas similar_defs = similar_def same_message_def

lemma similar_refl [simp]: "similar sc sc"
  by (simp add: similar_defs)

lemma similar_trans: "similar a b \<Longrightarrow> similar b c \<Longrightarrow> similar a c"
  by (simp add: similar_defs)

fun outcomes_similar :: "outcome \<Rightarrow> outcome \<Rightarrow> bool" where
  "outcomes_similar (Break a) (Break b) = similar a b"
| "outcomes_similar (Skip a n) (Skip b m) = (similar a b \<and> n = m)"
| "outcomes_similar (Error a) (Error b) = similar a b"
| "outcomes_similar (Return a n) (Return b m) = (similar a b \<and> n = m)"
| "outcomes_similar (Abort a) (Abort b) = similar a b"
| "outcomes_similar (Wild a) (Wild b) = similar a b"
| "outcomes_similar _ _ = False"

section \<open>Similar scans are handled alike\<close>

lemma steady_set: "steady settings \<Longrightarrow> flatten cs = flatten cs' \<Longrightarrow> is_set settings cs = is_set settings cs'"
  unfolding steady_def by metis

lemma steady_answer:
  "steady settings \<Longrightarrow> flatten cs = flatten cs' \<Longrightarrow> on_headers_complete settings cs = on_headers_complete settings cs'"
  unfolding steady_def by metis

lemma similar_update:
  assumes "similar sc sc'" and "same_message (f (http_parser sc)) (f (http_parser sc'))"
  shows "similar (update_parser f sc) (update_parser f sc')"
  using assms by (simp add: similar_def)

lemma similar_fields [intro]:
  assumes "similar sc sc'"
  shows "similar (goto_state s sc) (goto_state s sc')"
    and "similar (sc\<lparr>header_state := h\<rparr>) (sc'\<lparr>header_state := h\<rparr>)"
    and "similar (sc\<lparr>index := i\<rparr>) (sc'\<lparr>index := i\<rparr>)"
  using assms by (simp_all add: similar_defs)

lemma same_message_update: "same_message p p' \<Longrightarrow> same_message (update_request_http_parser p) (update_request_http_parser p')"
  by (simp add: same_message_def update_request_http_parser_def http_should_keep_alive_def Let_def)

lemma similar_callback:
  assumes "steady settings" and "similar sc sc'"
  shows "similar (http_callback settings which sc) (http_callback settings which sc')"
proof -
  have "is_set settings (calls sc') = is_set settings (calls sc)"
    using assms(2) by (intro steady_set [OF assms(1)]) (simp add: similar_def)
  then show ?thesis
    using assms(2) same_message_update [of "http_parser sc" "http_parser sc'"]
    by (simp add: http_callback_def Let_def similar_def) (simp add: same_message_def)
qed

lemma similar_end_line: "steady settings \<Longrightarrow> similar sc sc' \<Longrightarrow> similar (end_line settings sc) (end_line settings sc')"
  unfolding end_line_def by (intro similar_fields similar_callback)

lemma similar_begin:
  "steady settings \<Longrightarrow> similar sc sc' \<Longrightarrow> similar (begin_message settings sc) (begin_message settings sc')"
  unfolding begin_message_def
  by (intro similar_callback similar_update) (simp_all add: similar_defs)

lemma similar_new_message:
  assumes "steady settings" and "similar sc sc'"
  shows "similar (new_message settings sc) (new_message settings sc')"
  using similar_callback [OF assms, of On_message_complete]
  by (simp add: new_message_def Let_def similar_defs start_state_def)

lemma similar_callback_data:
  assumes "steady settings" and "similar sc sc'"
  shows "rel_option similar (http_callback_data settings input which mark position sc)
    (http_callback_data settings input which mark position sc')"
proof -
  have "is_set settings (calls sc') = is_set settings (calls sc)"
    using assms(2) by (intro steady_set [OF assms(1)]) (simp add: similar_def)
  then show ?thesis
    using assms(2) same_message_update [of "http_parser sc" "http_parser sc'"]
    by (cases mark; cases "\<exists>m data. mark = Some m \<and> marked input m position = Some data")
      (auto simp: http_callback_data_def Let_def similar_def same_message_def)
qed

lemma similar_callback_field:
  assumes "steady settings" and "similar sc sc'"
  shows "rel_option similar (callback_field settings input position sc) (callback_field settings input position sc')"
proof -
  have "header_field_mark sc' = header_field_mark sc" using assms(2) by (simp add: similar_def)
  then show ?thesis
    using similar_callback_data [OF assms, of input On_header_field "header_field_mark sc" position]
    by (auto simp: callback_field_def option.rel_map elim!: option.rel_mono_strong) (simp_all add: similar_defs)
qed

lemma similar_callback_value:
  assumes "steady settings" and "similar sc sc'"
  shows "rel_option similar (callback_value settings input position sc) (callback_value settings input position sc')"
proof -
  have "header_value_mark sc' = header_value_mark sc" using assms(2) by (simp add: similar_def)
  then show ?thesis
    using similar_callback_data [OF assms, of input On_header_value "header_value_mark sc" position]
    by (auto simp: callback_value_def option.rel_map elim!: option.rel_mono_strong) (simp_all add: similar_defs)
qed

lemma similar_callback_url:
  assumes "steady settings" and "similar sc sc'"
  shows "rel_option similar (callback_url settings input position sc) (callback_url settings input position sc')"
proof (cases "url_mark sc")
  case None
  then show ?thesis using assms(2) by (simp add: callback_url_def similar_def)
next
  case (Some m)
  have mark: "url_mark sc' = Some m" using assms(2) Some by (simp add: similar_def)
  show ?thesis
  proof (cases "marked input m position")
    case (Some data)
    let ?append = "update_parser (\<lambda>p. p\<lparr>parser_request := append_path_http_request (parser_request p) data\<rparr>)"
    have "similar (?append sc) (?append sc')"
      using assms(2) by (intro similar_update) (simp_all add: similar_defs)
    then show ?thesis
      using similar_callback_data [OF assms(1), of "?append sc" "?append sc'" input On_url "Some m" position]
        mark \<open>url_mark sc = Some m\<close> Some
      by (auto simp: callback_url_def option.rel_map elim!: option.rel_mono_strong) (simp_all add: similar_defs)
  qed (use mark Some in \<open>simp add: callback_url_def\<close>)
qed

lemma similar_after:
  assumes "rel_option similar a b" and "similar sc sc'"
    and "\<And>x y. similar x y \<Longrightarrow> outcomes_similar (f x) (g y)"
  shows "outcomes_similar (after a sc f) (after b sc' g)"
  using assms by (cases a; cases b) (simp_all add: after_def)

section \<open>Every state\<close>

lemma similar_method_assign:
  assumes "similar sc sc'"
  shows "outcomes_similar (start_req_method_assign b sc) (start_req_method_assign b sc')"
  using assms by (cases "first_method b") (simp_all add: start_req_method_assign_def Let_def similar_defs set_method_def)

lemma similar_starts:
  assumes "steady settings" and "similar sc sc'"
  shows "outcomes_similar (start_req settings b sc) (start_req settings b sc')"
    and "outcomes_similar (start_req_or_res settings b sc) (start_req_or_res settings b sc')"
    and "outcomes_similar (start_res settings b sc) (start_res settings b sc')"
    and "outcomes_similar (res_or_resp_h b sc) (res_or_resp_h b sc')"
proof -
  note begun = similar_begin [OF assms]
  show "outcomes_similar (start_req settings b sc) (start_req settings b sc')"
    using assms(2) begun similar_method_assign [OF begun] by (simp add: start_req_def Let_def)
  show "outcomes_similar (start_req_or_res settings b sc) (start_req_or_res settings b sc')"
    using assms(2) begun similar_fields(1) [OF begun]
      similar_method_assign [OF similar_update [OF begun, of "\<lambda>p. p\<lparr>parser_type := HTTP_REQUEST\<rparr>"]]
    by (simp add: start_req_or_res_def Let_def similar_defs)
  show "outcomes_similar (start_res settings b sc) (start_res settings b sc')"
    using begun similar_fields(1) [OF begun] by (simp add: start_res_def Let_def)
  show "outcomes_similar (res_or_resp_h b sc) (res_or_resp_h b sc')"
    using assms(2) by (simp add: res_or_resp_h_def similar_defs)
qed

lemma similar_req_method: "similar sc sc' \<Longrightarrow> outcomes_similar (req_method b sc) (req_method b sc')"
proof -
  assume sim: "similar sc sc'"
  have eqs: "parser_method (http_parser sc') = parser_method (http_parser sc)" "index sc' = index sc"
    using sim by (simp_all add: similar_defs)
  have next_ok: "similar a a' \<Longrightarrow> index a = index sc \<Longrightarrow> similar (a\<lparr>index := Suc (index sc)\<rparr>) (a'\<lparr>index := Suc (index sc)\<rparr>)" for a a'
    by (simp add: similar_defs)
  have set: "similar (set_method m sc) (set_method m sc')" for m
    using sim by (simp add: similar_defs set_method_def)
  show ?thesis
    using sim similar_fields [OF sim] set
    by (cases "other_method (parser_method (http_parser sc)) (index sc) b")
      (simp_all add: req_method_def Let_def eqs similar_defs)
qed

lemma similar_url_then:
  assumes "steady settings" and "similar sc sc'"
    and "\<And>x y. similar x y \<Longrightarrow> outcomes_similar (f x) (f y)"
  shows "outcomes_similar (after (callback_url settings input position sc) sc f)
    (after (callback_url settings input position sc') sc' f)"
  by (rule similar_after [OF similar_callback_url [OF assms(1,2)] assms(2,3)])

lemma similar_url_end:
  assumes "steady settings" and "similar sc sc'"
  shows "outcomes_similar (url_then_version settings input position sc) (url_then_version settings input position sc')"
    and "rel_option outcomes_similar (url_end settings input position b sc) (url_end settings input position b sc')"
proof -
  have old: "similar (old_version x) (old_version y)" if "similar x y" for x y
    using that by (simp add: similar_defs old_version_def)
  show version: "outcomes_similar (url_then_version settings input position sc) (url_then_version settings input position sc')"
    unfolding url_then_version_def by (rule similar_url_then [OF assms]) (simp add: similar_fields)
  have "outcomes_similar (after (callback_url settings input position sc) sc
        (\<lambda>sc. Break (goto_state STATE_REQ_LINE_ALMOST_DONE (old_version sc))))
      (after (callback_url settings input position sc') sc'
        (\<lambda>sc. Break (goto_state STATE_REQ_LINE_ALMOST_DONE (old_version sc))))"
    by (rule similar_url_then [OF assms]) (simp add: similar_fields old)
  moreover have "outcomes_similar (after (callback_url settings input position sc) sc
        (\<lambda>sc. Break (end_line settings (old_version sc))))
      (after (callback_url settings input position sc') sc' (\<lambda>sc. Break (end_line settings (old_version sc))))"
    by (rule similar_url_then [OF assms]) (simp add: similar_end_line [OF assms(1)] old)
  ultimately show "rel_option outcomes_similar (url_end settings input position b sc) (url_end settings input position b sc')"
    using version by (simp add: url_end_def)
qed

lemma similar_targets:
  assumes "steady settings" and "similar sc sc'"
  shows "outcomes_similar (req_schema b sc) (req_schema b sc')"
    and "outcomes_similar (req_host settings input position b sc) (req_host settings input position b sc')"
    and "outcomes_similar (req_port settings input position b sc) (req_port settings input position b sc')"
    and "outcomes_similar (req_path settings input position b sc) (req_path settings input position b sc')"
    and "outcomes_similar (req_query_string_start settings input position b sc) (req_query_string_start settings input position b sc')"
    and "outcomes_similar (req_query_string settings input position b sc) (req_query_string settings input position b sc')"
    and "outcomes_similar (req_fragment_start settings input position b sc) (req_fragment_start settings input position b sc')"
    and "outcomes_similar (req_fragment settings input position b sc) (req_fragment settings input position b sc')"
    and "outcomes_similar (spaces_before_url input position b sc) (spaces_before_url input position b sc')"
proof -
  note same = assms(2) similar_fields [OF assms(2)] similar_url_end(1) [OF assms]
  show "outcomes_similar (req_schema b sc) (req_schema b sc')" using same by (simp add: req_schema_def)
  show "outcomes_similar (req_host settings input position b sc) (req_host settings input position b sc')"
    using same by (simp add: req_host_def)
  show "outcomes_similar (req_port settings input position b sc) (req_port settings input position b sc')"
    using same by (simp add: req_port_def)
  show "outcomes_similar (spaces_before_url input position b sc) (spaces_before_url input position b sc')"
    using assms(2) by (simp add: spaces_before_url_def similar_defs Let_def)
  have ends: "outcomes_similar (case url_end settings input position b' sc of Some out \<Rightarrow> out | None \<Rightarrow> x)
      (case url_end settings input position b' sc' of Some out \<Rightarrow> out | None \<Rightarrow> y)"
    if "outcomes_similar x y" for x y b'
    using similar_url_end(2) [OF assms, of input position b'] that
    by (cases "url_end settings input position b' sc"; cases "url_end settings input position b' sc'") simp_all
  show "outcomes_similar (req_path settings input position b sc) (req_path settings input position b sc')"
    using same unfolding req_path_def by (auto intro!: ends)
  show "outcomes_similar (req_query_string_start settings input position b sc) (req_query_string_start settings input position b sc')"
    using same unfolding req_query_string_start_def by (auto intro!: ends)
  show "outcomes_similar (req_query_string settings input position b sc) (req_query_string settings input position b sc')"
    using same unfolding req_query_string_def by (auto intro!: ends)
  show "outcomes_similar (req_fragment_start settings input position b sc) (req_fragment_start settings input position b sc')"
    using same unfolding req_fragment_start_def by (auto intro!: ends)
  show "outcomes_similar (req_fragment settings input position b sc) (req_fragment settings input position b sc')"
    using same unfolding req_fragment_def by (auto intro!: ends)
qed

lemma similar_lines:
  assumes "steady settings" and "similar sc sc'"
  shows "outcomes_similar (req_http_start b sc) (req_http_start b sc')"
    and "outcomes_similar (first_http_major s b sc) (first_http_major s b sc')"
    and "outcomes_similar (next_http_major s b sc) (next_http_major s b sc')"
    and "outcomes_similar (first_http_minor s b sc) (first_http_minor s b sc')"
    and "outcomes_similar (req_http_minor settings b sc) (req_http_minor settings b sc')"
    and "outcomes_similar (res_http_minor b sc) (res_http_minor b sc')"
    and "outcomes_similar (req_line_almost_done settings b sc) (req_line_almost_done settings b sc')"
    and "outcomes_similar (res_first_status_code b sc) (res_first_status_code b sc')"
    and "outcomes_similar (res_status_code settings b sc) (res_status_code settings b sc')"
    and "outcomes_similar (res_status settings b sc) (res_status settings b sc')"
proof -
  note same = assms(2) similar_fields [OF assms(2)] similar_end_line [OF assms]
  have minor: "outcomes_similar (next_http_minor b sc) (next_http_minor b sc')"
    using assms(2) by (simp add: next_http_minor_def Let_def similar_defs)
  show "outcomes_similar (req_http_start b sc) (req_http_start b sc')" using same by (simp add: req_http_start_def)
  show "outcomes_similar (first_http_major s b sc) (first_http_major s b sc')"
    using assms(2) by (simp add: first_http_major_def similar_defs)
  show "outcomes_similar (next_http_major s b sc) (next_http_major s b sc')"
    using assms(2) by (simp add: next_http_major_def Let_def similar_defs)
  show "outcomes_similar (first_http_minor s b sc) (first_http_minor s b sc')"
    using assms(2) by (simp add: first_http_minor_def similar_defs)
  show "outcomes_similar (req_http_minor settings b sc) (req_http_minor settings b sc')"
    using same minor by (simp add: req_http_minor_def)
  show "outcomes_similar (res_http_minor b sc) (res_http_minor b sc')"
    using same minor by (simp add: res_http_minor_def)
  show "outcomes_similar (req_line_almost_done settings b sc) (req_line_almost_done settings b sc')"
    using same by (simp add: req_line_almost_done_def)
  show "outcomes_similar (res_first_status_code b sc) (res_first_status_code b sc')"
    using assms(2) by (simp add: res_first_status_code_def similar_defs)
  have count: "status_code (http_parser sc') = status_code (http_parser sc)"
    using assms(2) by (simp add: similar_defs)
  have "similar (update_parser (\<lambda>p. p\<lparr>status_code := wrap_short (status_code p * 10 + digit b)\<rparr>) sc)
      (update_parser (\<lambda>p. p\<lparr>status_code := wrap_short (status_code p * 10 + digit b)\<rparr>) sc')"
    using assms(2) by (simp add: similar_defs)
  then show "outcomes_similar (res_status_code settings b sc) (res_status_code settings b sc')"
    using same count by (simp add: res_status_code_def Let_def)
  show "outcomes_similar (res_status settings b sc) (res_status settings b sc')"
    using same by (simp add: res_status_def)
qed

lemma similar_payload_follows:
  assumes "steady settings" and "similar sc sc'"
  shows "outcomes_similar (payload_follows settings sc) (payload_follows settings sc')"
proof -
  have eqs: "parser_flags (http_parser sc') = parser_flags (http_parser sc)"
    "content_length (http_parser sc') = content_length (http_parser sc)"
    "parser_type (http_parser sc') = parser_type (http_parser sc)"
    "http_should_keep_alive (http_parser sc') = http_should_keep_alive (http_parser sc)"
    using assms(2) by (simp_all add: similar_defs http_should_keep_alive_def)
  have "similar (update_parser (\<lambda>p. p\<lparr>persistent_length := nat (content_length p)\<rparr>) (goto_state STATE_BODY_IDENTITY sc))
      (update_parser (\<lambda>p. p\<lparr>persistent_length := nat (content_length p)\<rparr>) (goto_state STATE_BODY_IDENTITY sc'))"
    using assms(2) by (simp add: similar_defs)
  then show ?thesis
    using similar_new_message [OF assms] similar_fields(1) [OF assms(2)] by (simp add: payload_follows_def Let_def eqs)
qed

lemma similar_announce:
  assumes "similar sc sc'"
  shows "similar (announce_headers settings sc) (announce_headers settings sc')"
proof -
  define saved where "saved = (\<lambda>p :: http_parser. p\<lparr>persistent_length := (if content_length p > 0 then nat (content_length p) else 0)\<rparr>)"
  have "same_message (saved (http_parser sc)) (saved (http_parser sc'))"
    using assms by (simp add: similar_defs saved_def)
  then have updated: "same_message (update_request_http_parser (saved (http_parser sc)))
      (update_request_http_parser (saved (http_parser sc')))"
    by (rule same_message_update)
  then have "parser_request (update_request_http_parser (saved (http_parser sc'))) =
      parser_request (update_request_http_parser (saved (http_parser sc)))"
    by (simp add: same_message_def)
  moreover have "announce_headers settings sc = sc\<lparr>http_parser := update_request_http_parser (saved (http_parser sc)),
      calls := calls sc @ [Notify On_headers_complete (parser_request (update_request_http_parser (saved (http_parser sc))))]\<rparr>" for sc
    by (simp add: announce_headers_def saved_def Let_def)
  ultimately show ?thesis using updated assms by (simp add: similar_def)
qed

lemma similar_after_headers:
  assumes "steady settings" and "similar sc sc'"
  shows "outcomes_similar (after_headers settings position sc) (after_headers settings position sc')"
proof -
  have "upgrade (http_parser sc') = upgrade (http_parser sc)" using assms(2) by (simp add: similar_defs)
  then show ?thesis
    using similar_callback [OF assms] similar_payload_follows [OF assms] by (simp add: after_headers_def)
qed

lemma similar_headers_almost_done:
  assumes "steady settings" and "similar sc sc'"
  shows "outcomes_similar (headers_almost_done settings position b sc) (headers_almost_done settings position b sc')"
proof -
  define prepare where "prepare = (\<lambda>sc. let sc = sc\<lparr>read_count := 0\<rparr> in
      if parser_flags (http_parser sc) AND FLAG_UPGRADE \<noteq> 0 \<or> parser_method (http_parser sc) = HTTP_CONNECT
      then update_parser (\<lambda>p. p\<lparr>upgrade := True\<rparr>) sc else sc)"
  define rest where "rest = (\<lambda>sc. if is_set settings (calls sc) On_headers_complete
      then let sc = announce_headers settings sc; answer = on_headers_complete settings (calls sc)
        in if answer = 0 then after_headers settings position sc
           else if answer = 1
           then after_headers settings position (update_parser (\<lambda>p. p\<lparr>parser_flags := parser_flags p OR FLAG_SKIPBODY\<rparr>) sc)
           else Return (update_parser (\<lambda>p. p\<lparr>parser_state := state sc\<rparr>) sc) position
      else after_headers settings position sc)"
  have unfolded: "headers_almost_done settings position b sc = (if parser_flags (http_parser sc) AND FLAG_TRAILING \<noteq> 0
      then Break (new_message settings sc) else rest (prepare sc))" for sc
    by (simp add: headers_almost_done_def prepare_def rest_def Let_def)
  have prepared: "similar (prepare sc) (prepare sc')"
    using assms(2) by (simp add: prepare_def Let_def similar_defs)
  have "outcomes_similar (rest x) (rest y)" if sim: "similar x y" for x y
  proof -
    note announced = similar_announce [OF sim, of settings]
    have "is_set settings (calls y) = is_set settings (calls x)"
      using sim by (intro steady_set [OF assms(1)]) (simp add: similar_def)
    moreover have "on_headers_complete settings (calls (announce_headers settings y)) =
        on_headers_complete settings (calls (announce_headers settings x))"
      using announced by (intro steady_answer [OF assms(1)]) (simp add: similar_def)
    moreover have "similar (update_parser (\<lambda>p. p\<lparr>parser_flags := parser_flags p OR FLAG_SKIPBODY\<rparr>) (announce_headers settings x))
        (update_parser (\<lambda>p. p\<lparr>parser_flags := parser_flags p OR FLAG_SKIPBODY\<rparr>) (announce_headers settings y))"
      using announced by (intro similar_update) (simp_all add: similar_defs)
    moreover have "similar (update_parser (\<lambda>p. p\<lparr>parser_state := s\<rparr>) (announce_headers settings x))
        (update_parser (\<lambda>p. p\<lparr>parser_state := s'\<rparr>) (announce_headers settings y))" for s s'
      using announced by (simp add: similar_defs)
    ultimately show ?thesis
      using similar_after_headers [OF assms(1)] announced sim by (simp add: rest_def Let_def)
  qed
  then show ?thesis
    using prepared similar_new_message [OF assms] assms(2) by (simp add: unfolded similar_defs)
qed

lemma similar_header_field_start:
  assumes "steady settings" and "similar sc sc'"
  shows "outcomes_similar (header_field_start settings input position b sc) (header_field_start settings input position b sc')"
proof -
  have ended: "outcomes_similar (headers_almost_done settings position b' (goto_state s sc)) (headers_almost_done settings position b' (goto_state s sc'))" for s b'
    by (rule similar_headers_almost_done [OF assms(1) similar_fields(1) [OF assms(2)]])
  have field: "similar (goto_state s (sc\<lparr>header_field_mark := m, index := 0, header_state := h\<rparr>))
      (goto_state s (sc'\<lparr>header_field_mark := m, index := 0, header_state := h\<rparr>))" for s m h
    using assms(2) by (simp add: similar_defs)
  show ?thesis
    using ended field similar_fields(1) [OF assms(2)] assms(2) by (simp add: header_field_start_def)
qed

lemma similar_matching: "similar sc sc' \<Longrightarrow> similar (matching name matched token sc) (matching name matched token sc')"
  by (simp add: matching_def Let_def similar_defs)

lemma similar_field_token:
  assumes "similar sc sc'"
  shows "outcomes_similar (field_token input b token sc) (field_token input b token sc')"
proof -
  have eqs: "header_state sc' = header_state sc" "index sc' = index sc" using assms by (simp_all add: similar_def)
  have step: "similar (sc\<lparr>index := i, header_state := h\<rparr>) (sc'\<lparr>index := i, header_state := h\<rparr>)" for i h
    using assms by (simp add: similar_defs)
  show ?thesis
    using assms similar_matching [OF assms] similar_fields(2) [OF assms] step
    by (cases "header_state sc") (simp_all add: field_token_def Let_def eqs)
qed

lemma similar_header_field:
  assumes "steady settings" and "similar sc sc'"
  shows "outcomes_similar (header_field settings input position b sc) (header_field settings input position b sc')"
proof -
  have go: "outcomes_similar (after (callback_field settings input position sc) sc (\<lambda>sc. Break (goto_state s sc)))
      (after (callback_field settings input position sc') sc' (\<lambda>sc. Break (goto_state s sc)))" for s
    by (rule similar_after [OF similar_callback_field [OF assms] assms(2)]) (simp add: similar_fields)
  have ended: "outcomes_similar (after (callback_field settings input position (goto_state s sc)) sc Break)
      (after (callback_field settings input position (goto_state s sc')) sc' Break)" for s
    by (rule similar_after [OF similar_callback_field [OF assms(1) similar_fields(1) [OF assms(2)]] assms(2)]) simp
  show ?thesis
    using go ended similar_field_token [OF assms(2)] assms(2) by (simp add: header_field_def)
qed

lemma similar_first_value:
  assumes "similar sc sc'"
  shows "outcomes_similar (first_value b sc) (first_value b sc')"
  using assms by (cases "header_state sc") (simp_all add: first_value_def similar_defs)

lemma similar_header_value_start:
  assumes "steady settings" and "similar sc sc'"
  shows "outcomes_similar (header_value_start settings input position b sc) (header_value_start settings input position b sc')"
proof -
  let ?start = "\<lambda>sc. sc\<lparr>header_value_mark := Some (input_block input, position), state := STATE_HEADER_VALUE, index := 0\<rparr>"
  have start: "similar (?start sc) (?start sc')" using assms(2) by (simp add: similar_defs)
  have cr: "outcomes_similar (after (callback_value settings input position (?start sc)) (?start sc)
        (\<lambda>sc. Break (goto_state STATE_HEADER_ALMOST_DONE (sc\<lparr>header_state := HEADER_STATE_GENERAL\<rparr>))))
      (after (callback_value settings input position (?start sc')) (?start sc')
        (\<lambda>sc. Break (goto_state STATE_HEADER_ALMOST_DONE (sc\<lparr>header_state := HEADER_STATE_GENERAL\<rparr>))))"
    by (rule similar_after [OF similar_callback_value [OF assms(1) start] start]) (simp add: similar_fields)
  have lf: "outcomes_similar (after (callback_value settings input position (?start sc)) (?start sc)
        (\<lambda>sc. Break (goto_state STATE_HEADER_FIELD_START sc)))
      (after (callback_value settings input position (?start sc')) (?start sc')
        (\<lambda>sc. Break (goto_state STATE_HEADER_FIELD_START sc)))"
    by (rule similar_after [OF similar_callback_value [OF assms(1) start] start]) (simp add: similar_fields)
  show ?thesis
    using assms(2) cr lf similar_first_value [OF start] by (simp add: header_value_start_def Let_def)
qed

lemma similar_header_almost_done: "similar sc sc' \<Longrightarrow> outcomes_similar (header_almost_done sc) (header_almost_done sc')"
  by (cases "header_state sc") (simp_all add: header_almost_done_def Let_def similar_defs)

lemma similar_value_char:
  assumes "similar sc sc'"
  shows "outcomes_similar (value_char input b sc) (value_char input b sc')"
proof -
  have eqs: "header_state sc' = header_state sc" using assms by (simp add: similar_def)
  have step: "similar (sc\<lparr>state := s, header_state := h\<rparr>) (sc'\<lparr>state := s, header_state := h\<rparr>)"
    "similar (update_parser (\<lambda>p. p\<lparr>content_length := wrap_int (wrap_int (content_length p * 10) + int (digit b))\<rparr>) sc)
      (update_parser (\<lambda>p. p\<lparr>content_length := wrap_int (wrap_int (content_length p * 10) + int (digit b))\<rparr>) sc')" for s h
    using assms by (simp_all add: similar_defs)
  show ?thesis
    using assms similar_matching [OF assms] similar_fields(2) [OF assms] step
    by (cases "header_state sc") (simp_all add: value_char_def eqs)
qed

lemma similar_header_value:
  assumes "steady settings" and "similar sc sc'"
  shows "outcomes_similar (header_value settings input position b sc) (header_value settings input position b sc')"
proof -
  have "outcomes_similar (after (callback_value settings input position sc) sc (\<lambda>sc. Break (goto_state s sc)))
      (after (callback_value settings input position sc') sc' (\<lambda>sc. Break (goto_state s sc)))" for s
    by (rule similar_after [OF similar_callback_value [OF assms] assms(2)]) (simp add: similar_fields)
  moreover have "outcomes_similar (after (callback_value settings input position sc) sc header_almost_done)
      (after (callback_value settings input position sc') sc' header_almost_done)"
    by (rule similar_after [OF similar_callback_value [OF assms] assms(2)]) (rule similar_header_almost_done)
  ultimately show ?thesis
    using similar_value_char [OF assms(2)] by (simp add: header_value_def)
qed

lemma similar_header_value_lws:
  assumes "steady settings" and "similar sc sc'"
  shows "outcomes_similar (header_value_lws settings input position b sc) (header_value_lws settings input position b sc')"
  using similar_header_field_start [OF assms(1) similar_fields(1) [OF assms(2)]] similar_fields(1) [OF assms(2)]
  by (simp add: header_value_lws_def)

lemma similar_call_body:
  assumes "steady settings" and "similar sc sc'"
  shows "rel_option similar (call_body settings input position n sc) (call_body settings input position n sc')"
proof -
  have "is_set settings (calls sc') = is_set settings (calls sc)"
    using assms(2) by (intro steady_set [OF assms(1)]) (simp add: similar_def)
  then show ?thesis using assms(2) by (simp add: call_body_def similar_defs)
qed

lemma similar_bodies:
  assumes "steady settings" and "similar sc sc'"
  shows "outcomes_similar (body_identity settings input position sc) (body_identity settings input position sc')"
    and "outcomes_similar (body_identity_eof settings input position sc) (body_identity_eof settings input position sc')"
    and "outcomes_similar (chunk_data settings input position sc) (chunk_data settings input position sc')"
proof -
  have eqs: "content_length (http_parser sc') = content_length (http_parser sc)"
    "chunk_asserted input sc' = chunk_asserted input sc"
    using assms(2) by (simp_all add: similar_defs chunk_asserted_def)
  have reduced: "similar (update_parser (\<lambda>p. p\<lparr>content_length := content_length p - k\<rparr>) x)
      (update_parser (\<lambda>p. p\<lparr>content_length := content_length p - k\<rparr>) y)" if "similar x y" for x y k
    using that by (simp add: similar_defs)
  have same_length: "content_length (http_parser y) = content_length (http_parser x)" if "similar x y" for x y
    using that by (simp add: similar_defs)
  note body = similar_after [OF similar_call_body [OF assms] assms(2)]
  define k where "k = min (int (input_end input - position)) (content_length (http_parser sc))"
  define finish where "finish = (\<lambda>x. if content_length (http_parser (update_parser (\<lambda>p. p\<lparr>content_length := content_length p - k\<rparr>) x)) = 0
      then new_message settings (update_parser (\<lambda>p. p\<lparr>content_length := content_length p - k\<rparr>) x)
      else update_parser (\<lambda>p. p\<lparr>content_length := content_length p - k\<rparr>) x)"
  have finish: "similar (finish x) (finish y)" if "similar x y" for x y
    using similar_new_message [OF assms(1) reduced [OF that]] reduced [OF that] same_length [OF that]
    by (simp add: finish_def)
  have "outcomes_similar (after (call_body settings input position (nat k) sc) sc (\<lambda>x. Skip (finish x) (nat k - 1)))
      (after (call_body settings input position (nat k) sc') sc' (\<lambda>x. Skip (finish x) (nat k - 1)))"
    by (rule body) (simp add: finish)
  moreover have "body_identity settings input position x =
      (if k < 0 then Wild x
       else if k > 0 then after (call_body settings input position (nat k) x) x (\<lambda>x. Skip (finish x) (nat k - 1))
       else Break x)" if "content_length (http_parser x) = content_length (http_parser sc)" for x
    unfolding body_identity_def Let_def that k_def finish_def by (rule refl)
  ultimately show "outcomes_similar (body_identity settings input position sc) (body_identity settings input position sc')"
    using assms(2) eqs(1) by simp
  show "outcomes_similar (body_identity_eof settings input position sc) (body_identity_eof settings input position sc')"
    unfolding body_identity_eof_def Let_def by (rule body) simp
  define ended where "ended = (\<lambda>x. update_parser (\<lambda>p. p\<lparr>content_length := content_length p - k\<rparr>)
      (if k = content_length (http_parser x) then goto_state STATE_CHUNK_DATA_ALMOST_DONE x else x))"
  have ended: "similar (ended x) (ended y)" if "similar x y" for x y
    using reduced [OF that] reduced [OF similar_fields(1) [OF that]] same_length [OF that] by (simp add: ended_def)
  have "outcomes_similar (after (call_body settings input position (nat k) sc) sc (\<lambda>x. Skip (ended x) (nat k - 1)))
      (after (call_body settings input position (nat k) sc') sc' (\<lambda>x. Skip (ended x) (nat k - 1)))"
    by (rule body) (simp add: ended)
  moreover have "chunk_data settings input position x =
      (if \<not> chunk_asserted input x then Abort x
       else if k < 0 then Wild x
       else if k > 0 then after (call_body settings input position (nat k) x) x (\<lambda>x. Skip (ended x) (nat k - 1))
       else Break (ended x))" if "content_length (http_parser x) = content_length (http_parser sc)" for x
    unfolding chunk_data_def Let_def that k_def ended_def by (rule refl)
  ultimately show "outcomes_similar (chunk_data settings input position sc) (chunk_data settings input position sc')"
    using assms(2) ended [OF assms(2)] eqs by simp
qed

lemma similar_chunks:
  assumes "steady settings" and "similar sc sc'"
  shows "outcomes_similar (chunk_size_start input b sc) (chunk_size_start input b sc')"
    and "outcomes_similar (chunk_size input b sc) (chunk_size input b sc')"
    and "outcomes_similar (chunk_parameters input b sc) (chunk_parameters input b sc')"
    and "outcomes_similar (chunk_size_almost_done settings input sc) (chunk_size_almost_done settings input sc')"
    and "outcomes_similar (chunk_next s input sc) (chunk_next s input sc')"
proof -
  have eqs: "content_length (http_parser sc') = content_length (http_parser sc)" "read_count sc' = read_count sc"
    "chunk_asserted input sc' = chunk_asserted input sc"
    using assms(2) by (simp_all add: similar_defs chunk_asserted_def)
  note same = assms(2) similar_fields [OF assms(2)]
  have length_set: "similar (update_parser (\<lambda>p. p\<lparr>content_length := f (content_length p)\<rparr>) sc)
      (update_parser (\<lambda>p. p\<lparr>content_length := f (content_length p)\<rparr>) sc')" for f
    using assms(2) by (simp add: similar_defs)
  show "outcomes_similar (chunk_size_start input b sc) (chunk_size_start input b sc')"
    using same similar_fields(1) [OF length_set [of "\<lambda>_. unhex ! unat b"]]
    by (simp add: chunk_size_start_def eqs)
  show "outcomes_similar (chunk_size input b sc) (chunk_size input b sc')"
    using same length_set [of "\<lambda>c. wrap_int (wrap_int (c * 16) + unhex ! unat b)"] by (simp add: chunk_size_def eqs)
  show "outcomes_similar (chunk_parameters input b sc) (chunk_parameters input b sc')"
    using same by (simp add: chunk_parameters_def eqs)
  show "outcomes_similar (chunk_next s input sc) (chunk_next s input sc')"
    using same by (simp add: chunk_next_def eqs)
  have zero: "similar (sc\<lparr>read_count := 0\<rparr>) (sc'\<lparr>read_count := 0\<rparr>)" using assms(2) by (simp add: similar_defs)
  have "similar (update_parser (\<lambda>p. p\<lparr>parser_flags := parser_flags p OR FLAG_TRAILING\<rparr>) (sc\<lparr>read_count := 0\<rparr>))
      (update_parser (\<lambda>p. p\<lparr>parser_flags := parser_flags p OR FLAG_TRAILING\<rparr>) (sc'\<lparr>read_count := 0\<rparr>))"
    using zero by (intro similar_update) (simp_all add: similar_defs)
  from similar_end_line [OF assms(1) this]
  show "outcomes_similar (chunk_size_almost_done settings input sc) (chunk_size_almost_done settings input sc')"
    using assms(2) similar_fields(1) [OF zero] by (simp add: chunk_size_almost_done_def Let_def eqs)
qed

lemma similar_handle_byte:
  assumes "steady settings" and "similar sc sc'"
  shows "outcomes_similar (handle_byte settings input position b sc) (handle_byte settings input position b sc')"
proof -
  have "state sc' = state sc" using assms(2) by (simp add: similar_def)
  then show ?thesis
    using assms(2) similar_fields(1) [OF assms(2)] similar_end_line [OF assms] similar_starts [OF assms]
      similar_req_method [OF assms(2)] similar_targets [OF assms] similar_lines [OF assms]
      similar_header_field_start [OF assms] similar_header_field [OF assms] similar_header_value_start [OF assms]
      similar_header_value [OF assms] similar_header_almost_done [OF assms(2)] similar_header_value_lws [OF assms]
      similar_headers_almost_done [OF assms] similar_bodies [OF assms] similar_chunks [OF assms]
    by (cases "state sc") (simp_all add: handle_byte_def)
qed

section \<open>Similar scans end alike\<close>

fun stops_similar :: "stop \<Rightarrow> stop \<Rightarrow> bool" where
  "stops_similar (Stopped a n) (Stopped b m) = (similar a b \<and> n = m)"
| "stops_similar (Failed a) (Failed b) = similar a b"
| "stops_similar (Returned a n) (Returned b m) = (similar a b \<and> n = m)"
| "stops_similar (Aborted a) (Aborted b) = similar a b"
| "stops_similar (Read_outside a) (Read_outside b) = similar a b"
| "stops_similar _ _ = False"

lemma stops_similar_refl [simp]: "stops_similar r r"
  by (cases r) simp_all

lemma stops_similar_trans: "stops_similar a b \<Longrightarrow> stops_similar b c \<Longrightarrow> stops_similar a c"
  by (cases a; cases b; cases c) (auto intro: similar_trans)

lemma similar_loop:
  assumes "steady settings" and "similar sc sc'"
  shows "stops_similar (loop settings input position sc) (loop settings input position sc')"
  using assms
proof (induction settings input position sc arbitrary: sc' rule: loop.induct)
  case (1 settings input position sc)
  have count: "parse_count sc' = parse_count sc" using 1(4) by (simp add: similar_def)
  note unfolded = loop.simps [of settings input position sc] loop.simps [of settings input position sc']
  show ?case
  proof (cases "position \<ge> input_end input \<or> parse_count sc > 0")
    case True
    then show ?thesis using 1(4) count by (simp add: unfolded)
  next
    case False
    let ?out = "\<lambda>sc. handle_byte settings input position (input_buffer input ! position) sc"
    have outs: "outcomes_similar (?out sc) (?out sc')"
      by (rule similar_handle_byte [OF 1(3,4)])
    show ?thesis
    proof (cases "?out sc")
      case (Break a)
      then obtain b where b: "?out sc' = Break b" "similar a b" using outs by (cases "?out sc'") auto
      then show ?thesis using 1(1) [OF False Break 1(3) b(2)] Break False count by (simp add: unfolded)
    next
      case (Skip a n)
      then obtain b where b: "?out sc' = Skip b n" "similar a b" using outs by (cases "?out sc'") auto
      then show ?thesis using 1(2) [OF False Skip 1(3) b(2)] Skip False count by (simp add: unfolded)
    qed (use outs False count in \<open>cases "?out sc'"; simp add: unfolded\<close>)+
  qed
qed

section \<open>The end of a message\<close>

text \<open>The loop counts a message exactly when it has come back to the state of a start.\<close>

definition counted :: "scan \<Rightarrow> bool" where
  "counted sc \<longleftrightarrow> parse_count sc = 0 \<or> state sc \<in> {STATE_START_REQ, STATE_START_RES}"

fun outcome_counted :: "outcome \<Rightarrow> bool" where
  "outcome_counted (Break sc) = counted sc"
| "outcome_counted (Skip sc n) = counted sc"
| "outcome_counted _ = True"

lemma counted_simps [simp]:
  "parse_count (begin_message settings sc) = parse_count sc"
  "parse_count (end_line settings sc) = parse_count sc"
  "parse_count (set_method m sc) = parse_count sc"
  "parse_count (old_version sc) = parse_count sc"
  "parse_count (announce_headers settings sc) = parse_count sc"
  by (simp_all add: begin_message_def end_line_def set_method_def old_version_def announce_headers_def Let_def)

lemma counted_new_message: "counted (new_message settings sc)"
  by (simp add: counted_def start_state_def)

lemma after_counted:
  assumes "\<And>x. a = Some x \<Longrightarrow> outcome_counted (f x)"
  shows "outcome_counted (after a sc f)"
  using assms by (cases a) (simp_all add: after_def)

lemma callback_data_count:
  "http_callback_data settings input which mark position sc = Some x \<Longrightarrow> parse_count x = parse_count sc"
  by (cases mark) (auto simp: http_callback_data_def Let_def split: if_splits)

lemma callbacks_count:
  "callback_field settings input position sc = Some x \<Longrightarrow> parse_count x = parse_count sc"
  "callback_value settings input position sc = Some x \<Longrightarrow> parse_count x = parse_count sc"
  "callback_url settings input position sc = Some x \<Longrightarrow> parse_count x = parse_count sc"
  "call_body settings input position n sc = Some x \<Longrightarrow> parse_count x = parse_count sc"
  by (auto simp: callback_field_def callback_value_def callback_url_def call_body_def dest!: callback_data_count
      split: option.splits if_splits)

lemma url_end_counted:
  assumes "parse_count sc = 0"
  shows "outcome_counted (url_then_version settings input position sc)"
    and "outcome_counted (case url_end settings input position b sc of Some out \<Rightarrow> out | None \<Rightarrow> x) \<longleftrightarrow>
      outcome_counted x \<or> url_end settings input position b sc \<noteq> None"
proof -
  show version: "outcome_counted (url_then_version settings input position sc)"
    unfolding url_then_version_def
    by (rule after_counted) (use assms callbacks_count(3) in \<open>simp add: counted_def\<close>)
  have "outcome_counted (after (callback_url settings input position sc) sc
      (\<lambda>sc. Break (goto_state STATE_REQ_LINE_ALMOST_DONE (old_version sc))))"
    "outcome_counted (after (callback_url settings input position sc) sc (\<lambda>sc. Break (end_line settings (old_version sc))))"
    by (rule after_counted; use assms callbacks_count(3) in \<open>simp add: counted_def\<close>)+
  then show "outcome_counted (case url_end settings input position b sc of Some out \<Rightarrow> out | None \<Rightarrow> x) \<longleftrightarrow>
      outcome_counted x \<or> url_end settings input position b sc \<noteq> None"
    using version by (auto simp: url_end_def)
qed

lemma payload_follows_counted: "parse_count sc = 0 \<Longrightarrow> outcome_counted (payload_follows settings sc)"
  by (simp add: payload_follows_def Let_def counted_new_message) (simp add: counted_def)

lemma headers_almost_done_counted:
  assumes "parse_count sc = 0"
  shows "outcome_counted (headers_almost_done settings position b sc)"
  using assms payload_follows_counted
  by (simp add: headers_almost_done_def after_headers_def Let_def counted_new_message)

lemma header_field_start_counted:
  assumes "parse_count sc = 0"
  shows "outcome_counted (header_field_start settings input position b sc)"
  using assms headers_almost_done_counted by (simp add: header_field_start_def) (simp add: counted_def)

lemma header_states_counted:
  assumes "parse_count sc = 0"
  shows "outcome_counted (header_field settings input position b sc)"
    and "outcome_counted (header_value_start settings input position b sc)"
    and "outcome_counted (header_value settings input position b sc)"
    and "outcome_counted (header_almost_done sc)"
    and "outcome_counted (header_value_lws settings input position b sc)"
proof -
  have zero: "counted x" if "parse_count x = 0" for x using that by (simp add: counted_def)
  have almost: "outcome_counted (header_almost_done x)" if "parse_count x = 0" for x
    using that by (cases "header_state x") (simp_all add: header_almost_done_def Let_def zero)
  then show "outcome_counted (header_almost_done sc)" using assms .
  show "outcome_counted (header_value_lws settings input position b sc)"
    using assms header_field_start_counted by (simp add: header_value_lws_def zero)
  have token: "outcome_counted (field_token input b token sc)" for token
    using assms by (cases "header_state sc") (simp_all add: field_token_def Let_def zero)
  show "outcome_counted (header_field settings input position b sc)"
    using assms token unfolding header_field_def
    by (auto intro!: after_counted zero dest!: callbacks_count(1))
  have first: "outcome_counted (first_value b x)" if "parse_count x = 0" for x
    using that by (cases "header_state x") (simp_all add: first_value_def zero)
  show "outcome_counted (header_value_start settings input position b sc)"
    using assms first unfolding header_value_start_def Let_def
    by (auto intro!: after_counted zero dest!: callbacks_count(2))
  have char: "outcome_counted (value_char input b sc)"
    using assms by (cases "header_state sc") (simp_all add: value_char_def zero)
  show "outcome_counted (header_value settings input position b sc)"
    using assms char unfolding header_value_def
    by (auto intro!: after_counted zero almost dest!: callbacks_count(2))
qed

lemma bodies_counted:
  assumes "parse_count sc = 0"
  shows "outcome_counted (body_identity settings input position sc)"
    and "outcome_counted (body_identity_eof settings input position sc)"
    and "outcome_counted (chunk_data settings input position sc)"
    and "outcome_counted (chunk_size_almost_done settings input sc)"
proof -
  have zero: "counted x" if "parse_count x = 0" for x using that by (simp add: counted_def)
  show "outcome_counted (body_identity settings input position sc)"
    unfolding body_identity_def Let_def
    by (simp add: assms zero, intro impI after_counted)
      (use assms callbacks_count(4) in \<open>simp add: zero counted_new_message\<close>)
  show "outcome_counted (body_identity_eof settings input position sc)"
    unfolding body_identity_eof_def Let_def
    by (rule after_counted) (use assms callbacks_count(4) in \<open>simp add: zero\<close>)
  show "outcome_counted (chunk_data settings input position sc)"
    unfolding chunk_data_def Let_def
    by (simp add: assms zero, intro impI after_counted) (use assms callbacks_count(4) in \<open>simp add: zero\<close>)
  show "outcome_counted (chunk_size_almost_done settings input sc)"
    using assms by (simp add: chunk_size_almost_done_def Let_def zero)
qed

lemma handle_byte_counted:
  assumes "parse_count sc = 0"
  shows "outcome_counted (handle_byte settings input position b sc)"
proof -
  have zero: "counted x" if "parse_count x = 0" for x using that by (simp add: counted_def)
  have assign: "outcome_counted (start_req_method_assign b x)" if "parse_count x = 0" for x
    using that by (cases "first_method b") (simp_all add: start_req_method_assign_def Let_def zero)
  have assigned: "outcome_counted (req_method b sc)"
    using assms by (cases "other_method (parser_method (http_parser sc)) (index sc) b") (simp_all add: req_method_def Let_def zero)
  show ?thesis
    using assms assign assigned url_end_counted [OF assms] header_field_start_counted [OF assms]
      header_states_counted [OF assms] headers_almost_done_counted [OF assms] bodies_counted [OF assms]
    by (cases "state sc")
      (simp_all add: handle_byte_def zero parser_defs start_req_def spaces_before_url_def req_host_def req_port_def req_path_def
        req_query_string_start_def req_query_string_def req_fragment_start_def req_fragment_def Let_def)
qed

lemma loop_counted:
  assumes "counted sc" and "loop settings input position sc = Stopped sc' position'"
  shows "counted sc'"
  using assms
proof (induction settings input position sc rule: loop.induct)
  case (1 settings input position sc)
  note unfolded = loop.simps [of settings input position sc]
  show ?case
  proof (cases "position \<ge> input_end input \<or> parse_count sc > 0")
    case True
    then show ?thesis using 1(3,4) by (simp add: unfolded)
  next
    case False
    then have ok: "outcome_counted (handle_byte settings input position (input_buffer input ! position) sc)"
      by (intro handle_byte_counted) simp
    show ?thesis
    proof (cases "handle_byte settings input position (input_buffer input ! position) sc")
      case (Break a)
      then show ?thesis using 1(1) [OF False Break] 1(4) ok False by (simp add: unfolded)
    next
      case (Skip a n)
      then show ?thesis using 1(2) [OF False Skip] 1(4) ok False by (simp add: unfolded)
    qed (use 1(4) False in \<open>simp_all add: unfolded\<close>)
  qed
qed

section \<open>The data in two parts\<close>

definition received :: "nat \<Rightarrow> bool \<Rightarrow> bytes \<Rightarrow> http_input" where
  "received block asserts data =
     \<lparr>input_block = block, input_buffer = data, input_end = length data, input_asserts = asserts\<rparr>"

lemma received_simps [simp]:
  "input_block (received block asserts data) = block" "input_buffer (received block asserts data) = data"
  "input_end (received block asserts data) = length data" "input_asserts (received block asserts data) = asserts"
  by (simp_all add: received_def)

lemma callbacks_append:
  assumes "position \<le> length a"
  shows "callback_field settings (received k z (a @ b)) position sc = callback_field settings (received k z a) position sc"
    and "callback_value settings (received k z (a @ b)) position sc = callback_value settings (received k z a) position sc"
    and "callback_url settings (received k z (a @ b)) position sc = callback_url settings (received k z a) position sc"
proof -
  have marked: "marked (received k z (a @ b)) m position = marked (received k z a) m position" for m
    using assms by (simp add: marked_def)
  have called: "http_callback_data settings (received k z (a @ b)) which m position x =
      http_callback_data settings (received k z a) which m position x" for which m x
    by (cases m) (simp_all add: http_callback_data_def marked)
  show "callback_field settings (received k z (a @ b)) position sc = callback_field settings (received k z a) position sc"
    by (simp add: callback_field_def called)
  show "callback_value settings (received k z (a @ b)) position sc = callback_value settings (received k z a) position sc"
    by (simp add: callback_value_def called)
  show "callback_url settings (received k z (a @ b)) position sc = callback_url settings (received k z a) position sc"
    by (simp add: callback_url_def called marked split: option.split)
qed

definition body_states :: "http_parser_state set" where
  "body_states = {STATE_BODY_IDENTITY, STATE_BODY_IDENTITY_EOF, STATE_CHUNK_DATA}"

lemma handle_byte_append:
  assumes "position \<le> length a" and "state sc \<notin> body_states"
  shows "handle_byte settings (received k z (a @ b)) position c sc = handle_byte settings (received k z a) position c sc"
proof -
  note same = callbacks_append [OF assms(1)]
  have asserted: "chunk_asserted (received k z (a @ b)) x = chunk_asserted (received k z a) x" for x
    by (simp add: chunk_asserted_def)
  have token: "field_token (received k z (a @ b)) c t x = field_token (received k z a) c t x" for t x
    by (cases "header_state x") (simp_all add: field_token_def Let_def)
  have char: "value_char (received k z (a @ b)) c x = value_char (received k z a) c x" for x
    by (cases "header_state x") (simp_all add: value_char_def)
  show ?thesis
    using assms(2)
    by (cases "state sc")
      (simp_all add: handle_byte_def body_states_def same asserted token char url_end_def url_then_version_def spaces_before_url_def req_host_def
        req_port_def req_path_def req_query_string_start_def req_query_string_def req_fragment_start_def req_fragment_def
        header_field_start_def header_field_def header_value_start_def header_value_def header_value_lws_def Let_def
        chunk_size_start_def chunk_size_def chunk_parameters_def chunk_size_almost_done_def chunk_next_def)
qed

lemma call_body_parts:
  assumes "steady settings" and "position + m + n \<le> length data"
    and "call_body settings (received k z a) position m sc = Some x" and "take m (drop position a) = take m (drop position data)"
    and "parser_request (f (http_parser x)) = parser_request (http_parser x)"
  shows "\<exists>y w. call_body settings (received k z data) (position + m) n (update_parser f x) = Some y
    \<and> call_body settings (received k z data) position (m + n) sc = Some w
    \<and> similar (update_parser f w) y \<and> http_parser w = http_parser sc"
proof (cases "is_set settings (calls sc) On_body")
  case False
  then have x: "x = sc" using assms(3) by (simp add: call_body_def)
  show ?thesis
    by (intro exI [of _ "update_parser f sc"] exI [of _ sc]) (use False x in \<open>simp add: call_body_def\<close>)
next
  case True
  define r where "r = parser_request (http_parser sc)"
  have x: "x = sc\<lparr>calls := calls sc @ [Hand On_body r (take m (drop position data))]\<rparr>"
    using assms(3,4) True by (simp add: call_body_def r_def split: if_splits)
  have set: "is_set settings (calls x) On_body"
    using True assms(1) by (simp add: x steady_def)
  have r: "parser_request (f (http_parser sc)) = r" using assms(5) by (simp add: x r_def)
  define y where "y = (update_parser f x)\<lparr>calls := calls x @ [Hand On_body r (take n (drop (position + m) data))]\<rparr>"
  define w where "w = sc\<lparr>calls := calls sc @ [Hand On_body r (take (m + n) (drop position data))]\<rparr>"
  have "take (m + n) (drop position data) = take m (drop position data) @ take n (drop (position + m) data)"
    by (simp add: take_add add.commute)
  then have "similar (update_parser f w) y"
    by (simp add: similar_defs w_def y_def x)
  moreover have "call_body settings (received k z data) (position + m) n (update_parser f x) = Some y"
    using set assms(2) r by (simp add: call_body_def y_def x)
  moreover have "call_body settings (received k z data) position (m + n) sc = Some w"
    using True assms(2) by (simp add: call_body_def w_def r_def add.assoc)
  ultimately show ?thesis by (intro exI [of _ y] exI [of _ w]) (simp add: w_def)
qed

text \<open>
  A payload that does not come to its end in the first part stops there, and goes on with the second
  part to where a single call would have come to.
\<close>

definition goes_on :: "http_settings \<Rightarrow> nat \<Rightarrow> bool \<Rightarrow> bytes \<Rightarrow> bytes \<Rightarrow> nat \<Rightarrow> scan \<Rightarrow> bool" where
  "goes_on settings k z a b position sc \<longleftrightarrow> (\<exists>x y y' m.
     handle_byte settings (received k z a) position (a ! position) sc = Skip x (length a - position - 1)
     \<and> parse_count x = parse_count sc
     \<and> handle_byte settings (received k z (a @ b)) (length a) ((a @ b) ! length a) x = Skip y m
     \<and> handle_byte settings (received k z (a @ b)) position (a ! position) sc = Skip y' (length a - position + m)
     \<and> similar y' y)"

lemma goes_onI:
  assumes "handle_byte settings (received k z a) position (a ! position) sc = Skip x (length a - position - 1)"
    and "parse_count x = parse_count sc"
    and "handle_byte settings (received k z (a @ b)) (length a) ((a @ b) ! length a) x = Skip y m"
    and "handle_byte settings (received k z (a @ b)) position (a ! position) sc = Skip y' n"
    and "n = length a - position + m" and "similar y' y"
  shows "goes_on settings k z a b position sc"
  using assms unfolding goes_on_def by blast

definition less_left :: "nat \<Rightarrow> scan \<Rightarrow> scan" where
  "less_left n = update_parser (\<lambda>p. p\<lparr>content_length := content_length p - int n\<rparr>)"

lemma less_left_simps [simp]:
  "http_parser (less_left n sc) = (http_parser sc)\<lparr>content_length := content_length (http_parser sc) - int n\<rparr>"
  "state (less_left n sc) = state sc" "parse_count (less_left n sc) = parse_count sc"
  "header_state (less_left n sc) = header_state sc" "index (less_left n sc) = index sc"
  "read_count (less_left n sc) = read_count sc" "header_field_mark (less_left n sc) = header_field_mark sc"
  "header_value_mark (less_left n sc) = header_value_mark sc" "url_mark (less_left n sc) = url_mark sc"
  "calls (less_left n sc) = calls sc"
  by (simp_all add: less_left_def)

lemma less_left_add: "similar (less_left m w) y \<Longrightarrow> similar (less_left (m + n) w) (less_left n y)"
  by (simp add: similar_defs)

lemma identity_step:
  assumes "state sc = STATE_BODY_IDENTITY" and "n = nat (min (int (input_end input - position)) (content_length (http_parser sc)))"
    and "0 < n" and "call_body settings input position n sc = Some x"
  shows "handle_byte settings input position c sc =
    Skip (if content_length (http_parser (less_left n x)) = 0 then new_message settings (less_left n x) else less_left n x) (n - 1)"
proof -
  have n: "min (int (input_end input - position)) (content_length (http_parser sc)) = int n" using assms(2,3) by simp
  show ?thesis
    using assms(1,3,4) by (simp add: handle_byte_def body_identity_def n Let_def after_def less_left_def del: of_nat_diff)
qed

lemma chunk_step:
  assumes "state sc = STATE_CHUNK_DATA" and "n = nat (min (int (input_end input - position)) (content_length (http_parser sc)))"
    and "0 < n" and "call_body settings input position n sc = Some x" and "chunk_asserted input sc"
  shows "handle_byte settings input position c sc =
    Skip (less_left n (if int n = content_length (http_parser x) then goto_state STATE_CHUNK_DATA_ALMOST_DONE x else x)) (n - 1)"
proof -
  have n: "min (int (input_end input - position)) (content_length (http_parser sc)) = int n" using assms(2,3) by simp
  show ?thesis
    using assms(1,3-) by (simp add: handle_byte_def chunk_data_def n Let_def after_def less_left_def del: of_nat_diff)
qed

lemma call_body_Some:
  "position + n \<le> length (input_buffer input) \<Longrightarrow> \<exists>x. call_body settings input position n sc = Some x
     \<and> state x = state sc \<and> parse_count x = parse_count sc \<and> http_parser x = http_parser sc"
  by (simp add: call_body_def)

lemma identity_parts:
  assumes "steady settings" and "state sc = STATE_BODY_IDENTITY" and "position < length a" and "b \<noteq> []"
    and "content_length (http_parser sc) > int (length a - position)"
  shows "goes_on settings k z a b position sc"
proof -
  define n1 where "n1 = length a - position"
  define n2 where "n2 = nat (min (int (length b)) (content_length (http_parser sc) - int n1))"
  have pos: "0 < n1" "0 < n2" "position + n1 = length a" "n2 \<le> length b"
    using assms(3-5) by (auto simp: n1_def n2_def)
  obtain x where x: "call_body settings (received k z a) position n1 sc = Some x"
    and x_kept: "state x = state sc" "parse_count x = parse_count sc" "http_parser x = http_parser sc"
    using call_body_Some [of position n1 "received k z a"] pos by auto
  obtain y w where y: "call_body settings (received k z (a @ b)) (length a) n2 (less_left n1 x) = Some y"
    and w: "call_body settings (received k z (a @ b)) position (n1 + n2) sc = Some w"
    and sim: "similar (less_left n1 w) y" and kept: "http_parser w = http_parser sc"
    using call_body_parts [OF assms(1), of position n1 n2 "a @ b" k z a sc x "\<lambda>p. p\<lparr>content_length := content_length p - int n1\<rparr>"]
      x pos unfolding less_left_def by auto
  have first: "handle_byte settings (received k z a) position (a ! position) sc = Skip (less_left n1 x) (n1 - 1)"
  proof -
    have "n1 = nat (min (int (input_end (received k z a) - position)) (content_length (http_parser sc)))"
      using assms(5) by (simp add: n1_def min_def del: of_nat_diff)
    note identity_step [OF assms(2) this pos(1) x, of "a ! position"]
    moreover have "content_length (http_parser (less_left n1 x)) \<noteq> 0"
      using assms(5) x_kept(3) by (simp add: n1_def del: of_nat_diff)
    ultimately show ?thesis by simp
  qed
  define fin where "fin = (\<lambda>sc. if content_length (http_parser sc) = 0 then new_message settings sc else sc)"
  have "handle_byte settings (received k z (a @ b)) (length a) ((a @ b) ! length a) (less_left n1 x) =
      Skip (fin (less_left n2 y)) (n2 - 1)"
    unfolding fin_def by (rule identity_step) (use y pos assms(2) x_kept in \<open>simp_all add: n2_def\<close>)
  moreover have "n1 + n2 = nat (min (int (length (a @ b) - position)) (content_length (http_parser sc)))"
    using pos assms(3,5) by (auto simp: n1_def n2_def min_def)
  then have "handle_byte settings (received k z (a @ b)) position (a ! position) sc =
      Skip (fin (less_left (n1 + n2) w)) (n1 + n2 - 1)"
    unfolding fin_def by (intro identity_step) (use w pos assms(2) in simp_all)
  moreover have "similar (fin (less_left (n1 + n2) w)) (fin (less_left n2 y))"
  proof -
    note left = less_left_add [OF sim, of n2]
    have "content_length (http_parser (less_left n2 y)) = content_length (http_parser (less_left (n1 + n2) w))"
      using left by (simp only: similar_defs)
    then show ?thesis
      using left similar_new_message [OF assms(1) left] unfolding fin_def by (simp only: split: if_split) simp
  qed
  moreover have "n1 + n2 - 1 = length a - position + (n2 - 1)" using pos by (simp add: n1_def)
  moreover have "parse_count (less_left n1 x) = parse_count sc" using x_kept(2) by simp
  ultimately show ?thesis using first unfolding n1_def by (intro goes_onI)
qed

lemma chunk_parts:
  assumes "steady settings" and "state sc = STATE_CHUNK_DATA" and "position < length a" and "b \<noteq> []"
    and "content_length (http_parser sc) > int (length a - position)" and "chunk_asserted (received k z a) sc"
  shows "goes_on settings k z a b position sc"
proof -
  define n1 where "n1 = length a - position"
  define n2 where "n2 = nat (min (int (length b)) (content_length (http_parser sc) - int n1))"
  have pos: "0 < n1" "0 < n2" "position + n1 = length a" "n2 \<le> length b"
    using assms(3-5) by (auto simp: n1_def n2_def)
  obtain x where x: "call_body settings (received k z a) position n1 sc = Some x"
    and x_kept: "state x = state sc" "parse_count x = parse_count sc" "http_parser x = http_parser sc"
    using call_body_Some [of position n1 "received k z a"] pos by auto
  obtain y w where y: "call_body settings (received k z (a @ b)) (length a) n2 (less_left n1 x) = Some y"
    and w: "call_body settings (received k z (a @ b)) position (n1 + n2) sc = Some w"
    and sim: "similar (less_left n1 w) y" and kept: "http_parser w = http_parser sc"
    using call_body_parts [OF assms(1), of position n1 n2 "a @ b" k z a sc x "\<lambda>p. p\<lparr>content_length := content_length p - int n1\<rparr>"]
      x pos unfolding less_left_def by auto
  have first: "handle_byte settings (received k z a) position (a ! position) sc = Skip (less_left n1 x) (n1 - 1)"
  proof -
    have "n1 = nat (min (int (input_end (received k z a) - position)) (content_length (http_parser sc)))"
      using assms(5) by (simp add: n1_def min_def del: of_nat_diff)
    note chunk_step [OF assms(2) this pos(1) x assms(6), of "a ! position"]
    moreover have "int n1 \<noteq> content_length (http_parser x)"
      using assms(5) x_kept(3) by (simp add: n1_def del: of_nat_diff)
    ultimately show ?thesis by simp
  qed
  define fin where "fin = (\<lambda>n sc. less_left n (if int n = content_length (http_parser sc)
      then goto_state STATE_CHUNK_DATA_ALMOST_DONE sc else sc))"
  have asserted: "chunk_asserted (received k z (a @ b)) (less_left n1 x)" "chunk_asserted (received k z (a @ b)) sc"
    using assms(6) x_kept(3) by (simp_all add: chunk_asserted_def)
  have "n2 = nat (min (int (input_end (received k z (a @ b)) - length a)) (content_length (http_parser (less_left n1 x))))"
    by (simp add: n2_def x_kept(3))
  from chunk_step [OF _ this pos(2) y asserted(1), of "(a @ b) ! length a"]
  have "handle_byte settings (received k z (a @ b)) (length a) ((a @ b) ! length a) (less_left n1 x) = Skip (fin n2 y) (n2 - 1)"
    using assms(2) x_kept(1) by (simp add: fin_def)
  moreover have "n1 + n2 = nat (min (int (input_end (received k z (a @ b)) - position)) (content_length (http_parser sc)))"
    using pos assms(3,5) by (auto simp: n1_def n2_def min_def)
  from chunk_step [OF assms(2) this _ w asserted(2), of "a ! position"]
  have "handle_byte settings (received k z (a @ b)) position (a ! position) sc = Skip (fin (n1 + n2) w) (n1 + n2 - 1)"
    using pos by (simp add: fin_def)
  moreover have "similar (fin (n1 + n2) w) (fin n2 y)"
  proof -
    have "int (n1 + n2) = content_length (http_parser w) \<longleftrightarrow> int n2 = content_length (http_parser y)"
      using sim by (auto simp: similar_defs)
    then show ?thesis
      using less_left_add [OF sim, of n2] by (simp add: fin_def similar_defs)
  qed
  moreover have "n1 + n2 - 1 = length a - position + (n2 - 1)" using pos by (simp add: n1_def)
  moreover have "parse_count (less_left n1 x) = parse_count sc" using x_kept(2) by simp
  ultimately show ?thesis using first unfolding n1_def by (intro goes_onI)
qed

lemma eof_parts:
  assumes "steady settings" and "state sc = STATE_BODY_IDENTITY_EOF" and "position < length a" and "b \<noteq> []"
  shows "goes_on settings k z a b position sc"
proof -
  define n1 where "n1 = length a - position"
  have pos: "0 < n1" "position + n1 = length a" using assms(3) by (simp_all add: n1_def)
  obtain x where x: "call_body settings (received k z a) position n1 sc = Some x"
    and x_kept: "state x = state sc" "parse_count x = parse_count sc"
    using call_body_Some [of position n1 "received k z a"] pos by auto
  have id: "update_parser (\<lambda>p. p) s = s" for s by (simp add: update_parser_def)
  obtain y w where y: "call_body settings (received k z (a @ b)) (length a) (length b) x = Some y"
    and w: "call_body settings (received k z (a @ b)) position (n1 + length b) sc = Some w" and sim: "similar w y"
    using call_body_parts [OF assms(1), of position n1 "length b" "a @ b" k z a sc x "\<lambda>p. p"] x pos by (auto simp: id)
  have "handle_byte settings (received k z a) position (a ! position) sc = Skip x (n1 - 1)"
    using x assms(2) by (simp add: handle_byte_def body_identity_eof_def after_def n1_def)
  moreover have "handle_byte settings (received k z (a @ b)) (length a) ((a @ b) ! length a) x = Skip y (length b - 1)"
    using y assms(2) x_kept(1) by (simp add: handle_byte_def body_identity_eof_def after_def)
  moreover have "handle_byte settings (received k z (a @ b)) position (a ! position) sc = Skip w (n1 + length b - 1)"
    using w assms(2,3) by (simp add: handle_byte_def body_identity_eof_def after_def n1_def)
  moreover have "n1 + length b - 1 = length a - position + (length b - 1)" using assms(4) by (cases b) (simp_all add: n1_def)
  ultimately show ?thesis using sim x_kept(2) unfolding n1_def by (intro goes_onI)
qed

lemma body_same:
  assumes "state sc = STATE_BODY_IDENTITY \<or> state sc = STATE_CHUNK_DATA" and "position < length a"
    and "content_length (http_parser sc) \<le> int (length a - position)
      \<or> state sc = STATE_CHUNK_DATA \<and> \<not> chunk_asserted (received k z a) sc"
  shows "handle_byte settings (received k z (a @ b)) position c sc = handle_byte settings (received k z a) position c sc"
proof -
  have asserted: "chunk_asserted (received k z (a @ b)) x = chunk_asserted (received k z a) x" for x
    by (simp add: chunk_asserted_def)
  show ?thesis
  proof (cases "content_length (http_parser sc) \<le> int (length a - position)")
    case True
    define L where "L = content_length (http_parser sc)"
    have L: "min (int (length a - position)) L = L" "min (int (length (a @ b) - position)) L = L"
      using True by (auto simp: L_def min_def)
    have body: "call_body settings (received k z (a @ b)) position (nat L) x = call_body settings (received k z a) position (nat L) x" for x
      using True assms(2) by (auto simp: call_body_def L_def)
    show ?thesis
      using assms(1) unfolding handle_byte_def body_identity_def chunk_data_def Let_def received_simps L_def [symmetric] L
      by (elim disjE) (simp_all add: body asserted del: of_nat_diff)
  next
    case False
    then show ?thesis using assms(3) by (simp add: handle_byte_def chunk_data_def asserted)
  qed
qed

definition go_on :: "http_settings \<Rightarrow> http_input \<Rightarrow> stop \<Rightarrow> stop" where
  "go_on settings input r = (case r of Stopped sc position \<Rightarrow> loop settings input position sc | _ \<Rightarrow> r)"

lemma go_on_simps [simp]:
  "go_on settings input (Stopped sc position) = loop settings input position sc"
  "go_on settings input (Failed sc) = Failed sc"
  "go_on settings input (Returned sc n) = Returned sc n"
  "go_on settings input (Aborted sc) = Aborted sc"
  "go_on settings input (Read_outside sc) = Read_outside sc"
  by (simp_all add: go_on_def)

lemma loop_parts:
  assumes "steady settings" and "b \<noteq> []" and "position \<le> length a"
  shows "stops_similar (loop settings (received k z (a @ b)) position sc)
    (go_on settings (received k z (a @ b)) (loop settings (received k z a) position sc))"
  using assms
proof (induction settings "received k z a" position sc rule: loop.induct)
  case (1 settings position sc)
  let ?one = "received k z a" and ?both = "received k z (a @ b)"
  note unfolded = loop.simps [of settings ?one position sc] loop.simps [of settings ?both position sc]
  show ?case
  proof (cases "position \<ge> input_end ?one \<or> parse_count sc > 0")
    case True
    then show ?thesis by (simp add: unfolded(1))
  next
    case False
    then have inside: "position < length a" and count: "parse_count sc = 0" by simp_all
    have byte: "input_buffer ?both ! position = input_buffer ?one ! position" using inside by (simp add: nth_append)
    let ?out = "handle_byte settings ?one position (input_buffer ?one ! position) sc"
    consider (same) "handle_byte settings ?both position (input_buffer ?one ! position) sc = ?out"
      | (goes) "goes_on settings k z a b position sc"
    proof (cases "state sc \<in> body_states")
      case True
      show ?thesis
        using that identity_parts [OF 1(3) _ inside 1(4), of sc k z] chunk_parts [OF 1(3) _ inside 1(4), of sc k z]
          eof_parts [OF 1(3) _ inside 1(4), of sc k z] body_same [OF _ inside, of sc k z settings b "a ! position"] True
        by (simp add: body_states_def) (metis linorder_not_less)
    next
      case False
      then show ?thesis using that(1) handle_byte_append [of position a sc settings k z b "a ! position"] inside by simp
    qed
    then show ?thesis
    proof cases
      case same
      show ?thesis
      proof (cases ?out)
        case (Break x)
        then show ?thesis using 1(1) [OF False Break 1(3,4)] same byte inside count by (simp add: unfolded)
      next
        case (Skip x n)
        show ?thesis
        proof (cases "position + n + 1 \<le> length a")
          case True
          then show ?thesis using 1(2) [OF False Skip 1(3,4)] Skip same byte inside count by (simp add: unfolded)
        next
          case outside: False
          then show ?thesis
            using Skip same byte inside count by (simp add: unfolded loop.simps [of settings ?one "Suc (position + n)" x])
        qed
      qed (use same byte inside count in \<open>simp_all add: unfolded\<close>)
    next
      case goes
      then obtain x y y' m where first: "?out = Skip x (length a - position - 1)" and x: "parse_count x = parse_count sc"
        and second: "handle_byte settings ?both (length a) ((a @ b) ! length a) x = Skip y m"
        and whole: "handle_byte settings ?both position (a ! position) sc = Skip y' (length a - position + m)"
        and sim: "similar y' y"
        unfolding goes_on_def by auto
      have "position + (length a - position - 1) + 1 = length a" using inside by simp
      moreover have "loop settings ?one (length a) x = Stopped x (length a)"
        by (simp add: loop.simps [of settings ?one])
      ultimately have "loop settings ?one position sc = Stopped x (length a)"
        using first inside count unfolding unfolded(1) by simp
      moreover have "loop settings ?both (length a) x = loop settings ?both (length a + m + 1) y"
        using second x count 1(4) by (simp add: loop.simps [of settings ?both "length a" x])
      moreover have "position + (length a - position + m) + 1 = length a + m + 1" using inside by simp
      then have "loop settings ?both position sc = loop settings ?both (length a + m + 1) y'"
        using whole inside count unfolding unfolded(2) by (simp add: nth_append)
      ultimately show ?thesis using similar_loop [OF 1(3) sim, of ?both "length a + m + 1"] by simp
    qed
  qed
qed

section \<open>A call after a call\<close>

lemma load_save_similar:
  assumes "index sc \<le> 17" and "parse_count sc = 0"
  shows "similar sc (load_scan (save_scan sc) (calls sc))"
proof -
  have "unat (of_nat (index sc) :: byte) = index sc" using assms(1) by (simp add: unat_of_nat_byte)
  then show ?thesis using assms(2) by (simp add: similar_defs load_scan_def save_scan_def)
qed

lemma similar_save: "similar sc sc' \<Longrightarrow> save_scan sc = save_scan sc'"
  by (simp add: similar_defs save_scan_def)

lemma similar_end_of_input:
  assumes "steady settings" and "similar sc sc'"
  shows "similar (end_of_input settings sc) (end_of_input settings sc')"
  using assms(2) similar_new_message [OF assms] by (simp add: end_of_input_def) (simp add: similar_def)

text \<open>
  What two calls leave agrees with what a single one does: the value counts from where each starts,
  the calls are the same up to the parts of the payload, the message is the same, and so is all of
  the structure, unless the call has returned without saving the variables of the loop.
\<close>

definition agree :: "nat \<Rightarrow> processed \<times> http_parser \<times> http_call list \<Rightarrow> processed \<times> http_parser \<times> http_call list \<Rightarrow> bool" where
  "agree n second whole \<longleftrightarrow> (case second of (r, p, c) \<Rightarrow> case whole of (r', p', c') \<Rightarrow>
     r' = (case r of Value v \<Rightarrow> Value (if v < 0 then v else v + int n) | _ \<Rightarrow> r)
     \<and> flatten c' = flatten c \<and> same_message p p'
     \<and> (p' = p \<or> upgrade p \<or> (\<forall>v\<ge>0. r \<noteq> Value v)))"

definition finished :: "http_settings \<Rightarrow> nat \<Rightarrow> stop \<Rightarrow> processed \<times> http_parser \<times> http_call list" where
  "finished settings start r = (case r of
      Stopped sc position \<Rightarrow>
        (let sc = end_of_input settings sc in (Value (int (position - start)), save_scan sc, calls sc))
    | Failed sc \<Rightarrow> (Value (- 1), http_parser sc, calls sc)
    | Returned sc position \<Rightarrow> (Value (int (position - start)), http_parser sc, calls sc)
    | Aborted sc \<Rightarrow> (Assertion, http_parser sc, calls sc)
    | Read_outside sc \<Rightarrow> (Out_of_data, http_parser sc, calls sc))"

lemma process_finished:
  "start < input_end input \<Longrightarrow> process_data_http_parser settings input start parser cs =
     finished settings start (loop settings input start (load_scan parser cs))"
  by (simp add: process_data_http_parser_def finished_def)

lemma finished_agree:
  assumes "steady settings" and "stops_similar r r'" and "start \<le> start'"
    and "stop_ok settings start' input r'" and "\<And>cs. \<not> 1 < on_headers_complete settings cs"
  shows "agree (start' - start) (finished settings start' r') (finished settings start r)"
proof (cases r)
  case (Stopped sc n)
  then obtain sc' where r': "r' = Stopped sc' n" and "similar sc sc'" using assms(2) by (cases r') auto
  then have "similar (end_of_input settings sc) (end_of_input settings sc')"
    by (intro similar_end_of_input [OF assms(1)])
  then have saved: "save_scan (end_of_input settings sc) = save_scan (end_of_input settings sc')"
    and called: "flatten (calls (end_of_input settings sc)) = flatten (calls (end_of_input settings sc'))"
    using similar_save by (simp_all add: similar_def)
  have "start' \<le> n" using assms(4) r' by simp
  then show ?thesis
    using assms(3) by (simp add: Stopped r' agree_def finished_def Let_def saved called same_message_def)
next
  case (Returned sc n)
  then obtain sc' where r': "r' = Returned sc' n" and sim: "similar sc sc'" using assms(2) by (cases r') auto
  have called: "flatten (calls sc) = flatten (calls sc')" and same: "same_message (http_parser sc') (http_parser sc)"
    using sim by (simp_all add: similar_defs)
  have "start' \<le> n" "upgrade (http_parser sc')" using assms(4,5) r' by auto
  then show ?thesis
    using assms(3) by (simp add: Returned r' agree_def finished_def called same)
qed (use assms(2) in \<open>cases r'; simp add: agree_def finished_def similar_defs\<close>)+

text \<open>C5: how the network cuts a message into parts does not matter. When a call of the parser has read
  all of its data and is inside of a message, the call that is given the data that follows, in the same
  buffer, leaves what a single call with all of the data does: it fails, it ends the message and it counts
  the bytes alike, the structure is the same, and so are the callbacks with their arguments, save that the
  payload is handed over in more parts. This holds for every cut, also inside of a name, a value, a number
  or the payload, of requests and responses, for handlers that do not replace their callbacks on such a part.\<close>

theorem parts_agree:
  assumes "steady settings" and "\<And>cs. on_headers_complete settings cs \<le> 1"
    and "parser_ok block start parser" and "start < length a" and "b \<noteq> []"
    and "process_data_http_parser settings (received block z a) start parser cs =
      (Value (int (length a - start)), parser1, cs1)"
    and "parser_state parser1 \<noteq> STATE_START_REQ" and "parser_state parser1 \<noteq> STATE_START_RES" and "\<not> upgrade parser1"
  shows "agree (length a - start)
    (process_data_http_parser settings (received block z (a @ b)) (length a) parser1 cs1)
    (process_data_http_parser settings (received block z (a @ b)) start parser cs)"
proof -
  let ?one = "received block z a" and ?both = "received block z (a @ b)" and ?sc = "load_scan parser cs"
  have answers: "\<not> 1 < on_headers_complete settings cs" for cs using assms(2) [of cs] by simp
  have ok: "stop_ok settings start ?one (loop settings ?one start ?sc)"
    "stop_ok settings start ?both (loop settings ?both start ?sc)"
    using assms(3,4) by (intro loop_ok; simp add: scan_ok_load)+
  have "finished settings start (loop settings ?one start ?sc) = (Value (int (length a - start)), parser1, cs1)"
    using assms(4,6) by (simp add: process_finished)
  moreover have "\<not> upgrade (http_parser (end_of_input settings sc)) \<Longrightarrow> \<not> upgrade (http_parser sc)" for sc
    by (simp add: end_of_input_def new_message_def Let_def split: if_splits)
  ultimately obtain sc where stopped: "loop settings ?one start ?sc = Stopped sc (length a)"
    and parser1: "parser1 = save_scan (end_of_input settings sc)" "cs1 = calls (end_of_input settings sc)"
    using assms(4,9) ok(1) answers
    by (cases "loop settings ?one start ?sc") (auto simp: finished_def Let_def)
  have "state (end_of_input settings sc) = parser_state parser1" by (simp add: parser1 save_scan_def)
  then have inside: "state sc \<noteq> STATE_BODY_IDENTITY_EOF" "state sc \<noteq> STATE_START_REQ" "state sc \<noteq> STATE_START_RES"
    using assms(7,8) by (auto simp: end_of_input_def start_state_def split: if_splits)
  have "counted ?sc" by (simp add: counted_def load_scan_def)
  then have "parse_count sc = 0"
    using loop_counted [OF _ stopped] inside by (simp add: counted_def)
  moreover have "scan_ok block (length a) sc" using ok(1) stopped by simp
  ultimately have "similar sc (load_scan parser1 cs1)"
    using load_save_similar inside(1) scan_ok_basic by (simp add: parser1 end_of_input_def)
  then have "stops_similar (loop settings ?both (length a) sc) (loop settings ?both (length a) (load_scan parser1 cs1))"
    by (rule similar_loop [OF assms(1)])
  moreover have "stops_similar (loop settings ?both start ?sc) (loop settings ?both (length a) sc)"
    using loop_parts [OF assms(1,5), where k = block and z = z and position = start and sc = ?sc and a = a] assms(4) stopped by simp
  ultimately have "stops_similar (loop settings ?both start ?sc) (loop settings ?both (length a) (load_scan parser1 cs1))"
    by (rule stops_similar_trans [rotated])
  moreover have "parser_ok block (length a) parser1"
    unfolding parser1 using \<open>scan_ok block (length a) sc\<close> by (intro scan_ok_save end_of_input_ok)
  then have "stop_ok settings (length a) ?both (loop settings ?both (length a) (load_scan parser1 cs1))"
    by (intro loop_ok) (simp_all add: scan_ok_load)
  ultimately have "agree (length a - start) (finished settings (length a) (loop settings ?both (length a) (load_scan parser1 cs1)))
      (finished settings start (loop settings ?both start ?sc))"
    using assms(4) answers by (intro finished_agree [OF assms(1)]) auto
  then show ?thesis using assms(4,5) by (simp add: process_finished)
qed

text \<open>The first part of a sample, which ends inside of the target of the request.\<close>

definition first_part :: "processed \<times> http_parser \<times> http_call list" where
  "first_part = process_data_http_parser plain_settings (received 0 False (ascii ''GET /'')) 0 (create_http_parser 0 True) []"

lemma plain_settings_steady: "steady plain_settings"
  by (simp add: steady_def plain_settings_def)

lemma first_part_ok:
  "fst first_part = Value 5" "parser_state (fst (snd first_part)) = STATE_REQ_PATH" "\<not> upgrade (fst (snd first_part))"
  by code_simp+

theorem parts_agree_witness:
  "agree (length (ascii ''GET /'') - 0)
    (process_data_http_parser plain_settings (received 0 False (ascii ''GET /'' @ ascii ''a HTTP/1.1''))
      (length (ascii ''GET /'')) (fst (snd first_part)) (snd (snd first_part)))
    (process_data_http_parser plain_settings (received 0 False (ascii ''GET /'' @ ascii ''a HTTP/1.1'')) 0
      (create_http_parser 0 True) [])"
proof (rule parts_agree [OF plain_settings_steady])
  show "process_data_http_parser plain_settings (received 0 False (ascii ''GET /'')) 0 (create_http_parser 0 True) [] =
      (Value (int (length (ascii ''GET /'') - 0)), fst (snd first_part), snd (snd first_part))"
    using first_part_ok(1) by (simp add: first_part_def [symmetric] prod_eq_iff)
qed (simp_all add: create_ok plain_settings_def first_part_ok, simp_all add: ascii_def)

end
