(* ===== verification/Base_64.thy ===== *)
theory Base_64
  imports Viriatum_Prelude
begin

text \<open>
  The base 64 codec of \<^verbatim>\<open>src/src/viriatum_commons/encoding/base_64.c\<close>. A buffer that the code
  allocates and fills from its start is the list of what has been written, with the size of the
  allocation as a bound; a read or a write beyond a buffer is the error \<open>Out_Of_Bounds\<close>. The
  lemmas turn the loops over indexes into the coding of groups of three bytes, from which come
  the round trip and the sizes of the two buffers.
\<close>

section \<open>The alphabet\<close>

definition base64_characters :: bytes where
  "base64_characters = ascii ''ABCDEFGHIJKLMNOPQRSTUVWXYZabcdefghijklmnopqrstuvwxyz0123456789+/''"

definition PADDING_BASE_64 :: byte where
  [simp]: "PADDING_BASE_64 = 0x3d"

text \<open>The search over the alphabet, from an index on, and the variant that knows its layout.\<close>

fun lookup_base64_from :: "nat \<Rightarrow> bytes \<Rightarrow> byte \<Rightarrow> byte" where
  "lookup_base64_from index [] c = 0"
| "lookup_base64_from index (current # rest) c =
     (if current = c then of_nat index else lookup_base64_from (index + 1) rest c)"

definition lookup_base64 :: "byte \<Rightarrow> byte" where
  "lookup_base64 c = lookup_base64_from 0 base64_characters c"

definition lookup_fast_base64 :: "byte \<Rightarrow> byte" where
  "lookup_fast_base64 c =
     (if c \<ge> 0x41 \<and> c \<le> 0x5a then c - 65
      else if c \<ge> 0x61 \<and> c \<le> 0x7a then c - 71
      else if c \<ge> 0x30 \<and> c \<le> 0x39 then c + 4
      else if c = 0x2b then 62
      else if c = 0x2f then 63
      else 0)"

section \<open>Encoding\<close>

definition calculate_encoded_buffer_length_base64 :: "nat \<Rightarrow> nat" where
  "calculate_encoded_buffer_length_base64 n =
     (let padding_count = (if n mod 3 \<noteq> 0 then 3 - n mod 3 else 0)
      in (n + padding_count) * 4 div 3)"

text \<open>One of the four numbers of six bits that a group of three bytes is made of.\<close>

definition six_bits :: "u32 \<Rightarrow> nat \<Rightarrow> byte" where
  "six_bits number shift = ucast (drop_bit shift number) AND 63"

definition base64_character :: "byte \<Rightarrow> byte" where
  "base64_character n = base64_characters ! unat n"

function encode_base64_loop :: "bytes \<Rightarrow> nat \<Rightarrow> bytes \<Rightarrow> bytes" where
  "encode_base64_loop buffer index encoded =
     (if index \<ge> length buffer then encoded
      else
        (let number = push_bit 16 (ucast (buffer ! index)) :: u32;
             number = (if index + 1 < length buffer
                       then number + push_bit 8 (ucast (buffer ! (index + 1))) else number);
             number = (if index + 2 < length buffer then number + ucast (buffer ! (index + 2)) else number);
             encoded = encoded @ [base64_character (six_bits number 18), base64_character (six_bits number 12)];
             encoded = (if index + 1 < length buffer then encoded @ [base64_character (six_bits number 6)]
                        else encoded);
             encoded = (if index + 2 < length buffer then encoded @ [base64_character (six_bits number 0)]
                        else encoded)
         in encode_base64_loop buffer (index + 3) encoded))"
  by pat_completeness auto
termination by (relation "measure (\<lambda>(buffer, index, encoded). length buffer - index)") auto

declare encode_base64_loop.simps [simp del]

definition encode_base64 :: "bytes \<Rightarrow> bytes" where
  "encode_base64 buffer =
     (let encoded = encode_base64_loop buffer 0 [];
          pad_count = (length buffer mod 2 ^ 32) mod 3
      in if pad_count > 0 then encoded @ replicate (3 - pad_count) PADDING_BASE_64 else encoded)"

section \<open>Decoding\<close>

text \<open>The size that is allocated, whose subtraction wraps around in a \<^verbatim>\<open>size_t\<close>.\<close>

definition calculate_decoded_buffer_length_base64 :: "nat \<Rightarrow> nat \<Rightarrow> nat" where
  "calculate_decoded_buffer_length_base64 n padding_count =
     (n div 4 * 3 + (2 ^ 64 - padding_count)) mod 2 ^ 64"

text \<open>
  The count of the padding, from an index down to the second character; the index that it starts
  at wraps around in an \<^verbatim>\<open>unsigned int\<close>. An index outside of the buffer is read in any case, so
  it decides what comes of the whole of it.
\<close>

fun padding_from :: "bytes \<Rightarrow> nat \<Rightarrow> nat result" where
  "padding_from encoded 0 = Inr 0"
| "padding_from encoded (Suc index) =
     (if length encoded \<le> Suc index then Inl Out_Of_Bounds
      else if encoded ! Suc index \<noteq> PADDING_BASE_64 then Inr 0
      else case padding_from encoded index of Inl e \<Rightarrow> Inl e | Inr n \<Rightarrow> Inr (n + 1))"

definition get_padding_count :: "bytes \<Rightarrow> nat result" where
  "get_padding_count encoded =
     (let index = (length encoded mod 2 ^ 32 + (2 ^ 32 - 1)) mod 2 ^ 32
      in if index > 0 \<and> length encoded \<le> index then Inl Out_Of_Bounds else padding_from encoded index)"

text \<open>A byte into the buffer that has been allocated, at the position after what it holds.\<close>

definition store_byte :: "nat \<Rightarrow> byte \<Rightarrow> bytes \<Rightarrow> bytes result" where
  "store_byte capacity b buffer = (if length buffer < capacity then Inr (buffer @ [b]) else Inl Out_Of_Bounds)"

text \<open>The number of 24 bits of a group of four characters.\<close>

definition group_number :: "bytes \<Rightarrow> nat \<Rightarrow> u32 result" where
  "group_number encoded index =
     (if index + 3 < length encoded then
        Inr (push_bit 18 (ucast (lookup_fast_base64 (encoded ! index)))
          + push_bit 12 (ucast (lookup_fast_base64 (encoded ! (index + 1))))
          + push_bit 6 (ucast (lookup_fast_base64 (encoded ! (index + 2))))
          + ucast (lookup_fast_base64 (encoded ! (index + 3))))
      else Inl Out_Of_Bounds)"

text \<open>The three bytes of a group, the last two of them while the buffer is still valid.\<close>

definition store_group :: "nat \<Rightarrow> nat \<Rightarrow> u32 \<Rightarrow> bytes \<Rightarrow> bytes result" where
  "store_group capacity valid number buffer =
     (case store_byte capacity (ucast (drop_bit 16 number)) buffer of
        Inl e \<Rightarrow> Inl e
      | Inr buffer1 \<Rightarrow>
          (case (if length buffer1 \<le> valid then store_byte capacity (ucast (drop_bit 8 number)) buffer1
                 else Inr buffer1) of
             Inl e \<Rightarrow> Inl e
           | Inr buffer2 \<Rightarrow>
               if length buffer2 \<le> valid then store_byte capacity (ucast number) buffer2 else Inr buffer2))"

function decode_base64_loop :: "bytes \<Rightarrow> nat \<Rightarrow> nat \<Rightarrow> nat \<Rightarrow> bytes \<Rightarrow> bytes result" where
  "decode_base64_loop encoded capacity valid index buffer =
     (if index \<ge> length encoded then Inr buffer
      else
        (case group_number encoded index of
           Inl e \<Rightarrow> Inl e
         | Inr number \<Rightarrow>
             (case store_group capacity valid number buffer of
                Inl e \<Rightarrow> Inl e
              | Inr buffer' \<Rightarrow> decode_base64_loop encoded capacity valid (index + 4) buffer')))"
  by pat_completeness auto
termination by (relation "measure (\<lambda>(encoded, capacity, valid, index, buffer). length encoded - index)") auto

declare decode_base64_loop.simps [simp del]

text \<open>
  The bytes that are decoded. The length that is returned is the one of the buffer: the end of it that
  nothing has been written into, which a text with more than two characters of padding leaves, holds what
  the memory held before, and what comes of that is left open as well.
\<close>

definition decode_base64 :: "bytes \<Rightarrow> bytes result" where
  "decode_base64 encoded =
     (case get_padding_count encoded of
        Inl e \<Rightarrow> Inl e
      | Inr padding_count \<Rightarrow>
          (let capacity = calculate_decoded_buffer_length_base64 (length encoded) padding_count;
               valid = (if capacity > padding_count then capacity - padding_count else 0)
           in case decode_base64_loop encoded capacity valid 0 [] of
                Inl e \<Rightarrow> Inl e
              | Inr buffer \<Rightarrow> if length buffer < capacity then Inl Out_Of_Bounds else Inr buffer))"


section \<open>Groups of three bytes\<close>

definition packed :: "byte \<Rightarrow> byte \<Rightarrow> byte \<Rightarrow> u32" where
  "packed a b c = push_bit 16 (ucast a) + push_bit 8 (ucast b) + ucast c"

definition coded_character :: "u32 \<Rightarrow> nat \<Rightarrow> byte" where
  "coded_character number shift = base64_character (six_bits number shift)"

text \<open>What the loop writes, by recursion on the bytes.\<close>

fun coded :: "bytes \<Rightarrow> bytes" where
  "coded [] = []"
| "coded [a] = map (coded_character (packed a 0 0)) [18, 12]"
| "coded [a, b] = map (coded_character (packed a b 0)) [18, 12, 6]"
| "coded (a # b # c # rest) = map (coded_character (packed a b c)) [18, 12, 6, 0] @ coded rest"

lemma encode_loop_coded: "encode_base64_loop (start @ buffer) (length start) encoded = encoded @ coded buffer"
proof (induction buffer arbitrary: start encoded rule: coded.induct)
  case (4 a b c rest)
  show ?case
    using "4.IH" [of "start @ [a, b, c]"]
    by (subst encode_base64_loop.simps)
      (simp add: nth_append coded_character_def packed_def Let_def numeral_3_eq_3)
qed (subst encode_base64_loop.simps, simp add: nth_append coded_character_def packed_def
      encode_base64_loop.simps Let_def)+

lemma encode_base64_coded:
  assumes "length buffer < 2 ^ 32"
  shows "encode_base64 buffer = coded buffer @ replicate ((3 - length buffer mod 3) mod 3) PADDING_BASE_64"
  using encode_loop_coded [of "[]" buffer "[]"] assms by (auto simp: encode_base64_def Let_def)

lemma unat_shifted: "unat (ucast (drop_bit shift number) :: byte) = unat (number::u32) div 2 ^ shift mod 256"
proof -
  have small: "unat number mod 4294967296 = unat number" by (rule mod_less) (use unsigned_less [of number, where ?'a = nat] in simp)
  show ?thesis
    by (simp only: unsigned_ucast_eq unsigned_drop_bit_eq) (simp add: take_bit_eq_mod drop_bit_eq_div small)
qed

lemma unat_six_bits: "unat (six_bits number shift) = unat number div 2 ^ shift mod 64"
proof -
  have "six_bits number shift = take_bit 6 (ucast (drop_bit shift number))"
    by (simp add: six_bits_def take_bit_eq_mask mask_eq_exp_minus_1)
  then have "unat (six_bits number shift) = unat (ucast (drop_bit shift number) :: byte) mod 64"
    by (simp only: unsigned_take_bit_eq) (simp add: take_bit_eq_mod)
  then show ?thesis by (simp only: unat_shifted) (simp add: mod_mod_cancel)
qed

lemma six_bits_less: "unat (six_bits number shift) < 64"
  by (simp add: unat_six_bits)

lemma length_base64_characters: "length base64_characters = 64"
  by (simp add: base64_characters_def)

lemma lookup_characters: "map lookup_fast_base64 base64_characters = map of_nat [0..<64]"
  by code_simp

lemma lookup_character:
  assumes "unat n < 64"
  shows "lookup_fast_base64 (base64_character n) = n"
proof -
  have "map lookup_fast_base64 base64_characters ! unat n = map of_nat [0..<64] ! unat n"
    by (simp only: lookup_characters)
  then show ?thesis using assms by (simp add: base64_character_def length_base64_characters)
qed

lemma lookup_coded [simp]: "lookup_fast_base64 (coded_character number shift) = six_bits number shift"
  by (simp add: coded_character_def lookup_character six_bits_less)

text \<open>The search finds what the layout tells, whatever the character.\<close>

lemma lookup_from_nth:
  "distinct cs \<Longrightarrow> i < length cs \<Longrightarrow> lookup_base64_from index cs (cs ! i) = of_nat (index + i)"
  by (induction index cs "cs ! i" arbitrary: i rule: lookup_base64_from.induct)
    (auto simp: nth_Cons' nth_eq_iff_index_eq split: if_splits)

lemma lookup_from_absent: "c \<notin> set cs \<Longrightarrow> lookup_base64_from index cs c = 0"
  by (induction index cs c rule: lookup_base64_from.induct) auto

lemma base64_characters_ranges:
  "base64_characters = map of_nat ([65..<91] @ [97..<123] @ [48..<58] @ [43, 47])"
  by code_simp

lemma lookup_nonzero:
  assumes "lookup_fast_base64 c \<noteq> 0"
  shows "c \<in> set base64_characters"
proof -
  have "unat c \<in> set ([65..<91] @ [97..<123] @ [48..<58] @ [43, 47])"
    unfolding set_append set_upt using assms
    by (auto simp: lookup_fast_base64_def word_le_nat_alt word_unat_eq_iff simp del: upt_rec_numeral split: if_splits)
  then have "of_nat (unat c) \<in> set (map of_nat ([65..<91] @ [97..<123] @ [48..<58] @ [43, 47]) :: bytes)"
    unfolding set_map by (rule imageI)
  then show ?thesis unfolding base64_characters_ranges by simp
qed

lemma lookup_base64_fast: "lookup_base64 c = lookup_fast_base64 c"
proof (cases "c \<in> set base64_characters")
  case True
  obtain i where i: "i < 64" "c = base64_characters ! i"
    using True by (auto simp: in_set_conv_nth length_base64_characters)
  have "distinct base64_characters" by code_simp
  then have "lookup_base64 c = of_nat i"
    using i lookup_from_nth [of base64_characters i 0] by (simp add: lookup_base64_def length_base64_characters)
  moreover have "lookup_fast_base64 c = of_nat i"
    using lookup_character [of "of_nat i"] i by (simp add: base64_character_def unat_of_nat_byte)
  ultimately show ?thesis by simp
next
  case False
  then show ?thesis
    using lookup_from_absent [of c base64_characters 0] lookup_nonzero [of c] by (auto simp: lookup_base64_def)
qed

text \<open>The number of a group, put together again and taken apart.\<close>

definition unpacked :: "u32 \<Rightarrow> u32" where
  "unpacked number = push_bit 18 (ucast (six_bits number 18)) + push_bit 12 (ucast (six_bits number 12))
     + push_bit 6 (ucast (six_bits number 6)) + ucast (six_bits number 0)"

lemma group_bound: "unat (a::byte) * 65536 + unat (b::byte) * 256 + unat (c::byte) < 16777216"
  using unat_byte_less [of a] unat_byte_less [of b] unat_byte_less [of c] by linarith

lemma unat_packed: "unat (packed a b c) = unat a * 65536 + unat b * 256 + unat c"
proof -
  have "packed a b c = of_nat (unat a * 65536 + unat b * 256 + unat c)"
    by (simp add: packed_def push_bit_eq_mult ac_simps)
  then show ?thesis
    using group_bound [of a b c] by (simp only: unat_of_nat take_bit_eq_mod) simp
qed

lemma unpacked_packed: "unpacked (packed a b c) = packed a b c"
proof -
  define n where "n = unat (packed a b c)"
  have "n < 64 * 262144" by (simp only: n_def unat_packed) (use group_bound [of a b c] in simp)
  then have "n div 262144 < 64" by (simp add: less_mult_imp_div_less)
  have "unpacked (packed a b c) =
      of_nat (n div 2 ^ 18 mod 64 * 2 ^ 18 + n div 2 ^ 12 mod 64 * 2 ^ 12 + n div 2 ^ 6 mod 64 * 2 ^ 6
        + n div 2 ^ 0 mod 64)"
    unfolding unpacked_def push_bit_eq_mult n_def unat_six_bits [symmetric] by simp
  also have "\<dots> = of_nat (n div 262144 mod 64 * 262144 + n div 4096 mod 64 * 4096 + n div 64 mod 64 * 64 + n mod 64)"
    by simp
  also have "n div 262144 mod 64 * 262144 + n div 4096 mod 64 * 4096 + n div 64 mod 64 * 64 + n mod 64 = n"
  proof -
    have "n = 64 * (n div 64) + n mod 64" by simp
    moreover have "n div 64 = 64 * (n div 4096) + n div 64 mod 64"
      using mult_div_mod_eq [of 64 "n div 64"] by (simp add: div_mult2_eq [symmetric])
    moreover have "n div 4096 = 64 * (n div 262144) + n div 4096 mod 64"
      using mult_div_mod_eq [of 64 "n div 4096"] by (simp add: div_mult2_eq [symmetric])
    moreover have "n div 262144 mod 64 = n div 262144" using \<open>n div 262144 < 64\<close> by simp
    ultimately show ?thesis by linarith
  qed
  finally show ?thesis by (simp add: n_def)
qed

lemma packed_bytes [simp]:
  "ucast (drop_bit 16 (packed a b c)) = a" "ucast (drop_bit 8 (packed a b c)) = b" "ucast (packed a b c) = c"
proof -
  have byte: "(ucast (drop_bit shift (packed a b c)) :: byte) = d"
    if "(unat a * 65536 + unat b * 256 + unat c) div 2 ^ shift mod 256 = unat d" for shift d
    by (rule word_unat_eq_iff [THEN iffD2]) (simp only: unat_shifted unat_packed that)
  show "ucast (drop_bit 16 (packed a b c)) = a"
  proof (rule byte)
    have "unat b * 256 + unat c < 65536" using unat_byte_less [of b] unat_byte_less [of c] by linarith
    then have "(unat a * 65536 + (unat b * 256 + unat c)) div 65536 = unat a" by simp
    then show "(unat a * 65536 + unat b * 256 + unat c) div 2 ^ 16 mod 256 = unat a" by (simp add: add.assoc)
  qed
  show "ucast (drop_bit 8 (packed a b c)) = b"
  proof (rule byte)
    have "(unat a * 65536 + unat b * 256 + unat c) div 256 = unat a * 256 + unat b"
      by (rule div_nat_eqI) (use unat_byte_less [of c] in simp_all)
    then show "(unat a * 65536 + unat b * 256 + unat c) div 2 ^ 8 mod 256 = unat b" by simp
  qed
  show "ucast (packed a b c) = c"
    using byte [of 0 c] by (simp add: mod_add_eq [symmetric])
qed

section \<open>The round trip\<close>

lemma length_coded: "length (coded buffer) = length buffer + (length buffer + 2) div 3"
  by (induction buffer rule: coded.induct) auto

lemma coded_not_padding: "0x3d \<notin> set (coded buffer)"
proof -
  have "0x3d \<notin> set base64_characters" by code_simp
  then have "coded_character number shift \<noteq> 0x3d" for number shift
    unfolding coded_character_def base64_character_def
    by (metis length_base64_characters nth_mem six_bits_less)
  note this this [symmetric]
  then show ?thesis by (induction buffer rule: coded.induct) auto
qed

text \<open>The group that is read at a position where four characters are.\<close>

lemma group_number_at:
  "group_number (start @ x # y # z # w # rest) (length start) =
     Inr (push_bit 18 (ucast (lookup_fast_base64 x)) + push_bit 12 (ucast (lookup_fast_base64 y))
       + push_bit 6 (ucast (lookup_fast_base64 z)) + ucast (lookup_fast_base64 w))"
  by (simp add: group_number_def nth_append numeral_3_eq_3)

lemma lookup_padding [simp]: "lookup_fast_base64 0x3d = 0"
  by (simp add: lookup_fast_base64_def)

lemma packed_zero:
  "six_bits (packed a b 0) 0 = 0" "six_bits (packed a 0 0) 6 = 0" "six_bits (packed a 0 0) 0 = 0"
  by (simp_all add: word_unat_eq_iff unat_six_bits unat_packed mod_eq_0_iff_dvd dvd_div_iff_mult)

lemma group_number_coded:
  "group_number (start @ map (coded_character (packed a b c)) [18, 12, 6, 0] @ rest) (length start) =
     Inr (packed a b c)"
  "group_number (start @ map (coded_character (packed a b 0)) [18, 12, 6] @ 0x3d # rest) (length start) =
     Inr (packed a b 0)"
  "group_number (start @ map (coded_character (packed a 0 0)) [18, 12] @ 0x3d # 0x3d # rest) (length start) =
     Inr (packed a 0 0)"
  using unpacked_packed [of a b c] unpacked_packed [of a b 0] unpacked_packed [of a 0 0]
  by (simp_all add: group_number_at unpacked_def packed_zero)

text \<open>What decoding a text that the encoder has written comes to, from any of its groups on.\<close>

definition padding :: "bytes \<Rightarrow> nat" where
  "padding buffer = (3 - length buffer mod 3) mod 3"

lemma decode_loop_end: "decode_base64_loop encoded capacity valid (length encoded) decoded = Inr decoded"
  by (simp add: decode_base64_loop.simps)

lemma decode_loop_group:
  assumes "group_number (start @ four @ tail) (length start) = Inr number" and "length four = 4"
    and "store_group capacity valid number decoded = Inr decoded'"
  shows "decode_base64_loop (start @ four @ tail) capacity valid (length start) decoded =
    decode_base64_loop ((start @ four) @ tail) capacity valid (length (start @ four)) decoded'"
  using assms by (subst decode_base64_loop.simps) simp

lemma decode_loop_last:
  assumes "group_number (start @ four) (length start) = Inr number" and "length four = 4"
    and "store_group capacity valid number decoded = Inr decoded'"
  shows "decode_base64_loop (start @ four) capacity valid (length start) decoded = Inr decoded'"
proof -
  have "decode_base64_loop (start @ four @ []) capacity valid (length start) decoded =
      decode_base64_loop ((start @ four) @ []) capacity valid (length (start @ four)) decoded'"
    by (rule decode_loop_group) (use assms in simp_all)
  then show ?thesis by (simp only: append_Nil2 decode_loop_end)
qed

lemma decode_loop_more:
  assumes "length decoded + Suc (Suc (Suc (length rest))) = capacity" and "valid = capacity - padding rest"
  shows "decode_base64_loop (start @ map (coded_character (packed a b c)) [18, 12, 6, 0] @ tail) capacity valid
      (length start) decoded =
    decode_base64_loop ((start @ map (coded_character (packed a b c)) [18, 12, 6, 0]) @ tail) capacity valid
      (length (start @ map (coded_character (packed a b c)) [18, 12, 6, 0])) (decoded @ [a, b, c])"
proof (rule decode_loop_group)
  have "padding rest \<le> Suc (length rest)"
  proof -
    have "length rest mod 3 = 0 \<or> length rest mod 3 = 1 \<or> length rest mod 3 = 2" by linarith
    then show ?thesis
      using mod_less_eq_dividend [of "length rest" 3] by (elim disjE) (simp_all add: padding_def)
  qed
  then have "Suc (length decoded) \<le> valid" "Suc (Suc (length decoded)) \<le> valid"
    using assms by simp_all
  then show "store_group capacity valid (packed a b c) decoded = Inr (decoded @ [a, b, c])"
    using assms(1) by (simp add: store_group_def store_byte_def)
  show "group_number (start @ map (coded_character (packed a b c)) [18, 12, 6, 0] @ tail) (length start) =
      Inr (packed a b c)"
    by (rule group_number_coded(1))
qed simp

lemma decode_loop_coded:
  assumes "length decoded + length buffer = capacity" and "valid = capacity - padding buffer"
  shows "decode_base64_loop (start @ coded buffer @ replicate (padding buffer) 0x3d) capacity valid
      (length start) decoded = Inr (decoded @ buffer)"
  using assms
proof (induction buffer arbitrary: start decoded rule: coded.induct)
  case 1
  have "coded [] @ replicate (padding []) 0x3d = []" by (simp add: padding_def)
  then show ?case by (simp only: append_Nil2 decode_loop_end)
next
  case (2 a)
  have written: "coded [a] @ replicate (padding [a]) 0x3d =
      map (coded_character (packed a 0 0)) [18, 12] @ [0x3d, 0x3d]"
    by (simp add: padding_def numeral_2_eq_2)
  show ?case unfolding written
  proof (rule decode_loop_last)
    show "store_group capacity valid (packed a 0 0) decoded = Inr (decoded @ [a])"
      using "2.prems" by (simp add: padding_def store_group_def store_byte_def)
  qed (use group_number_coded(3) [of start a "[]"] in simp_all)
next
  case (3 a b)
  have written: "coded [a, b] @ replicate (padding [a, b]) 0x3d =
      map (coded_character (packed a b 0)) [18, 12, 6] @ [0x3d]"
    by (simp add: padding_def)
  show ?case unfolding written
  proof (rule decode_loop_last)
    have "capacity = Suc (Suc (length decoded))" "valid = Suc (length decoded)"
      using "3.prems" by (simp_all add: padding_def)
    then show "store_group capacity valid (packed a b 0) decoded = Inr (decoded @ [a, b])"
      by (simp add: store_group_def store_byte_def)
  qed (use group_number_coded(2) [of start a b "[]"] in simp_all)
next
  case (4 a b c rest)
  have same: "padding (a # b # c # rest) = padding rest" by (simp add: padding_def)
  have total: "length decoded + Suc (Suc (Suc (length rest))) = capacity" "valid = capacity - padding rest"
    using "4.prems" by (simp_all add: same)
  have rest: "length (decoded @ [a, b, c]) + length rest = capacity" using total by simp
  show ?case
    using decode_loop_more [OF total, of start a b c "coded rest @ replicate (padding rest) 0x3d"]
      "4.IH" [OF rest total(2), of "start @ map (coded_character (packed a b c)) [18, 12, 6, 0]"]
    by (simp add: same)
qed

lemma padding_from_append: "k < length encoded \<Longrightarrow> padding_from (encoded @ rest) k = padding_from encoded k"
  by (induction k) (simp_all add: nth_append)

lemma padding_of_coded:
  assumes "buffer \<noteq> []"
  shows "padding_from (coded buffer @ replicate n 0x3d) (length (coded buffer) + n - 1) = Inr n"
proof (induction n)
  case 0
  have "coded buffer \<noteq> []" using assms by (cases buffer rule: coded.cases) auto
  then have "coded buffer ! (length (coded buffer) - 1) \<noteq> 0x3d"
    using coded_not_padding [of buffer] nth_mem [of "length (coded buffer) - 1" "coded buffer"]
    by (cases "coded buffer") auto
  then show ?case
    using \<open>coded buffer \<noteq> []\<close> by (cases "length (coded buffer) - 1") auto
next
  case (Suc n)
  have "length (coded buffer) \<noteq> 0" using assms by (simp add: length_coded)
  then obtain k where k: "length (coded buffer) + n = Suc k" by (cases "length (coded buffer)") auto
  have "replicate (Suc n) (0x3d::byte) = replicate n 0x3d @ [0x3d]" by (simp add: replicate_append_same)
  then have "padding_from (coded buffer @ replicate (Suc n) 0x3d) k =
      padding_from ((coded buffer @ replicate n 0x3d) @ [0x3d]) k"
    by (simp only: append_assoc)
  also have "\<dots> = padding_from (coded buffer @ replicate n 0x3d) k"
    by (rule padding_from_append) (simp add: k)
  finally show ?case
    using Suc k by (simp add: nth_append del: replicate_Suc)
qed

text \<open>The sizes of a text: groups of four characters for groups of three bytes.\<close>

lemma coded_sizes:
  obtains q where "length buffer + padding buffer = 3 * q" and "length (coded buffer) + padding buffer = 4 * q"
    and "padding buffer \<le> 2"
proof -
  define q r where "q = length buffer div 3" and "r = length buffer mod 3"
  have n: "length buffer = 3 * q + r" by (simp add: q_def r_def)
  have "r < 3" by (simp add: r_def)
  then consider "r = 0" | "r = 1" | "r = 2" by linarith
  then show thesis
  proof cases
    case 1
    then show ?thesis using n that [of q] by (simp add: padding_def length_coded)
  next
    case 2
    then have "(3 - length buffer mod 3) mod 3 = 2" "(length buffer + 2) div 3 = Suc q" using n by simp_all
    then show ?thesis using n 2 that [of "Suc q"] by (simp add: padding_def length_coded)
  next
    case 3
    then have "(3 - length buffer mod 3) mod 3 = 1" "(length buffer + 2) div 3 = Suc q"
      using n by (simp_all add: mod_Suc div_nat_eqI)
    then show ?thesis using n 3 that [of "Suc q"] by (simp add: padding_def length_coded)
  qed
qed

lemma calculate_encoded_padding:
  "calculate_encoded_buffer_length_base64 (length buffer) = (length buffer + padding buffer) * 4 div 3"
proof -
  have "(if length buffer mod 3 \<noteq> 0 then 3 - length buffer mod 3 else 0) = padding buffer"
    by (auto simp: padding_def)
  then show ?thesis by (simp add: calculate_encoded_buffer_length_base64_def)
qed

lemma base64_coding:
  assumes "buffer \<noteq> []" and "length buffer < 2 ^ 31"
  shows "decode_base64 (encode_base64 buffer) = Inr buffer \<and>
    length (encode_base64 buffer) = calculate_encoded_buffer_length_base64 (length buffer)"
proof -
  define encoded where "encoded = coded buffer @ replicate (padding buffer) 0x3d"
  have encoded: "encode_base64 buffer = encoded"
    using assms(2) by (simp add: encode_base64_coded encoded_def padding_def)
  obtain q where q: "length buffer + padding buffer = 3 * q" "length (coded buffer) + padding buffer = 4 * q"
    "padding buffer \<le> 2" by (rule coded_sizes)
  have "0 < q" using q assms(1) by (cases q) auto
  then have size: "length encoded = 4 * q" "length encoded < 2 ^ 32" "0 < q"
    using q assms(2) by (simp_all add: encoded_def)
  have "padding_from encoded (length encoded - 1) = Inr (padding buffer)"
    using padding_of_coded [OF assms(1), of "padding buffer"] by (simp add: encoded_def)
  moreover have "(length encoded mod 2 ^ 32 + (2 ^ 32 - 1)) mod 2 ^ 32 = length encoded - 1"
    using size by (simp add: mod_if)
  ultimately have count: "get_padding_count encoded = Inr (padding buffer)"
    using size by (simp add: get_padding_count_def Let_def)
  have capacity: "calculate_decoded_buffer_length_base64 (length encoded) (padding buffer) = length buffer"
  proof -
    have "length encoded div 4 * 3 + (2 ^ 64 - padding buffer) = length buffer + 2 ^ 64" using q size by simp
    then show ?thesis
      using assms(2) by (simp only: calculate_decoded_buffer_length_base64_def mod_add_self2) simp
  qed
  have "decode_base64_loop encoded (length buffer) (length buffer - padding buffer) 0 [] = Inr buffer"
    using decode_loop_coded [of "[]" buffer "length buffer" "length buffer - padding buffer" "[]"]
    by (simp add: encoded_def)
  moreover have "(if length buffer > padding buffer then length buffer - padding buffer else 0) =
      length buffer - padding buffer" by simp
  ultimately have "decode_base64 encoded = Inr buffer"
    by (simp only: decode_base64_def count capacity Let_def sum.case less_irrefl if_False)
  then show ?thesis
    using q size by (simp add: encoded calculate_encoded_padding)
qed

text \<open>C28: what \<open>encode_base64\<close> writes of a buffer is decoded by \<open>decode_base64\<close> to the same bytes, without a
  read or a write outside of a buffer, although the valid part of the decoded buffer is worked out with the
  padding taken off twice. The text has the length that \<open>calculate_encoded_buffer_length_base64\<close> allocates.
  An empty buffer is left out: the text of it is empty, and the count of the padding then reads far beyond it.\<close>

theorem base64_roundtrip:
  assumes "buffer \<noteq> []" and "length buffer < 2 ^ 31"
  shows "decode_base64 (encode_base64 buffer) = Inr buffer \<and>
    length (encode_base64 buffer) = calculate_encoded_buffer_length_base64 (length buffer)"
  by (rule base64_coding [OF assms])

theorem base64_roundtrip_witness:
  "decode_base64 (encode_base64 (ascii ''viriatum'')) = Inr (ascii ''viriatum'') \<and>
    length (encode_base64 (ascii ''viriatum'')) = calculate_encoded_buffer_length_base64 (length (ascii ''viriatum''))"
  by (rule base64_roundtrip) (simp_all add: ascii_def)

text \<open>The count of the padding of an empty text reads at the largest index of an \<^verbatim>\<open>unsigned int\<close>.\<close>

lemma decode_empty: "decode_base64 [] = Inl Out_Of_Bounds"
  by (simp add: decode_base64_def get_padding_count_def)

end
