(* ===== verification/Digest.thy ===== *)
theory Digest
  imports Viriatum_Prelude
begin

text \<open>
  What the digests of \<^verbatim>\<open>src/src/viriatum_commons/checksum\<close> share. A digest compresses blocks of 64
  bytes into a state, so a message is absorbed block by block while the bytes that do not fill a
  block wait in the buffer of a context; at the end the message is padded with a bit, with zeros
  and with its length in bits. The interface \<open>digest\<close> states what a context promises: however a
  message is cut into parts, the digest of it is the one of the whole message.
\<close>

section \<open>Rotations\<close>

definition ROL :: "u32 \<Rightarrow> nat \<Rightarrow> u32" where
  "ROL v bits = push_bit bits v OR drop_bit (32 - bits) v"

lemma unat_mod_u32 [simp]: "unat (v::u32) mod 4294967296 = unat v"
  by (rule mod_less) (use unsigned_less [of v, where ?'a = nat] in simp)

section \<open>Blocks\<close>

text \<open>The state after the complete blocks of some data, and the data that remains after them.\<close>

function absorb :: "('s \<Rightarrow> bytes \<Rightarrow> 's) \<Rightarrow> 's \<Rightarrow> bytes \<Rightarrow> 's" where
  "absorb compress s data =
     (if length data < 64 then s else absorb compress (compress s (take 64 data)) (drop 64 data))"
  by pat_completeness auto
termination by (relation "measure (\<lambda>(compress, s, data). length data)") auto

declare absorb.simps [simp del]

function remaining :: "bytes \<Rightarrow> bytes" where
  "remaining data = (if length data < 64 then data else remaining (drop 64 data))"
  by pat_completeness auto
termination by (relation "measure length") auto

declare remaining.simps [simp del]

lemma absorb_small [simp]: "length data < 64 \<Longrightarrow> absorb compress s data = s"
  by (simp add: absorb.simps)

lemma remaining_small [simp]: "length data < 64 \<Longrightarrow> remaining data = data"
  by (simp add: remaining.simps)

lemma absorb_large:
  "64 \<le> length data \<Longrightarrow> absorb compress s data = absorb compress (compress s (take 64 data)) (drop 64 data)"
  by (subst absorb.simps) simp

lemma remaining_large: "64 \<le> length data \<Longrightarrow> remaining data = remaining (drop 64 data)"
  by (subst remaining.simps) simp

lemma absorb_block: "length b = 64 \<Longrightarrow> absorb compress s (b @ data) = absorb compress (compress s b) data"
  by (simp add: absorb_large [of "b @ data"])

lemma remaining_block: "length b = 64 \<Longrightarrow> remaining (b @ data) = remaining data"
  by (simp add: remaining_large [of "b @ data"])

lemma length_remaining [simp]: "length (remaining data) = length data mod 64"
proof (induction data rule: remaining.induct)
  case (1 data)
  then show ?case by (cases "length data < 64") (simp_all add: remaining_large le_mod_geq)
qed

text \<open>More data goes on from the state of what has been absorbed and from what remains of it.\<close>

lemma absorb_append:
  "absorb compress s (data @ more) = absorb compress (absorb compress s data) (remaining data @ more)"
proof (induction compress s data rule: absorb.induct)
  case (1 compress s data)
  then show ?case
    by (cases "length data < 64")
      (simp_all add: remaining_large absorb_large [of data] absorb_large [of "data @ more"])
qed

lemma remaining_append: "remaining (data @ more) = remaining (remaining data @ more)"
proof (induction data rule: remaining.induct)
  case (1 data)
  then show ?case
    by (cases "length data < 64") (simp_all add: remaining_large [of data] remaining_large [of "data @ more"])
qed

text \<open>The loop of the code over the blocks that follow an index of the data.\<close>

function absorb_from :: "('s \<Rightarrow> bytes \<Rightarrow> 's) \<Rightarrow> 's \<Rightarrow> bytes \<Rightarrow> nat \<Rightarrow> 's \<times> nat" where
  "absorb_from compress s data i =
     (if i + 63 < length data then absorb_from compress (compress s (take 64 (drop i data))) data (i + 64)
      else (s, i))"
  by pat_completeness auto
termination by (relation "measure (\<lambda>(compress, s, data, i). length data - i)") auto

declare absorb_from.simps [simp del]

lemma absorb_from_absorb:
  "i \<le> length data \<Longrightarrow> absorb_from compress s data i = (s', i') \<Longrightarrow>
     s' = absorb compress s (drop i data) \<and> drop i' data = remaining (drop i data) \<and> i' \<le> length data"
proof (induction compress s data i rule: absorb_from.induct)
  case (1 compress s data i)
  show ?case
  proof (cases "i + 63 < length data")
    case True
    have "absorb_from compress (compress s (take 64 (drop i data))) data (i + 64) = (s', i')"
      using "1.prems" True by (simp add: absorb_from.simps [of compress s])
    with "1.IH" [OF True] True have
      "s' = absorb compress (compress s (take 64 (drop i data))) (drop (i + 64) data) \<and>
        drop i' data = remaining (drop (i + 64) data) \<and> i' \<le> length data"
      by simp
    then show ?thesis
      using True by (simp add: absorb_large [of "drop i data"] remaining_large [of "drop i data"] add.commute)
  next
    case False
    then show ?thesis using "1.prems" by (simp add: absorb_from.simps [of compress s])
  qed
qed

section \<open>Padding\<close>

text \<open>The zeros that take a message and its first byte of padding to eight bytes short of a block.\<close>

definition zeros :: "nat \<Rightarrow> nat" where
  "zeros n = (119 - n mod 64) mod 64"

lemma zeros_complete: "(n + 1 + zeros n + 8) mod 64 = 0"
proof -
  define q r where "q = n div 64" and "r = n mod 64"
  have n: "n = 64 * q + r" and "r < 64" by (simp_all add: q_def r_def)
  have "n + 1 + zeros n + 8 = 64 * (if r \<le> 55 then q + 1 else q + 2)"
  proof (cases "r \<le> 55")
    case True
    then have "119 - r = 64 + (55 - r)" by simp
    then have "zeros n = (55 - r) mod 64" by (simp only: zeros_def r_def [symmetric] mod_add_self1)
    then show ?thesis using True n by simp
  next
    case False
    then have "zeros n = 119 - r" by (simp add: zeros_def r_def [symmetric])
    then show ?thesis using False n \<open>r < 64\<close> by simp
  qed
  then show ?thesis by (simp only: mod_mult_self1_is_0)
qed

definition padded :: "(nat \<Rightarrow> bytes) \<Rightarrow> bytes \<Rightarrow> bytes" where
  "padded bits data = data @ 0x80 # replicate (zeros (length data)) 0 @ bits (8 * length data)"

section \<open>The interface of a digest\<close>

locale digest =
  fixes absorbed :: "'c \<Rightarrow> bytes \<Rightarrow> bool"
    and initial :: "'c \<Rightarrow> bool"
    and update :: "'c \<Rightarrow> bytes \<Rightarrow> 'c"
    and final :: "'c \<Rightarrow> bytes"
    and reference :: "bytes \<Rightarrow> bytes"
    and accepted :: "bytes \<Rightarrow> bool"
  assumes absorbed_initial: "initial c \<Longrightarrow> absorbed c []"
    and absorbed_update: "absorbed c data \<Longrightarrow> accepted part \<Longrightarrow> absorbed (update c part) (data @ part)"
    and absorbed_final: "absorbed c data \<Longrightarrow> final c = reference data"
begin

lemma absorbed_parts:
  "absorbed c data \<Longrightarrow> list_all accepted parts \<Longrightarrow> absorbed (foldl update c parts) (data @ concat parts)"
proof (induction parts arbitrary: c data)
  case (Cons part parts)
  then show ?case
    using absorbed_update [of c data part] Cons.IH [of "update c part" "data @ part"] by simp
qed simp

text \<open>However a message is cut into parts, its digest is the one of the whole of it.\<close>

lemma digest_parts:
  "initial c \<Longrightarrow> list_all accepted parts \<Longrightarrow> final (foldl update c parts) = reference (concat parts)"
  using absorbed_parts [OF absorbed_initial, of c parts] absorbed_final by simp

lemma digest_whole: "initial c \<Longrightarrow> accepted data \<Longrightarrow> final (update c data) = reference data"
  using digest_parts [of c "[data]"] by simp

end

text \<open>The carry of a count that is kept in two words.\<close>

lemma carry_div:
  assumes "b < (m::nat)"
  shows "(a + b) div m = a div m + (if (a + b) mod m < b then 1 else 0)"
proof -
  define q r where "q = a div m" and "r = a mod m"
  have a: "a = m * q + r" and r: "r < m" using assms by (simp_all add: q_def r_def)
  show ?thesis
  proof (cases "r + b < m")
    case True
    then have "(a + b) div m = q" by (intro div_nat_eqI) (simp_all add: a)
    moreover from this have "(a + b) mod m = r + b" using minus_mult_div_eq_mod [of "a + b" m] a by simp
    ultimately show ?thesis by (simp add: q_def)
  next
    case False
    then have "(a + b) div m = Suc q" using r assms by (intro div_nat_eqI) (simp_all add: a)
    moreover from this have "(a + b) mod m = r + b - m" using minus_mult_div_eq_mod [of "a + b" m] a by simp
    ultimately show ?thesis using False r assms by (simp add: q_def)
  qed
qed

end
