(* ===== verification/Sha1.thy ===== *)
theory Sha1
  imports Digest
begin

text \<open>
  The SHA-1 digest of \<^verbatim>\<open>src/src/viriatum_commons/checksum/sha1.c\<close>, on a little endian machine. The
  transformation of a block works over the sixteen words of the block in place and rotates the
  roles of five variables, which here are the positions of a tuple. The reference is the standard
  (FIPS 180-4): a schedule of eighty words, the functions Ch, Parity and Maj, a padded message.
\<close>

definition SHA1_DIGEST_SIZE :: nat where
  [simp]: "SHA1_DIGEST_SIZE = 20"

type_synonym sha1_state = "u32 \<times> u32 \<times> u32 \<times> u32 \<times> u32"

record sha1_context =
  sha1_state :: sha1_state
  count_low :: u32
  count_high :: u32
  sha1_buffer :: bytes

section \<open>The transformation of a block\<close>

text \<open>The words of a block as the union of the code reads them, the first byte being the least.\<close>

definition little_word :: "bytes \<Rightarrow> nat \<Rightarrow> u32" where
  "little_word buffer i =
     ucast (buffer ! (4 * i)) OR push_bit 8 (ucast (buffer ! (4 * i + 1)))
       OR push_bit 16 (ucast (buffer ! (4 * i + 2))) OR push_bit 24 (ucast (buffer ! (4 * i + 3)))"

definition sha1_block :: "bytes \<Rightarrow> u32 list" where
  "sha1_block buffer = map (little_word buffer) [0..<16]"

definition BLK_0 :: "u32 list \<Rightarrow> nat \<Rightarrow> u32 list" where
  "BLK_0 l i = l[i := ROL (l ! i) 24 AND 0xff00ff00 OR ROL (l ! i) 8 AND 0x00ff00ff]"

definition BLK :: "u32 list \<Rightarrow> nat \<Rightarrow> u32 list" where
  "BLK l i = l[i mod 16 := ROL (l ! ((i + 13) mod 16) XOR l ! ((i + 8) mod 16) XOR l ! ((i + 2) mod 16)
     XOR l ! (i mod 16)) 1]"

text \<open>
  A round: the macros \<open>R0\<close> to \<open>R4\<close> differ in the function, in the constant and in the block. The
  call that follows names the five variables one position further.
\<close>

definition sha1_function :: "nat \<Rightarrow> u32 \<Rightarrow> u32 \<Rightarrow> u32 \<Rightarrow> u32" where
  "sha1_function i w x y =
     (if i < 20 then (w AND (x XOR y)) XOR y
      else if i < 40 then w XOR x XOR y
      else if i < 60 then ((w OR x) AND y) OR (w AND x)
      else w XOR x XOR y)"

definition sha1_constant :: "nat \<Rightarrow> u32" where
  "sha1_constant i =
     (if i < 20 then 0x5a827999 else if i < 40 then 0x6ed9eba1 else if i < 60 then 0x8f1bbcdc else 0xca62c1d6)"

definition sha1_round :: "nat \<Rightarrow> u32 list \<times> sha1_state \<Rightarrow> u32 list \<times> sha1_state" where
  "sha1_round i = (\<lambda>(l, v, w, x, y, z).
     let l = (if i < 16 then BLK_0 l i else BLK l i);
         z = z + (sha1_function i w x y + l ! (i mod 16) + sha1_constant i + ROL v 5)
     in (l, z, v, ROL w 30, x, y))"

definition transform_sha1 :: "sha1_state \<Rightarrow> bytes \<Rightarrow> sha1_state" where
  "transform_sha1 state buffer =
     (case state of (s0, s1, s2, s3, s4) \<Rightarrow>
        (case fold sha1_round [0..<80] (sha1_block buffer, state) of
           (l, a, b, c, d, e) \<Rightarrow> (s0 + a, s1 + b, s2 + c, s3 + d, s4 + e)))"

section \<open>The operations\<close>

definition init_sha1 :: "bytes \<Rightarrow> sha1_context" where
  "init_sha1 uninitialised =
     \<lparr>sha1_state = (0x67452301, 0xefcdab89, 0x98badcfe, 0x10325476, 0xc3d2e1f0),
      count_low = 0, count_high = 0, sha1_buffer = uninitialised\<rparr>"

text \<open>
  The count of the bits is compared with the size of the data, in bits, after the sum has been cut
  to 32 bits while the size still has 64.
\<close>

definition update_sha1 :: "sha1_context \<Rightarrow> bytes \<Rightarrow> sha1_context" where
  "update_sha1 context data =
     (let n = length data;
          j = unat (drop_bit 3 (count_low context) AND 63);
          bits = 8 * n mod 2 ^ 64;
          low = count_low context + of_nat bits;
          high = (if unat low < bits then count_high context + 1 else count_high context) + of_nat (n div 2 ^ 29);
          counted = context\<lparr>count_low := low, count_high := high\<rparr>
      in if j + n > 63 then
           (let filled = memcpy (sha1_buffer context) j (take (64 - j) data)
            in case absorb_from transform_sha1 (transform_sha1 (sha1_state context) filled) data (64 - j) of
                 (state, i) \<Rightarrow> counted\<lparr>sha1_state := state, sha1_buffer := memcpy filled 0 (drop i data)\<rparr>)
         else counted\<lparr>sha1_buffer := memcpy (sha1_buffer context) j data\<rparr>)"

text \<open>A word as bytes, the first of them the most significant.\<close>

definition big_bytes :: "u32 \<Rightarrow> bytes" where
  "big_bytes v = map (\<lambda>i. ucast (drop_bit ((3 - i) * 8) v)) [0..<4]"

text \<open>The zeros of the padding, one at a time; a block has room for at most 64 of them.\<close>

primrec pad_sha1 :: "nat \<Rightarrow> sha1_context \<Rightarrow> sha1_context" where
  "pad_sha1 0 context = context"
| "pad_sha1 (Suc n) context =
     (if count_low context AND 504 \<noteq> 448 then pad_sha1 n (update_sha1 context [0]) else context)"

definition final_sha1 :: "sha1_context \<Rightarrow> bytes" where
  "final_sha1 context =
     (let finalcount = big_bytes (count_high context) @ big_bytes (count_low context);
          context = update_sha1 (pad_sha1 64 (update_sha1 context [0x80])) finalcount
      in case sha1_state context of (a, b, c, d, e) \<Rightarrow> concat (map big_bytes [a, b, c, d, e]))"

definition sha1 :: "bytes \<Rightarrow> bytes \<Rightarrow> bytes" where
  "sha1 uninitialised buffer = final_sha1 (update_sha1 (init_sha1 uninitialised) buffer)"

section \<open>The standard\<close>

definition big_word :: "bytes \<Rightarrow> nat \<Rightarrow> u32" where
  "big_word buffer i =
     push_bit 24 (ucast (buffer ! (4 * i))) OR push_bit 16 (ucast (buffer ! (4 * i + 1)))
       OR push_bit 8 (ucast (buffer ! (4 * i + 2))) OR ucast (buffer ! (4 * i + 3))"

fun schedule_word :: "bytes \<Rightarrow> nat \<Rightarrow> u32" where
  "schedule_word buffer t =
     (if t < 16 then big_word buffer t
      else ROL (schedule_word buffer (t - 3) XOR schedule_word buffer (t - 8) XOR schedule_word buffer (t - 14)
        XOR schedule_word buffer (t - 16)) 1)"

declare schedule_word.simps [simp del]

definition Ch :: "u32 \<Rightarrow> u32 \<Rightarrow> u32 \<Rightarrow> u32" where
  "Ch x y z = (x AND y) XOR (NOT x AND z)"

definition Parity :: "u32 \<Rightarrow> u32 \<Rightarrow> u32 \<Rightarrow> u32" where
  "Parity x y z = x XOR y XOR z"

definition Maj :: "u32 \<Rightarrow> u32 \<Rightarrow> u32 \<Rightarrow> u32" where
  "Maj x y z = (x AND y) XOR (x AND z) XOR (y AND z)"

definition standard_round :: "bytes \<Rightarrow> nat \<Rightarrow> sha1_state \<Rightarrow> sha1_state" where
  "standard_round buffer t = (\<lambda>(a, b, c, d, e).
     let f = (if t < 20 then Ch else if t < 40 then Parity else if t < 60 then Maj else Parity);
         T = ROL a 5 + f b c d + e + sha1_constant t + schedule_word buffer t
     in (T, a, ROL b 30, c, d))"

definition standard_block :: "sha1_state \<Rightarrow> bytes \<Rightarrow> sha1_state" where
  "standard_block state buffer =
     (case state of (s0, s1, s2, s3, s4) \<Rightarrow>
        (case fold (standard_round buffer) [0..<80] state of
           (a, b, c, d, e) \<Rightarrow> (a + s0, b + s1, c + s2, d + s3, e + s4)))"

text \<open>The length of the message in bits as eight bytes.\<close>

definition big_length :: "nat \<Rightarrow> bytes" where
  "big_length n = big_bytes (of_nat (n div 2 ^ 32)) @ big_bytes (of_nat n)"

definition sha1_standard :: "bytes \<Rightarrow> bytes" where
  "sha1_standard message =
     (case absorb standard_block (0x67452301, 0xefcdab89, 0x98badcfe, 0x10325476, 0xc3d2e1f0)
             (padded big_length message) of
        (a, b, c, d, e) \<Rightarrow> concat (map big_bytes [a, b, c, d, e]))"

section \<open>The transformation is the one of the standard\<close>

lemma bit_beyond_byte: "8 \<le> n \<Longrightarrow> \<not> bit (b::byte) n"
  using bit_imp_le_length [of b n] by auto

lemma upt_32: "[0..<32] = [0, 1, 2, 3, 4, 5, 6, 7, 8, 9, 10, 11, 12, 13, 14, 15, 16, 17, 18, 19, 20, 21, 22, 23,
    24, 25, 26, 27, 28, 29, 30, 31]"
  by code_simp

lemma swap_little:
  "ROL (little_word buffer i) 24 AND 0xff00ff00 OR ROL (little_word buffer i) 8 AND 0x00ff00ff = big_word buffer i"
proof -
  have "ROL (ucast a OR push_bit 8 (ucast b) OR push_bit 16 (ucast c) OR push_bit 24 (ucast d)) 24 AND 0xff00ff00
      OR ROL (ucast a OR push_bit 8 (ucast b) OR push_bit 16 (ucast c) OR push_bit 24 (ucast d)) 8 AND 0x00ff00ff
      = push_bit 24 (ucast a) OR push_bit 16 (ucast b) OR push_bit 8 (ucast c) OR (ucast d :: u32)"
    (is "?swapped = ?big") for a b c d :: byte
  proof (rule bit_word_eqI)
    have "list_all (\<lambda>n. bit ?swapped n = bit ?big n) [0..<32]"
      unfolding upt_32 by (simp add: ROL_def bit_simps bit_beyond_byte)
    then show "bit ?swapped n = bit ?big n" if "n < LENGTH(32)" for n
      using that by (simp add: list_all_iff)
  qed
  then show ?thesis by (simp add: little_word_def big_word_def)
qed

lemma sha1_function_standard:
  "sha1_function i = (if i < 20 then Ch else if i < 40 then Parity else if i < 60 then Maj else Parity)"
proof -
  have "(w AND (x XOR y)) XOR y = Ch w x y" "((w OR x) AND y) OR (w AND x) = Maj w x y" for w x y :: u32
    by (rule bit_word_eqI; auto simp: Ch_def Maj_def bit_simps)+
  then show ?thesis by (simp add: fun_eq_iff sha1_function_def Parity_def)
qed

text \<open>The block after some rounds: the last sixteen words of the schedule, or what is to be read yet.\<close>

definition block_after :: "bytes \<Rightarrow> nat \<Rightarrow> u32 list \<Rightarrow> bool" where
  "block_after buffer t l \<longleftrightarrow> length l = 16 \<and> (\<forall>k<16. t \<le> k \<longrightarrow> l ! k = little_word buffer k)
     \<and> (\<forall>m<t. t \<le> m + 16 \<longrightarrow> l ! (m mod 16) = schedule_word buffer m)"

lemma block_after_start: "block_after buffer 0 (sha1_block buffer)"
  by (simp add: block_after_def sha1_block_def)

lemma block_after_read:
  assumes "block_after buffer t l" and "t < 16"
  shows "block_after buffer (Suc t) (BLK_0 l t) \<and> BLK_0 l t ! t = schedule_word buffer t"
proof -
  have "BLK_0 l t = l[t := schedule_word buffer t]"
    using assms by (simp add: BLK_0_def block_after_def swap_little schedule_word.simps [of buffer t])
  then show ?thesis
    using assms by (auto simp: block_after_def nth_list_update less_Suc_eq)
qed

lemma block_after_mix:
  assumes "block_after buffer t l" and "16 \<le> t"
  shows "block_after buffer (Suc t) (BLK l t) \<and> BLK l t ! (t mod 16) = schedule_word buffer t"
proof -
  have word: "l ! (m mod 16) = schedule_word buffer m" if "m < t" "t \<le> m + 16" for m
    using assms that by (simp add: block_after_def)
  obtain u where t: "t = u + 16" using assms(2) by (metis add.commute le_add_diff_inverse)
  have "u + 16 + 13 = u + 13 + 16" "u + 16 + 8 = u + 8 + 16" "u + 16 + 2 = u + 2 + 16" by simp_all
  then have "(t + 13) mod 16 = (t - 3) mod 16" "(t + 8) mod 16 = (t - 8) mod 16" "(t + 2) mod 16 = (t - 14) mod 16"
    "t mod 16 = (t - 16) mod 16"
    by (simp_all only: t mod_add_self2) (simp_all add: add.commute)
  then have "BLK l t = l[t mod 16 := schedule_word buffer t]"
    using assms word [of "t - 3"] word [of "t - 8"] word [of "t - 14"] word [of "t - 16"]
    by (simp add: BLK_def schedule_word.simps [of buffer t])
  moreover have apart: "m mod 16 \<noteq> t mod 16" if "m < t" "Suc t \<le> m + 16" for m
  proof
    assume "m mod 16 = t mod 16"
    then have "16 dvd t - m" using that mod_eq_dvd_iff_nat [of m t 16] by simp
    then have "16 \<le> t - m" using that by (intro dvd_imp_le) simp_all
    then show False using that by simp
  qed
  ultimately show ?thesis
    using assms apart [symmetric] by (auto simp: block_after_def nth_list_update less_Suc_eq)
qed

lemma rounds_standard:
  "t \<le> 80 \<Longrightarrow> \<exists>l. fold sha1_round [0..<t] (sha1_block buffer, state) =
     (l, fold (standard_round buffer) [0..<t] state) \<and> block_after buffer t l"
proof (induction t)
  case 0
  then show ?case by (simp add: block_after_start)
next
  case (Suc t)
  then obtain l where l: "fold sha1_round [0..<t] (sha1_block buffer, state) =
      (l, fold (standard_round buffer) [0..<t] state)" "block_after buffer t l"
    by auto
  define l' where "l' = (if t < 16 then BLK_0 l t else BLK l t)"
  have after: "block_after buffer (Suc t) l'" "l' ! (t mod 16) = schedule_word buffer t"
    using block_after_read [OF l(2)] block_after_mix [OF l(2)] by (auto simp: l'_def)
  obtain a b c d e where state: "fold (standard_round buffer) [0..<t] state = (a, b, c, d, e)"
    by (cases "fold (standard_round buffer) [0..<t] state")
  have "sha1_round t (l, a, b, c, d, e) = (l', standard_round buffer t (a, b, c, d, e))"
    by (simp add: sha1_round_def standard_round_def Let_def l'_def [symmetric] after(2) sha1_function_standard ac_simps)
  then show ?case using l after(1) by (simp add: state)
qed

lemma transform_standard: "transform_sha1 = standard_block"
proof (intro ext)
  fix state buffer
  show "transform_sha1 state buffer = standard_block state buffer"
    using rounds_standard [of 80 buffer state]
    by (auto simp: transform_sha1_def standard_block_def add.commute split: prod.splits)
qed

section \<open>What a context stands for\<close>

definition sha1_start :: sha1_state where
  "sha1_start = (0x67452301, 0xefcdab89, 0x98badcfe, 0x10325476, 0xc3d2e1f0)"

definition sha1_absorbed :: "sha1_context \<Rightarrow> bytes \<Rightarrow> bool" where
  "sha1_absorbed context data \<longleftrightarrow>
     length (sha1_buffer context) = 64 \<and> sha1_state context = absorb standard_block sha1_start data
     \<and> take (length data mod 64) (sha1_buffer context) = remaining data
     \<and> count_low context = of_nat (8 * length data) \<and> count_high context = of_nat (8 * length data div 2 ^ 32)"

lemma position_sha1:
  assumes "count_low context = of_nat (8 * n)"
  shows "unat (drop_bit 3 (count_low context) AND 63) = n mod 64"
proof -
  have "drop_bit 3 (count_low context) AND 63 = take_bit 6 (drop_bit 3 (count_low context))"
    by (simp add: take_bit_eq_mask mask_eq_exp_minus_1)
  then have "unat (drop_bit 3 (count_low context) AND 63) = unat (count_low context) div 8 mod 64"
    by (simp only: unsigned_take_bit_eq unsigned_drop_bit_eq) (simp add: take_bit_eq_mod drop_bit_eq_div)
  also have "unat (count_low context) = 8 * n mod (8 * 2 ^ 29)"
    by (simp only: assms unat_of_nat) (simp add: take_bit_eq_mod)
  also have "8 * n mod (8 * 2 ^ 29) div 8 = n mod 2 ^ 29"
    using mult_mod_right [of 8 n "2 ^ 29"] by simp
  finally show ?thesis by (simp add: mod_mod_cancel)
qed

lemma count_sha1:
  assumes "n < 2 ^ 29"
  shows "(if unat (of_nat (8 * m) + of_nat (8 * n) :: u32) < 8 * n then of_nat (8 * m div 2 ^ 32) + 1
    else of_nat (8 * m div 2 ^ 32)) = (of_nat (8 * (m + n) div 2 ^ 32) :: u32)"
proof -
  have "8 * n < 2 ^ 32" using assms by simp
  then have "8 * (m + n) div 2 ^ 32 = 8 * m div 2 ^ 32 + (if (8 * m + 8 * n) mod 2 ^ 32 < 8 * n then 1 else 0)"
    by (simp only: carry_div distrib_left)
  moreover have "unat (of_nat (8 * m) + of_nat (8 * n) :: u32) = (8 * m + 8 * n) mod 2 ^ 32"
    by (simp only: of_nat_add [symmetric] unat_of_nat) (simp add: take_bit_eq_mod)
  ultimately show ?thesis by (simp only: of_nat_add) simp
qed

text \<open>More data into the buffer of a context, and the blocks that it completes.\<close>

lemma filled_block:
  assumes "length buffer = 64" and "take (length data mod 64) buffer = remaining data"
    and "64 \<le> length data mod 64 + length part" and "j = length data mod 64"
  shows "memcpy buffer j (take (64 - j) part) = remaining data @ take (64 - j) part"
  using assms by (simp add: memcpy_def)

lemma absorbed_update_sha1:
  assumes "sha1_absorbed context data" and "length part < 2 ^ 29"
  shows "sha1_absorbed (update_sha1 context part) (data @ part)"
proof -
  define j where "j = length data mod 64"
  have j: "j < 64" "unat (drop_bit 3 (count_low context) AND 63) = j"
    using assms(1) position_sha1 [of "context" "length data"] by (simp_all add: j_def sha1_absorbed_def)
  have kept: "length (sha1_buffer context) = 64" "sha1_state context = absorb standard_block sha1_start data"
    "take j (sha1_buffer context) = remaining data"
    using assms(1) by (simp_all add: sha1_absorbed_def j_def)
  have size: "8 * length part mod 2 ^ 64 = 8 * length part" "length part div 2 ^ 29 = 0" using assms(2) by simp_all
  have rest: "remaining (data @ part) = remaining (remaining data @ part)"
    "absorb standard_block sha1_start (data @ part) = absorb standard_block (sha1_state context) (remaining data @ part)"
    using remaining_append [of data part] absorb_append [of standard_block sha1_start data part]
    by (simp_all add: kept)
  have counts: "count_low (update_sha1 context part) = of_nat (8 * length (data @ part))"
    "count_high (update_sha1 context part) = of_nat (8 * length (data @ part) div 2 ^ 32)"
    using assms(1) count_sha1 [OF assms(2), of "length data"]
    by (simp_all only: update_sha1_def Let_def size sha1_absorbed_def split: if_splits prod.split)
      (simp_all add: distrib_left)
  show ?thesis
  proof (cases "j + length part > 63")
    case True
    define filled where "filled = remaining data @ take (64 - j) part"
    have filled: "memcpy (sha1_buffer context) j (take (64 - j) part) = filled" "length filled = 64"
      using kept j True by (simp_all add: memcpy_def filled_def j_def)
    obtain state i where loop:
      "absorb_from standard_block (standard_block (sha1_state context) filled) part (64 - j) = (state, i)"
      by (metis surj_pair)
    from True have "64 - j \<le> length part" by simp
    from absorb_from_absorb [OF this loop] have
      state: "state = absorb standard_block (standard_block (sha1_state context) filled) (drop (64 - j) part)"
      and left: "drop i part = remaining (drop (64 - j) part)" by simp_all
    have split: "remaining data @ part = filled @ drop (64 - j) part" by (simp add: filled_def)
    have new: "sha1_state (update_sha1 context part) = state"
      "sha1_buffer (update_sha1 context part) = memcpy filled 0 (drop i part)"
      using True by (simp_all add: update_sha1_def Let_def j filled transform_standard loop)
    have whole: "drop i part = remaining (data @ part)"
      by (simp only: rest(1) split remaining_block [OF filled(2)] left)
    moreover have "length (drop i part) = length (data @ part) mod 64" by (simp only: whole length_remaining)
    moreover have "state = absorb standard_block sha1_start (data @ part)"
      by (simp only: rest(2) split absorb_block [OF filled(2)] state)
    ultimately show ?thesis
      using filled(2) counts by (simp add: sha1_absorbed_def new memcpy_def)
  next
    case False
    then have "length (remaining data @ part) < 64" by (simp add: j_def)
    moreover have "length (data @ part) mod 64 = j + length part"
      using False by (simp add: j_def mod_add_left_eq [of "length data", symmetric])
    moreover have "length (remaining data) = j" by (simp add: j_def)
    moreover have "sha1_buffer (update_sha1 context part) = memcpy (sha1_buffer context) j part"
      "sha1_state (update_sha1 context part) = sha1_state context"
      using False by (simp_all add: update_sha1_def Let_def j)
    ultimately show ?thesis
      using False counts kept rest by (simp add: sha1_absorbed_def memcpy_def)
  qed
qed

section \<open>The digest\<close>

text \<open>The zeros that are still missing, which the loop of the padding adds one by one.\<close>

definition missing :: "nat \<Rightarrow> nat" where
  "missing n = (if n mod 64 \<le> 56 then 56 - n mod 64 else 120 - n mod 64)"

lemma missing_Suc: "n mod 64 \<noteq> 56 \<Longrightarrow> missing n = Suc (missing (Suc n))"
  by (auto simp: missing_def mod_Suc)

lemma missing_zeros: "missing (Suc n) = zeros n"
proof (cases "n mod 64 \<le> 55")
  case True
  then have "119 - n mod 64 = 64 + (55 - n mod 64)" by simp
  then have "zeros n = (55 - n mod 64) mod 64" by (simp only: zeros_def mod_add_self1)
  then show ?thesis using True by (simp add: missing_def mod_Suc)
next
  case False
  then show ?thesis by (simp add: missing_def zeros_def mod_Suc)
qed

lemma padded_yet:
  assumes "count_low c = of_nat (8 * n)"
  shows "count_low c AND 504 = 448 \<longleftrightarrow> n mod 64 = 56"
proof -
  define y where "y = drop_bit 3 (count_low c) AND 63"
  have y: "unat y = n mod 64" using position_sha1 [OF assms] by (simp add: y_def)
  have "count_low c AND 504 = push_bit 3 y"
  proof (rule bit_word_eqI)
    have "list_all (\<lambda>n. bit (count_low c AND 504) n = bit (push_bit 3 y) n) [0..<32]"
      unfolding upt_32 by (simp add: y_def bit_simps)
    then show "bit (count_low c AND 504) n = bit (push_bit 3 y) n" if "n < LENGTH(32)" for n
      using that by (simp add: list_all_iff)
  qed
  moreover have "unat (push_bit 3 y) = 8 * (n mod 64)"
  proof -
    have "n mod 64 < 64" by simp
    then have "8 * (n mod 64) < 4294967296" by linarith
    moreover have "push_bit 3 y = of_nat (8 * (n mod 64))" by (simp add: push_bit_eq_mult y [symmetric])
    ultimately show ?thesis by (simp add: unat_of_nat take_bit_eq_mod del: of_nat_mult)
  qed
  ultimately show ?thesis by (simp add: word_unat_eq_iff)
qed

lemma absorbed_pad_sha1:
  "sha1_absorbed c data \<Longrightarrow> missing (length data) \<le> n \<Longrightarrow>
     sha1_absorbed (pad_sha1 n c) (data @ replicate (missing (length data)) 0)"
proof (induction n arbitrary: c data)
  case (Suc n)
  then have low: "count_low c AND 504 = 448 \<longleftrightarrow> length data mod 64 = 56"
    by (intro padded_yet) (simp add: sha1_absorbed_def)
  show ?case
  proof (cases "length data mod 64 = 56")
    case True
    then show ?thesis using Suc.prems low by (simp add: missing_def)
  next
    case False
    then have "missing (length data) = Suc (missing (length (data @ [0])))" by (simp add: missing_Suc)
    then show ?thesis
      using Suc.IH [OF absorbed_update_sha1 [OF Suc.prems(1), of "[0]"]] Suc.prems False low by simp
  qed
qed simp

lemma absorbed_final_sha1:
  assumes "sha1_absorbed c data"
  shows "final_sha1 c = sha1_standard data"
proof -
  define c1 where "c1 = pad_sha1 64 (update_sha1 c [0x80])"
  define finalcount where "finalcount = big_bytes (count_high c) @ big_bytes (count_low c)"
  have finalcount: "finalcount = big_length (8 * length data)" "length finalcount = 8"
    using assms by (simp_all add: finalcount_def big_length_def sha1_absorbed_def big_bytes_def del: of_nat_mult)
  have marked: "sha1_absorbed (update_sha1 c [0x80]) (data @ [0x80])"
    by (rule absorbed_update_sha1 [OF assms]) simp
  have "sha1_absorbed c1 ((data @ [0x80]) @ replicate (missing (length (data @ [0x80]))) 0)"
    unfolding c1_def by (rule absorbed_pad_sha1 [OF marked]) (auto simp: missing_def)
  then have "sha1_absorbed (update_sha1 c1 finalcount)
      (((data @ [0x80]) @ replicate (missing (length (data @ [0x80]))) 0) @ finalcount)"
    by (rule absorbed_update_sha1) (simp only: finalcount(2), simp)
  moreover have "((data @ [0x80]) @ replicate (missing (length (data @ [0x80]))) 0) @ finalcount
      = padded big_length data"
    by (simp add: padded_def finalcount(1) missing_zeros)
  ultimately have "sha1_state (update_sha1 c1 finalcount) = absorb standard_block sha1_start (padded big_length data)"
    by (simp add: sha1_absorbed_def)
  then show ?thesis
    by (simp add: final_sha1_def Let_def c1_def finalcount_def sha1_standard_def sha1_start_def)
qed

interpretation sha1: digest sha1_absorbed "\<lambda>c. \<exists>uninitialised. length uninitialised = 64 \<and> c = init_sha1 uninitialised"
  update_sha1 final_sha1 sha1_standard "\<lambda>part. length part < 2 ^ 29"
proof
  fix c assume "\<exists>uninitialised. length uninitialised = 64 \<and> c = init_sha1 uninitialised"
  then show "sha1_absorbed c []" by (auto simp: sha1_absorbed_def init_sha1_def sha1_start_def)
qed (simp_all only: absorbed_update_sha1 absorbed_final_sha1)

text \<open>C26: the SHA-1 of the code is the one of the standard. However a message is cut into parts, each of them
  below 2 ^ 29 bytes, the digest that the context ends with is the one that FIPS 180-4 defines for the whole
  message: the block that is transformed in place, with the words of a little endian machine swapped as they are
  read, goes through the eighty words of the schedule, and the padding closes the message whatever its length.\<close>

theorem sha1_refines:
  assumes "list_all (\<lambda>part. length part < 2 ^ 29) parts" and "length uninitialised = 64"
  shows "final_sha1 (foldl update_sha1 (init_sha1 uninitialised) parts) = sha1_standard (concat parts)"
  by (rule sha1.digest_parts) (use assms in auto)

theorem sha1_refines_witness:
  "final_sha1 (foldl update_sha1 (init_sha1 (replicate 64 7)) [ascii ''a'', ascii ''bc'']) = sha1_standard (ascii ''abc'')"
  using sha1_refines [of "[ascii ''a'', ascii ''bc'']" "replicate 64 7"] by (simp add: ascii_def)

text \<open>A part of 2 ^ 29 bytes or more is counted twice, as the count is compared with a size of 64 bits.\<close>

lemma update_large_count:
  assumes "length part = 2 ^ 29" and "j = unat (drop_bit 3 (count_low c) AND 63)"
  shows "count_low (update_sha1 c part) = count_low c \<and> count_high (update_sha1 c part) = count_high c + 2"
proof -
  have zero: "(4294967296 :: u32) = 0" by simp
  have "unat (count_low c) < 4294967296" using unsigned_less [of "count_low c", where ?'a = nat] by simp
  then show ?thesis
    using assms(1) by (simp add: update_sha1_def Let_def zero split: prod.split)
qed

end
