(* ===== verification/Websocket.thy ===== *)
theory Websocket
  imports Base_64 Sha1
begin

text \<open>
  The frames of the protocol of web sockets, of \<^verbatim>\<open>src/src/viriatum/http/websocket.c\<close>: the answer to
  the key of a client, the parsing of the masked frames of a client, the building of the frames of
  the server and the frame that closes. The buffer of a frame is the list of the bytes that have
  been received, and the payload of a parsed frame is a position in it.
\<close>

definition VIRIATUM_WEBSOCKET_GUID :: bytes where
  "VIRIATUM_WEBSOCKET_GUID = ascii ''258EAFA5-E914-47DA-95CA-C5AB0DC85B11''"

definition VIRIATUM_WEBSOCKET_ACCEPT_SIZE :: nat where [simp]: "VIRIATUM_WEBSOCKET_ACCEPT_SIZE = 32"
definition VIRIATUM_WEBSOCKET_MAX_PAYLOAD :: nat where [simp]: "VIRIATUM_WEBSOCKET_MAX_PAYLOAD = 16777216"
definition VIRIATUM_WEBSOCKET_MAX_CONTROL :: nat where [simp]: "VIRIATUM_WEBSOCKET_MAX_CONTROL = 125"

definition WEBSOCKET_OPCODE_CONTINUATION :: byte where [simp]: "WEBSOCKET_OPCODE_CONTINUATION = 0x0"
definition WEBSOCKET_OPCODE_TEXT :: byte where [simp]: "WEBSOCKET_OPCODE_TEXT = 0x1"
definition WEBSOCKET_OPCODE_BINARY :: byte where [simp]: "WEBSOCKET_OPCODE_BINARY = 0x2"
definition WEBSOCKET_OPCODE_CLOSE :: byte where [simp]: "WEBSOCKET_OPCODE_CLOSE = 0x8"
definition WEBSOCKET_OPCODE_PING :: byte where [simp]: "WEBSOCKET_OPCODE_PING = 0x9"
definition WEBSOCKET_OPCODE_PONG :: byte where [simp]: "WEBSOCKET_OPCODE_PONG = 0xa"

definition WEBSOCKET_CLOSE_NONE :: "16 word" where [simp]: "WEBSOCKET_CLOSE_NONE = 1005"

record websocket_frame =
  fin :: bool
  opcode :: byte
  masked :: bool
  frame_mask :: bytes
  payload_position :: "nat option"
  payload_size :: nat
  frame_size :: nat

definition empty_frame :: websocket_frame where
  "empty_frame = \<lparr>fin = False, opcode = 0, masked = False, frame_mask = [0, 0, 0, 0],
     payload_position = None, payload_size = 0, frame_size = 0\<rparr>"

definition Websocket_error :: "string \<Rightarrow> error" where
  "Websocket_error message = Runtime_Exception message"

section \<open>The key of the opening\<close>

text \<open>The key is the string that the client has sent, and \<open>accept_key_size\<close> the room for the answer.\<close>

definition accept_key_websocket :: "bytes \<Rightarrow> bytes \<Rightarrow> nat \<Rightarrow> bytes result" where
  "accept_key_websocket uninitialised key accept_key_size =
     (let key_size = length key
      in if key_size = 0 \<or> key_size > VIRIATUM_MAX_HEADER_SIZE
         then Inl (Websocket_error ''Invalid websocket key'')
         else
           (let encoded = encode_base64 (sha1 uninitialised (key @ VIRIATUM_WEBSOCKET_GUID))
            in if length encoded \<ge> accept_key_size
               then Inl (Websocket_error ''Buffer is too small for the accept key'')
               else Inr (encoded @ [0])))"

section \<open>Parsing\<close>

definition is_control_websocket :: "byte \<Rightarrow> bool" where
  "is_control_websocket code \<longleftrightarrow> code AND 0x08 \<noteq> 0"

definition known_opcode :: "byte \<Rightarrow> bool" where
  "known_opcode code \<longleftrightarrow> code \<in> set [WEBSOCKET_OPCODE_CONTINUATION, WEBSOCKET_OPCODE_TEXT,
     WEBSOCKET_OPCODE_BINARY, WEBSOCKET_OPCODE_CLOSE, WEBSOCKET_OPCODE_PING, WEBSOCKET_OPCODE_PONG]"

text \<open>The number that some bytes make in network order.\<close>

definition network_number :: "bytes \<Rightarrow> nat" where
  "network_number bs = foldl (\<lambda>n b. n * 256 + unat b) 0 bs"

text \<open>
  The length of the payload and the offset that follows it, \<^term>\<open>None\<close> while the field of the
  length has not arrived. A length of 8 bytes is one of 64 bits, which it cannot go beyond.
\<close>

definition payload_length :: "bytes \<Rightarrow> (nat \<times> nat) option result" where
  "payload_length buffer =
     (let base = unat (buffer ! 1 AND 0x7f)
      in if base = 126 then
           (if length buffer < 4 then Inr None
            else
              (let n = network_number (take 2 (drop 2 buffer))
               in if n < 126 then Inl (Websocket_error ''Length is not minimally encoded'')
                  else Inr (Some (n, 4))))
         else if base = 127 then
           (if length buffer < 10 then Inr None
            else
              (let n = network_number (take 8 (drop 2 buffer))
               in if n \<le> 65535 then Inl (Websocket_error ''Length is not minimally encoded'')
                  else Inr (Some (n, 10))))
         else Inr (Some (base, 2)))"

text \<open>The bytes of a payload combined with the key of the mask, in place.\<close>

definition mask_bytes :: "bytes \<Rightarrow> bytes \<Rightarrow> bytes" where
  "mask_bytes key bs = map (\<lambda>i. bs ! i XOR key ! (i mod 4)) [0..<length bs]"

text \<open>The part of the parsing that follows the length: the limits, the mask and the payload.\<close>

definition parse_payload ::
    "bytes \<Rightarrow> websocket_frame \<Rightarrow> nat \<Rightarrow> nat \<Rightarrow> error option \<times> websocket_frame \<times> bytes" where
  "parse_payload buffer frame n offset =
     (if n > VIRIATUM_WEBSOCKET_MAX_PAYLOAD
      then (Some (Websocket_error ''Frame payload is too large''), frame, buffer)
      else if is_control_websocket (opcode frame) \<and> \<not> fin frame
      then (Some (Websocket_error ''Received a fragmented control frame''), frame, buffer)
      else if is_control_websocket (opcode frame) \<and> n > VIRIATUM_WEBSOCKET_MAX_CONTROL
      then (Some (Websocket_error ''Control frame payload is too large''), frame, buffer)
      else if length buffer < offset + 4 then (None, frame, buffer)
      else
        (let key = take 4 (drop offset buffer); frame = frame\<lparr>frame_mask := key\<rparr>; offset = offset + 4
         in if length buffer < offset + n then (None, frame, buffer)
            else (None, frame\<lparr>payload_position := Some offset, payload_size := n, frame_size := offset + n\<rparr>,
                  memcpy buffer offset (mask_bytes key (take n (drop offset buffer))))))"

definition parse_frame_websocket :: "bytes \<Rightarrow> error option \<times> websocket_frame \<times> bytes" where
  "parse_frame_websocket buffer =
     (if length buffer < 2 then (None, empty_frame, buffer)
      else
        (let frame = empty_frame\<lparr>fin := buffer ! 0 AND 0x80 \<noteq> 0, opcode := buffer ! 0 AND 0x0f\<rparr>
         in if buffer ! 0 AND 0x70 \<noteq> 0
            then (Some (Websocket_error ''Reserved bits are set in the frame''), frame, buffer)
            else if \<not> known_opcode (opcode frame)
            then (Some (Websocket_error ''Unknown opcode in the frame''), frame, buffer)
            else
              (let frame = frame\<lparr>masked := buffer ! 1 AND 0x80 \<noteq> 0\<rparr>
               in if \<not> masked frame
                  then (Some (Websocket_error ''Received an unmasked frame from the client''), frame, buffer)
                  else
                    (case payload_length buffer of
                       Inl e \<Rightarrow> (Some e, frame, buffer)
                     | Inr None \<Rightarrow> (None, frame, buffer)
                     | Inr (Some (n, offset)) \<Rightarrow> parse_payload buffer frame n offset))))"

section \<open>Building\<close>

definition network_bytes :: "nat \<Rightarrow> nat \<Rightarrow> bytes" where
  "network_bytes count n = map (\<lambda>i. of_nat (n div 256 ^ (count - 1 - i))) [0..<count]"

text \<open>The field of the length, in the smallest of its variants.\<close>

definition length_field :: "nat \<Rightarrow> bytes" where
  "length_field n =
     (if n > 65535 then 127 # network_bytes 8 n
      else if n > 125 then 126 # network_bytes 2 n
      else [of_nat n])"

definition first_byte :: "byte \<Rightarrow> bool \<Rightarrow> byte" where
  "first_byte code final = (if final then 0x80 else 0x00) OR (code AND 0x0f)"

definition build_frame_websocket :: "byte \<Rightarrow> bool \<Rightarrow> bytes \<Rightarrow> bytes result" where
  "build_frame_websocket code final payload =
     (if length payload > VIRIATUM_WEBSOCKET_MAX_PAYLOAD then Inl (Websocket_error ''Frame payload is too large'')
      else Inr (first_byte code final # length_field (length payload) @ payload))"

text \<open>The reason is cut to what a control frame carries, never in the middle of a code point.\<close>

fun cut_reason :: "bytes \<Rightarrow> nat \<Rightarrow> nat" where
  "cut_reason reason 0 = 0"
| "cut_reason reason (Suc n) = (if reason ! Suc n AND 0xc0 = 0x80 then cut_reason reason n else Suc n)"

definition reason_websocket :: "bytes \<Rightarrow> bytes" where
  "reason_websocket reason =
     (if length reason > VIRIATUM_WEBSOCKET_MAX_CONTROL - 2
      then take (cut_reason reason (VIRIATUM_WEBSOCKET_MAX_CONTROL - 2)) reason
      else reason)"

definition build_close_websocket :: "16 word \<Rightarrow> bytes \<Rightarrow> bytes result" where
  "build_close_websocket code reason =
     build_frame_websocket WEBSOCKET_OPCODE_CLOSE True
       (ucast (drop_bit 8 code) # ucast code # reason_websocket reason)"

definition close_code_websocket :: "bytes \<Rightarrow> 16 word" where
  "close_code_websocket payload =
     (if length payload < 2 then WEBSOCKET_CLOSE_NONE
      else push_bit 8 (ucast (payload ! 0)) OR ucast (payload ! 1))"

section \<open>The answer to a key\<close>

lemma length_sha1_standard: "length (sha1_standard data) = 20"
  by (simp add: sha1_standard_def big_bytes_def split: prod.split)

text \<open>C30: the answer to the key of a client is the base 64 text of the SHA-1 of the key and the identifier of
  the protocol, which takes 28 characters, so that the room of \<open>VIRIATUM_WEBSOCKET_ACCEPT_SIZE\<close> that the
  caller gives is always enough and the key is refused only when it is empty or longer than a field.\<close>

theorem accept_key_spec:
  assumes "length uninitialised = 64" and "key \<noteq> []" and "length key \<le> VIRIATUM_MAX_HEADER_SIZE"
  shows "\<exists>answer. accept_key_websocket uninitialised key VIRIATUM_WEBSOCKET_ACCEPT_SIZE = Inr (answer @ [0])
    \<and> length answer = 28 \<and> decode_base64 answer = Inr (sha1_standard (key @ VIRIATUM_WEBSOCKET_GUID))"
proof -
  define digest where "digest = sha1_standard (key @ VIRIATUM_WEBSOCKET_GUID)"
  have "sha1 uninitialised (key @ VIRIATUM_WEBSOCKET_GUID) = digest"
    unfolding sha1_def digest_def
    by (rule sha1.digest_whole) (use assms in \<open>auto simp: VIRIATUM_WEBSOCKET_GUID_def\<close>)
  moreover have "length digest = 20" by (simp add: digest_def length_sha1_standard)
  moreover from this have "digest \<noteq> []" by (cases digest) auto
  moreover from calculation have "decode_base64 (encode_base64 digest) = Inr digest \<and> length (encode_base64 digest) = 28"
    using base64_coding [of digest] by (simp add: calculate_encoded_buffer_length_base64_def)
  ultimately show ?thesis
    using assms by (simp add: accept_key_websocket_def Let_def digest_def)
qed

theorem accept_key_spec_witness:
  "\<exists>answer. accept_key_websocket (replicate 64 0) (ascii ''dGhlIHNhbXBsZSBub25jZQ=='') VIRIATUM_WEBSOCKET_ACCEPT_SIZE
      = Inr (answer @ [0])
    \<and> length answer = 28
    \<and> decode_base64 answer = Inr (sha1_standard (ascii ''dGhlIHNhbXBsZSBub25jZQ=='' @ VIRIATUM_WEBSOCKET_GUID))"
  by (rule accept_key_spec) (simp_all add: ascii_def)

section \<open>The frames of a client\<close>

text \<open>
  A frame that the server builds and its form when a client sends it: the bit of the mask is set in the
  second byte, and the key goes before the payload, which is combined with it.
\<close>

definition client_frame :: "bytes \<Rightarrow> byte \<Rightarrow> bool \<Rightarrow> bytes \<Rightarrow> bytes" where
  "client_frame key code final payload =
     (let field = length_field (length payload)
      in first_byte code final # (hd field OR 0x80) # tl field @ key @ mask_bytes key payload)"

text \<open>What the protocol allows to be sent.\<close>

definition sendable :: "byte \<Rightarrow> bool \<Rightarrow> bytes \<Rightarrow> bool" where
  "sendable code final payload \<longleftrightarrow> known_opcode code \<and> length payload \<le> VIRIATUM_WEBSOCKET_MAX_PAYLOAD
     \<and> (is_control_websocket code \<longrightarrow> final \<and> length payload \<le> VIRIATUM_WEBSOCKET_MAX_CONTROL)"

lemma length_mask_bytes [simp]: "length (mask_bytes key bs) = length bs"
  by (simp add: mask_bytes_def)

lemma mask_bytes_twice [simp]: "mask_bytes key (mask_bytes key bs) = bs"
  by (rule nth_equalityI) (simp_all add: mask_bytes_def xor.assoc)

lemma length_network_bytes [simp]: "length (network_bytes k n) = k"
  by (simp add: network_bytes_def)

lemma network_number_snoc: "network_number (bs @ [b]) = network_number bs * 256 + unat b"
  by (simp add: network_number_def)

lemma network_bytes_snoc: "network_bytes (Suc k) n = network_bytes k (n div 256) @ [of_nat n]"
proof -
  have "n div 256 ^ (Suc k - 1 - i) = n div 256 div 256 ^ (k - 1 - i)" if "i < k" for i
  proof -
    have "Suc k - 1 - i = Suc (k - 1 - i)" using that by simp
    then show ?thesis by (simp add: div_mult2_eq)
  qed
  then show ?thesis by (simp add: network_bytes_def)
qed

lemma network_number_bytes: "n < 256 ^ k \<Longrightarrow> network_number (network_bytes k n) = n"
proof (induction k arbitrary: n)
  case 0
  then show ?case by (simp add: network_number_def network_bytes_def)
next
  case (Suc k)
  then have "n div 256 < 256 ^ k" by (simp add: less_mult_imp_div_less mult.commute)
  then show ?case using Suc.IH [of "n div 256"] by (simp add: network_bytes_snoc network_number_snoc unat_of_nat_byte)
qed

lemma network_bytes_number: "network_bytes (length bs) (network_number bs) = bs"
proof (induction bs rule: rev_induct)
  case Nil
  then show ?case by (simp add: network_bytes_def)
next
  case (snoc b bs)
  have "(network_number bs * 256 + unat b) div 256 = network_number bs" by simp
  moreover have "of_nat (network_number bs * 256 + unat b) = b"
    by (rule word_unat_eq_iff [THEN iffD2]) (simp only: unat_of_nat_byte, simp)
  ultimately show ?case
    using snoc by (simp add: network_bytes_snoc network_number_snoc del: of_nat_add of_nat_mult)
qed

lemma network_number_less: "network_number bs < 256 ^ length bs"
proof (induction bs rule: rev_induct)
  case (snoc b bs)
  then have "Suc (network_number bs) \<le> 256 ^ length bs" by simp
  then have "256 * Suc (network_number bs) \<le> 256 * 256 ^ length bs" by (rule mult_le_mono2)
  then show ?case by (simp add: network_number_snoc) (use unat_byte_less [of b] in linarith)
qed (simp add: network_number_def)

text \<open>The two bytes that a frame starts with.\<close>

lemma byte_bits_eqI:
  assumes "\<And>n. n \<in> set [0, 1, 2, 3, 4, 5, 6, 7] \<Longrightarrow> bit x n = bit (y::byte) n"
  shows "x = y"
proof (rule bit_word_eqI)
  fix n assume "n < LENGTH(8)"
  then have "n = 0 \<or> n = 1 \<or> n = 2 \<or> n = 3 \<or> n = 4 \<or> n = 5 \<or> n = 6 \<or> n = 7" by auto
  then show "bit x n = bit y n" using assms by auto
qed

lemma top_bit: "b AND 0x80 = 0 \<longleftrightarrow> \<not> bit (b::byte) 7"
  using and_exp_eq_0_iff_not_bit [of b 7] by simp

lemma second_byte:
  "b AND 0x80 = 0 \<Longrightarrow> (b OR 0x80) AND 0x7f = (b::byte)" "(b OR 0x80) AND 0x80 \<noteq> (0::byte)"
  "b AND 0x80 \<noteq> 0 \<Longrightarrow> (b AND 0x7f) OR 0x80 = b"
  by (auto simp: top_bit bit_simps intro!: byte_bits_eqI)

lemma small_byte: "n < 128 \<Longrightarrow> (of_nat n :: byte) AND 0x80 = 0"
proof -
  have "list_all (\<lambda>n. (of_nat n :: byte) AND 0x80 = 0) [0..<128]" by code_simp
  then show "n < 128 \<Longrightarrow> (of_nat n :: byte) AND 0x80 = 0" by (simp add: list_all_iff)
qed

lemma first_byte_bits:
  "known_opcode code \<Longrightarrow> first_byte code final AND 0x0f = code"
  "known_opcode code \<Longrightarrow> first_byte code final AND 0x70 = 0"
  "known_opcode code \<Longrightarrow> first_byte code final AND 0x80 \<noteq> 0 \<longleftrightarrow> final"
  by (auto simp: known_opcode_def first_byte_def)

lemma first_byte_of:
  assumes "b AND 0x70 = 0"
  shows "first_byte (b AND 0x0f) (b AND 0x80 \<noteq> 0) = b"
proof -
  have "bit (b AND 0x70) n = bit (0::byte) n" for n by (simp only: assms)
  from this [of 4] this [of 5] this [of 6] have "\<not> bit b 4" "\<not> bit b 5" "\<not> bit b 6" by (simp_all add: bit_simps)
  then show ?thesis by (auto simp: first_byte_def top_bit bit_simps intro!: byte_bits_eqI)
qed

lemma length_field_cases:
  obtains "n \<le> 125" "length_field n = [of_nat n]"
  | "125 < n" "n \<le> 65535" "length_field n = 126 # network_bytes 2 n"
  | "65535 < n" "length_field n = 127 # network_bytes 8 n"
  by (cases "n \<le> 125"; cases "n \<le> 65535") (auto simp: length_field_def)

lemma payload_length_field:
  assumes "n \<le> VIRIATUM_WEBSOCKET_MAX_PAYLOAD"
  shows "payload_length (b # (hd (length_field n) OR 0x80) # tl (length_field n) @ x)
    = Inr (Some (n, Suc (length (length_field n))))"
proof (cases rule: length_field_cases [of n])
  case 1
  moreover have "(of_nat n OR 0x80) AND 0x7f = (of_nat n :: byte)"
    using 1 second_byte(1) [of "of_nat n"] small_byte [of n] by simp
  moreover have "unat (of_nat n :: byte) = n" using 1 by (simp add: unat_of_nat_byte)
  ultimately show ?thesis by (simp add: payload_length_def Let_def)
next
  case 2
  then show ?thesis using network_number_bytes [of n 2] by (simp add: payload_length_def Let_def)
next
  case 3
  then show ?thesis
    using network_number_bytes [of n 8] assms by (simp add: payload_length_def Let_def)
qed

text \<open>Before the whole of the field has arrived more data is required.\<close>

lemma payload_length_wait:
  assumes "2 \<le> m" and "m < Suc (length (length_field n))"
  shows "payload_length (take m (b # (hd (length_field n) OR 0x80) # tl (length_field n) @ x)) = Inr None"
proof -
  obtain k where m: "m = Suc (Suc k)" using assms(1) by (metis add_2_eq_Suc le_Suc_ex)
  show ?thesis
  proof (cases rule: length_field_cases [of n])
    case 1
    then show ?thesis using assms by simp
  next
    case 2
    then show ?thesis using assms m by (simp add: payload_length_def Let_def)
  next
    case 3
    then show ?thesis using assms m by (simp add: payload_length_def Let_def)
  qed
qed

text \<open>The frame that the parsing has read before it looks at the length.\<close>

definition begun :: "byte \<Rightarrow> bool \<Rightarrow> websocket_frame" where
  "begun code final = empty_frame\<lparr>fin := final, opcode := code, masked := True\<rparr>"

lemma parse_begun:
  assumes "known_opcode code"
  shows "parse_frame_websocket (first_byte code final # (c OR 0x80) # tail) =
    (case payload_length (first_byte code final # (c OR 0x80) # tail) of
       Inl e \<Rightarrow> (Some e, begun code final, first_byte code final # (c OR 0x80) # tail)
     | Inr None \<Rightarrow> (None, begun code final, first_byte code final # (c OR 0x80) # tail)
     | Inr (Some (n, offset)) \<Rightarrow>
         parse_payload (first_byte code final # (c OR 0x80) # tail) (begun code final) n offset)"
  using assms first_byte_bits [OF assms, of final] second_byte(2) [of c]
  by (simp add: parse_frame_websocket_def Let_def begun_def split: sum.split option.split)

lemma parse_payload_sendable:
  assumes "sendable code final payload" and "n = length payload"
  shows "parse_payload buffer (begun code final) n offset =
    (if length buffer < offset + 4 then (None, begun code final, buffer)
     else if length buffer < offset + 4 + n then
       (None, (begun code final)\<lparr>frame_mask := take 4 (drop offset buffer)\<rparr>, buffer)
     else (None, (begun code final)\<lparr>frame_mask := take 4 (drop offset buffer), payload_position := Some (offset + 4),
             payload_size := n, frame_size := offset + 4 + n\<rparr>,
           memcpy buffer (offset + 4) (mask_bytes (take 4 (drop offset buffer)) (take n (drop (offset + 4) buffer)))))"
  using assms by (auto simp: parse_payload_def sendable_def begun_def Let_def)

text \<open>C24: a frame of a client is parsed to what has been sent: the operation code, the final flag and the payload,
  which is unmasked in place, whatever follows the frame in the buffer being left for the next one. The size of
  the frame is the number of bytes that the client has sent for it.\<close>

theorem websocket_roundtrip:
  assumes "sendable code final payload" and "length key = 4"
  shows "\<exists>frame position. parse_frame_websocket (client_frame key code final payload @ rest) =
      (None, frame, take position (client_frame key code final payload) @ payload @ rest)
    \<and> fin frame = final \<and> opcode frame = code \<and> frame_mask frame = key \<and> payload_position frame = Some position
    \<and> payload_size frame = length payload \<and> frame_size frame = length (client_frame key code final payload)
    \<and> frame_size frame = position + length payload"
proof -
  define field where "field = length_field (length payload)"
  define buffer where "buffer = client_frame key code final payload @ rest"
  define position where "position = length field + 5"
  have known: "known_opcode code" and small: "length payload \<le> VIRIATUM_WEBSOCKET_MAX_PAYLOAD"
    using assms(1) by (auto simp: sendable_def)
  have field: "field \<noteq> []" by (cases rule: length_field_cases [of "length payload"]) (auto simp: field_def)
  then have size: "Suc (length (tl field)) = length field" by (cases field) auto
  define before where "before = first_byte code final # (hd field OR 0x80) # tl field"
  have before: "length before = Suc (length field)" "position = length before + 4"
    using size by (simp_all add: before_def position_def)
  have buffer: "buffer = before @ key @ mask_bytes key payload @ rest"
    "client_frame key code final payload = before @ key @ mask_bytes key payload"
    by (simp_all add: buffer_def before_def client_frame_def field_def [symmetric] Let_def)
  have head: "take 4 (drop (Suc (length field)) buffer) = key"
    "drop position buffer = mask_bytes key payload @ rest" "length buffer = position + length payload + length rest"
    using assms(2) by (simp_all add: buffer before(2) flip: before(1))
  have "payload_length buffer = Inr (Some (length payload, Suc (length field)))"
    using payload_length_field [OF small] by (simp add: buffer before_def field_def)
  then have "parse_frame_websocket buffer = parse_payload buffer (begun code final) (length payload) (Suc (length field))"
    using parse_begun [OF known, of final "hd field"] by (simp add: buffer before_def)
  also have "\<dots> = (None, (begun code final)\<lparr>frame_mask := key, payload_position := Some position,
      payload_size := length payload, frame_size := position + length payload\<rparr>,
      memcpy buffer position payload)"
  proof -
    have "Suc (length field) + 4 = position" by (simp add: position_def)
    then show ?thesis by (simp only: parse_payload_sendable [OF assms(1) refl]) (simp add: head)
  qed
  finally have parsed: "parse_frame_websocket buffer = \<dots>" .
  have "memcpy buffer position payload = take position (client_frame key code final payload) @ payload @ rest"
    "length (client_frame key code final payload) = position + length payload"
    using head assms(2) by (simp_all add: memcpy_def buffer before(2))
  then show ?thesis
    using parsed by (auto simp: buffer_def begun_def intro!: exI [of _ position])
qed

theorem websocket_roundtrip_witness:
  "\<exists>frame position. parse_frame_websocket (client_frame [1, 2, 3, 4] WEBSOCKET_OPCODE_TEXT True (ascii ''hello'') @ [0x89]) =
      (None, frame, take position (client_frame [1, 2, 3, 4] WEBSOCKET_OPCODE_TEXT True (ascii ''hello'')) @ ascii ''hello'' @ [0x89])
    \<and> fin frame = True \<and> opcode frame = WEBSOCKET_OPCODE_TEXT \<and> frame_mask frame = [1, 2, 3, 4]
    \<and> payload_position frame = Some position \<and> payload_size frame = length (ascii ''hello'')
    \<and> frame_size frame = length (client_frame [1, 2, 3, 4] WEBSOCKET_OPCODE_TEXT True (ascii ''hello''))
    \<and> frame_size frame = position + length (ascii ''hello'')"
  by (rule websocket_roundtrip) (simp_all add: sendable_def known_opcode_def is_control_websocket_def)

section \<open>Frames that have not arrived\<close>

text \<open>A frame that has arrived in part is neither refused nor touched: whatever the number of its bytes that
  the buffer holds, the parsing raises no error, reports the size zero that asks for more data and leaves the
  buffer as it is, so that the payload is unmasked only once.\<close>

theorem websocket_waits:
  assumes "sendable code final payload" and "length key = 4" and "m < length (client_frame key code final payload)"
  shows "\<exists>frame. parse_frame_websocket (take m (client_frame key code final payload)) =
      (None, frame, take m (client_frame key code final payload)) \<and> frame_size frame = 0"
proof -
  define field where "field = length_field (length payload)"
  define data where "data = client_frame key code final payload"
  define part where "part = take m data"
  have known: "known_opcode code" and small: "length payload \<le> VIRIATUM_WEBSOCKET_MAX_PAYLOAD"
    using assms(1) by (auto simp: sendable_def)
  have field: "field \<noteq> []" by (cases rule: length_field_cases [of "length payload"]) (auto simp: field_def)
  then have size: "Suc (length (tl field)) = length field" by (cases field) auto
  have data: "data = first_byte code final # (hd field OR 0x80) # tl field @ key @ mask_bytes key payload"
    by (simp add: data_def client_frame_def field_def [symmetric] Let_def)
  have total: "length data = length field + 5 + length payload" using size assms(2) by (simp add: data)
  have less: "length part = m" "m < length data" using assms(3) by (simp_all add: part_def data_def)
  have "\<exists>frame. parse_frame_websocket part = (None, frame, part) \<and> frame_size frame = 0"
  proof (cases "m < 2")
    case True
    then show ?thesis using less by (simp add: parse_frame_websocket_def empty_frame_def)
  next
    case False
    then obtain tail where part: "part = first_byte code final # (hd field OR 0x80) # tail"
      by (cases m; cases "m - 1") (auto simp: part_def data)
    show ?thesis
    proof (cases "m < Suc (length field)")
      case True
      then have "payload_length part = Inr None"
        using False payload_length_wait [of m "length payload" "first_byte code final" "key @ mask_bytes key payload"]
        by (simp add: part_def data field_def)
      then show ?thesis
        using parse_begun [OF known, of final "hd field" tail] by (simp add: part begun_def empty_frame_def)
    next
      case False
      then obtain x where "part = first_byte code final # (hd field OR 0x80) # tl field @ x"
        using size by (auto simp: part_def data take_Cons' not_less)
      then have "payload_length part = Inr (Some (length payload, Suc (length field)))"
        using payload_length_field [OF small] by (simp add: field_def)
      then have "parse_frame_websocket part =
          parse_payload part (begun code final) (length payload) (Suc (length field))"
        using parse_begun [OF known, of final "hd field" tail] by (simp add: part)
      moreover have "frame_size (begun code final) = 0" by (simp add: begun_def empty_frame_def)
      ultimately show ?thesis
        using less total by (simp add: parse_payload_sendable [OF assms(1) refl])
    qed
  qed
  then show ?thesis by (simp add: part_def data_def)
qed

theorem websocket_waits_witness:
  "\<exists>frame. parse_frame_websocket (take 8 (client_frame [1, 2, 3, 4] WEBSOCKET_OPCODE_TEXT True (ascii ''hello''))) =
      (None, frame, take 8 (client_frame [1, 2, 3, 4] WEBSOCKET_OPCODE_TEXT True (ascii ''hello''))) \<and> frame_size frame = 0"
  by (rule websocket_waits)
    (simp_all add: sendable_def known_opcode_def is_control_websocket_def client_frame_def length_field_def Let_def)

section \<open>Frames that are accepted\<close>

lemma payload_length_canonical:
  assumes "payload_length (b # c # tail) = Inr (Some (n, offset))" and "c AND 0x80 \<noteq> 0"
  shows "n < 2 ^ 64 \<and> (n \<le> VIRIATUM_WEBSOCKET_MAX_PAYLOAD \<longrightarrow> offset = Suc (length (length_field n)) \<and> offset \<le> length (b # c # tail)
    \<and> take offset (b # c # tail) = b # (hd (length_field n) OR 0x80) # tl (length_field n))"
proof -
  define base where "base = unat (c AND 0x7f)"
  have c: "of_nat base OR 0x80 = c" using second_byte(3) [OF assms(2)] by (simp add: base_def)
  have "c AND 0x7f = take_bit 7 c" by (simp add: take_bit_eq_mask mask_eq_exp_minus_1)
  moreover have "unat (take_bit 7 c) = unat c mod 128"
    by (simp only: unsigned_take_bit_eq) (simp add: take_bit_eq_mod)
  ultimately have small: "base < 128" by (simp add: base_def)
  consider "base = 126" | "base = 127" | "base \<le> 125" using small by linarith
  then show ?thesis
  proof cases
    case 1
    then have n: "n = network_number (take 2 tail)" "126 \<le> n" "offset = 4" "4 \<le> length (b # c # tail)"
      using assms(1) by (auto simp: payload_length_def Let_def base_def split: if_splits)
    then have two: "length (take 2 tail) = 2" by simp
    have "n < 65536" using network_number_less [of "take 2 tail"] n two by simp
    moreover have "network_bytes 2 n = take 2 tail" using network_bytes_number [of "take 2 tail"] n two by simp
    ultimately show ?thesis using n 1 c by (simp add: length_field_def)
  next
    case 2
    then have n: "n = network_number (take 8 tail)" "65535 < n" "offset = 10" "10 \<le> length (b # c # tail)"
      using assms(1) by (auto simp: payload_length_def Let_def base_def split: if_splits)
    then have eight: "length (take 8 tail) = 8" by simp
    have "n < 2 ^ 64" using network_number_less [of "take 8 tail"] n eight by simp
    moreover have "network_bytes 8 n = take 8 tail" using network_bytes_number [of "take 8 tail"] n eight by simp
    ultimately show ?thesis using n 2 c by (simp add: length_field_def)
  next
    case 3
    then have "n = base" "offset = 2"
      using assms(1) by (auto simp: payload_length_def Let_def base_def split: if_splits)
    then show ?thesis using 3 c by (simp add: length_field_def)
  qed
qed

text \<open>C25: the parsing accepts nothing but what a client may send: when it reports a complete frame, its bytes are
  exactly the masked form of the frame that \<open>build_frame_websocket\<close> builds of some payload with the operation
  code, the flag and the key it has read, the reserved bits unset, the length in the smallest of its variants, the
  payload within the limits and a control frame neither fragmented nor long.\<close>

theorem websocket_canonical:
  assumes "parse_frame_websocket buffer = (None, frame, buffer')" and "frame_size frame \<noteq> 0"
  shows "\<exists>payload. sendable (opcode frame) (fin frame) payload \<and> length (frame_mask frame) = 4
    \<and> frame_size frame \<le> length buffer
    \<and> take (frame_size frame) buffer = client_frame (frame_mask frame) (opcode frame) (fin frame) payload"
proof -
  obtain b c tail where buffer: "buffer = b # c # tail"
    using assms by (cases buffer; cases "tl buffer") (auto simp: parse_frame_websocket_def empty_frame_def)
  have bits: "b AND 0x70 = 0" "known_opcode (b AND 0x0f)" "c AND 0x80 \<noteq> 0"
    using assms by (auto simp: parse_frame_websocket_def buffer empty_frame_def Let_def split: if_splits)
  define start where "start = begun (b AND 0x0f) (b AND 0x80 \<noteq> 0)"
  have start: "frame_size start = 0" "opcode start = b AND 0x0f" "fin start \<longleftrightarrow> b AND 0x80 \<noteq> 0"
    by (simp_all add: start_def begun_def empty_frame_def)
  have first: "first_byte (b AND 0x0f) (b AND 0x80 \<noteq> 0) = b" by (rule first_byte_of [OF bits(1)])
  have second: "(c AND 0x7f) OR 0x80 = c" by (rule second_byte(3) [OF bits(3)])
  obtain n offset where length: "payload_length buffer = Inr (Some (n, offset))"
    and parsed: "parse_payload buffer start n offset = (None, frame, buffer')"
    using assms parse_begun [OF bits(2), of "b AND 0x80 \<noteq> 0" "c AND 0x7f" tail, unfolded first second]
      start(1)
    by (auto simp: buffer start_def [symmetric] split: sum.splits option.splits prod.splits)
  define key where "key = take 4 (drop offset buffer)"
  define payload where "payload = mask_bytes key (take n (drop (offset + 4) buffer))"
  have limits: "n \<le> VIRIATUM_WEBSOCKET_MAX_PAYLOAD" "offset + 4 + n \<le> length buffer"
    "is_control_websocket (opcode start) \<longrightarrow> fin start \<and> n \<le> VIRIATUM_WEBSOCKET_MAX_CONTROL"
    and frame: "frame = start\<lparr>frame_mask := key, payload_position := Some (offset + 4), payload_size := n,
      frame_size := offset + 4 + n\<rparr>"
    using parsed assms(2) start(1) by (auto simp: parse_payload_def Let_def key_def split: if_splits)
  have size: "length payload = n" "length key = 4" using limits by (simp_all add: payload_def key_def)
  have "sendable (opcode frame) (fin frame) payload"
    using limits bits(2) start size by (simp add: sendable_def frame)
  moreover have "take (offset + 4 + n) buffer = take offset buffer @ key @ take n (drop (offset + 4) buffer)"
    by (simp only: key_def take_add append_assoc)
  moreover have "take offset buffer = b # (hd (length_field n) OR 0x80) # tl (length_field n)"
    using payload_length_canonical [OF length [unfolded buffer] bits(3)] limits(1) unfolding buffer by blast
  ultimately have "take (frame_size frame) buffer = client_frame (frame_mask frame) (opcode frame) (fin frame) payload"
    using size first start by (simp add: frame client_frame_def Let_def payload_def)
  then show ?thesis
    using \<open>sendable (opcode frame) (fin frame) payload\<close> limits(2) size(2) by (auto simp: frame)
qed

theorem websocket_canonical_witness:
  "\<exists>payload. sendable 9 True payload \<and> length [1, 2, 3, 4 :: byte] = 4 \<and> (7::nat) \<le> length [0x89, 0x81, 1, 2, 3, 4, 0x40 :: byte]
    \<and> take 7 [0x89, 0x81, 1, 2, 3, 4, 0x40] = client_frame [1, 2, 3, 4] 9 True payload"
proof -
  have "parse_frame_websocket [0x89, 0x81, 1, 2, 3, 4, 0x40] =
    (None, \<lparr>fin = True, opcode = 9, masked = True, frame_mask = [1, 2, 3, 4], payload_position = Some 6,
       payload_size = 1, frame_size = 7\<rparr>, [0x89, 0x81, 1, 2, 3, 4, 0x41])"
    by (simp add: parse_frame_websocket_def empty_frame_def known_opcode_def payload_length_def parse_payload_def
        is_control_websocket_def mask_bytes_def memcpy_def Let_def)
  from websocket_canonical [OF this] show ?thesis by simp
qed

section \<open>Closing\<close>

text \<open>The cut of a reason and the bytes on both of its sides.\<close>

lemma cut_reason_bound: "cut_reason reason n \<le> n"
  by (induction n) auto

lemma cut_reason_boundary: "cut_reason reason n = 0 \<or> reason ! cut_reason reason n AND 0xc0 \<noteq> 0x80"
  by (induction n) auto

lemma length_reason_websocket: "length (reason_websocket reason) \<le> 123"
  using cut_reason_bound [of reason 123] by (simp add: reason_websocket_def)

lemma drop_reason_websocket:
  "drop (length (reason_websocket reason)) reason = [] \<or> reason_websocket reason = []
    \<or> reason ! length (reason_websocket reason) AND 0xc0 \<noteq> 0x80"
  using cut_reason_bound [of reason 123] cut_reason_boundary [of reason 123] by (auto simp: reason_websocket_def)

text \<open>C29: the frame that closes a connection is always built, whatever the reason: it is a final control frame
  within the limit of one, its payload gives the code back through \<open>close_code_websocket\<close> and goes on with a
  prefix of the reason, which is the whole of it when it fits and is never cut before a continuation byte, so
  that a code point of UTF-8 stays in one piece.\<close>

theorem close_spec:
  "\<exists>size cut rest. build_close_websocket code reason =
      Inr (0x88 # size # ucast (drop_bit 8 code) # ucast code # cut) \<and> unat size = length cut + 2
    \<and> unat size \<le> VIRIATUM_WEBSOCKET_MAX_CONTROL
    \<and> close_code_websocket (ucast (drop_bit 8 code) # ucast code # cut) = code
    \<and> reason = cut @ rest \<and> (length reason \<le> 123 \<longrightarrow> rest = [])
    \<and> (rest = [] \<or> cut = [] \<or> hd rest AND 0xc0 \<noteq> 0x80)"
proof -
  define cut where "cut = reason_websocket reason"
  define rest where "rest = drop (length cut) reason"
  have size: "length cut \<le> 123" by (simp add: cut_def length_reason_websocket)
  have "reason = cut @ rest" by (auto simp: cut_def rest_def reason_websocket_def min_def)
  moreover have "length reason \<le> 123 \<longrightarrow> rest = []" by (simp add: cut_def rest_def reason_websocket_def)
  moreover have "rest = [] \<or> cut = [] \<or> hd rest AND 0xc0 \<noteq> 0x80"
    using drop_reason_websocket [of reason] by (auto simp: cut_def rest_def hd_drop_conv_nth)
  moreover have "unat (of_nat (length cut + 2) :: byte) = length cut + 2"
    by (simp only: unat_of_nat_byte) (use size in simp)
  moreover have "build_close_websocket code reason =
      Inr (0x88 # of_nat (length cut + 2) # ucast (drop_bit 8 code) # ucast code # cut)"
    using size by (simp add: build_close_websocket_def build_frame_websocket_def first_byte_def length_field_def
        cut_def [symmetric])
  moreover have "close_code_websocket (ucast (drop_bit 8 code) # ucast code # cut) = code"
  proof -
    have "push_bit 8 (ucast (ucast (drop_bit 8 code) :: byte)) OR ucast (ucast code :: byte) = code"
      by (rule bit_word_eqI) (auto simp: bit_simps)
    then show ?thesis by (simp add: close_code_websocket_def)
  qed
  ultimately show ?thesis using size
    by (intro exI [of _ "of_nat (length cut + 2)"] exI [of _ cut] exI [of _ rest]) simp
qed

theorem close_spec_witness:
  "\<exists>size cut rest. build_close_websocket 1000 (ascii ''bye'') =
      Inr (0x88 # size # ucast (drop_bit 8 (1000 :: 16 word)) # ucast (1000 :: 16 word) # cut) \<and> unat size = length cut + 2
    \<and> unat size \<le> VIRIATUM_WEBSOCKET_MAX_CONTROL
    \<and> close_code_websocket (ucast (drop_bit 8 (1000 :: 16 word)) # ucast (1000 :: 16 word) # cut) = 1000
    \<and> ascii ''bye'' = cut @ rest \<and> (length (ascii ''bye'') \<le> 123 \<longrightarrow> rest = [])
    \<and> (rest = [] \<or> cut = [] \<or> hd rest AND 0xc0 \<noteq> 0x80)"
  by (rule close_spec)

end
