(* ===== verification/Hash_Map.thy ===== *)
theory Hash_Map
  imports Viriatum_Prelude
begin

text \<open>
  The hash map of \<^verbatim>\<open>src/src/viriatum_commons/structures/hash_map.c\<close>: open addressing with linear
  probing over a buffer of elements, keys of the size of a word that may come from a string, and a
  buffer that grows fourfold when the map is full. A value is a reference, \<^term>\<open>None\<close> standing
  for \<^verbatim>\<open>NULL\<close>. A probing that never meets an element to stop at does not end, and the comparison
  of a string with one that is not set reads through \<^verbatim>\<open>NULL\<close>; both are outcomes of the model. The
  interface \<open>string_map\<close> is what the components that look strings up rely on.
\<close>

definition DEFAULT_HASH_MAP_SIZE :: nat where [simp]: "DEFAULT_HASH_MAP_SIZE = 1024"
definition DEFAULT_RESIZE_FACTOR :: nat where [simp]: "DEFAULT_RESIZE_FACTOR = 4"

text \<open>The load factor of 0.75, of which the code keeps the integer part.\<close>

definition maximum_load :: "nat \<Rightarrow> nat" where
  "maximum_load n = 3 * n div 4"

record 'v hash_map_element =
  used :: bool
  element_key :: "64 word"
  key_string :: "bytes option"
  element_value :: "'v option"

record 'v hash_map =
  map_size :: nat
  maximum_size :: nat
  elements_buffer :: "'v hash_map_element list"

definition unused_element :: "'v hash_map_element" where
  "unused_element = \<lparr>used = False, element_key = 0, key_string = None, element_value = None\<rparr>"

section \<open>Keys\<close>

text \<open>The key of a string, which is the part of a buffer before its zero byte.\<close>

definition calculate_string_hash_map :: "bytes \<Rightarrow> 64 word" where
  "calculate_string_hash_map s =
     (case s of
        [] \<Rightarrow> 0
      | c # cs \<Rightarrow>
          (let key = foldl (\<lambda>key current. (1000003 * key) XOR ucast current) (push_bit 7 (ucast c)) cs;
               key = key XOR of_nat (length s)
           in if key = -1 then -2 else key))"

section \<open>Operations\<close>

definition create_hash_map :: "nat \<Rightarrow> 'v hash_map" where
  "create_hash_map initial_size =
     (let n = (if initial_size = 0 then DEFAULT_HASH_MAP_SIZE else initial_size)
      in \<lparr>map_size = 0, maximum_size = maximum_load n, elements_buffer = replicate n unused_element\<rparr>)"

datatype probing = Found nat | Endless | Null_string

text \<open>
  The probing from an index on, over at most as many elements as there are: one that has not stopped
  by then goes around for ever. The test tells whether to stop, if it can be evaluated at all.
\<close>

primrec probe :: "nat \<Rightarrow> ('v hash_map_element \<Rightarrow> bool option) \<Rightarrow> 'v hash_map_element list \<Rightarrow> nat \<Rightarrow> probing" where
  "probe 0 stop elements index = Endless"
| "probe (Suc n) stop elements index =
     (case stop (elements ! index) of
        None \<Rightarrow> Null_string
      | Some True \<Rightarrow> Found index
      | Some False \<Rightarrow> probe n stop elements (if index < length elements - 1 then index + 1 else 0))"

text \<open>The element of a key is found, and in case a string is given it matches too.\<close>

definition wanted :: "64 word \<Rightarrow> bytes option \<Rightarrow> 'v hash_map_element \<Rightarrow> bool option" where
  "wanted key name e =
     (if \<not> used e then Some True
      else if element_key e \<noteq> key then Some False
      else
        (case name of
           None \<Rightarrow> Some True
         | Some s \<Rightarrow> map_option (\<lambda>s'. s' = s) (key_string e)))"

definition get_hash_map :: "'v hash_map \<Rightarrow> 64 word \<Rightarrow> bytes option \<Rightarrow> probing" where
  "get_hash_map m key name =
     probe (length (elements_buffer m)) (wanted key name) (elements_buffer m)
       (unat key mod length (elements_buffer m))"

text \<open>The value of the element, \<^term>\<open>None\<close> (an outcome of its own) when the probing goes wrong.\<close>

definition get_value_hash_map :: "'v hash_map \<Rightarrow> 64 word \<Rightarrow> bytes option \<Rightarrow> 'v option option" where
  "get_value_hash_map m key name =
     (case get_hash_map m key name of
        Found index \<Rightarrow> Some (element_value (elements_buffer m ! index))
      | Endless \<Rightarrow> None
      | Null_string \<Rightarrow> None)"

definition get_value_string_hash_map :: "'v hash_map \<Rightarrow> bytes \<Rightarrow> 'v option option" where
  "get_value_string_hash_map m s = get_value_hash_map m (calculate_string_hash_map s) (Some s)"

text \<open>The setting goes into the first element that is free or that has the key.\<close>

definition vacant :: "64 word \<Rightarrow> 'v hash_map_element \<Rightarrow> bool option" where
  "vacant key e = Some (\<not> used e \<or> element_key e = key)"

text \<open>The part of the setting that comes after the growth of the buffer.\<close>

definition put_hash_map :: "64 word \<Rightarrow> bytes option \<Rightarrow> 'v option \<Rightarrow> 'v hash_map \<Rightarrow> 'v hash_map option" where
  "put_hash_map key name v m =
     (case probe (length (elements_buffer m)) (vacant key) (elements_buffer m)
             (unat key mod length (elements_buffer m)) of
        Found index \<Rightarrow>
          Some (m\<lparr>elements_buffer := (elements_buffer m)[index :=
                   \<lparr>used = True, element_key = key, key_string = name, element_value = v\<rparr>],
                  map_size := map_size m + 1\<rparr>)
      | Endless \<Rightarrow> None
      | Null_string \<Rightarrow> None)"

text \<open>
  The elements of the old buffer go one by one into a new one. Each of them is set by the function
  that first looks at the size; in a buffer four times as large it never grows again, as
  \<open>resize_step_small\<close> shows.
\<close>

fun copy_elements :: "'v hash_map_element list \<Rightarrow> 'v hash_map \<Rightarrow> 'v hash_map option" where
  "copy_elements [] m = Some m"
| "copy_elements (e # es) m =
     (if \<not> used e then copy_elements es m
      else
        (case put_hash_map (element_key e) (key_string e) (element_value e) m of
           None \<Rightarrow> None
         | Some m' \<Rightarrow> copy_elements es m'))"

definition resize_hash_map :: "'v hash_map \<Rightarrow> 'v hash_map option" where
  "resize_hash_map m =
     (let n = length (elements_buffer m) * DEFAULT_RESIZE_FACTOR
      in copy_elements (elements_buffer m)
           \<lparr>map_size = 0, maximum_size = maximum_load n, elements_buffer = replicate n unused_element\<rparr>)"

definition set_value_hash_map :: "64 word \<Rightarrow> bytes option \<Rightarrow> 'v option \<Rightarrow> 'v hash_map \<Rightarrow> 'v hash_map option" where
  "set_value_hash_map key name v m =
     (case (if map_size m \<ge> maximum_size m then resize_hash_map m else Some m) of
        None \<Rightarrow> None
      | Some m' \<Rightarrow> put_hash_map key name v m')"

definition set_value_string_hash_map :: "bytes \<Rightarrow> 'v option \<Rightarrow> 'v hash_map \<Rightarrow> 'v hash_map option" where
  "set_value_string_hash_map s v m = set_value_hash_map (calculate_string_hash_map s) (Some s) v m"

text \<open>The keys that the iterator goes through, in the order of the buffer.\<close>

definition iterate_hash_map :: "'v hash_map \<Rightarrow> 'v hash_map_element list" where
  "iterate_hash_map m = filter used (elements_buffer m)"

section \<open>Probing\<close>

lemma probe_step_mod:
  "0 < n \<Longrightarrow> (if h mod n < n - 1 then h mod n + 1 else 0) = Suc h mod (n::nat)"
  using mod_less_divisor [of n h] by (auto simp: mod_Suc simp del: mod_less_divisor)

lemma probe_found:
  assumes "elements \<noteq> []" and "stop (elements ! ((h + j) mod length elements)) = Some True"
    and "\<And>i. i < j \<Longrightarrow> stop (elements ! ((h + i) mod length elements)) = Some False" and "j < n"
  shows "probe n stop elements (h mod length elements) = Found ((h + j) mod length elements)"
  using assms
proof (induction n arbitrary: h j)
  case (Suc n)
  show ?case
  proof (cases j)
    case 0
    then show ?thesis using Suc.prems by simp
  next
    case (Suc j')
    have "probe n stop elements (Suc h mod length elements) = Found ((Suc h + j') mod length elements)"
    proof (rule Suc.IH)
      fix i assume "i < j'"
      then show "stop (elements ! ((Suc h + i) mod length elements)) = Some False"
        using Suc.prems(3) [of "Suc i"] Suc by simp
    qed (use Suc.prems Suc in simp_all)
    moreover have "stop (elements ! (h mod length elements)) = Some False"
      using Suc.prems(3) [of 0] Suc by simp
    moreover have "(if h mod length elements < length elements - 1 then h mod length elements + 1 else 0)
        = Suc h mod length elements"
      by (rule probe_step_mod) (use Suc.prems(1) in simp)
    ultimately show ?thesis using Suc by simp
  qed
qed simp

section \<open>The invariant\<close>

definition home :: "'v hash_map_element list \<Rightarrow> 64 word \<Rightarrow> nat" where
  "home elements key = unat key mod length elements"

text \<open>Every used element is reached from the home of its key over used elements, and no key is held twice.\<close>

definition reached :: "'v hash_map_element list \<Rightarrow> bool" where
  "reached elements \<longleftrightarrow> (\<forall>i<length elements. used (elements ! i) \<longrightarrow>
     (\<exists>j<length elements. i = (unat (element_key (elements ! i)) + j) mod length elements \<and>
       (\<forall>k<j. used (elements ! ((unat (element_key (elements ! i)) + k) mod length elements)))))"

definition held_once :: "'v hash_map_element list \<Rightarrow> bool" where
  "held_once elements \<longleftrightarrow> (\<forall>i<length elements. \<forall>j<length elements. used (elements ! i) \<longrightarrow> used (elements ! j) \<longrightarrow>
     element_key (elements ! i) = element_key (elements ! j) \<longrightarrow> i = j)"

definition used_count :: "'v hash_map_element list \<Rightarrow> nat" where
  "used_count elements = length (filter used elements)"

definition hash_map_ok :: "'v hash_map \<Rightarrow> bool" where
  "hash_map_ok m \<longleftrightarrow> elements_buffer m \<noteq> [] \<and> maximum_size m = maximum_load (length (elements_buffer m))
     \<and> used_count (elements_buffer m) \<le> map_size m \<and> map_size m \<le> maximum_size m
     \<and> reached (elements_buffer m) \<and> held_once (elements_buffer m)"

text \<open>What a map stands for: the string and the value of every key that it holds.\<close>

definition contents :: "'v hash_map_element list \<Rightarrow> 64 word \<Rightarrow> (bytes option \<times> 'v option) option" where
  "contents elements key =
     map_option (\<lambda>e. (key_string e, element_value e)) (find (\<lambda>e. used e \<and> element_key e = key) elements)"

lemma contents_at:
  assumes "held_once elements" and "i < length elements" and "used (elements ! i)" and "element_key (elements ! i) = key"
  shows "contents elements key = Some (key_string (elements ! i), element_value (elements ! i))"
proof -
  obtain e where e: "find (\<lambda>e. used e \<and> element_key e = key) elements = Some e"
    using assms by (cases "find (\<lambda>e. used e \<and> element_key e = key) elements") (auto simp: find_None_iff)
  then obtain j where "j < length elements" "used (elements ! j)" "element_key (elements ! j) = key" "e = elements ! j"
    by (auto simp: find_Some_iff)
  moreover from this have "j = i" using assms by (auto simp: held_once_def)
  ultimately show ?thesis using e by (simp add: contents_def)
qed

lemma contents_none:
  "contents elements key = None \<longleftrightarrow> (\<forall>i<length elements. used (elements ! i) \<longrightarrow> element_key (elements ! i) \<noteq> key)"
  by (auto simp: contents_def find_None_iff in_set_conv_nth)

text \<open>A free element is there to stop at.\<close>

lemma free_element:
  assumes "used_count elements < length elements"
  shows "\<exists>i<length elements. \<not> used (elements ! i)"
proof (rule ccontr)
  assume "\<not> ?thesis"
  then have "filter used elements = elements" by (auto simp: filter_id_conv all_set_conv_all_nth)
  then show False using assms by (simp add: used_count_def)
qed

lemma cyclic:
  assumes "i < (n::nat)"
  shows "\<exists>j<n. (h + j) mod n = i"
proof -
  define j where "j = (n - h mod n + i) mod n"
  have n: "0 < n" using assms by simp
  have "(h + j) mod n = (h mod n + (n - h mod n + i)) mod n" by (simp add: j_def mod_add_eq mod_add_left_eq mod_add_right_eq)
  also have "h mod n + (n - h mod n + i) = n + i" using mod_less_divisor [OF n, of h] by simp
  also have "(n + i) mod n = i" using assms by simp
  finally have "(h + j) mod n = i" .
  moreover have "j < n" using n by (simp add: j_def)
  ultimately show ?thesis by blast
qed

text \<open>
  The element that a probing for a key stops at: all before it, from the home of the key on, are used by
  others, and if it is free then no element is the one that is looked for.
\<close>

lemma place:
  assumes "used_count elements < length elements" and "reached elements"
    and "\<And>e. looked_for e \<Longrightarrow> element_key e = key"
  obtains j where "j < length elements"
    and "\<not> used (elements ! ((unat key + j) mod length elements)) \<or>
      looked_for (elements ! ((unat key + j) mod length elements))"
    and "\<And>i. i < j \<Longrightarrow> used (elements ! ((unat key + i) mod length elements)) \<and>
      \<not> looked_for (elements ! ((unat key + i) mod length elements))"
    and "\<not> used (elements ! ((unat key + j) mod length elements)) \<Longrightarrow>
      (\<And>i. i < length elements \<Longrightarrow> used (elements ! i) \<Longrightarrow> \<not> looked_for (elements ! i))"
proof -
  let ?n = "length elements"
  let ?at = "\<lambda>j. elements ! ((unat key + j) mod ?n)"
  define stops where "stops j \<longleftrightarrow> \<not> used (?at j) \<or> looked_for (?at j)" for j
  obtain i where i: "i < ?n" "\<not> used (elements ! i)" using free_element [OF assms(1)] by blast
  then obtain j0 where "j0 < ?n" "(unat key + j0) mod ?n = i" using cyclic by blast
  then have "stops j0" using i by (simp add: stops_def)
  define j where "j = (LEAST j. stops j)"
  have j: "stops j" "j \<le> j0" unfolding j_def using \<open>stops j0\<close> by (auto intro: LeastI Least_le)
  have before: "\<not> stops i" if "i < j" for i using that not_less_Least unfolding j_def by blast
  have "\<not> looked_for (elements ! i)" if free: "\<not> used (?at j)" and i: "i < ?n" "used (elements ! i)" for i
  proof
    assume "looked_for (elements ! i)"
    moreover from assms(3) [OF this] obtain l where l: "i = (unat key + l) mod ?n" "\<forall>k<l. used (?at k)"
      using assms(2) i unfolding reached_def by metis
    ultimately have "stops l" by (simp add: stops_def)
    then have "\<not> l < j" using before by blast
    moreover have "l \<noteq> j" using free i l by auto
    ultimately have "j < l" by simp
    then show False using l free by blast
  qed
  with j before show thesis
    using that [of j] \<open>j0 < ?n\<close> by (auto simp: stops_def)
qed

lemma used_count_update: "used_count (elements[r := e]) \<le> used_count elements + 1"
  unfolding used_count_def
proof (induction elements arbitrary: r)
  case (Cons a elements)
  then show ?case using Cons.IH [of "r - 1"] by (cases r) simp_all
qed simp

text \<open>The new element of a key makes a map hold that key with its value and leaves every other key.\<close>

lemma put_contents:
  assumes "used_count (elements_buffer m) < length (elements_buffer m)"
    and "reached (elements_buffer m)" and "held_once (elements_buffer m)"
  obtains m' where "put_hash_map key name v m = Some m'" and "map_size m' = map_size m + 1"
    and "maximum_size m' = maximum_size m" and "length (elements_buffer m') = length (elements_buffer m)"
    and "used_count (elements_buffer m') \<le> used_count (elements_buffer m) + 1"
    and "reached (elements_buffer m')" and "held_once (elements_buffer m')"
    and "contents (elements_buffer m') = (contents (elements_buffer m))(key \<mapsto> (name, v))"
proof -
  define elements where "elements = elements_buffer m"
  define new where "new = \<lparr>used = True, element_key = key, key_string = name, element_value = v\<rparr>"
  let ?n = "length elements"
  obtain j where j: "j < ?n"
    and stop: "\<not> used (elements ! ((unat key + j) mod ?n)) \<or> element_key (elements ! ((unat key + j) mod ?n)) = key"
    and before: "\<And>i. i < j \<Longrightarrow> used (elements ! ((unat key + i) mod ?n)) \<and>
      element_key (elements ! ((unat key + i) mod ?n)) \<noteq> key"
    and free: "\<And>i. \<not> used (elements ! ((unat key + j) mod ?n)) \<Longrightarrow> i < ?n \<Longrightarrow> used (elements ! i) \<Longrightarrow>
      element_key (elements ! i) \<noteq> key"
    by (rule place [of elements "\<lambda>e. element_key e = key" key]) (use assms in \<open>auto simp: elements_def\<close>)
  define r where "r = (unat key + j) mod ?n"
  have "0 < ?n" using j by linarith
  then have n: "elements \<noteq> []" "r < ?n" by (auto simp: r_def)
  define elements' where "elements' = elements[r := new]"
  have nth: "elements' ! i = (if i = r then new else elements ! i)" if "i < ?n" for i
    using that n by (simp add: elements'_def)
  have other: "element_key (elements ! i) \<noteq> key" if "i < ?n" "i \<noteq> r" "used (elements ! i)" for i
  proof (cases "used (elements ! r)")
    case True
    then show ?thesis using stop that n assms(3) by (auto simp: r_def held_once_def elements_def)
  next
    case False
    then show ?thesis using free that by (auto simp: r_def)
  qed
  have "probe ?n (vacant key) elements (unat key mod ?n) = Found r"
    unfolding r_def by (rule probe_found) (use n j stop before in \<open>auto simp: vacant_def\<close>)
  then have put: "put_hash_map key name v m = Some (m\<lparr>elements_buffer := elements', map_size := map_size m + 1\<rparr>)"
    by (simp add: put_hash_map_def elements_def elements'_def new_def)
  have grows: "used (elements' ! i)" if "i < ?n" "used (elements ! i)" for i
    using that by (simp add: nth new_def)
  have "reached elements'"
    unfolding reached_def
  proof (intro allI impI)
    fix i assume i: "i < length elements'" "used (elements' ! i)"
    then have "i < ?n" by (simp add: elements'_def)
    have mod: "x mod ?n < ?n" for x using n by (cases elements) simp_all
    show "\<exists>j<length elements'. i = (unat (element_key (elements' ! i)) + j) mod length elements' \<and>
      (\<forall>k<j. used (elements' ! ((unat (element_key (elements' ! i)) + k) mod length elements')))"
    proof (cases "i = r")
      case True
      have "element_key (elements' ! r) = key" using n(2) by (simp add: nth new_def)
      moreover have "\<forall>k<j. used (elements' ! ((unat key + k) mod ?n))" using before grows [OF mod] by blast
      ultimately show ?thesis using j True by (auto simp: r_def elements'_def)
    next
      case False
      then have "used (elements ! i)" "elements' ! i = elements ! i" using i \<open>i < ?n\<close> by (simp_all add: nth)
      then show ?thesis
        using assms(2) \<open>i < ?n\<close> grows [OF mod]
        unfolding reached_def elements_def [symmetric] by (metis elements'_def length_list_update)
    qed
  qed
  moreover have "held_once elements'"
    unfolding held_once_def
    using assms(3) other n by (auto simp: nth new_def held_once_def elements_def elements'_def nth_list_update)
  moreover have "contents elements' = (contents elements)(key \<mapsto> (name, v))"
  proof
    fix key'
    show "contents elements' key' = ((contents elements)(key \<mapsto> (name, v))) key'"
    proof (cases "key' = key")
      case True
      then show ?thesis
        using contents_at [OF \<open>held_once elements'\<close>, of r key] n nth [OF n(2)] by (simp add: new_def elements'_def)
    next
      case False
      have same: "elements' ! i = elements ! i" if "i < ?n" "used (elements ! i)" "element_key (elements ! i) = key'" for i
        using that stop False nth [OF that(1)] by (auto simp: r_def)
      show ?thesis
      proof (cases "contents elements key'")
        case None
        then have "contents elements' key' = None"
          unfolding contents_none
        proof (intro allI impI)
          fix i assume i: "i < length elements'" "used (elements' ! i)"
          then have "i < ?n" by (simp add: elements'_def)
          then show "element_key (elements' ! i) \<noteq> key'"
            using i None False unfolding contents_none by (simp add: nth new_def split: if_splits)
        qed
        then show ?thesis using None False by simp
      next
        case (Some x)
        then obtain i where i: "i < ?n" "used (elements ! i)" "element_key (elements ! i) = key'"
          using contents_none [of elements key'] by auto
        then show ?thesis
          using False same [OF i] contents_at [OF \<open>held_once elements'\<close>, of i key']
            contents_at [of elements i key'] assms(3)
          by (simp add: elements_def [symmetric]) (simp add: elements'_def)
      qed
    qed
  qed
  moreover have "used_count elements' \<le> used_count elements + 1"
    unfolding elements'_def by (rule used_count_update)
  ultimately show thesis
    using that [OF put] by (simp add: elements_def elements'_def)
qed

text \<open>Free elements carry no value.\<close>

definition free_empty :: "'v hash_map_element list \<Rightarrow> bool" where
  "free_empty elements \<longleftrightarrow> (\<forall>e\<in>set elements. \<not> used e \<longrightarrow> element_value e = None)"

lemma get_contents:
  assumes "used_count (elements_buffer m) < length (elements_buffer m)" and "reached (elements_buffer m)"
    and "held_once (elements_buffer m)" and "free_empty (elements_buffer m)"
  shows "get_value_hash_map m key None = Some (case contents (elements_buffer m) key of
      None \<Rightarrow> None | Some (name, v) \<Rightarrow> v)"
    and "(case contents (elements_buffer m) key of Some (None, v) \<Rightarrow> False | _ \<Rightarrow> True) \<Longrightarrow>
      get_value_hash_map m key (Some s) = Some (case contents (elements_buffer m) key of
      None \<Rightarrow> None | Some (name, v) \<Rightarrow> if name = Some s then v else None)"
proof -
  define elements where "elements = elements_buffer m"
  let ?n = "length elements"
  have get: "get_value_hash_map m key name = Some (case contents elements key of
      None \<Rightarrow> None | Some (name', v) \<Rightarrow> if name = None \<or> name = name' then v else None)"
    if strings: "name \<noteq> None \<Longrightarrow> (case contents elements key of Some (None, v) \<Rightarrow> False | _ \<Rightarrow> True)" for name
  proof -
    define fits where "fits e \<longleftrightarrow> element_key e = key \<and> (name = None \<or> key_string e = name)" for e :: "'a hash_map_element"
    obtain j where j: "j < ?n" "\<not> used (elements ! ((unat key + j) mod ?n)) \<or> fits (elements ! ((unat key + j) mod ?n))"
      and before: "\<And>i. i < j \<Longrightarrow> used (elements ! ((unat key + i) mod ?n)) \<and> \<not> fits (elements ! ((unat key + i) mod ?n))"
      and free: "\<And>i. \<not> used (elements ! ((unat key + j) mod ?n)) \<Longrightarrow> i < ?n \<Longrightarrow> used (elements ! i) \<Longrightarrow> \<not> fits (elements ! i)"
      by (rule place [of elements fits key]) (use assms in \<open>auto simp: elements_def fits_def\<close>)
    define r where "r = (unat key + j) mod ?n"
    have "0 < ?n" using j by linarith
    then have bound: "x mod ?n < ?n" for x by simp
    then have r: "r < ?n" by (simp add: r_def)
    have test: "wanted key name (elements ! i) = Some (\<not> used (elements ! i) \<or> fits (elements ! i))" if small: "i < ?n" for i
    proof (cases "used (elements ! i) \<and> element_key (elements ! i) = key \<and> name \<noteq> None")
      case True
      then obtain s' where "key_string (elements ! i) = Some s'"
        using strings contents_at [of elements i key] small assms(3)
        by (cases "key_string (elements ! i)") (auto simp: elements_def)
      then show ?thesis using True by (auto simp: wanted_def fits_def)
    qed (auto simp: wanted_def fits_def split: option.split)
    have "probe ?n (wanted key name) elements (unat key mod ?n) = Found r"
      unfolding r_def
      by (rule probe_found) (use \<open>0 < ?n\<close> j before in \<open>auto simp: test bound\<close>)
    then have got: "get_value_hash_map m key name = Some (element_value (elements ! r))"
      by (simp add: get_value_hash_map_def get_hash_map_def elements_def)
    show ?thesis
    proof (cases "used (elements ! r)")
      case True
      then have "fits (elements ! r)" using j by (simp add: r_def)
      then show ?thesis
        using contents_at [of elements r key] True r assms(3) got by (auto simp: fits_def elements_def)
    next
      case False
      then have none: "element_value (elements ! r) = None"
        using assms(4) r by (auto simp: free_empty_def elements_def)
      show ?thesis
      proof (cases "contents elements key")
        case None
        then show ?thesis using got none by simp
      next
        case (Some x)
        then obtain i where i: "i < ?n" "used (elements ! i)" "element_key (elements ! i) = key"
          using contents_none [of elements key] by auto
        then have "\<not> fits (elements ! i)" using free False by (auto simp: r_def)
        then show ?thesis
          using contents_at [of elements i key] i assms(3) got none by (auto simp: fits_def elements_def)
      qed
    qed
  qed
  show "get_value_hash_map m key None = Some (case contents (elements_buffer m) key of
      None \<Rightarrow> None | Some (name, v) \<Rightarrow> v)"
    using get [of None] by (auto simp: elements_def split: option.splits)
  show "get_value_hash_map m key (Some s) = Some (case contents (elements_buffer m) key of
      None \<Rightarrow> None | Some (name, v) \<Rightarrow> if name = Some s then v else None)"
    if "(case contents (elements_buffer m) key of Some (None, v) \<Rightarrow> False | _ \<Rightarrow> True)"
    using get [of "Some s"] that by (auto simp: elements_def split: option.splits)
qed

section \<open>Setting\<close>

lemma free_empty_update: "free_empty elements \<Longrightarrow> used e \<Longrightarrow> free_empty (elements[r := e])"
  using set_update_subset_insert [of elements r e] by (auto simp: free_empty_def)

lemma put_free_empty: "put_hash_map key name v m = Some m' \<Longrightarrow> free_empty (elements_buffer m) \<Longrightarrow>
    free_empty (elements_buffer m')"
  by (auto simp: put_hash_map_def free_empty_update split: probing.splits)

text \<open>The part of the invariant that does not speak of the sizes.\<close>

definition buffer_ok :: "'v hash_map_element list \<Rightarrow> bool" where
  "buffer_ok elements \<longleftrightarrow> reached elements \<and> held_once elements \<and> free_empty elements"

lemma unused_ok: "buffer_ok (replicate n unused_element)" "used_count (replicate n unused_element) = 0"
  "contents (replicate n unused_element) = Map.empty"
  by (auto simp: buffer_ok_def reached_def held_once_def free_empty_def unused_element_def used_count_def
      contents_def find_None_iff)

text \<open>
  The copying of elements whose keys the new map does not hold yet: it always has room, the size of the new
  map stays below its maximum at every step, and the two maps are put together.
\<close>

lemma copy_contents:
  assumes "buffer_ok (elements_buffer m)" and "used_count (elements_buffer m) \<le> map_size m"
    and "map_size m + used_count es \<le> maximum_size m" and "maximum_size m < length (elements_buffer m)"
  shows "\<exists>m'. copy_elements es m = Some m' \<and> buffer_ok (elements_buffer m')
    \<and> used_count (elements_buffer m') \<le> map_size m' \<and> map_size m' = map_size m + used_count es
    \<and> maximum_size m' = maximum_size m \<and> length (elements_buffer m') = length (elements_buffer m)
    \<and> contents (elements_buffer m') = contents (elements_buffer m) ++
      (\<lambda>key. map_option (\<lambda>e. (key_string e, element_value e)) (find (\<lambda>e. used e \<and> element_key e = key) (rev es)))"
  using assms
proof (induction es arbitrary: m)
  case Nil
  then show ?case by (simp add: used_count_def map_add_def)
next
  case (Cons e es)
  show ?case
  proof (cases "used e")
    case False
    then have "used_count (e # es) = used_count es" by (simp add: used_count_def)
    moreover have "find (\<lambda>e. used e \<and> element_key e = key) (xs @ [e]) = find (\<lambda>e. used e \<and> element_key e = key) xs"
      for key and xs :: "'a hash_map_element list" using False by (induction xs) auto
    ultimately show ?thesis using Cons.IH [of m] Cons.prems False by simp
  next
    case True
    then have count: "used_count (e # es) = Suc (used_count es)" by (simp add: used_count_def)
    have room: "used_count (elements_buffer m) < length (elements_buffer m)" using Cons.prems by simp
    obtain m1 where put: "put_hash_map (element_key e) (key_string e) (element_value e) m = Some m1"
      and m1: "map_size m1 = map_size m + 1" "maximum_size m1 = maximum_size m"
        "length (elements_buffer m1) = length (elements_buffer m)"
        "used_count (elements_buffer m1) \<le> used_count (elements_buffer m) + 1"
        "reached (elements_buffer m1)" "held_once (elements_buffer m1)"
        "contents (elements_buffer m1) = (contents (elements_buffer m))(element_key e \<mapsto> (key_string e, element_value e))"
      by (rule put_contents [of m "element_key e" "key_string e" "element_value e"])
        (use room Cons.prems in \<open>simp_all add: buffer_ok_def\<close>)
    have "buffer_ok (elements_buffer m1)"
      using m1 put_free_empty [OF put] Cons.prems by (simp add: buffer_ok_def)
    moreover have "used_count (elements_buffer m1) \<le> map_size m1"
      "map_size m1 + used_count es \<le> maximum_size m1" "maximum_size m1 < length (elements_buffer m1)"
      using Cons.prems m1 count by simp_all
    ultimately obtain m' where m': "copy_elements es m1 = Some m'" "buffer_ok (elements_buffer m')"
        "used_count (elements_buffer m') \<le> map_size m'" "map_size m' = map_size m1 + used_count es"
        "maximum_size m' = maximum_size m1" "length (elements_buffer m') = length (elements_buffer m1)"
        "contents (elements_buffer m') = contents (elements_buffer m1) ++
          (\<lambda>key. map_option (\<lambda>e. (key_string e, element_value e)) (find (\<lambda>e. used e \<and> element_key e = key) (rev es)))"
      using Cons.IH [of m1] by blast
    have find: "find (\<lambda>e. used e \<and> element_key e = key) (xs @ [e]) =
        (case find (\<lambda>e. used e \<and> element_key e = key) xs of None \<Rightarrow> if element_key e = key then Some e else None
         | Some e' \<Rightarrow> Some e')" for key and xs :: "'a hash_map_element list"
      using True by (induction xs) auto
    show ?thesis
      using True put m' m1 count
      by (auto simp: fun_eq_iff map_add_def find split: option.split)
  qed
qed

lemma maximum_load_less: "0 < n \<Longrightarrow> maximum_load n < n"
  by (simp add: maximum_load_def less_mult_imp_div_less)

lemma find_rev_once:
  assumes "held_once elements"
  shows "find (\<lambda>e. used e \<and> element_key e = key) (rev elements) = find (\<lambda>e. used e \<and> element_key e = key) elements"
proof (cases "find (\<lambda>e. used e \<and> element_key e = key) elements")
  case None
  then have "find (\<lambda>e. used e \<and> element_key e = key) (rev elements) = None" by (simp add: find_None_iff)
  then show ?thesis using None by simp
next
  case (Some e)
  have found: "e \<in> set xs \<and> used e \<and> element_key e = key"
    if "find (\<lambda>e. used e \<and> element_key e = key) xs = Some e" for xs and e :: "'a hash_map_element"
    using that by (induction xs) (auto split: if_splits)
  have "find (\<lambda>e. used e \<and> element_key e = key) (rev elements) \<noteq> None"
    using found [OF Some] by (auto simp: find_None_iff)
  then obtain e' where e': "find (\<lambda>e. used e \<and> element_key e = key) (rev elements) = Some e'" by blast
  obtain i j where "i < length elements" "e = elements ! i" "j < length elements" "e' = elements ! j"
    using found [OF Some] found [OF e'] by (auto simp: in_set_conv_nth)
  moreover from this have "i = j"
    using found [OF Some] found [OF e'] assms unfolding held_once_def by metis
  ultimately show ?thesis using Some e' by simp
qed

text \<open>What every operation keeps, and what the sizes of the buffer are bound to.\<close>

definition map_ok :: "'v hash_map \<Rightarrow> bool" where
  "map_ok m \<longleftrightarrow> buffer_ok (elements_buffer m) \<and> elements_buffer m \<noteq> []
     \<and> maximum_size m = maximum_load (length (elements_buffer m))
     \<and> used_count (elements_buffer m) \<le> map_size m \<and> map_size m \<le> maximum_size m"

definition holds :: "'v hash_map \<Rightarrow> 64 word \<Rightarrow> (bytes option \<times> 'v option) option" where
  "holds m = contents (elements_buffer m)"

lemma map_ok_room: "map_ok m \<Longrightarrow> used_count (elements_buffer m) < length (elements_buffer m)"
  using maximum_load_less [of "length (elements_buffer m)"] by (simp add: map_ok_def)

lemma create_map_ok: "map_ok (create_hash_map n) \<and> holds (create_hash_map n) = Map.empty"
  by (auto simp: map_ok_def create_hash_map_def unused_ok holds_def Let_def)

lemma maximum_load_resized: "maximum_load (4 * n) = 3 * n"
  by (simp add: maximum_load_def)

lemma resize_map_ok:
  assumes "map_ok m"
  shows "\<exists>m'. resize_hash_map m = Some m' \<and> map_ok m' \<and> holds m' = holds m \<and> map_size m' < maximum_size m'"
proof -
  define k where "k = length (elements_buffer m)"
  define m0 :: "'a hash_map" where
    "m0 = \<lparr>map_size = 0, maximum_size = maximum_load (4 * k), elements_buffer = replicate (4 * k) unused_element\<rparr>"
  have k: "0 < k" and old: "buffer_ok (elements_buffer m)" and count: "used_count (elements_buffer m) \<le> maximum_load k"
    using assms by (simp_all add: k_def map_ok_def)
  have less: "used_count (elements_buffer m) < 3 * k"
    using count maximum_load_less [OF k] by linarith
  have m0: "buffer_ok (elements_buffer m0)" "used_count (elements_buffer m0) = 0" "map_size m0 = 0"
    "maximum_size m0 = 3 * k" "length (elements_buffer m0) = 4 * k" "contents (elements_buffer m0) = Map.empty"
    by (simp_all add: m0_def unused_ok maximum_load_resized)
  have "used_count (elements_buffer m0) \<le> map_size m0"
    "map_size m0 + used_count (elements_buffer m) \<le> maximum_size m0" "maximum_size m0 < length (elements_buffer m0)"
    using less k by (simp_all only: m0)
  from copy_contents [OF m0(1) this] obtain m' where m': "copy_elements (elements_buffer m) m0 = Some m'"
      "buffer_ok (elements_buffer m')" "used_count (elements_buffer m') \<le> map_size m'"
      "map_size m' = map_size m0 + used_count (elements_buffer m)" "maximum_size m' = maximum_size m0"
      "length (elements_buffer m') = length (elements_buffer m0)"
      "contents (elements_buffer m') = contents (elements_buffer m0) ++
        (\<lambda>key. map_option (\<lambda>e. (key_string e, element_value e))
          (find (\<lambda>e. used e \<and> element_key e = key) (rev (elements_buffer m))))"
    by blast
  have "contents (elements_buffer m') = contents (elements_buffer m)"
    unfolding m'(7) m0(6) using old by (auto simp: find_rev_once buffer_ok_def contents_def fun_eq_iff)
  then have "holds m' = holds m" by (simp add: holds_def)
  moreover have "resize_hash_map m = Some m'"
    using m'(1) by (simp add: resize_hash_map_def k_def m0_def mult.commute)
  moreover have "elements_buffer m' \<noteq> []" using m'(6) m0(5) k by (metis length_0_conv mult_is_0 not_gr0 zero_neq_numeral)
  moreover have "map_size m' < maximum_size m'" using less by (simp add: m'(4,5) m0)
  ultimately show ?thesis
    using m'(2,3) by (simp add: map_ok_def m'(5,6) m0 maximum_load_resized less_imp_le)
qed

lemma set_map_ok:
  assumes "map_ok m"
  shows "\<exists>m'. set_value_hash_map key name v m = Some m' \<and> map_ok m' \<and> holds m' = (holds m)(key \<mapsto> (name, v))"
proof -
  obtain m1 where m1: "(if map_size m \<ge> maximum_size m then resize_hash_map m else Some m) = Some m1"
    "map_ok m1" "holds m1 = holds m" "map_size m1 < maximum_size m1"
    using resize_map_ok [OF assms] assms by (cases "map_size m \<ge> maximum_size m") (auto simp: not_le)
  have ok: "buffer_ok (elements_buffer m1)" using m1(2) by (simp add: map_ok_def)
  obtain m' where put: "put_hash_map key name v m1 = Some m'"
    and m': "map_size m' = map_size m1 + 1" "maximum_size m' = maximum_size m1"
      "length (elements_buffer m') = length (elements_buffer m1)"
      "used_count (elements_buffer m') \<le> used_count (elements_buffer m1) + 1"
      "reached (elements_buffer m')" "held_once (elements_buffer m')"
      "contents (elements_buffer m') = (contents (elements_buffer m1))(key \<mapsto> (name, v))"
    by (rule put_contents [of m1 key name v]) (use ok map_ok_room [OF m1(2)] in \<open>simp_all add: buffer_ok_def\<close>)
  have "elements_buffer m' \<noteq> []" using m'(3) m1(2) by (auto simp: map_ok_def)
  then have "map_ok m'"
    using m' m1(2,4) ok put_free_empty [OF put] by (simp add: map_ok_def buffer_ok_def)
  then show ?thesis using m1(1,3) put m'(7) by (simp add: set_value_hash_map_def holds_def)
qed

lemma get_map_ok:
  assumes "map_ok m"
  shows "get_value_hash_map m key None = Some (case holds m key of None \<Rightarrow> None | Some (name, v) \<Rightarrow> v)"
    and "(case holds m key of Some (None, v) \<Rightarrow> False | _ \<Rightarrow> True) \<Longrightarrow>
      get_value_hash_map m key (Some s) = Some (case holds m key of
        None \<Rightarrow> None | Some (name, v) \<Rightarrow> if name = Some s then v else None)"
  using get_contents [OF map_ok_room [OF assms]] assms by (simp_all add: map_ok_def buffer_ok_def holds_def)

section \<open>The interface of a map of strings\<close>

text \<open>
  What the components rely on that keep references under names: setting and getting always answer, and
  they answer as a function from names to values does. The names in use are a parameter, as a map that
  holds one element for a key tells two names apart only when their keys differ.
\<close>

locale string_map =
  fixes names :: "bytes set"
    and initial :: "'m \<Rightarrow> bool"
    and ok :: "'m \<Rightarrow> bool"
    and lookup :: "'m \<Rightarrow> bytes \<Rightarrow> 'v option"
    and get :: "'m \<Rightarrow> bytes \<Rightarrow> 'v option option"
    and set_value :: "bytes \<Rightarrow> 'v option \<Rightarrow> 'm \<Rightarrow> 'm option"
  assumes initial_ok: "initial m \<Longrightarrow> ok m \<and> lookup m = (\<lambda>s. None)"
    and get_lookup: "ok m \<Longrightarrow> s \<in> names \<Longrightarrow> get m s = Some (lookup m s)"
    and set_lookup: "ok m \<Longrightarrow> s \<in> names \<Longrightarrow>
      \<exists>m'. set_value s v m = Some m' \<and> ok m' \<and> (\<forall>s'\<in>names. lookup m' s' = (if s' = s then v else lookup m s'))"
begin

primrec set_all :: "(bytes \<times> 'v option) list \<Rightarrow> 'm \<Rightarrow> 'm option" where
  "set_all [] m = Some m"
| "set_all (pair # pairs) m =
     (case set_value (fst pair) (snd pair) m of None \<Rightarrow> None | Some m' \<Rightarrow> set_all pairs m')"

lemma set_all_lookup:
  assumes "ok m" and "fst ` set pairs \<subseteq> names"
  shows "\<exists>m'. set_all pairs m = Some m' \<and> ok m' \<and>
    (\<forall>s\<in>names. lookup m' s = (case map_of (rev pairs) s of None \<Rightarrow> lookup m s | Some v \<Rightarrow> v))"
  using assms
proof (induction pairs arbitrary: m)
  case (Cons pair pairs)
  then obtain m1 where m1: "set_value (fst pair) (snd pair) m = Some m1" "ok m1"
    "\<forall>s\<in>names. lookup m1 s = (if s = fst pair then snd pair else lookup m s)"
    using set_lookup [of m "fst pair" "snd pair"] by auto
  then obtain m' where m': "set_all pairs m1 = Some m'" "ok m'"
    "\<forall>s\<in>names. lookup m' s = (case map_of (rev pairs) s of None \<Rightarrow> lookup m1 s | Some v \<Rightarrow> v)"
    using Cons.IH [of m1] Cons.prems by auto
  then show ?case using m1 by (cases pair) (auto simp: map_add_def split: option.split)
qed simp

text \<open>What is got from a new map after some settings: the value that was set last.\<close>

lemma get_set_all:
  assumes "initial m" and "fst ` set pairs \<subseteq> names" and "s \<in> names"
  shows "\<exists>m'. set_all pairs m = Some m' \<and> ok m' \<and>
    get m' s = Some (case map_of (rev pairs) s of None \<Rightarrow> None | Some v \<Rightarrow> v)"
proof -
  have m: "ok m" "lookup m = (\<lambda>s. None)" using initial_ok [OF assms(1)] by simp_all
  obtain m' where "set_all pairs m = Some m'" "ok m'"
    "\<forall>s\<in>names. lookup m' s = (case map_of (rev pairs) s of None \<Rightarrow> lookup m s | Some v \<Rightarrow> v)"
    using set_all_lookup [OF m(1) assms(2)] by blast
  then show ?thesis using get_lookup [of m' s] assms(3) m(2) by (simp split: option.split)
qed

end

text \<open>The hash map with the names whose keys differ.\<close>

definition names_ok :: "bytes set \<Rightarrow> 'v hash_map \<Rightarrow> bool" where
  "names_ok names m \<longleftrightarrow> map_ok m \<and> inj_on calculate_string_hash_map names
     \<and> (\<forall>key x. holds m key = Some x \<longrightarrow> (\<exists>s\<in>names. fst x = Some s \<and> calculate_string_hash_map s = key))"

definition named :: "'v hash_map \<Rightarrow> bytes \<Rightarrow> 'v option" where
  "named m s =
     (case holds m (calculate_string_hash_map s) of
        None \<Rightarrow> None
      | Some (name, v) \<Rightarrow> if name = Some s then v else None)"

interpretation hash_map: string_map names
  "\<lambda>m. inj_on calculate_string_hash_map names \<and> (\<exists>n. m = create_hash_map n)"
  "names_ok names" named get_value_string_hash_map set_value_string_hash_map
  for names
proof
  fix m :: "'v hash_map" and s v
  assume ok: "names_ok names m" and s: "s \<in> names"
  have map: "map_ok m" using ok by (simp add: names_ok_def)
  have "(case holds m (calculate_string_hash_map s) of Some (None, v) \<Rightarrow> False | _ \<Rightarrow> True)"
    using ok by (auto simp: names_ok_def split: option.split)
  then show "get_value_string_hash_map m s = Some (named m s)"
    using get_map_ok(2) [OF map] by (simp add: get_value_string_hash_map_def named_def)
  obtain m' where m': "set_value_string_hash_map s v m = Some m'" "map_ok m'"
    "holds m' = (holds m)(calculate_string_hash_map s \<mapsto> (Some s, v))"
    using set_map_ok [OF map] unfolding set_value_string_hash_map_def by blast
  have inj: "inj_on calculate_string_hash_map names" using ok by (simp add: names_ok_def)
  have "names_ok names m'" using ok m' s by (auto simp: names_ok_def)
  moreover have "named m' s' = (if s' = s then v else named m s')" if "s' \<in> names" for s'
    using m'(3) inj_onD [OF inj, of s' s] that s by (auto simp: named_def)
  ultimately show "\<exists>m'. set_value_string_hash_map s v m = Some m' \<and> names_ok names m' \<and>
      (\<forall>s'\<in>names. named m' s' = (if s' = s then v else named m s'))"
    using m'(1) by blast
next
  fix m :: "'v hash_map"
  assume "inj_on calculate_string_hash_map names \<and> (\<exists>n. m = create_hash_map n)"
  then have "map_ok m" "holds m = Map.empty" "inj_on calculate_string_hash_map names"
    using create_map_ok by blast+
  then show "names_ok names m \<and> named m = (\<lambda>s. None)"
    by (simp add: names_ok_def named_def fun_eq_iff)
qed

text \<open>A sequence of settings.\<close>

primrec set_values :: "(bytes \<times> 'v option) list \<Rightarrow> 'v hash_map \<Rightarrow> 'v hash_map option" where
  "set_values [] m = Some m"
| "set_values (pair # pairs) m =
     (case set_value_string_hash_map (fst pair) (snd pair) m of None \<Rightarrow> None | Some m' \<Rightarrow> set_values pairs m')"

lemma set_values_all: "set_values pairs m = hash_map.set_all pairs m"
  by (induction pairs arbitrary: m) (simp_all split: option.split)

text \<open>C27: the hash map refines a function from strings to values. Whatever the size it starts with and however
  many values are set, through the probing and the growth of the buffer, every setting and every getting ends,
  and what is got for a string is the value that was set for it last, as long as no two of the strings have the
  same key of 64 bits.\<close>

theorem hash_map_refines:
  assumes "inj_on calculate_string_hash_map (insert s (fst ` set pairs))"
  shows "\<exists>m. set_values pairs (create_hash_map n) = Some m \<and>
    get_value_string_hash_map m s = Some (case map_of (rev pairs) s of None \<Rightarrow> None | Some v \<Rightarrow> v)"
  using hash_map.get_set_all [of "insert s (fst ` set pairs)" "create_hash_map n" pairs s] assms
  by (auto simp: set_values_all)

theorem hash_map_refines_witness:
  "\<exists>m. set_values [(ascii ''file'', Some (1::nat)), (ascii ''proxy'', Some 2), (ascii ''file'', Some 3)] (create_hash_map 1) = Some m \<and>
    get_value_string_hash_map m (ascii ''file'') = Some (Some 3)"
proof -
  have "calculate_string_hash_map (ascii ''file'') \<noteq> calculate_string_hash_map (ascii ''proxy'')" by code_simp
  then have "inj_on calculate_string_hash_map
      (insert (ascii ''file'') (fst ` set [(ascii ''file'', Some (1::nat)), (ascii ''proxy'', Some 2), (ascii ''file'', Some 3)]))"
    by (auto simp: inj_on_def)
  from hash_map_refines [OF this, of 1] show ?thesis by (simp del: set_values.simps)
qed

text \<open>
  A string with the key of another one takes the element of that one over, although the getting
  compares the strings: what had been set for the first is lost.
\<close>

lemma colliding_lost:
  assumes "map_ok m" and "calculate_string_hash_map s = calculate_string_hash_map s'" and "s \<noteq> s'"
  shows "\<exists>m' m''. set_value_string_hash_map s v m = Some m' \<and> set_value_string_hash_map s' v' m' = Some m'' \<and>
    get_value_string_hash_map m'' s = Some None"
proof -
  obtain m' where m': "set_value_string_hash_map s v m = Some m'" "map_ok m'"
    using set_map_ok [OF assms(1)] unfolding set_value_string_hash_map_def by blast
  then obtain m'' where m'': "set_value_string_hash_map s' v' m' = Some m''" "map_ok m''"
    "holds m'' = (holds m')(calculate_string_hash_map s' \<mapsto> (Some s', v'))"
    using set_map_ok [OF m'(2)] unfolding set_value_string_hash_map_def by blast
  then have "get_value_string_hash_map m'' s = Some None"
    using get_map_ok(2) [OF m''(2)] assms by (auto simp: get_value_string_hash_map_def)
  then show ?thesis using m' m'' by blast
qed

text \<open>Setting a key again counts as another element, so that the map grows without holding more.\<close>

lemma overwriting_counts:
  assumes "set_value_hash_map key name v m = Some m'" and "map_size m < maximum_size m"
  shows "map_size m' = map_size m + 1"
  using assms by (auto simp: set_value_hash_map_def put_hash_map_def split: probing.splits)

end
