(* ===== verification/File_Cache.thy ===== *)
theory File_Cache
  imports Hash_Map
begin

text \<open>
  The cache of open files of \<^verbatim>\<open>src/src/viriatum/handlers/handler_file.c\<close>, over the calls of the system
  that it uses: \<^verbatim>\<open>open\<close>, \<^verbatim>\<open>fstat\<close>, \<^verbatim>\<open>dup\<close>, \<^verbatim>\<open>pread\<close>, \<^verbatim>\<open>close\<close>, \<^verbatim>\<open>time\<close> and \<^verbatim>\<open>gmtime\<close>, as the
  platforms of the unix family have them. A descriptor of minus one is \<^term>\<open>None\<close>.
\<close>

section \<open>The calls of the system\<close>

datatype errno = ENOENT | EISDIR | EACCES | EMFILE | EBADF

text \<open>A file or a directory, apart from its names.\<close>

record inode =
  is_directory :: bool
  readable :: bool
  file_bytes :: bytes
  written :: nat

text \<open>
  The names, the files, the table of descriptors of the process with its limit, the seconds of the clock
  and the reason of the last call that failed. A read may return fewer bytes than were asked for, at most
  as many as \<open>read_limit\<close> says for its offset.
\<close>

record kernel =
  names :: "bytes \<Rightarrow> nat option"
  inodes :: "nat \<Rightarrow> inode"
  descriptors :: "nat option list"
  descriptor_limit :: nat
  read_limit :: "nat \<Rightarrow> nat"
  clock :: u32
  errno :: errno

definition open_at :: "kernel \<Rightarrow> nat \<Rightarrow> nat option" where
  "open_at k d = (if d < length (descriptors k) then descriptors k ! d else None)"

definition free_slot :: "kernel \<Rightarrow> nat" where
  "free_slot k = length (takeWhile (\<lambda>x. x \<noteq> None) (descriptors k))"

text \<open>A new descriptor is the lowest one that is free.\<close>

definition new_descriptor :: "nat \<Rightarrow> kernel \<Rightarrow> nat option \<times> kernel" where
  "new_descriptor n k =
     (let d = free_slot k
      in if d \<ge> descriptor_limit k then (None, k\<lparr>errno := EMFILE\<rparr>)
         else (Some d, k\<lparr>descriptors := (if d < length (descriptors k) then (descriptors k)[d := Some n]
                                        else descriptors k @ [Some n])\<rparr>))"

definition open_read :: "bytes \<Rightarrow> kernel \<Rightarrow> nat option \<times> kernel" where
  "open_read path k =
     (case names k path of
        None \<Rightarrow> (None, k\<lparr>errno := ENOENT\<rparr>)
      | Some n \<Rightarrow> if \<not> readable (inodes k n) then (None, k\<lparr>errno := EACCES\<rparr>) else new_descriptor n k)"

definition stat_read :: "nat \<Rightarrow> kernel \<Rightarrow> inode option" where
  "stat_read d k = map_option (inodes k) (open_at k d)"

definition close_read :: "nat \<Rightarrow> kernel \<Rightarrow> kernel" where
  "close_read d k =
     (case open_at k d of
        None \<Rightarrow> k\<lparr>errno := EBADF\<rparr>
      | Some n \<Rightarrow> k\<lparr>descriptors := (descriptors k)[d := None]\<rparr>)"

definition duplicate :: "nat \<Rightarrow> kernel \<Rightarrow> nat option \<times> kernel" where
  "duplicate d k =
     (case open_at k d of
        None \<Rightarrow> (None, k\<lparr>errno := EBADF\<rparr>)
      | Some n \<Rightarrow> new_descriptor n k)"

text \<open>The bytes of a read at an offset, \<^term>\<open>None\<close> when it fails.\<close>

definition read_at :: "nat \<Rightarrow> nat \<Rightarrow> nat \<Rightarrow> kernel \<Rightarrow> bytes option" where
  "read_at d n offset k =
     (case open_at k d of
        None \<Rightarrow> None
      | Some i \<Rightarrow> if is_directory (inodes k i) then None
                  else Some (take (min n (read_limit k offset)) (drop offset (file_bytes (inodes k i)))))"

section \<open>The moment of the last write\<close>

record date_time =
  year :: nat
  month :: nat
  day :: nat
  hour :: nat
  minute :: nat
  second :: nat

text \<open>The date of a day of the calendar, counted from the first of January of 1970.\<close>

definition gm_date :: "nat \<Rightarrow> nat \<times> nat \<times> nat" where
  "gm_date days =
     (let z = days + 719468; era = z div 146097; doe = z mod 146097;
          yoe = (doe - doe div 1460 + doe div 36524 - doe div 146096) div 365;
          doy = doe - (365 * yoe + yoe div 4 - yoe div 100);
          mp = (5 * doy + 2) div 153;
          m = (if mp < 10 then mp + 3 else mp - 9)
      in (yoe + era * 400 + (if m \<le> 2 then 1 else 0), m, doy - (153 * mp + 2) div 5 + 1))"

text \<open>The fields of the structure are unsigned and have 16 bits.\<close>

definition time_file_cache :: "inode \<Rightarrow> date_time" where
  "time_file_cache file =
     (let seconds = written file mod 86400; (y, m, d) = gm_date (written file div 86400)
      in \<lparr>year = y mod 65536, month = m, day = d,
          hour = seconds div 3600, minute = seconds div 60 mod 60, second = seconds mod 60\<rparr>)"

lemma gm_date_samples:
  "gm_date 0 = (1970, 1, 1)" "gm_date 11016 = (2000, 2, 29)" "gm_date 20759 = (2026, 11, 2)"
  unfolding gm_date_def by (simp only: Let_def, simp)+

section \<open>The cache\<close>

definition CACHE_SIZE_HANDLER_FILE :: nat where [simp]: "CACHE_SIZE_HANDLER_FILE = 128"
definition CACHE_VALID_HANDLER_FILE :: u32 where [simp]: "CACHE_VALID_HANDLER_FILE = 4"

record file_cache_entry =
  cache_path :: bytes
  cache_descriptor :: "nat option"
  cache_size :: nat
  cache_time :: date_time
  cache_checked :: u32

type_synonym file_cache = "file_cache_entry list"

text \<open>The time of an entry that holds no file is not set.\<close>

definition create_file_cache :: "date_time \<Rightarrow> file_cache" where
  "create_file_cache unset =
     replicate CACHE_SIZE_HANDLER_FILE
       \<lparr>cache_path = [], cache_descriptor = None, cache_size = 0, cache_time = unset, cache_checked = 0\<rparr>"

definition Loading_error :: error where
  "Loading_error = Runtime_Exception ''Problem loading file''"

definition release_entry :: "file_cache_entry \<Rightarrow> file_cache_entry" where
  "release_entry entry = entry\<lparr>cache_descriptor := None, cache_path := []\<rparr>"

fun clear_file_cache :: "file_cache \<Rightarrow> kernel \<Rightarrow> file_cache \<times> kernel" where
  "clear_file_cache [] k = ([], k)"
| "clear_file_cache (entry # entries) k =
     (case cache_descriptor entry of
        None \<Rightarrow> (case clear_file_cache entries k of (entries, k) \<Rightarrow> (entry # entries, k))
      | Some d \<Rightarrow> (case clear_file_cache entries (close_read d k) of (entries, k) \<Rightarrow> (release_entry entry # entries, k)))"

definition cache_index :: "bytes \<Rightarrow> nat" where
  "cache_index path = unat (calculate_string_hash_map path) mod CACHE_SIZE_HANDLER_FILE"

text \<open>The opening of a file into an entry that holds none any longer.\<close>

definition load_entry :: "bytes \<Rightarrow> file_cache_entry \<Rightarrow> kernel \<Rightarrow> error option \<times> file_cache_entry \<times> kernel" where
  "load_entry path entry k =
     (if length path \<ge> VIRIATUM_MAX_PATH_SIZE then (Some Loading_error, entry, k)
      else
        (case open_read path k of
           (None, k) \<Rightarrow> (Some Loading_error, entry\<lparr>cache_descriptor := None\<rparr>, k)
         | (Some d, k) \<Rightarrow>
             (case stat_read d k of
                None \<Rightarrow> (Some Loading_error, entry\<lparr>cache_descriptor := None\<rparr>, close_read d (k\<lparr>errno := EBADF\<rparr>))
              | Some file \<Rightarrow>
                  (if is_directory file then
                     (Some Loading_error, entry\<lparr>cache_descriptor := None\<rparr>, (close_read d k)\<lparr>errno := EISDIR\<rparr>)
                   else
                     (None, entry\<lparr>cache_descriptor := Some d, cache_path := path, cache_size := length (file_bytes file),
                        cache_checked := clock k, cache_time := time_file_cache file\<rparr>, k)))))"

text \<open>What the entry that a path falls on becomes, and whether it holds the file then.\<close>

definition acquire_entry :: "bytes \<Rightarrow> file_cache_entry \<Rightarrow> kernel \<Rightarrow> error option \<times> file_cache_entry \<times> kernel" where
  "acquire_entry path entry k =
     (case cache_descriptor entry of
        None \<Rightarrow> load_entry path entry k
      | Some d \<Rightarrow>
          (if cache_path entry = path then
             (case stat_read d k of
                None \<Rightarrow> (Some Loading_error, entry, k\<lparr>errno := EBADF\<rparr>)
              | Some file \<Rightarrow>
                  (let entry = entry\<lparr>cache_size := length (file_bytes file), cache_time := time_file_cache file\<rparr>
                   in if clock k - cache_checked entry < CACHE_VALID_HANDLER_FILE then (None, entry, k)
                      else load_entry path (release_entry entry) (close_read d k)))
           else load_entry path (release_entry entry) (close_read d k)))"

text \<open>The entry is returned by its position.\<close>

definition acquire_file_cache :: "bytes \<Rightarrow> file_cache \<Rightarrow> kernel \<Rightarrow> nat result \<times> file_cache \<times> kernel" where
  "acquire_file_cache path cache k =
     (let i = cache_index path
      in case acquire_entry path (cache ! i) k of
           (Some e, entry, k) \<Rightarrow> (Inl e, cache[i := entry], k)
         | (None, entry, k) \<Rightarrow> (Inr i, cache[i := entry], k))"

definition open_file_cache :: "bytes \<Rightarrow> file_cache \<Rightarrow> kernel \<Rightarrow> nat result \<times> file_cache \<times> kernel" where
  "open_file_cache path cache k =
     (case acquire_file_cache path cache k of
        (Inl e, cache, k) \<Rightarrow> (Inl e, cache, k)
      | (Inr i, cache, k) \<Rightarrow>
          (case cache_descriptor (cache ! i) of
             None \<Rightarrow> (Inl Loading_error, cache, k)
           | Some held \<Rightarrow>
               (case duplicate held k of
                  (None, k) \<Rightarrow> (Inl Loading_error, cache, k)
                | (Some d, k) \<Rightarrow> (Inr d, cache, k))))"

section \<open>Descriptors\<close>

lemma free_slot_free: "open_at k (free_slot k) = None"
proof (cases "free_slot k < length (descriptors k)")
  case True
  then have "\<not> (descriptors k ! free_slot k \<noteq> None)"
    unfolding free_slot_def by (rule nth_length_takeWhile)
  then show ?thesis by (simp add: open_at_def)
qed (simp add: open_at_def)

lemma free_slot_le: "free_slot k \<le> length (descriptors k)"
  by (simp add: free_slot_def length_takeWhile_le)

lemma open_at_new:
  assumes "new_descriptor n k = (Some d, k')"
  shows "open_at k' = (open_at k)(d := Some n) \<and> open_at k d = None
         \<and> k' = k\<lparr>descriptors := descriptors k'\<rparr>"
proof -
  have d: "d = free_slot k" using assms by (auto simp: new_descriptor_def Let_def split: if_splits)
  have "open_at k' e = (if e = d then Some n else open_at k e)" for e
    using assms free_slot_le [of k] unfolding d [symmetric]
    by (auto simp: new_descriptor_def Let_def open_at_def nth_append d [symmetric] split: if_splits)
  then show ?thesis
    using assms free_slot_free [of k] unfolding d [symmetric]
    by (auto simp: new_descriptor_def Let_def split: if_splits)
qed

lemma new_descriptor_None:
  "new_descriptor n k = (None, k') \<Longrightarrow> k' = k\<lparr>errno := EMFILE\<rparr> \<and> free_slot k \<ge> descriptor_limit k"
  by (auto simp: new_descriptor_def Let_def split: if_splits)

lemma open_at_update [simp]:
  "open_at (k\<lparr>errno := e\<rparr>) = open_at k" "open_at (k\<lparr>clock := c\<rparr>) = open_at k"
  "open_at (k\<lparr>names := f\<rparr>) = open_at k" "open_at (k\<lparr>inodes := g\<rparr>) = open_at k"
  by (simp_all add: open_at_def fun_eq_iff)

lemma open_at_close [simp]: "open_at (close_read d k) = (open_at k)(d := None)"
  by (auto simp: close_read_def open_at_def fun_eq_iff nth_list_update split: option.splits)

text \<open>What no call of the handler changes.\<close>

definition same_world :: "kernel \<Rightarrow> kernel \<Rightarrow> bool" where
  "same_world k k' \<longleftrightarrow> names k' = names k \<and> inodes k' = inodes k \<and> clock k' = clock k \<and> read_limit k' = read_limit k
     \<and> descriptor_limit k' = descriptor_limit k"

lemma same_world_refl [simp]: "same_world k k"
  and same_world_errno [simp]: "same_world k (k'\<lparr>errno := e\<rparr>) = same_world k k'"
  and same_world_close [simp]: "same_world k (close_read d k') = same_world k k'"
  by (auto simp: same_world_def close_read_def split: option.splits)

lemma names_close [simp]: "names (close_read d k) = names k" "inodes (close_read d k) = inodes k"
    "clock (close_read d k) = clock k" "read_limit (close_read d k) = read_limit k"
    "descriptor_limit (close_read d k) = descriptor_limit k"
  by (auto simp: close_read_def split: option.splits)

lemma same_world_trans: "same_world a b \<Longrightarrow> same_world b c \<Longrightarrow> same_world a c"
  by (simp add: same_world_def)

lemma same_world_new:
  assumes "new_descriptor n k = (d, k')"
  shows "same_world k k'"
  using assms by (auto simp: new_descriptor_def Let_def same_world_def split: if_splits)

lemma open_read_Some:
  assumes "open_read path k = (Some d, k')"
  obtains n where "names k path = Some n" and "readable (inodes k n)" and "new_descriptor n k = (Some d, k')"
  using assms by (auto simp: open_read_def split: option.splits if_splits)

lemma open_read_None:
  assumes "open_read path k = (None, k')"
  shows "open_at k' = open_at k \<and> same_world k k'"
  using assms by (auto simp: open_read_def same_world_new dest: new_descriptor_None split: option.splits if_splits)

section \<open>What an entry is\<close>

text \<open>The descriptor that an entry holds is open on a file.\<close>

definition entry_held :: "kernel \<Rightarrow> file_cache_entry \<Rightarrow> bool" where
  "entry_held k entry \<longleftrightarrow>
     (\<forall>d. cache_descriptor entry = Some d \<longrightarrow> open_at k d \<noteq> None \<and> length (cache_path entry) < VIRIATUM_MAX_PATH_SIZE)"

text \<open>The descriptors that are open but for the one of an entry.\<close>

definition others :: "kernel \<Rightarrow> file_cache_entry \<Rightarrow> nat \<Rightarrow> nat option" where
  "others k entry = (case cache_descriptor entry of None \<Rightarrow> open_at k | Some d \<Rightarrow> (open_at k)(d := None))"

text \<open>The file that an entry answers with, learnt from its descriptor.\<close>

definition answers :: "kernel \<Rightarrow> bytes \<Rightarrow> file_cache_entry \<Rightarrow> nat \<Rightarrow> bool" where
  "answers k path entry n \<longleftrightarrow>
     (\<exists>d. cache_descriptor entry = Some d \<and> open_at k d = Some n) \<and> cache_path entry = path
     \<and> cache_size entry = length (file_bytes (inodes k n)) \<and> cache_time entry = time_file_cache (inodes k n)"

text \<open>Why a path that is opened anew cannot be, and the reason that is left behind.\<close>

definition refused :: "kernel \<Rightarrow> bytes \<Rightarrow> kernel \<Rightarrow> bool" where
  "refused k path k' \<longleftrightarrow>
     (case names k path of
        None \<Rightarrow> errno k' = ENOENT
      | Some n \<Rightarrow> (if \<not> readable (inodes k n) then errno k' = EACCES
                   else (errno k' = EMFILE \<and> descriptor_limit k \<le> length (descriptors k)) \<or> (is_directory (inodes k n) \<and> errno k' = EISDIR)))"

lemma length_close [simp]: "length (descriptors (close_read d k)) = length (descriptors k)"
  by (auto simp: close_read_def split: option.splits)

lemma new_descriptor_full:
  "new_descriptor n k = (None, k') \<Longrightarrow> descriptor_limit k \<le> length (descriptors k)"
  using free_slot_le [of k] new_descriptor_None [of n k k'] by linarith

lemma load_entry_ok:
  assumes load: "load_entry path entry k = (e, entry', k')"
    and closed: "cache_descriptor entry = None"
  shows "same_world k k' \<and> others k' entry' = open_at k
         \<and> (case e of
              None \<Rightarrow> (\<exists>n. names k path = Some n \<and> \<not> is_directory (inodes k n) \<and> answers k' path entry' n
                        \<and> cache_checked entry' = clock k \<and> length path < VIRIATUM_MAX_PATH_SIZE)
            | Some e \<Rightarrow> e = Loading_error \<and> cache_descriptor entry' = None
                \<and> (length path < VIRIATUM_MAX_PATH_SIZE \<longrightarrow> refused k path k'))"
proof (cases "length path < VIRIATUM_MAX_PATH_SIZE")
  case False
  then show ?thesis using load closed by (auto simp: load_entry_def others_def)
next
  case path: True
  obtain opened k1 where Pair: "open_read path k = (opened, k1)" by (cases "open_read path k")
  show ?thesis
  proof (cases opened)
    case None
    then have same: "open_at k1 = open_at k \<and> same_world k k1" using Pair open_read_None by simp
    have "refused k path k1"
      using Pair None
      by (auto simp: refused_def open_read_def dest: new_descriptor_None new_descriptor_full split: option.splits if_splits)
    then show ?thesis
      using load path Pair None same by (auto simp: load_entry_def others_def)
  next
    case (Some d)
    then obtain n where n: "names k path = Some n" "readable (inodes k n)" "new_descriptor n k = (Some d, k1)"
      using Pair open_read_Some by metis
    then have k1: "open_at k1 = (open_at k)(d := Some n)" "open_at k d = None" "same_world k k1"
      using open_at_new same_world_new by blast+
    then have world: "inodes k1 = inodes k" "clock k1 = clock k" by (simp_all add: same_world_def)
    have restored: "(open_at k)(d := None) = open_at k" using k1(2) by (simp add: fun_eq_iff)
    show ?thesis
      using load path Pair Some n k1 world restored
      by (auto simp: load_entry_def stat_read_def others_def answers_def refused_def split: if_splits)
  qed
qed

lemma acquire_entry_ok:
  assumes acquire: "acquire_entry path entry k = (e, entry', k')"
    and held: "entry_held k entry"
  shows "same_world k k' \<and> others k' entry' = others k entry
         \<and> (case e of
              None \<Rightarrow> (\<exists>n. answers k' path entry' n \<and> length path < VIRIATUM_MAX_PATH_SIZE
                        \<and> (names k path = Some n \<and> \<not> is_directory (inodes k n) \<and> cache_checked entry' = clock k
                           \<or> (\<exists>d. cache_descriptor entry = Some d \<and> open_at k d = Some n \<and> cache_path entry = path
                                 \<and> cache_checked entry' = cache_checked entry
                                 \<and> clock k - cache_checked entry < CACHE_VALID_HANDLER_FILE)))
            | Some e \<Rightarrow> e = Loading_error \<and> cache_descriptor entry' = None
                \<and> (length path < VIRIATUM_MAX_PATH_SIZE \<longrightarrow> refused k path k'))"
proof (cases "cache_descriptor entry")
  case None
  then show ?thesis
    using load_entry_ok [OF _ None, of path k e entry' k'] acquire
    by (auto simp: acquire_entry_def others_def split: option.splits)
next
  case (Some d)
  then obtain n where n: "open_at k d = Some n" using held by (auto simp: entry_held_def)
  have again: ?thesis
    if "load_entry path (release_entry entry1) (close_read d k) = (e, entry', k')" for entry1
    using load_entry_ok [OF that] Some
    by (auto simp: release_entry_def others_def refused_def same_world_def names_close split: option.splits)
  show ?thesis
  proof (cases "cache_path entry = path \<and> clock k - cache_checked entry < CACHE_VALID_HANDLER_FILE")
    case True
    then have "e = None \<and> k' = k \<and> entry' = entry\<lparr>cache_size := length (file_bytes (inodes k n)),
        cache_time := time_file_cache (inodes k n)\<rparr>"
      using acquire Some n by (auto simp: acquire_entry_def stat_read_def Let_def)
    then show ?thesis using True Some n held by (auto simp: others_def answers_def entry_held_def)
  next
    case False
    then have "\<exists>entry1. load_entry path (release_entry entry1) (close_read d k) = (e, entry', k')"
      using acquire Some n by (auto simp: acquire_entry_def stat_read_def Let_def split: if_splits)
    then show ?thesis using again by blast
  qed
qed

section \<open>The descriptors of the process\<close>

text \<open>
  The process as the cache sees it: the cache, the system and the duplicates that requests read through.
  What happens to it: files are asked for, read through duplicates and let go, the cache is cleared,
  and meanwhile time passes and others change the names and the files.
\<close>

datatype cache_event =
    Acquire bytes
  | Open bytes
  | Close nat
  | Clear
  | Change "bytes \<Rightarrow> nat option" "nat \<Rightarrow> inode"
  | Tick u32

type_synonym process = "file_cache \<times> kernel \<times> nat list"

fun handle_event :: "cache_event \<Rightarrow> process \<Rightarrow> process" where
  "handle_event (Acquire path) (cache, k, held) =
     (case acquire_file_cache path cache k of (r, cache, k) \<Rightarrow> (cache, k, held))"
| "handle_event (Open path) (cache, k, held) =
     (case open_file_cache path cache k of
        (Inl e, cache, k) \<Rightarrow> (cache, k, held)
      | (Inr d, cache, k) \<Rightarrow> (cache, k, d # held))"
| "handle_event (Close i) (cache, k, held) =
     (if i < length held then (cache, close_read (held ! i) k, remove1 (held ! i) held) else (cache, k, held))"
| "handle_event Clear (cache, k, held) = (case clear_file_cache cache k of (cache, k) \<Rightarrow> (cache, k, held))"
| "handle_event (Change f g) (cache, k, held) = (cache, k\<lparr>names := f, inodes := g\<rparr>, held)"
| "handle_event (Tick n) (cache, k, held) = (cache, k\<lparr>clock := clock k + n\<rparr>, held)"

text \<open>
  Every descriptor that is open is either one that was open before, or is held by one entry of the cache,
  or by one request, and the ones of the cache and of the requests are all open. An entry that holds a
  file is the one that the path of the file falls on.
\<close>

definition held_by_cache :: "file_cache \<Rightarrow> nat set" where
  "held_by_cache cache = {d. \<exists>i<length cache. cache_descriptor (cache ! i) = Some d}"

definition entries_placed :: "file_cache \<Rightarrow> bool" where
  "entries_placed cache \<longleftrightarrow>
     length cache = CACHE_SIZE_HANDLER_FILE
     \<and> (\<forall>i<length cache. cache_descriptor (cache ! i) \<noteq> None \<longrightarrow>
           cache_index (cache_path (cache ! i)) = i \<and> length (cache_path (cache ! i)) < VIRIATUM_MAX_PATH_SIZE)
     \<and> (\<forall>i<length cache. \<forall>j<length cache. \<forall>d. cache_descriptor (cache ! i) = Some d \<longrightarrow>
           cache_descriptor (cache ! j) = Some d \<longrightarrow> i = j)"

fun accounted :: "nat set \<Rightarrow> process \<Rightarrow> bool" where
  "accounted base (cache, k, held) \<longleftrightarrow>
     entries_placed cache \<and> distinct held
     \<and> held_by_cache cache \<inter> (base \<union> set held) = {} \<and> base \<inter> set held = {}
     \<and> dom (open_at k) = base \<union> held_by_cache cache \<union> set held"

lemma accounted_held:
  assumes "accounted base (cache, k, held)" and "i < length cache"
  shows "entry_held k (cache ! i)"
proof -
  have "open_at k d \<noteq> None" if "cache_descriptor (cache ! i) = Some d" for d
  proof -
    have "d \<in> dom (open_at k)" using assms that by (auto simp: held_by_cache_def)
    then show ?thesis by blast
  qed
  then show ?thesis using assms by (auto simp: entry_held_def entries_placed_def)
qed

lemma slot_replaced:
  assumes ok: "accounted base (cache, k, held)" and i: "i < length cache"
    and same: "others k' entry = others k (cache ! i)"
    and opened: "\<And>d. cache_descriptor entry = Some d \<Longrightarrow> open_at k' d \<noteq> None"
    and placed: "cache_descriptor entry \<noteq> None \<Longrightarrow>
      cache_index (cache_path entry) = i \<and> length (cache_path entry) < VIRIATUM_MAX_PATH_SIZE"
  shows "accounted base (cache[i := entry], k', held)"
proof -
  define old where "old = set_option (cache_descriptor (cache ! i))"
  define new where "new = set_option (cache_descriptor entry)"
  define rest where "rest = {d. \<exists>j<length cache. j \<noteq> i \<and> cache_descriptor (cache ! j) = Some d}"
  have before: "held_by_cache cache = rest \<union> old"
    using i by (auto simp: held_by_cache_def rest_def old_def)
  have after: "held_by_cache (cache[i := entry]) = rest \<union> new"
    using i by (auto simp: held_by_cache_def rest_def new_def nth_list_update)
  have unique: "rest \<inter> old = {}"
    using ok i by (auto simp: rest_def old_def entries_placed_def)
  have doms: "dom (others k' entry) = dom (open_at k') - new" "dom (others k (cache ! i)) = dom (open_at k) - old"
    by (auto simp: others_def new_def old_def split: option.splits)
  have "new \<subseteq> dom (open_at k')" using opened by (auto simp: new_def)
  moreover have "dom (open_at k') - new = base \<union> rest \<union> set held"
    using doms same ok before unique by auto
  ultimately have all: "dom (open_at k') = base \<union> (rest \<union> new) \<union> set held"
    and free: "new \<inter> (base \<union> rest \<union> set held) = {}"
    by blast+
  have "j = l" if "j < length cache" "l < length cache" "cache_descriptor (cache[i := entry] ! j) = Some d"
      "cache_descriptor (cache[i := entry] ! l) = Some d" for j l d
  proof (cases "j = i \<or> l = i")
    case True
    show ?thesis
    proof (rule ccontr)
      assume "j \<noteq> l"
      then have "d \<in> rest \<inter> new" using that True i by (auto simp: rest_def new_def nth_list_update split: if_splits)
      then show False using free by blast
    qed
  next
    case False
    then show ?thesis using that ok by (auto simp: entries_placed_def)
  qed
  moreover have "cache_index (cache_path (cache[i := entry] ! j)) = j
      \<and> length (cache_path (cache[i := entry] ! j)) < VIRIATUM_MAX_PATH_SIZE"
    if "j < length cache" "cache_descriptor (cache[i := entry] ! j) \<noteq> None" for j
    using that ok placed i by (cases "j = i") (auto simp: entries_placed_def)
  moreover have "length cache = CACHE_SIZE_HANDLER_FILE" using ok by (simp add: entries_placed_def)
  ultimately have "entries_placed (cache[i := entry])"
    unfolding entries_placed_def length_list_update by blast
  then show ?thesis using ok all free before after by auto
qed

lemma cache_index_less: "entries_placed cache \<Longrightarrow> cache_index path < length cache"
  by (simp add: entries_placed_def cache_index_def)

lemma acquire_accounted:
  assumes ok: "accounted base (cache, k, held)" and acquire: "acquire_file_cache path cache k = (r, cache', k')"
  shows "accounted base (cache', k', held)
         \<and> (\<forall>j<length cache. j \<noteq> cache_index path \<longrightarrow> cache' ! j = cache ! j) \<and> length cache' = length cache
         \<and> same_world k k'
         \<and> (case r of
              Inr i \<Rightarrow> i = cache_index path \<and> (\<exists>n. answers k' path (cache' ! i) n
                        \<and> (names k path = Some n \<and> \<not> is_directory (inodes k n) \<and> cache_checked (cache' ! i) = clock k
                           \<or> (\<exists>d. cache_descriptor (cache ! i) = Some d \<and> open_at k d = Some n
                                 \<and> cache_path (cache ! i) = path \<and> cache_checked (cache' ! i) = cache_checked (cache ! i)
                                 \<and> clock k - cache_checked (cache ! i) < CACHE_VALID_HANDLER_FILE)))
            | Inl e \<Rightarrow> e = Loading_error \<and> (length path < VIRIATUM_MAX_PATH_SIZE \<longrightarrow> refused k path k'))"
proof -
  define i where "i = cache_index path"
  obtain e entry k1 where step: "acquire_entry path (cache ! i) k = (e, entry, k1)" by (metis prod_cases3)
  have i: "i < length cache" using ok by (simp add: i_def cache_index_less)
  note found = acquire_entry_ok [OF step accounted_held [OF ok i]]
  have result: "cache' = cache[i := entry]" "k' = k1" "r = (case e of None \<Rightarrow> Inr i | Some e \<Rightarrow> Inl e)"
    using acquire step by (auto simp: acquire_file_cache_def Let_def i_def [symmetric] split: option.splits)
  have "accounted base (cache[i := entry], k1, held)"
    by (rule slot_replaced [OF ok i]) (use found in \<open>auto simp: answers_def i_def split: option.splits\<close>)
  then show ?thesis
    using found i unfolding result i_def [symmetric] by (cases e) (simp, blast, simp)
qed

lemma clear_ok:
  assumes "clear_file_cache entries k = (entries', k')"
  shows "length entries' = length entries \<and> held_by_cache entries' = {}
         \<and> dom (open_at k') = dom (open_at k) - held_by_cache entries \<and> same_world k k'"
  using assms
proof (induction entries k arbitrary: entries' rule: clear_file_cache.induct)
  case (1 k)
  then show ?case by (simp add: held_by_cache_def)
next
  case (2 entry entries k)
  have Cons: "held_by_cache (x # xs) = set_option (cache_descriptor x) \<union> held_by_cache xs" for x xs
    by (auto simp: held_by_cache_def less_Suc_eq_0_disj)
  show ?case
  proof (cases "cache_descriptor entry")
    case None
    then obtain rest where rest: "clear_file_cache entries k = (rest, k')" and "entries' = entry # rest"
      using "2.prems" by (auto split: prod.splits)
    then show ?thesis using "2.IH"(1) [OF None rest] None by (simp add: Cons)
  next
    case (Some d)
    then obtain rest where rest: "clear_file_cache entries (close_read d k) = (rest, k')"
      and "entries' = release_entry entry # rest"
      using "2.prems" by (auto split: prod.splits)
    then show ?thesis
      using "2.IH"(2) [OF Some rest] Some same_world_trans by (auto simp: Cons release_entry_def same_world_def split: if_splits)
  qed
qed

lemma clear_accounted:
  assumes ok: "accounted base (cache, k, held)" and clear: "clear_file_cache cache k = (cache', k')"
  shows "accounted base (cache', k', held)"
proof -
  note cleared = clear_ok [OF clear]
  then have "cache_descriptor (cache' ! i) = None" if "i < length cache'" for i
    using that by (auto simp: held_by_cache_def)
  then have "entries_placed cache'"
    using cleared ok by (simp add: entries_placed_def)
  then show ?thesis using cleared ok by auto
qed

lemma open_accounted:
  assumes ok: "accounted base (cache, k, held)" and opened: "open_file_cache path cache k = (r, cache', k')"
  shows "case r of
           Inl e \<Rightarrow> accounted base (cache', k', held)
         | Inr d \<Rightarrow> accounted base (cache', k', d # held)
             \<and> (\<exists>n. open_at k' d = Some n \<and> answers k' path (cache' ! cache_index path) n)"
proof -
  obtain q cache1 k1 where acquire: "acquire_file_cache path cache k = (q, cache1, k1)" by (metis prod_cases3)
  note acquired = acquire_accounted [OF ok acquire]
  show ?thesis
  proof (cases q)
    case (Inl e)
    then show ?thesis using opened acquire acquired by (auto simp: open_file_cache_def)
  next
    case (Inr i)
    then obtain n h where n: "answers k1 path (cache1 ! i) n" "i = cache_index path"
      and h: "cache_descriptor (cache1 ! i) = Some h" "open_at k1 h = Some n"
      using acquired by (auto simp: answers_def)
    show ?thesis
    proof (cases "new_descriptor n k1")
      case (Pair x k2)
      show ?thesis
      proof (cases x)
        case None
        then show ?thesis
          using opened acquire acquired Inr h Pair new_descriptor_None [of n k1 k2]
          by (auto simp: open_file_cache_def duplicate_def)
      next
        case (Some d)
        then have new: "open_at k2 = (open_at k1)(d := Some n)" "open_at k1 d = None" "inodes k2 = inodes k1"
          using Pair open_at_new [of n k1 d k2] same_world_new [of n k1 "Some d" k2] by (auto simp: same_world_def)
        moreover have "d \<notin> dom (open_at k1)" using new(2) by blast
        ultimately have "accounted base (cache1, k2, d # held)" using acquired by auto
        moreover have "answers k2 path (cache1 ! i) n"
          using n h new by (auto simp: answers_def)
        ultimately show ?thesis
          using opened acquire Inr h Pair Some new n by (auto simp: open_file_cache_def duplicate_def)
      qed
    qed
  qed
qed

lemma event_accounted:
  assumes "accounted base p"
  shows "accounted base (handle_event event p)"
proof (cases p)
  case (fields cache k held)
  show ?thesis
  proof (cases event)
    case (Acquire path)
    then show ?thesis
      using assms fields acquire_accounted by (auto simp del: accounted.simps split: prod.splits)
  next
    case (Open path)
    then show ?thesis
      using assms fields open_accounted by (fastforce simp del: accounted.simps split: prod.splits sum.splits)
  next
    case (Close i)
    have "held ! i \<in> set held" if "i < length held" using that by simp
    then show ?thesis
      using assms fields Close by auto
  next
    case Clear
    then show ?thesis
      using assms fields clear_accounted by (auto simp del: accounted.simps split: prod.splits)
  next
    case (Change f g)
    then show ?thesis using assms fields by (simp add: open_at_def)
  next
    case (Tick n)
    then show ?thesis using assms fields by (simp add: open_at_def)
  qed
qed

lemma created_accounted: "accounted (dom (open_at k)) (create_file_cache unset, k, [])"
  by (auto simp: create_file_cache_def entries_placed_def held_by_cache_def)

text \<open>C36: Whatever the sequence of requests for files, of duplicates that are let go, of changes of the
  files and of the clock and of clearings of the cache, no descriptor is ever leaked or closed twice:
  the descriptors that are open are exactly the ones of the process from before, the ones of the entries
  of the cache, each held by one entry alone, and the ones that requests still read through, and an entry
  that holds a file is in the slot of the path of that file.\<close>
theorem file_cache_accounts:
  shows "accounted (dom (open_at k)) (fold handle_event events (create_file_cache unset, k, []))"
  by (induction events rule: rev_induct) (simp_all add: event_accounted created_accounted del: accounted.simps)

text \<open>A cache of a process that has no descriptor open, and one file to serve.\<close>

definition served_kernel :: kernel where
  "served_kernel =
     \<lparr>names = (\<lambda>path. if path = [97] then Some 0 else None),
      inodes = (\<lambda>_. \<lparr>is_directory = False, readable = True, file_bytes = [1, 2, 3], written = 0\<rparr>),
      descriptors = [], descriptor_limit = 16, read_limit = (\<lambda>_. 2), clock = 7, errno = ENOENT\<rparr>"

definition epoch :: date_time where
  "epoch = \<lparr>year = 1970, month = 1, day = 1, hour = 0, minute = 0, second = 0\<rparr>"

lemma served_acquired:
  "\<exists>cache k. acquire_file_cache [97] (create_file_cache epoch) served_kernel = (Inr (cache_index [97]), cache, k)"
proof -
  have "create_file_cache epoch ! cache_index path
     = \<lparr>cache_path = [], cache_descriptor = None, cache_size = 0, cache_time = epoch, cache_checked = 0\<rparr>" for path
    by (simp add: create_file_cache_def cache_index_def)
  then show ?thesis
    by (simp add: acquire_file_cache_def acquire_entry_def load_entry_def open_read_def new_descriptor_def
        free_slot_def stat_read_def open_at_def served_kernel_def Let_def)
qed



section \<open>Asking again\<close>

lemma length_new_descriptor: "new_descriptor n k = (d, k') \<Longrightarrow> length (descriptors k') \<le> Suc (length (descriptors k))"
  by (auto simp: new_descriptor_def Let_def split: if_splits)

lemma length_load_entry: "load_entry path entry k = (e, entry', k') \<Longrightarrow> length (descriptors k') \<le> Suc (length (descriptors k))"
  by (auto simp: load_entry_def open_read_def dest: length_new_descriptor split: if_splits option.splits prod.splits)

lemma length_acquire:
  "acquire_file_cache path cache k = (r, cache', k') \<Longrightarrow> length (descriptors k') \<le> Suc (length (descriptors k))"
  by (auto simp: acquire_file_cache_def acquire_entry_def Let_def dest: length_load_entry
      split: if_splits option.splits prod.splits)

text \<open>A file that has just been acquired is answered again, by the same descriptor and with nothing changed.\<close>

lemma acquire_again:
  assumes "i = cache_index path" and "i < length cache" and "answers k path (cache ! i) n"
    and "clock k - cache_checked (cache ! i) < CACHE_VALID_HANDLER_FILE"
  shows "acquire_file_cache path cache k = (Inr i, cache, k)"
proof -
  obtain d where d: "cache_descriptor (cache ! i) = Some d" "open_at k d = Some n" "cache_path (cache ! i) = path"
    and same: "(cache ! i)\<lparr>cache_size := length (file_bytes (inodes k n)), cache_time := time_file_cache (inodes k n)\<rparr> = cache ! i"
    using assms(3) by (auto simp: answers_def)
  have "acquire_entry path (cache ! i) k = (None, cache ! i, k)"
    using d same assms(4) by (simp add: acquire_entry_def stat_read_def Let_def)
  then show ?thesis
    using assms(2) by (simp add: acquire_file_cache_def Let_def assms(1) [symmetric])
qed

end
