(* ===== verification/Percent.thy ===== *)
theory Percent
  imports Viriatum_Prelude
begin

text \<open>
  The percent coding of \<^verbatim>\<open>src/src/viriatum_commons/encoding/percent.c\<close> and the verification of a
  path of \<^verbatim>\<open>src/src/viriatum_commons/util/string_util.h\<close>.

  Both of the loops write into a buffer of the caller, which nothing tells them the size of, and the
  decoding reads up to two bytes behind a percent sign, which nothing keeps within the data: a write
  or a read outside of a buffer is the error \<open>Out_Of_Bounds\<close>.
\<close>

section \<open>Characters\<close>

definition is_digit :: "byte \<Rightarrow> bool" where
  "is_digit b \<longleftrightarrow> 0x30 \<le> b \<and> b \<le> 0x39"

text \<open>The digit is not verified: any other byte has a value as well.\<close>

definition from_hex :: "byte \<Rightarrow> byte" where
  "from_hex b = (if is_digit b then b - 0x30 else to_lower b - 0x61 + 10)"

definition hex_characters :: bytes where
  "hex_characters = ascii ''0123456789abcdef''"

definition to_hex :: "byte \<Rightarrow> byte" where
  "to_hex code = hex_characters ! unat (code AND 15)"

definition isalphanum :: "byte \<Rightarrow> bool" where
  "isalphanum b \<longleftrightarrow> (0x30 \<le> b \<and> b \<le> 0x39) \<or> (0x61 \<le> b \<and> b \<le> 0x7a) \<or> (0x41 \<le> b \<and> b \<le> 0x5a)"

section \<open>Encoding\<close>

text \<open>What is written for a byte.\<close>

definition escaped :: "byte \<Rightarrow> bytes" where
  "escaped b =
     (if isalphanum b \<or> b = 0x2d \<or> b = 0x5f \<or> b = 0x2e \<or> b = 0x7e then [b]
      else if b = 0x20 then [0x2b]
      else [0x25, to_hex (drop_bit 4 b), to_hex (b AND 15)])"

primrec encode_percent_loop :: "bytes \<Rightarrow> bytes \<Rightarrow> nat \<Rightarrow> (bytes \<times> nat) result" where
  "encode_percent_loop [] out position = Inr (out, position)"
| "encode_percent_loop (b # bs) out position =
     (case store out position (escaped b) of
        Inl e \<Rightarrow> Inl e
      | Inr out \<Rightarrow> encode_percent_loop bs out (position + length (escaped b)))"

definition encode_percent :: "bytes \<Rightarrow> bytes \<Rightarrow> (bytes \<times> nat) result" where
  "encode_percent buffer out =
     (case encode_percent_loop buffer out 0 of
        Inl e \<Rightarrow> Inl e
      | Inr (out, position) \<Rightarrow>
          (case store out position [0] of Inl e \<Rightarrow> Inl e | Inr out \<Rightarrow> Inr (out, position)))"

section \<open>Decoding\<close>

definition Percent_error :: error where
  "Percent_error = Runtime_Exception ''Problem decoding URL string''"

definition hex_byte :: "byte \<Rightarrow> byte \<Rightarrow> byte" where
  "hex_byte high low = push_bit 4 (from_hex high) OR from_hex low"

text \<open>The byte that is decoded at a position and the number of bytes it takes.\<close>

definition decode_percent_at :: "bytes \<Rightarrow> nat \<Rightarrow> (byte \<times> nat) result" where
  "decode_percent_at buffer i =
     (case read_byte buffer i of
        Inl e \<Rightarrow> Inl e
      | Inr b \<Rightarrow>
          (if b = 0x25 then
             (case read_byte buffer (i + 1) of
                Inl e \<Rightarrow> Inl e
              | Inr high \<Rightarrow>
                  (if high = 0 then Inl Percent_error
                   else
                     (case read_byte buffer (i + 2) of
                        Inl e \<Rightarrow> Inl e
                      | Inr low \<Rightarrow> (if low = 0 then Inl Percent_error else Inr (hex_byte high low, 3)))))
           else if b = 0x2b then Inr (0x20, 1)
           else Inr (b, 1)))"

lemma decode_percent_at_size: "decode_percent_at buffer i = Inr (c, k) \<Longrightarrow> 0 < k"
  by (auto simp: decode_percent_at_def split: sum.splits if_splits)

function decode_percent_loop :: "bytes \<Rightarrow> nat \<Rightarrow> nat \<Rightarrow> bytes \<Rightarrow> nat \<Rightarrow> write_result" where
  "decode_percent_loop buffer n i out position =
     (if i \<ge> n then (None, out, position)
      else
        (case decode_percent_at buffer i of
           Inl e \<Rightarrow> (Some e, out, position)
         | Inr (c, k) \<Rightarrow>
             (case store out position [c] of
                Inl e \<Rightarrow> (Some e, out, position)
              | Inr out \<Rightarrow> decode_percent_loop buffer n (i + k) out (position + 1))))"
  by pat_completeness auto
termination
  by (relation "measure (\<lambda>(buffer, n, i, out, position). n - i)") (auto dest: decode_percent_at_size)

declare decode_percent_loop.simps [simp del]

text \<open>An error is raised before the output is closed and before its length is set.\<close>

definition decode_percent :: "bytes \<Rightarrow> nat \<Rightarrow> bytes \<Rightarrow> write_result" where
  "decode_percent buffer n out =
     (case decode_percent_loop buffer n 0 out 0 of
        (Some e, out, position) \<Rightarrow> (Some e, out, position)
      | (None, out, position) \<Rightarrow>
          (case store out position [0] of
             Inl e \<Rightarrow> (Some e, out, position)
           | Inr out \<Rightarrow> (None, out, position)))"

section \<open>Buffers of their own\<close>

definition url_encode :: "(nat \<Rightarrow> byte) \<Rightarrow> bytes \<Rightarrow> (bytes \<times> nat) result" where
  "url_encode memory buffer = encode_percent buffer (allocated memory (length buffer * 3 + 1))"

definition url_decode :: "(nat \<Rightarrow> byte) \<Rightarrow> bytes \<Rightarrow> nat \<Rightarrow> write_result" where
  "url_decode memory buffer n = decode_percent buffer n (allocated memory (n + 1))"

section \<open>What is decoded\<close>

text \<open>
  The bytes that a string stands for, up to the first escape that its end cuts, and whether there is
  no such escape.
\<close>

fun decoded :: "bytes \<Rightarrow> bytes \<times> bool" where
  "decoded [] = ([], True)"
| "decoded (b # bs) =
     (if b = 0x25 then
        (case bs of
           high # low # rest \<Rightarrow>
             (if high = 0 \<or> low = 0 then ([], False)
              else (hex_byte high low # fst (decoded rest), snd (decoded rest)))
         | _ \<Rightarrow> ([], False))
      else ((if b = 0x2b then 0x20 else b) # fst (decoded bs), snd (decoded bs)))"

lemma length_decoded: "length (fst (decoded s)) \<le> length s"
proof (induction s rule: decoded.induct)
  case (2 b bs)
  show ?case
  proof (cases "b = 0x25")
    case True
    show ?thesis
    proof (cases "\<exists>high low rest. bs = high # low # rest")
      case True
      then show ?thesis using 2(1) \<open>b = 0x25\<close> by (fastforce intro: le_SucI)
    qed (use True in \<open>auto split: list.split\<close>)
  next
    case False
    then show ?thesis using 2 by auto
  qed
qed simp

lemma decode_at_append:
  assumes "decoded s = (d, ok)" and "s \<noteq> []"
  shows "(\<exists>c k rest. decode_percent_at (before @ s @ 0 # after) (length before) = Inr (c, k) \<and> k \<le> length s
      \<and> rest = drop k s \<and> d = c # fst (decoded rest) \<and> ok = snd (decoded rest))
    \<or> (decode_percent_at (before @ s @ 0 # after) (length before) = Inl Percent_error \<and> d = [] \<and> \<not> ok)"
proof (cases s)
  case (Cons b bs)
  have b: "read_byte (before @ s @ 0 # after) (length before) = Inr b"
    by (simp add: Cons nth_append read_byte_def)
  show ?thesis
  proof (cases "b = 0x25")
    case True
    show ?thesis
    proof (cases bs)
      case Nil
      then show ?thesis using assms True
        by (simp add: decode_percent_at_def b Cons read_byte_def nth_append)
    next
      case high: (Cons high bs')
      show ?thesis
      proof (cases bs')
        case Nil
        then show ?thesis using assms True high
          by (auto simp add: decode_percent_at_def b Cons read_byte_def nth_append)
      next
        case low: (Cons low rest)
        then show ?thesis using assms True high
          by (auto simp add: decode_percent_at_def b Cons read_byte_def nth_append split: if_splits)
      qed
    qed
  next
    case False
    then show ?thesis using assms by (auto simp add: decode_percent_at_def b Cons split: if_splits)
  qed
qed (use assms in simp)

lemma decode_loop_terminated:
  assumes "position + length s < length out" and "i = length before" and "n = i + length s"
  shows "decode_percent_loop (before @ s @ 0 # after) n i out position =
    (if snd (decoded s) then None else Some Percent_error,
     memcpy out position (fst (decoded s)), position + length (fst (decoded s)))"
  using assms
proof (induction s arbitrary: before i out position rule: length_induct)
  case (1 s)
  note IH = 1(1)
  show ?case
  proof (cases "s = []")
    case True
    then show ?thesis using 1(2,4) by (simp add: decode_percent_loop.simps)
  next
    case False
    then have loop: "decode_percent_loop (before @ s @ 0 # after) n i out position =
        (case decode_percent_at (before @ s @ 0 # after) (length before) of
           Inl e \<Rightarrow> (Some e, out, position)
         | Inr (c, k) \<Rightarrow>
             (case store out position [c] of
                Inl e \<Rightarrow> (Some e, out, position)
              | Inr out \<Rightarrow> decode_percent_loop (before @ s @ 0 # after) n (i + k) out (position + 1)))"
      using 1(3,4) by (subst decode_percent_loop.simps) simp
    from decode_at_append [of s "fst (decoded s)" "snd (decoded s)" before after] False
    consider c k where "decode_percent_at (before @ s @ 0 # after) (length before) = Inr (c, k)" "k \<le> length s"
        "fst (decoded s) = c # fst (decoded (drop k s))" "snd (decoded s) = snd (decoded (drop k s))"
      | "decode_percent_at (before @ s @ 0 # after) (length before) = Inl Percent_error" "fst (decoded s) = []"
        "\<not> snd (decoded s)"
      by auto
    then show ?thesis
    proof cases
      case 1: 1
      then have "0 < k" using decode_percent_at_size by blast
      have split: "before @ s @ 0 # after = (before @ take k s) @ drop k s @ 0 # after" by simp
      have room: "position + 1 + length (drop k s) < length (memcpy out position [c])"
        using \<open>position + length s < length out\<close> \<open>0 < k\<close> 1(2) False by simp
      have step: "decode_percent_loop (before @ s @ 0 # after) n (i + k) (memcpy out position [c]) (position + 1) =
        (if snd (decoded (drop k s)) then None else Some Percent_error,
         memcpy (memcpy out position [c]) (position + 1) (fst (decoded (drop k s))),
         position + 1 + length (fst (decoded (drop k s))))"
        by (subst split, rule IH [rule_format, OF _ room])
          (use \<open>0 < k\<close> 1(2) False \<open>i = length before\<close> \<open>n = i + length s\<close> in auto)
      have fits: "position + 1 + length (fst (decoded (drop k s))) \<le> length out"
        using length_decoded [of "drop k s"] room \<open>position + length s < length out\<close> by simp
      show ?thesis
        unfolding loop 1(1) using step 1(3,4) fits \<open>position + length s < length out\<close>
        by (simp add: memcpy_memcpy [of position "[c]", simplified])
    next
      case 2
      then show ?thesis unfolding loop using \<open>position + length s < length out\<close> by simp
    qed
  qed
qed

lemma decode_terminated:
  assumes "length s < length out"
  shows "decode_percent (s @ 0 # after) (length s) out =
    (if snd (decoded s) then (None, memcpy out 0 (fst (decoded s) @ [0]), length (fst (decoded s)))
     else (Some Percent_error, memcpy out 0 (fst (decoded s)), length (fst (decoded s))))"
  using decode_loop_terminated [of 0 s out 0 "[]" "length s" after] assms length_decoded [of s]
  by (simp add: decode_percent_def memcpy_memcpy [of 0, simplified])

text \<open>A part without escapes is decoded to itself, and the decoding goes on behind it.\<close>

lemma decoded_plain:
  "0x25 \<notin> set s \<Longrightarrow> 0x2b \<notin> set s \<Longrightarrow> decoded (s @ t) = (s @ fst (decoded t), snd (decoded t))"
  by (induction s) auto

section \<open>Encoding and decoding\<close>

lemma escaped_size: "0 < length (escaped b) \<and> length (escaped b) \<le> 3"
  by (simp add: escaped_def)

lemma encoded_size: "length (concat (map escaped bs)) \<le> 3 * length bs"
proof (induction bs)
  case (Cons b bs)
  then show ?case using escaped_size [of b] by simp
qed simp

lemma encode_loop_room:
  "position + length (concat (map escaped bs)) \<le> length out \<Longrightarrow>
   encode_percent_loop bs out position =
     Inr (memcpy out position (concat (map escaped bs)), position + length (concat (map escaped bs)))"
proof (induction bs arbitrary: out position)
  case (Cons b bs)
  then show ?case by (simp add: memcpy_memcpy add.assoc)
qed simp

lemma encode_room:
  assumes "length (concat (map escaped bs)) < length out"
  shows "encode_percent bs out =
    Inr (memcpy out 0 (concat (map escaped bs) @ [0]), length (concat (map escaped bs)))"
  using assms by (simp add: encode_percent_def encode_loop_room memcpy_memcpy [of 0, simplified])

lemma to_hex_character: "to_hex c \<noteq> 0 \<and> isalphanum (to_hex c)"
proof -
  have "unat (c AND 15) < length hex_characters"
    using word_and_le1 [of c 15] by (simp add: word_le_nat_alt le_less_trans hex_characters_def)
  moreover have "list_all (\<lambda>c. c \<noteq> 0 \<and> isalphanum c) hex_characters" by code_simp
  ultimately show ?thesis unfolding to_hex_def list_all_length by blast
qed

lemma hex_byte_to_hex: "hex_byte (to_hex (drop_bit 4 b)) (to_hex (b AND 15)) = b"
  by (rule all_bytes [where P = "\<lambda>b. hex_byte (to_hex (drop_bit 4 b)) (to_hex (b AND 15)) = b"]) code_simp

lemma decoded_escaped:
  "fst (decoded (escaped b @ t)) = b # fst (decoded t)" "snd (decoded (escaped b @ t)) = snd (decoded t)"
proof -
  have "b \<noteq> 0x25 \<and> b \<noteq> 0x2b" if "isalphanum b \<or> b = 0x2d \<or> b = 0x5f \<or> b = 0x2e \<or> b = 0x7e"
    using that by (auto simp: isalphanum_def)
  then show "fst (decoded (escaped b @ t)) = b # fst (decoded t)" "snd (decoded (escaped b @ t)) = snd (decoded t)"
    by (auto simp: escaped_def to_hex_character hex_byte_to_hex)
qed

lemma decoded_encoded: "decoded (concat (map escaped s)) = (s, True)"
  by (induction s) (auto simp: decoded_escaped prod_eq_iff)

text \<open>C31: decoding gives back what has been encoded: whatever the bytes of a string and whatever the two buffers
  held before, \<open>url_encode\<close> writes within the three bytes and one more that it allocates for each of them, in
  characters that a URL can carry, and \<open>url_decode\<close> of what it has written raises no error and leaves the string
  itself, closed by a zero byte.\<close>

theorem percent_roundtrip:
  "\<exists>out n. url_encode memory s = Inr (out, n) \<and> n \<le> 3 * length s
    \<and> set (take n out) \<subseteq> {b. isalphanum b} \<union> set (ascii ''-_.~+%'')
    \<and> (\<exists>out'. url_decode memory' out n = (None, out', length s) \<and> take (Suc (length s)) out' = s @ [0])"
proof -
  define e where "e = concat (map escaped s)"
  define out where "out = memcpy (allocated memory (length s * 3 + 1)) 0 (e @ [0])"
  have size: "length e \<le> 3 * length s" and decoded: "decoded e = (s, True)"
    by (simp_all only: e_def encoded_size decoded_encoded)
  have encoded: "url_encode memory s = Inr (out, length e)"
    using size encode_room [of s "allocated memory (length s * 3 + 1)"]
    by (simp add: url_encode_def e_def [symmetric] out_def)
  have out: "out = e @ 0 # drop (Suc (length e)) (allocated memory (length s * 3 + 1))"
    by (simp add: out_def memcpy_def)
  have "length s \<le> length e" using length_decoded [of e] decoded by simp
  then have "url_decode memory' out (length e) = (None, memcpy (allocated memory' (length e + 1)) 0 (s @ [0]), length s)"
    by (simp add: url_decode_def out decode_terminated decoded)
  moreover have "take (Suc (length s)) (memcpy (allocated memory' (length e + 1)) 0 (s @ [0])) = s @ [0]"
    by (simp add: memcpy_def)
  moreover have "isalphanum c \<or> c \<in> set (ascii ''-_.~+%'')" if "c \<in> set e" for c
  proof -
    show ?thesis using that to_hex_character by (auto simp: e_def escaped_def ascii_def split: if_splits)
  qed
  ultimately show ?thesis using encoded size out by auto
qed

text \<open>An escape that the end of the string cuts raises an error and leaves the output without its end.\<close>

lemma decode_cut:
  assumes "0x25 \<notin> set s" and "0x2b \<notin> set s" and "Suc (length s) < length out"
  shows "decode_percent (s @ [0x25, 0]) (Suc (length s)) out = (Some Percent_error, memcpy out 0 s, length s)"
  using decode_terminated [of "s @ [0x25]" out "[]"] assms decoded_plain [of s "[0x25]"] by simp

section \<open>Paths\<close>

text \<open>The byte of a string at a position, its end being a zero.\<close>

definition path_byte :: "bytes \<Rightarrow> nat \<Rightarrow> byte" where
  "path_byte s i = (if i < length s then s ! i else 0)"

definition is_separator :: "byte \<Rightarrow> bool" where
  "is_separator b \<longleftrightarrow> b = 0x2f \<or> b = 0x5c"

definition goes_up_at :: "bytes \<Rightarrow> nat \<Rightarrow> bool" where
  "goes_up_at s i \<longleftrightarrow>
     path_byte s i = 0x2e \<and> path_byte s (i + 1) = 0x2e
     \<and> (i = 0 \<or> is_separator (path_byte s (i - 1)))
     \<and> (path_byte s (i + 2) = 0 \<or> is_separator (path_byte s (i + 2)) \<or> path_byte s (i + 2) = 0x3f)"

definition is_path_safe :: "bytes \<Rightarrow> bool" where
  "is_path_safe s \<longleftrightarrow> list_all (\<lambda>i. \<not> goes_up_at s i) [0..<length s]"

text \<open>The parts of a path between its slashes, and the directories that it leads through.\<close>

fun path_segments :: "bytes \<Rightarrow> bytes list" where
  "path_segments [] = [[]]"
| "path_segments (b # bs) =
     (if b = 0x2f then [] # path_segments bs
      else (b # hd (path_segments bs)) # tl (path_segments bs))"

fun walk :: "bytes list \<Rightarrow> bytes list \<Rightarrow> bytes list" where
  "walk dirs [] = dirs"
| "walk dirs (segment # segments) =
     walk (if segment = [] \<or> segment = ascii ''.'' then dirs
           else if segment = ascii ''..'' then tl dirs
           else segment # dirs) segments"

definition resolved :: "bytes \<Rightarrow> bytes list" where
  "resolved path = rev (walk [] (path_segments path))"

lemma path_segments_not_Nil [simp]: "path_segments s \<noteq> []"
  by (cases s) auto

lemma path_segments_append:
  "path_segments (s @ 0x2f # t) = path_segments s @ path_segments t"
  by (induction s) simp_all

lemma first_segment: "\<exists>rest. s = hd (path_segments s) @ rest \<and> (rest = [] \<or> hd rest = 0x2f)"
  by (induction s) auto

lemma later_segment:
  "segment \<in> set (tl (path_segments s)) \<Longrightarrow>
   \<exists>before after. s = before @ segment @ after \<and> before \<noteq> [] \<and> last before = 0x2f \<and> (after = [] \<or> hd after = 0x2f)"
proof (induction s)
  case (Cons c cs)
  show ?case
  proof (cases "c = 0x2f \<and> segment = hd (path_segments cs)")
    case True
    then obtain rest where "cs = segment @ rest" "rest = [] \<or> hd rest = 0x2f"
      using first_segment [of cs] by auto
    then show ?thesis using True by (intro exI [of _ "[c]"] exI [of _ rest]) simp
  next
    case False
    then have "segment \<in> set (tl (path_segments cs))"
      using Cons.prems by (cases "path_segments cs") (auto split: if_splits)
    then obtain before after where "cs = before @ segment @ after" "before \<noteq> []" "last before = 0x2f"
      "after = [] \<or> hd after = 0x2f" using Cons.IH by blast
    then show ?thesis by (intro exI [of _ "c # before"] exI [of _ after]) simp
  qed
qed simp

lemma segment_split:
  assumes "segment \<in> set (path_segments s)"
  obtains before after where "s = before @ segment @ after" "before = [] \<or> last before = 0x2f"
    "after = [] \<or> hd after = 0x2f"
proof (cases "segment = hd (path_segments s)")
  case True
  then show ?thesis using first_segment [of s] that [of "[]"] by auto
next
  case False
  then have "segment \<in> set (tl (path_segments s))" using assms by (cases "path_segments s") auto
  then show ?thesis using later_segment that by blast
qed

lemma safe_segments:
  assumes "is_path_safe s"
  shows "ascii ''..'' \<notin> set (path_segments s)"
proof
  assume "ascii ''..'' \<in> set (path_segments s)"
  then obtain before after where s: "s = before @ ascii ''..'' @ after" "before = [] \<or> last before = 0x2f"
    "after = [] \<or> hd after = 0x2f" using segment_split by blast
  have "goes_up_at s (length before)"
    using s(2,3) by (cases before rule: rev_cases; cases after)
      (auto simp: s(1) goes_up_at_def path_byte_def is_separator_def ascii_def nth_append)
  moreover have "length before \<in> set [0..<length s]" by (simp add: s(1))
  ultimately show False using assms unfolding is_path_safe_def list_all_iff by blast
qed

lemma walk_append: "walk dirs (xs @ ys) = walk (walk dirs xs) ys"
  by (induction dirs xs rule: walk.induct) auto

lemma walk_below: "ascii ''..'' \<notin> set segments \<Longrightarrow> \<exists>more. walk dirs segments = more @ dirs"
proof (induction dirs segments rule: walk.induct)
  case (2 dirs segment segments)
  then show ?case by (fastforce split: if_splits)
qed simp

text \<open>A path that is safe leads to somewhere below the directory that it is put behind.\<close>

lemma safe_confined:
  assumes "is_path_safe s" and "s = 0x2f # t"
  shows "\<exists>more. resolved (root @ s) = resolved root @ more"
proof -
  have "ascii ''..'' \<notin> set (path_segments t)"
    using safe_segments [OF assms(1)] assms(2) by simp
  from walk_below [OF this, of "walk [] (path_segments root)"] show ?thesis
    by (auto simp: resolved_def assms(2) path_segments_append walk_append)
qed

end
