(* ===== verification/Http_Util.thy ===== *)
theory Http_Util
  imports Percent Http_Request "HOL-Library.Sublist"
begin

text \<open>
  How a response is written under HTTP/1.1 and how a range is read
  (\<^verbatim>\<open>src/src/viriatum/http/http_util.c\<close> and \<^verbatim>\<open>http_util.h\<close>).

  A response is built in a buffer whose size its caller gives. \<^verbatim>\<open>SPRINTF\<close> is the
  \<^verbatim>\<open>sprintf\<close> of the platforms that are not Windows, which takes no notice of the size: a
  text that does not fit is written beyond the buffer, the error \<open>Out_Of_Bounds\<close>. A \<^verbatim>\<open>%s\<close> is given
  the bytes of its string, which holds no zero.
\<close>

section \<open>Tables\<close>

definition http_version_codes :: "bytes list" where
  "http_version_codes = map ascii [''HTTP/0.9'', ''HTTP/1.0'', ''HTTP/1.1'']"

fun http_version_number :: "http_version \<Rightarrow> nat" where
  "http_version_number HTTP09 = 1"
| "http_version_number HTTP10 = 2"
| "http_version_number HTTP11 = 3"
| "http_version_number HTTP20 = 4"

datatype http_keep_alive = KEEP_CLOSE | KEEP_ALIVE

datatype http_cache = NO_CACHE | MAX_AGE

definition keep_alive_code :: "http_keep_alive \<Rightarrow> bytes" where
  "keep_alive_code mode = (case mode of KEEP_CLOSE \<Rightarrow> ascii ''close'' | KEEP_ALIVE \<Rightarrow> ascii ''keep-alive'')"

definition cache_code :: "http_cache \<Rightarrow> bytes" where
  "cache_code cache = (case cache of NO_CACHE \<Rightarrow> ascii ''no-cache, must-revalidate'' | MAX_AGE \<Rightarrow> ascii ''max-age=604800'')"

definition CRLF :: bytes where "CRLF = [0x0d, 0x0a]"

definition close_code :: "bool \<Rightarrow> bytes" where
  "close_code closed = (if closed then CRLF else [])"

text \<open>A read of a table, which holds nothing beyond its end.\<close>

definition table_at :: "'a list \<Rightarrow> nat \<Rightarrow> 'a result" where
  "table_at table i = (if i < length table then Inr (table ! i) else Inl Out_Of_Bounds)"

definition version_code :: "http_version \<Rightarrow> bytes result" where
  "version_code version = table_at http_version_codes (http_version_number version - 1)"

text \<open>
  The descriptions of the status codes, by the hundreds and by what is left of the code. The two
  literals with no comma between them are one string to the compiler.
\<close>

definition http_status_codes :: "bytes list list" where
  "http_status_codes = map (map ascii)
     [[''Continue'', ''Switching Protocols'', ''Processing''],
      [''OK'', ''Created'', ''Accepted'', ''Non-Authoritative Information (since HTTP/1.1)'', ''No Content'',
       ''Reset Content'', ''Partial Content'', ''Multi-Status'', ''Already Reported'', ''IM Used''],
      [''Multiple Choices'', ''Moved Permanently'', ''Found'', ''See Other'', ''Not Modified'', ''Use Proxy'',
       ''Switch Proxy'', ''Temporary Redirect'', ''Permanent Redirect''],
      [''Bad Request'', ''Unauthorized'', ''Payment Required'', ''Forbidden'', ''Not Found'',
       ''Method Not Allowed'', ''Not Acceptable'', ''Proxy Authentication Required'', ''Request Timeout'',
       ''Conflict'', ''Gone'', ''Length RequiredPrecondition Failed'', ''Request Entity Too Large'',
       ''Request-URI Too Long'', ''Unsupported Media Type'', ''Requested Range Not Satisfiable'',
       ''Expectation Failed'', ''I'' @ [CHR 0x27] @ ''m a teapot''],
      [''Internal Server Error'', ''Not Implemented'', ''Bad Gateway'', ''Service Unavailable'',
       ''Gateway Timeout'', ''HTTP Version Not Supported'', ''Variant Also Negotiates'',
       ''Insufficient Storage'', ''Loop Detected'', ''Bandwidth Limit Exceeded'', ''Not Extended'',
       ''Network Authentication Required'']]"

text \<open>The rows have 64 entries, of which the ones without a description are unset.\<close>

definition GET_HTTP_STATUS :: "nat \<Rightarrow> bytes option result" where
  "GET_HTTP_STATUS code =
     (if code < 100 then Inl Out_Of_Bounds
      else
        (case table_at http_status_codes (code div 100 - 1) of
           Inl e \<Rightarrow> Inl e
         | Inr row \<Rightarrow>
             (let i = code mod 100
              in if i \<ge> 64 then Inl Out_Of_Bounds
                 else if i < length row then Inr (Some (row ! i)) else Inr None)))"

definition CONTENT_LENGTH_H :: bytes where "CONTENT_LENGTH_H = ascii ''Content-Length''"
definition CACHE_CONTROL_H :: bytes where "CACHE_CONTROL_H = ascii ''Cache-Control''"
definition WWW_AUTHENTICATE_H :: bytes where "WWW_AUTHENTICATE_H = ascii ''WWW-Authenticate''"
definition CONNECTION_H :: bytes where "CONNECTION_H = ascii ''Connection''"
definition SERVER_H :: bytes where "SERVER_H = ascii ''Server''"

section \<open>Writing into a buffer\<close>

text \<open>A text that is printed into a buffer with the zero that closes it, and the position behind it.\<close>

definition print_at :: "bytes \<Rightarrow> nat \<Rightarrow> bytes \<Rightarrow> (bytes \<times> nat) result" where
  "print_at buffer position s =
     (case store buffer position (s @ [0]) of
        Inl e \<Rightarrow> Inl e
      | Inr buffer \<Rightarrow> Inr (buffer, position + length s))"

definition field_line :: "bytes \<Rightarrow> bytes \<Rightarrow> bytes" where
  "field_line name field_value = name @ ascii '': '' @ field_value @ CRLF"

definition status_lines :: "bytes \<Rightarrow> bytes \<Rightarrow> nat \<Rightarrow> bytes \<Rightarrow> http_keep_alive \<Rightarrow> bytes" where
  "status_lines description version code message mode =
     version @ ascii '' '' @ decimal code @ ascii '' '' @ message @ CRLF
     @ field_line CONNECTION_H (keep_alive_code mode) @ field_line SERVER_H description"

definition write_http_headers ::
    "bytes \<Rightarrow> bytes \<Rightarrow> http_version \<Rightarrow> nat \<Rightarrow> bytes \<Rightarrow> http_keep_alive \<Rightarrow> bool \<Rightarrow> (bytes \<times> nat) result" where
  "write_http_headers description buffer version code message mode closed =
     (case version_code version of
        Inl e \<Rightarrow> Inl e
      | Inr v \<Rightarrow> print_at buffer 0 (status_lines description v code message mode @ close_code closed))"

definition write_status_http ::
    "bytes \<Rightarrow> bytes \<Rightarrow> http_version \<Rightarrow> nat \<Rightarrow> bytes \<Rightarrow> http_keep_alive \<Rightarrow> (bytes \<times> nat) result" where
  "write_status_http description buffer version code message mode =
     write_http_headers description buffer version code message mode False"

definition write_field_http :: "bytes \<Rightarrow> nat \<Rightarrow> nat \<Rightarrow> bytes \<Rightarrow> bytes \<Rightarrow> (bytes \<times> nat) result" where
  "write_field_http buffer room offset name field_value =
     (let required = length name + length field_value + 5
      in if offset + required > room then Inr (buffer, offset)
         else print_at buffer offset (field_line name field_value))"

definition write_end_http :: "bytes \<Rightarrow> nat \<Rightarrow> nat \<Rightarrow> (bytes \<times> nat) result" where
  "write_end_http buffer room offset =
     (if offset + 3 > room then Inr (buffer, offset)
      else
        (case store buffer offset (CRLF @ [0]) of
           Inl e \<Rightarrow> Inl e
         | Inr buffer \<Rightarrow> Inr (buffer, offset + 2)))"

text \<open>A field that is given as a line, told apart at its colon.\<close>

definition write_line_http :: "bytes \<Rightarrow> nat \<Rightarrow> nat \<Rightarrow> bytes \<Rightarrow> (bytes \<times> nat) result" where
  "write_line_http buffer room offset line =
     (let name = takeWhile (\<lambda>b. b \<noteq> 0x3a) line; rest = dropWhile (\<lambda>b. b \<noteq> 0x3a) line
      in if rest = [] then Inr (buffer, offset)
         else if length name \<ge> VIRIATUM_MAX_HEADER_SIZE then Inr (buffer, offset)
         else write_field_http buffer room offset name (dropWhile (\<lambda>b. b = 0x20) (tl rest)))"

text \<open>The variants that print the length of the contents as well.\<close>

definition write_http_headers_c ::
    "bytes \<Rightarrow> bytes \<Rightarrow> http_version \<Rightarrow> nat \<Rightarrow> bytes \<Rightarrow> http_keep_alive \<Rightarrow> nat \<Rightarrow> http_cache \<Rightarrow> bool
      \<Rightarrow> (bytes \<times> nat) result" where
  "write_http_headers_c description buffer version code message mode contents cache closed =
     (case write_http_headers description buffer version code message mode False of
        Inl e \<Rightarrow> Inl e
      | Inr (buffer, count) \<Rightarrow>
          print_at buffer count
            (field_line CONTENT_LENGTH_H (decimal contents) @ field_line CACHE_CONTROL_H (cache_code cache)
             @ close_code closed))"

definition write_http_headers_a ::
    "bytes \<Rightarrow> bytes \<Rightarrow> http_version \<Rightarrow> nat \<Rightarrow> bytes \<Rightarrow> http_keep_alive \<Rightarrow> nat \<Rightarrow> http_cache \<Rightarrow> bytes \<Rightarrow> bool
      \<Rightarrow> (bytes \<times> nat) result" where
  "write_http_headers_a description buffer version code message mode contents cache realm closed =
     (case write_http_headers description buffer version code message mode False of
        Inl e \<Rightarrow> Inl e
      | Inr (buffer, count) \<Rightarrow>
          print_at buffer count
            (field_line CONTENT_LENGTH_H (decimal contents) @ field_line CACHE_CONTROL_H (cache_code cache)
             @ field_line WWW_AUTHENTICATE_H (ascii ''Basic realm='' @ [0x22] @ realm @ [0x22])
             @ close_code closed))"

definition write_http_headers_m ::
    "bytes \<Rightarrow> bytes \<Rightarrow> http_version \<Rightarrow> nat \<Rightarrow> bytes \<Rightarrow> http_keep_alive \<Rightarrow> nat \<Rightarrow> http_cache \<Rightarrow> bytes
      \<Rightarrow> (bytes \<times> nat) result" where
  "write_http_headers_m description buffer version code message mode contents cache text =
     (case write_http_headers_c description buffer version code message mode contents cache True of
        Inl e \<Rightarrow> Inl e
      | Inr (buffer, count) \<Rightarrow>
          (case store buffer count (take contents text @ [0]) of
             Inl e \<Rightarrow> Inl e
           | Inr buffer \<Rightarrow> Inr (buffer, count)))"

text \<open>A complete message; what is returned is what is written to the connection.\<close>

definition write_http_message ::
    "bytes \<Rightarrow> bytes \<Rightarrow> http_version \<Rightarrow> nat \<Rightarrow> bytes \<Rightarrow> bytes \<Rightarrow> http_keep_alive \<Rightarrow> bytes result" where
  "write_http_message description buffer version code message text mode =
     (case write_http_headers_m description buffer version code message mode (length text) NO_CACHE text of
        Inl e \<Rightarrow> Inl e
      | Inr (buffer, count) \<Rightarrow> Inr (c_string buffer))"

section \<open>The head of a response\<close>

text \<open>
  What a handler does with the operations above: the status, its fields in order, the end, and the
  bytes that are handed to the connection.
\<close>

fun write_fields_http :: "bytes \<Rightarrow> nat \<Rightarrow> nat \<Rightarrow> (bytes \<times> bytes) list \<Rightarrow> (bytes \<times> nat) result" where
  "write_fields_http buffer room offset [] = Inr (buffer, offset)"
| "write_fields_http buffer room offset (pair # pairs) =
     (case write_field_http buffer room offset (fst pair) (snd pair) of
        Inl e \<Rightarrow> Inl e
      | Inr (buffer, offset) \<Rightarrow> write_fields_http buffer room offset pairs)"

definition write_head_http ::
    "bytes \<Rightarrow> bytes \<Rightarrow> http_version \<Rightarrow> nat \<Rightarrow> bytes \<Rightarrow> http_keep_alive \<Rightarrow> (bytes \<times> bytes) list \<Rightarrow> bytes result" where
  "write_head_http description buffer version code message mode pairs =
     (case write_status_http description buffer version code message mode of
        Inl e \<Rightarrow> Inl e
      | Inr (buffer, count) \<Rightarrow>
          (case write_fields_http buffer (length buffer) count pairs of
             Inl e \<Rightarrow> Inl e
           | Inr (buffer, count) \<Rightarrow>
               (case write_end_http buffer (length buffer) count of
                  Inl e \<Rightarrow> Inl e
                | Inr (buffer, count) \<Rightarrow> Inr (take count buffer))))"

section \<open>Ranges\<close>

text \<open>The \<^verbatim>\<open>strtoull\<close> of the standard library in base ten, whose value stays at the largest one.\<close>

definition is_space :: "byte \<Rightarrow> bool" where
  "is_space b \<longleftrightarrow> b = 0x20 \<or> (0x09 \<le> b \<and> b \<le> 0x0d)"

definition digits_value :: "bytes \<Rightarrow> nat" where
  "digits_value s = foldl (\<lambda>n b. n * 10 + unat (b - 0x30)) 0 s"

definition STROULL :: "bytes \<Rightarrow> nat" where
  "STROULL s =
     (let s = dropWhile is_space s;
          negative = (s \<noteq> [] \<and> hd s = 0x2d);
          s = (if s \<noteq> [] \<and> (hd s = 0x2d \<or> hd s = 0x2b) then tl s else s);
          n = digits_value (takeWhile is_digit s)
      in if n \<ge> 2 ^ 64 then 2 ^ 64 - 1
         else if negative then (2 ^ 64 - n) mod 2 ^ 64
         else n)"

text \<open>The conversion of a \<^verbatim>\<open>size_t\<close> to a \<^verbatim>\<open>long long\<close>.\<close>

definition long_long :: "nat \<Rightarrow> int" where
  "long_long n = (if n < 2 ^ 63 then int n else int n - 2 ^ 64)"

record range_scan =
  initial_byte_v :: int
  final_byte_v :: int
  range_mark :: nat

text \<open>The size of an empty file less one is the largest value of a \<^verbatim>\<open>size_t\<close>.\<close>

definition last_byte :: "nat \<Rightarrow> int" where
  "last_byte file_size = long_long (if file_size = 0 then 2 ^ 64 - 1 else file_size - 1)"

definition range_step :: "bytes \<Rightarrow> nat \<Rightarrow> nat \<Rightarrow> range_scan \<Rightarrow> range_scan" where
  "range_step header file_size i scan =
     (let b = header ! i
      in if b = 0x3d then scan\<lparr>range_mark := i + 1\<rparr>
         else if b = 0x2d then
           (if i = 0 then scan\<lparr>initial_byte_v := 0, range_mark := i + 1\<rparr>
            else scan\<lparr>initial_byte_v := long_long (STROULL (drop (range_mark scan) header)), range_mark := i + 1\<rparr>)
         else if b = 0x2c then
           (if i = range_mark scan then scan\<lparr>final_byte_v := last_byte file_size\<rparr>
            else scan\<lparr>initial_byte_v := long_long (STROULL (drop (range_mark scan) header))\<rparr>)
         else scan)"

definition get_http_range_limits :: "bytes \<Rightarrow> nat \<Rightarrow> nat \<times> nat" where
  "get_http_range_limits header file_size =
     (let scan = fold (range_step header file_size) [0..<length header]
            \<lparr>initial_byte_v = -1, final_byte_v = -1, range_mark = 0\<rparr>;
          final = (if final_byte_v scan \<noteq> -1 then final_byte_v scan
                   else if length header = range_mark scan then last_byte file_size
                   else long_long (STROULL (drop (range_mark scan) header)))
      in (nat (max 0 (initial_byte_v scan)), nat (max 0 final)))"

section \<open>What is printed and read\<close>

lemma is_digit_of_nat: "n < 10 \<Longrightarrow> is_digit (of_nat (48 + n)) \<and> unat (of_nat (48 + n) - 0x30 :: byte) = n"
  by (simp add: is_digit_def word_le_nat_alt unat_of_nat_byte unat_sub_if' del: of_nat_add)

lemma decimal_digits: "list_all is_digit (decimal n)"
proof (induction n rule: decimal.induct)
  case (1 n)
  then show ?case using is_digit_of_nat [of n] is_digit_of_nat [of "n mod 10"] by (simp add: decimal.simps [of n])
qed

lemma digits_value_snoc: "digits_value (s @ [b]) = digits_value s * 10 + unat (b - 0x30)"
  by (simp add: digits_value_def)

lemma digits_value_decimal: "digits_value (decimal n) = n"
proof (induction n rule: decimal.induct)
  case (1 n)
  show ?case
  proof (cases "n < 10")
    case True
    then show ?thesis using is_digit_of_nat [of n] by (simp add: decimal.simps [of n] digits_value_def)
  next
    case False
    then show ?thesis using 1 is_digit_of_nat [of "n mod 10"]
      by (subst decimal.simps) (simp only: digits_value_snoc if_False, simp)
  qed
qed

lemma decimal_not_Nil: "decimal n \<noteq> []"
  by (simp add: decimal.simps [of n])

lemma digit_cases: "is_digit b \<Longrightarrow> \<not> is_space b \<and> b \<noteq> 0x2d \<and> b \<noteq> 0x2b \<and> b \<noteq> 0x2c \<and> b \<noteq> 0x3d \<and> b \<noteq> 0"
  by (auto simp: is_digit_def is_space_def word_le_nat_alt)

lemma STROULL_decimal:
  assumes "n < 2 ^ 64" and "rest = [] \<or> \<not> is_digit (hd rest)"
  shows "STROULL (decimal n @ rest) = n"
proof -
  have digits: "\<forall>b\<in>set (decimal n). is_digit b" using decimal_digits [of n] by (simp add: list_all_iff)
  obtain b bs where b: "decimal n = b # bs" using decimal_not_Nil [of n] by (cases "decimal n") auto
  then have "\<not> is_space b \<and> b \<noteq> 0x2d \<and> b \<noteq> 0x2b" using digits digit_cases by simp
  moreover have "takeWhile is_digit (decimal n @ rest) = decimal n"
    using digits assms(2) by (cases rest) (simp_all add: takeWhile_append)
  ultimately show ?thesis
    using assms(1) digits_value_decimal [of n] by (simp add: STROULL_def b)
qed

section \<open>What a range means\<close>

text \<open>Bytes that are none of the three separators leave the scan as it is.\<close>

lemma range_plain:
  "\<forall>i\<in>set is. header ! i \<notin> {0x3d, 0x2d, 0x2c} \<Longrightarrow> fold (range_step header file_size) is scan = scan"
  by (induction "is") (simp_all add: range_step_def)

lemma upt_at: "a \<le> b \<Longrightarrow> b < c \<Longrightarrow> [a..<c] = [a..<b] @ b # [Suc b..<c]"
  by (metis append_assoc le_add_diff_inverse less_imp_le_nat upt_add_eq_append upt_conv_Cons)

lemma range_scanned:
  assumes "header = ascii ''bytes='' @ decimal a @ [0x2d] @ tail" and "a < 2 ^ 63" and "list_all is_digit tail"
  shows "fold (range_step header file_size) [0..<length header] \<lparr>initial_byte_v = -1, final_byte_v = -1, range_mark = 0\<rparr>
    = \<lparr>initial_byte_v = int a, final_byte_v = -1, range_mark = length header - length tail\<rparr>"
proof -
  define d where "d = length (decimal a)"
  define t where "t = length tail"
  define unit where "unit = ascii ''bytes=''"
  have unit: "length unit = 6" by (simp add: unit_def)
  have header: "header = unit @ decimal a @ [0x2d] @ tail" by (simp add: assms(1) unit_def)
  have size: "length header = 7 + d + t" by (simp add: header unit d_def t_def)
  have split: "[0..<length header] = [0..<5] @ 5 # [6..<6 + d] @ (6 + d) # [7 + d..<length header]"
    using upt_at [of 0 5 "length header"] upt_at [of 6 "6 + d" "length header"] by (simp add: size)
  have head: "\<forall>i\<in>set [0..<5]. header ! i \<notin> {0x3d, 0x2d, 0x2c}"
    by (simp add: assms(1) ascii_def upt_conv_Cons nth_append)
  have equals: "header ! 5 = 0x3d" by (simp add: assms(1) ascii_def)
  have digits: "\<forall>i\<in>set [6..<6 + d]. header ! i \<notin> {0x3d, 0x2d, 0x2c}"
  proof
    fix i assume "i \<in> set [6..<6 + d]"
    then have i: "6 \<le> i" "i - 6 < length (decimal a)" by (auto simp: d_def)
    then have "header ! i = decimal a ! (i - 6)" by (simp add: header unit nth_append)
    moreover have "is_digit (decimal a ! (i - 6))"
      using decimal_digits [of a] i(2) by (simp add: list_all_length)
    ultimately show "header ! i \<notin> {0x3d, 0x2d, 0x2c}" using digit_cases by auto
  qed
  have dash: "header ! (6 + d) = 0x2d" by (simp add: header unit nth_append d_def)
  have last: "\<forall>i\<in>set [7 + d..<length header]. header ! i \<notin> {0x3d, 0x2d, 0x2c}"
  proof
    fix i assume "i \<in> set [7 + d..<length header]"
    then have i: "7 + d \<le> i" "i - (7 + d) < length tail" by (auto simp: size t_def)
    obtain j where j: "i = 7 + d + j" using i(1) le_Suc_ex by blast
    then have "header ! i = tail ! (i - (7 + d))" by (simp add: header unit nth_append d_def)
    then show "header ! i \<notin> {0x3d, 0x2d, 0x2c}"
      using assms(3) i(2) digit_cases [of "header ! i"] by (auto simp: list_all_length)
  qed
  have number: "STROULL (drop 6 header) = a"
    using STROULL_decimal [of a "[0x2d] @ tail"] assms(2) by (simp add: assms(1) is_digit_def)
  have step: "range_step header file_size 5 scan = scan\<lparr>range_mark := 6\<rparr>" for scan
    by (simp add: range_step_def equals)
  have dashed: "range_step header file_size (6 + d) (scan\<lparr>range_mark := 6\<rparr>) =
      scan\<lparr>initial_byte_v := int a, range_mark := 7 + d\<rparr>" for scan
    using assms(2) by (simp add: range_step_def dash number long_long_def)
  show ?thesis
    by (simp only: split fold_append fold_simps comp_apply range_plain [OF head] step range_plain [OF digits] dashed
        range_plain [OF last]) (simp add: size t_def)
qed

lemma range_limits_closed:
  assumes "a < 2 ^ 63" and "b < 2 ^ 63"
  shows "get_http_range_limits (ascii ''bytes='' @ decimal a @ [0x2d] @ decimal b) file_size = (a, b)"
proof -
  define header where "header = ascii ''bytes='' @ decimal a @ [0x2d] @ decimal b"
  have "drop (length header - length (decimal b)) header = decimal b" by (simp add: header_def)
  moreover have "STROULL (decimal b) = b" using STROULL_decimal [of b "[]"] assms(2) by simp
  moreover have "length header \<noteq> length header - length (decimal b)"
    using decimal_not_Nil [of b] by (simp add: header_def)
  ultimately show ?thesis
    using range_scanned [OF header_def assms(1) decimal_digits] assms(2)
    unfolding header_def [symmetric] get_http_range_limits_def Let_def by (simp add: long_long_def)
qed

lemma range_limits_open:
  assumes "a < 2 ^ 63" and "0 < file_size" and "file_size \<le> 2 ^ 63"
  shows "get_http_range_limits (ascii ''bytes='' @ decimal a @ [0x2d]) file_size = (a, file_size - 1)"
proof -
  define header where "header = ascii ''bytes='' @ decimal a @ [0x2d]"
  have "header = ascii ''bytes='' @ decimal a @ [0x2d] @ []" by (simp add: header_def)
  then have scanned: "fold (range_step header file_size) [0..<length header]
      \<lparr>initial_byte_v = -1, final_byte_v = -1, range_mark = 0\<rparr> =
    \<lparr>initial_byte_v = int a, final_byte_v = -1, range_mark = length header\<rparr>"
    using range_scanned [of header a "[]"] assms(1) by simp
  have "last_byte file_size = int (file_size - 1)" using assms(2,3) by (simp add: last_byte_def long_long_def)
  then show ?thesis
    unfolding header_def [symmetric] get_http_range_limits_def Let_def scanned by simp
qed

text \<open>The last \<open>n\<close> bytes of a file are asked for by no first byte, which is read as the first \<open>n + 1\<close> ones.\<close>

lemma suffix_range:
  "get_http_range_limits (ascii ''bytes=-500'') file_size = (0, 500)"
  by (simp add: get_http_range_limits_def range_step_def ascii_def upt_conv_Cons STROULL_def is_space_def is_digit_def
      digits_value_def long_long_def)

text \<open>Of two ranges the first byte of the answer is the last one of the first range.\<close>

lemma several_ranges:
  "get_http_range_limits (ascii ''bytes=0-10,20-30'') file_size = (10, 30)"
  by (simp add: get_http_range_limits_def range_step_def ascii_def upt_conv_Cons STROULL_def is_space_def is_digit_def
      digits_value_def long_long_def)

text \<open>The status that the missing comma leaves without a description of its own, and the ones behind it.\<close>

lemma status_shifted:
  "GET_HTTP_STATUS 411 = Inr (Some (ascii ''Length RequiredPrecondition Failed''))"
  "GET_HTTP_STATUS 412 = Inr (Some (ascii ''Request Entity Too Large''))"
  "GET_HTTP_STATUS 418 = Inr None"
  by (simp_all add: GET_HTTP_STATUS_def table_at_def http_status_codes_def)

section \<open>What the head of a response is\<close>

text \<open>The fields that there is room for behind an offset.\<close>

fun fitting :: "nat \<Rightarrow> nat \<Rightarrow> (bytes \<times> bytes) list \<Rightarrow> (bytes \<times> bytes) list" where
  "fitting room offset [] = []"
| "fitting room offset (pair # pairs) =
     (let line = field_line (fst pair) (snd pair)
      in if offset + length line + 1 > room then fitting room offset pairs
         else pair # fitting room (offset + length line) pairs)"

definition head_lines :: "(bytes \<times> bytes) list \<Rightarrow> bytes" where
  "head_lines pairs = concat (map (\<lambda>pair. field_line (fst pair) (snd pair)) pairs)"

lemma head_lines_simps [simp]:
  "head_lines [] = []" "head_lines (pair # pairs) = field_line (fst pair) (snd pair) @ head_lines pairs"
  by (simp_all add: head_lines_def)

lemma length_field_line: "length (field_line name v) = length name + length v + 4"
  by (simp add: field_line_def CRLF_def)

lemma fitting_subseq: "subseq (fitting room offset pairs) pairs"
  by (induction room offset pairs rule: fitting.induct) (auto simp: Let_def)

lemma fitting_all: "offset + length (head_lines pairs) < room \<Longrightarrow> fitting room offset pairs = pairs"
  by (induction room offset pairs rule: fitting.induct) (simp_all add: Let_def)

lemma fitting_bound: "offset < room \<Longrightarrow> offset + length (head_lines (fitting room offset pairs)) < room"
  by (induction room offset pairs rule: fitting.induct) (simp_all add: Let_def add.assoc)

lemma print_at_room:
  assumes "position + length s < length buffer"
  shows "\<exists>buffer'. print_at buffer position s = Inr (buffer', position + length s) \<and> length buffer' = length buffer
    \<and> take (position + length s) buffer' = take position buffer @ s"
  using assms by (simp add: print_at_def memcpy_def)

lemma write_fields_room:
  assumes "room = length buffer" and "offset < room"
  shows "\<exists>buffer'. write_fields_http buffer room offset pairs =
      Inr (buffer', offset + length (head_lines (fitting room offset pairs))) \<and> length buffer' = room
    \<and> take (offset + length (head_lines (fitting room offset pairs))) buffer' =
        take offset buffer @ head_lines (fitting room offset pairs)"
  using assms
proof (induction pairs arbitrary: buffer offset)
  case (Cons pair pairs)
  define line where "line = field_line (fst pair) (snd pair)"
  have line: "length line = length (fst pair) + length (snd pair) + 4" by (simp add: line_def length_field_line)
  show ?case
  proof (cases "offset + length line + 1 > room")
    case True
    then show ?thesis
      using Cons.IH [OF Cons.prems] line by (simp add: write_field_http_def line_def [symmetric])
  next
    case False
    then obtain buffer1 where b1: "print_at buffer offset line = Inr (buffer1, offset + length line)"
      "length buffer1 = length buffer" "take (offset + length line) buffer1 = take offset buffer @ line"
      using print_at_room [of offset line buffer] Cons.prems by auto
    have "offset + length line < room" using False by simp
    then obtain buffer2 where "write_fields_http buffer1 room (offset + length line) pairs =
        Inr (buffer2, offset + length line + length (head_lines (fitting room (offset + length line) pairs)))"
      "length buffer2 = room"
      "take (offset + length line + length (head_lines (fitting room (offset + length line) pairs))) buffer2 =
        take (offset + length line) buffer1 @ head_lines (fitting room (offset + length line) pairs)"
      using Cons.IH [of buffer1 "offset + length line"] b1(2) Cons.prems(1) by auto
    then show ?thesis
      using b1 False line by (simp add: write_field_http_def line_def [symmetric] add.assoc)
  qed
qed simp

lemma head_written:
  assumes "version_code version = Inr v" and "length (status_lines description v code message mode) < length buffer"
  shows "\<exists>kept closed. write_head_http description buffer version code message mode pairs =
      Inr (status_lines description v code message mode @ head_lines kept @ closed)
    \<and> subseq kept pairs
    \<and> closed = (if length (status_lines description v code message mode @ head_lines kept) + 3 \<le> length buffer then CRLF else [])
    \<and> length (status_lines description v code message mode @ head_lines kept @ closed) < length buffer
    \<and> (length (status_lines description v code message mode @ head_lines pairs @ CRLF) < length buffer
        \<longrightarrow> kept = pairs \<and> closed = CRLF)"
proof -
  define s where "s = status_lines description v code message mode"
  define kept where "kept = fitting (length buffer) (length s) pairs"
  define count where "count = length s + length (head_lines kept)"
  define closed where "closed = (if count + 3 > length buffer then [] else CRLF)"
  obtain buffer1 where b1: "print_at buffer 0 s = Inr (buffer1, length s)" "length buffer1 = length buffer"
    "take (length s) buffer1 = s"
    using print_at_room [of 0 s buffer] assms(2) by (auto simp: s_def)
  obtain buffer2 where b2: "write_fields_http buffer1 (length buffer1) (length s) pairs = Inr (buffer2, count)"
    "length buffer2 = length buffer" "take count buffer2 = s @ head_lines kept"
    using write_fields_room [of "length buffer" buffer1 "length s" pairs] assms(2) b1
    by (auto simp: kept_def count_def s_def)
  have less: "count < length buffer"
    using fitting_bound [of "length s" "length buffer" pairs] assms(2) by (simp add: count_def kept_def s_def)
  have whole: "kept = pairs \<and> closed = CRLF" if "length (s @ head_lines pairs @ CRLF) < length buffer"
    using that fitting_all [of "length s" pairs "length buffer"] by (simp add: kept_def closed_def count_def CRLF_def)
  obtain buffer3 where b3: "write_end_http buffer2 (length buffer2) count = Inr (buffer3, count + length closed)"
    "take (count + length closed) buffer3 = s @ head_lines kept @ closed"
  proof (cases "count + 3 > length buffer")
    case True
    then show ?thesis using that [of buffer2] b2 by (simp add: write_end_http_def closed_def)
  next
    case False
    then have "write_end_http buffer2 (length buffer2) count = Inr (memcpy buffer2 count (CRLF @ [0]), count + 2)"
      using b2(2) by (simp add: write_end_http_def CRLF_def)
    moreover have "take (count + 2) (memcpy buffer2 count (CRLF @ [0])) = take count buffer2 @ CRLF"
      using False b2(2) by (simp add: memcpy_def CRLF_def)
    ultimately show ?thesis
      using that [of "memcpy buffer2 count (CRLF @ [0])"] False b2(3) by (simp add: closed_def CRLF_def)
  qed
  have "write_head_http description buffer version code message mode pairs = Inr (s @ head_lines kept @ closed)"
    using b1 b2 b3 by (simp add: write_head_http_def write_status_http_def write_http_headers_def assms(1)
        s_def [symmetric] close_code_def)
  moreover have "length (s @ head_lines kept @ closed) < length buffer"
    using less by (simp add: closed_def count_def CRLF_def)
  moreover have "closed = (if length (s @ head_lines kept) + 3 \<le> length buffer then CRLF else [])"
    by (simp add: closed_def count_def not_le)
  ultimately show ?thesis
    using whole fitting_subseq [of "length buffer" "length s" pairs]
    unfolding s_def [symmetric] kept_def [symmetric] by blast
qed



text \<open>
  A request may announce the version 2.0 over a connection of HTTP/1.1, whose answer then reads the name of its
  version behind the end of the table.
\<close>

lemma head_of_version_2:
  "write_head_http description buffer (get_http_version 2 0) code message mode pairs = Inl Out_Of_Bounds"
  by (simp add: write_head_http_def write_status_http_def write_http_headers_def version_code_def table_at_def
      http_version_codes_def get_http_version_def)

end
