(* ===== verification/Http_Auth.thy ===== *)
theory Http_Auth
  imports Http_Util Base_64 Hash_Map
begin

text \<open>
  The basic authentication of \<^verbatim>\<open>src/src/viriatum/http/http_util.c\<close> and the file of passwords of
  \<^verbatim>\<open>src/src/viriatum_commons/formats/passwd.c\<close>.

  The bytes of the file are a parameter, \<^term>\<open>None\<close> when it cannot be read. The outer option of a
  result is \<^term>\<open>None\<close> when the hash map would be probed for ever, which the theorems rule out. The
  flag of the result is an argument as well, since the code leaves it alone when it raises an error.
\<close>

section \<open>The file of passwords\<close>

datatype passwd_state = PASSWD_USER | PASSWD_PASSWORD | PASSWD_COMMENT

text \<open>The variables of the loop; the name of the user is the string that its array of 128 bytes holds.\<close>

record passwd_scan =
  passwd_state :: passwd_state
  passwd_mark :: nat
  passwd_username :: bytes
  passwd_map :: "bytes hash_map"

definition USERNAME_SIZE :: nat where [simp]: "USERNAME_SIZE = 128"

definition marked_bytes :: "bytes \<Rightarrow> nat \<Rightarrow> passwd_scan \<Rightarrow> bytes" where
  "marked_bytes buffer i scan = take (i - passwd_mark scan) (drop (passwd_mark scan) buffer)"

definition passwd_step :: "bytes \<Rightarrow> nat \<Rightarrow> passwd_scan \<Rightarrow> passwd_scan result option" where
  "passwd_step buffer i scan =
     (let current = buffer ! i; field = marked_bytes buffer i scan
      in case passwd_state scan of
           PASSWD_USER \<Rightarrow>
             (if current = 0x3a \<or> current = 0x0a then
                (if length field \<ge> USERNAME_SIZE then Some (Inl Out_Of_Bounds)
                 else Some (Inr (scan\<lparr>passwd_username := c_string field, passwd_mark := i + 1,
                   passwd_state := (if current = 0x3a then PASSWD_PASSWORD else PASSWD_USER)\<rparr>)))
              else Some (Inr scan))
         | PASSWD_PASSWORD \<Rightarrow>
             (if current = 0x3a \<or> current = 0x0a then
                (case set_value_string_hash_map (passwd_username scan) (Some (c_string field)) (passwd_map scan) of
                   None \<Rightarrow> None
                 | Some m \<Rightarrow> Some (Inr (scan\<lparr>passwd_map := m, passwd_mark := i + 1,
                     passwd_state := (if current = 0x3a then PASSWD_COMMENT else PASSWD_USER)\<rparr>)))
              else Some (Inr scan))
         | PASSWD_COMMENT \<Rightarrow>
             (if current = 0x0a then Some (Inr (scan\<lparr>passwd_state := PASSWD_USER, passwd_mark := i + 1\<rparr>))
              else Some (Inr scan)))"

primrec passwd_loop :: "bytes \<Rightarrow> nat list \<Rightarrow> passwd_scan \<Rightarrow> passwd_scan result option" where
  "passwd_loop buffer [] scan = Some (Inr scan)"
| "passwd_loop buffer (i # rest) scan =
     (case passwd_step buffer i scan of
        None \<Rightarrow> None
      | Some (Inl e) \<Rightarrow> Some (Inl e)
      | Some (Inr scan) \<Rightarrow> passwd_loop buffer rest scan)"

definition File_error :: error where
  "File_error = Runtime_Exception ''Problem reading file''"

definition process_passwd_file :: "bytes option \<Rightarrow> bytes hash_map result option" where
  "process_passwd_file file =
     (case file of
        None \<Rightarrow> Some (Inl File_error)
      | Some buffer \<Rightarrow>
          (case passwd_loop buffer [0..<length buffer]
                  \<lparr>passwd_state = PASSWD_USER, passwd_mark = 0, passwd_username = [], passwd_map = create_hash_map 0\<rparr> of
             None \<Rightarrow> None
           | Some (Inl e) \<Rightarrow> Some (Inl e)
           | Some (Inr scan) \<Rightarrow> Some (Inr (passwd_map scan))))"

section \<open>Authentication\<close>

definition DEFAULT_AUTH_HTTP :: bytes where
  "DEFAULT_AUTH_HTTP = ascii ''Basic cm9vdDpyb290''"

definition auth_default_http :: "bytes \<Rightarrow> bool \<Rightarrow> (error option \<times> bool) option" where
  "auth_default_http authorization authorised = Some (None, authorization = DEFAULT_AUTH_HTTP)"

text \<open>
  The name and the password are copied into arrays of 128 bytes. The map of a file that could not be
  processed is a pointer that was never set.
\<close>

definition auth_file_http :: "bytes option \<Rightarrow> bytes \<Rightarrow> bool \<Rightarrow> (error option \<times> bool) option" where
  "auth_file_http file authorization authorised =
     (let token = dropWhile (\<lambda>b. b \<noteq> 0x20) authorization
      in if token = [] then Some (Some (Runtime_Exception ''Authorization value not valid''), authorised)
         else
           (case decode_base64 (tl token) of
              Inl e \<Rightarrow>
                Some (Some (if e = Out_Of_Bounds then e
                            else Runtime_Exception ''Problem decoding base 64 authorization''), authorised)
            | Inr credentials \<Rightarrow>
                (let username = takeWhile (\<lambda>b. b \<noteq> 0x3a) credentials; rest = dropWhile (\<lambda>b. b \<noteq> 0x3a) credentials
                 in if rest = [] then
                      Some (Some (Runtime_Exception ''No password separator found in authorization''), authorised)
                    else if length username \<ge> USERNAME_SIZE \<or> length (tl rest) \<ge> USERNAME_SIZE
                    then Some (Some Out_Of_Bounds, authorised)
                    else
                      (case process_passwd_file file of
                         None \<Rightarrow> None
                       | Some (Inl e) \<Rightarrow> Some (Some Out_Of_Bounds, authorised)
                       | Some (Inr passwd) \<Rightarrow>
                           (case get_value_string_hash_map passwd (c_string username) of
                              None \<Rightarrow> None
                            | Some password \<Rightarrow> Some (None, password = Some (c_string (tl rest))))))))"

text \<open>The result of the call is what the flag holds: its error is dropped.\<close>

definition auth_http :: "bytes \<Rightarrow> bytes option \<Rightarrow> bytes \<Rightarrow> bool \<Rightarrow> (error option \<times> bool) option" where
  "auth_http auth_file file authorization authorised =
     (case (if auth_file = ascii ''$default'' then auth_default_http authorization authorised
            else auth_file_http file authorization authorised) of
        None \<Rightarrow> None
      | Some (Some Out_Of_Bounds, authorised) \<Rightarrow> Some (Some Out_Of_Bounds, authorised)
      | Some (e, authorised) \<Rightarrow> Some (None, authorised))"

section \<open>The lines of the file\<close>

text \<open>A line with the name of a user, the password and maybe more behind another colon.\<close>

type_synonym passwd_line = "bytes \<times> bytes \<times> bytes option"

fun line_bytes :: "passwd_line \<Rightarrow> bytes" where
  "line_bytes (user, password, comment) =
     user @ 0x3a # password @ (case comment of None \<Rightarrow> [] | Some s \<Rightarrow> 0x3a # s) @ [0x0a]"

fun line_ok :: "passwd_line \<Rightarrow> bool" where
  "line_ok (user, password, comment) \<longleftrightarrow>
     length user < USERNAME_SIZE \<and> 0 \<notin> set user \<and> 0x3a \<notin> set user \<and> 0x0a \<notin> set user
     \<and> 0 \<notin> set password \<and> 0x3a \<notin> set password \<and> 0x0a \<notin> set password
     \<and> (case comment of None \<Rightarrow> True | Some s \<Rightarrow> 0x0a \<notin> set s)"

definition line_pair :: "passwd_line \<Rightarrow> bytes \<times> bytes option" where
  "line_pair l = (fst l, Some (fst (snd l)))"

lemma c_string_whole: "0 \<notin> set s \<Longrightarrow> c_string s = s"
  unfolding c_string_def by (induction s) auto

lemma loop_append:
  "passwd_loop buffer (xs @ ys) scan =
     (case passwd_loop buffer xs scan of
        None \<Rightarrow> None | Some (Inl e) \<Rightarrow> Some (Inl e) | Some (Inr scan) \<Rightarrow> passwd_loop buffer ys scan)"
  by (induction xs arbitrary: scan) (simp_all split: option.split sum.split)

text \<open>The bytes that do not end what the state is reading leave the variables alone.\<close>

definition ends :: "passwd_state \<Rightarrow> byte set" where
  "ends st = (if st = PASSWD_COMMENT then {0x0a} else {0x3a, 0x0a})"

lemma loop_inside:
  "\<forall>i\<in>set is. buffer ! i \<notin> ends (passwd_state scan) \<Longrightarrow> passwd_loop buffer is scan = Some (Inr scan)"
  by (induction "is") (auto simp: passwd_step_def ends_def Let_def split: passwd_state.splits if_splits)

text \<open>A part that ends with its first byte that can end it, from the mark on.\<close>

lemma loop_part:
  assumes "buffer = before @ part @ [b] @ after" and "set part \<inter> ends (passwd_state scan) = {}"
    and "passwd_mark scan = length before"
  shows "passwd_loop buffer [length before..<length before + length part + 1] scan =
      (case passwd_step buffer (length before + length part) scan of
         None \<Rightarrow> None | Some (Inl e) \<Rightarrow> Some (Inl e) | Some (Inr scan) \<Rightarrow> Some (Inr scan))"
    and "marked_bytes buffer (length before + length part) scan = part"
    and "buffer ! (length before + length part) = b"
proof -
  have "\<forall>i\<in>set [length before..<length before + length part]. buffer ! i \<notin> ends (passwd_state scan)"
  proof
    fix i assume "i \<in> set [length before..<length before + length part]"
    then have "i - length before < length part" "buffer ! i = part ! (i - length before)"
      by (auto simp: assms(1) nth_append)
    then show "buffer ! i \<notin> ends (passwd_state scan)" using assms(2) nth_mem by fastforce
  qed
  from loop_inside [OF this]
  show "passwd_loop buffer [length before..<length before + length part + 1] scan =
      (case passwd_step buffer (length before + length part) scan of
         None \<Rightarrow> None | Some (Inl e) \<Rightarrow> Some (Inl e) | Some (Inr scan) \<Rightarrow> Some (Inr scan))"
    by (simp add: loop_append split: option.split sum.split)
  show "marked_bytes buffer (length before + length part) scan = part"
    by (simp add: marked_bytes_def assms(1,3))
  show "buffer ! (length before + length part) = b" by (simp add: assms(1) nth_append)
qed

lemma upt_join: "i \<le> j \<Longrightarrow> j \<le> k \<Longrightarrow> [i..<k] = [i..<j] @ [j..<k]"
  by (metis le_Suc_ex upt_add_eq_append)

lemma passwd_line_ok:
  assumes "buffer = before @ line_bytes l @ after" and "line_ok l" and "passwd_mark scan = length before"
    and "passwd_state scan = PASSWD_USER"
  shows "\<exists>user. passwd_loop buffer [length before..<length before + length (line_bytes l)] scan =
    (case set_value_string_hash_map (fst (line_pair l)) (snd (line_pair l)) (passwd_map scan) of
       None \<Rightarrow> None
     | Some m \<Rightarrow> Some (Inr (scan\<lparr>passwd_state := PASSWD_USER, passwd_mark := length before + length (line_bytes l),
         passwd_username := user, passwd_map := m\<rparr>)))"
proof -
  obtain user password comment where l: "l = (user, password, comment)" by (cases l) auto
  define rest where "rest = (case comment of None \<Rightarrow> [] | Some s \<Rightarrow> 0x3a # s) @ [0x0a]"
  define m1 where "m1 = length before + length user"
  define m2 where "m2 = m1 + 1 + length password"
  define scan1 where "scan1 = scan\<lparr>passwd_username := user, passwd_mark := m1 + 1, passwd_state := PASSWD_PASSWORD\<rparr>"
  have user: "set user \<inter> ends PASSWD_USER = {}" "set password \<inter> ends PASSWD_PASSWORD = {}"
    using assms(2) by (auto simp: l ends_def)
  have bytes: "line_bytes l = user @ 0x3a # password @ rest" by (simp add: l rest_def)
  have end_: "length before + length (line_bytes l) = m2 + length rest"
    by (simp add: bytes m2_def m1_def)
  have b1: "buffer = before @ user @ [0x3a] @ (password @ rest @ after)" using assms(1) bytes by simp
  have b2: "buffer = (before @ user @ [0x3a]) @ password @ [hd rest] @ (tl rest @ after)"
    using assms(1) bytes by (cases comment) (simp_all add: rest_def)
  have "set user \<inter> ends (passwd_state scan) = {}" using user(1) assms(4) by simp
  note part1 = loop_part [OF b1 this assms(3), folded m1_def]
  have "passwd_step buffer m1 scan = Some (Inr scan1)"
    using assms(2,4) by (simp add: passwd_step_def part1(2,3) scan1_def c_string_whole l)
  then have first: "passwd_loop buffer [length before..<m1 + 1] scan = Some (Inr scan1)"
    unfolding part1(1) by simp
  have m1: "length (before @ user @ [0x3a]) = m1 + 1" by (simp add: m1_def)
  have hd_rest: "hd rest = (if comment = None then 0x0a else 0x3a)"
    by (cases comment) (simp_all add: rest_def)
  define scan2 where "scan2 m = scan1\<lparr>passwd_map := m, passwd_mark := m2 + 1,
      passwd_state := (if comment = None then PASSWD_USER else PASSWD_COMMENT)\<rparr>" for m
  have sel: "passwd_state scan1 = PASSWD_PASSWORD" "passwd_username scan1 = user" "passwd_map scan1 = passwd_map scan"
    by (simp_all add: scan1_def)
  have m2: "m1 + 1 + length password = m2" by (simp add: m2_def)
  have "set password \<inter> ends (passwd_state scan1) = {}" "passwd_mark scan1 = length (before @ user @ [0x3a])"
    using user(2) by (simp_all add: scan1_def m1_def)
  note part2 = loop_part [OF b2 this, unfolded m1 m2]
  have "passwd_step buffer m2 scan1 = (case set_value_string_hash_map user (Some password) (passwd_map scan) of
         None \<Rightarrow> None | Some m \<Rightarrow> Some (Inr (scan2 m)))"
    using assms(2) by (simp add: passwd_step_def part2(2,3) hd_rest c_string_whole l sel scan2_def split: option.split)
  then have second: "passwd_loop buffer [m1 + 1..<m2 + 1] scan1 =
      (case set_value_string_hash_map user (Some password) (passwd_map scan) of
         None \<Rightarrow> None | Some m \<Rightarrow> Some (Inr (scan2 m)))"
    unfolding part2(1) by (simp split: option.split)
  have third: "passwd_loop buffer [m2 + 1..<m2 + length rest] (scan2 m) =
      Some (Inr (scan2 m\<lparr>passwd_state := PASSWD_USER, passwd_mark := m2 + length rest\<rparr>))" for m
  proof (cases comment)
    case None
    then show ?thesis by (simp add: rest_def scan2_def)
  next
    case (Some s)
    have b3: "buffer = (before @ user @ [0x3a] @ password @ [0x3a]) @ s @ [0x0a] @ after"
      using assms(1) bytes Some by (simp add: rest_def)
    have m3: "length (before @ user @ [0x3a] @ password @ [0x3a]) = m2 + 1" by (simp add: m2_def m1_def)
    define m4 where "m4 = m2 + 1 + length s"
    have m4: "m2 + length rest = m4 + 1" by (simp add: rest_def Some m4_def)
    have "set s \<inter> ends (passwd_state (scan2 m)) = {}"
      "passwd_mark (scan2 m) = length (before @ user @ [0x3a] @ password @ [0x3a])"
      using assms(2) m3 by (auto simp: l Some scan2_def ends_def)
    note part3 = loop_part [OF b3 this, unfolded m3, folded m4_def]
    have "passwd_step buffer m4 (scan2 m) = Some (Inr (scan2 m\<lparr>passwd_state := PASSWD_USER, passwd_mark := m4 + 1\<rparr>))"
      by (simp add: passwd_step_def part3(2,3)) (simp add: scan2_def Some)
    then show ?thesis unfolding m4 part3(1) by simp
  qed
  have "[length before..<m2 + length rest] = [length before..<m1 + 1] @ [m1 + 1..<m2 + 1] @ [m2 + 1..<m2 + length rest]"
  proof -
    have "length before \<le> m1 + 1" "m1 + 1 \<le> m2 + 1" "m2 + 1 \<le> m2 + length rest"
      by (simp_all add: m1_def m2_def rest_def)
    then have "[length before..<m2 + length rest] = [length before..<m1 + 1] @ [m1 + 1..<m2 + length rest]"
      "[m1 + 1..<m2 + length rest] = [m1 + 1..<m2 + 1] @ [m2 + 1..<m2 + length rest]"
      by (intro upt_join; linarith)+
    then show ?thesis by (simp only:)
  qed
  note parts = this
  show ?thesis
  proof (cases "set_value_string_hash_map user (Some password) (passwd_map scan)")
    case None
    then have "passwd_loop buffer [length before..<m2 + length rest] scan = None"
      by (simp only: parts loop_append first second option.case sum.case)
    then show ?thesis using None unfolding end_ by (simp only: l line_pair_def fst_conv snd_conv option.case) simp
  next
    case (Some m)
    then have "passwd_loop buffer [length before..<m2 + length rest] scan =
        Some (Inr (scan2 m\<lparr>passwd_state := PASSWD_USER, passwd_mark := m2 + length rest\<rparr>))"
      by (simp only: parts loop_append first second third option.case sum.case)
    moreover have "scan2 m\<lparr>passwd_state := PASSWD_USER, passwd_mark := m2 + length rest\<rparr> =
        scan\<lparr>passwd_state := PASSWD_USER, passwd_mark := m2 + length rest, passwd_username := user, passwd_map := m\<rparr>"
      by (simp add: scan2_def scan1_def)
    ultimately show ?thesis using Some unfolding end_ by (simp only: l line_pair_def fst_conv snd_conv option.case) blast
  qed
qed

lemma passwd_lines_ok:
  assumes "buffer = before @ concat (map line_bytes ls)" and "\<forall>l\<in>set ls. line_ok l"
    and "passwd_mark scan = length before" and "passwd_state scan = PASSWD_USER"
    and "set_values (map line_pair ls) (passwd_map scan) = Some m"
  shows "\<exists>scan'. passwd_loop buffer [length before..<length buffer] scan = Some (Inr scan') \<and> passwd_map scan' = m"
  using assms
proof (induction ls arbitrary: before scan)
  case (Cons l ls)
  define mid where "mid = length before + length (line_bytes l)"
  obtain m1 where m1: "set_value_string_hash_map (fst (line_pair l)) (snd (line_pair l)) (passwd_map scan) = Some m1"
    "set_values (map line_pair ls) m1 = Some m"
    using Cons.prems(5) by (auto split: option.splits)
  obtain user where "passwd_loop buffer [length before..<mid] scan =
      Some (Inr (scan\<lparr>passwd_state := PASSWD_USER, passwd_mark := mid, passwd_username := user, passwd_map := m1\<rparr>))"
    using passwd_line_ok [of buffer before l "concat (map line_bytes ls)" scan] Cons.prems m1
    by (auto simp: mid_def)
  moreover have "[length before..<length buffer] = [length before..<mid] @ [mid..<length buffer]"
    by (rule upt_join) (simp_all add: Cons.prems(1) mid_def)
  moreover have "\<exists>scan'. passwd_loop buffer [length (before @ line_bytes l)..<length buffer]
      (scan\<lparr>passwd_state := PASSWD_USER, passwd_mark := mid, passwd_username := user, passwd_map := m1\<rparr>) = Some (Inr scan')
      \<and> passwd_map scan' = m"
    by (rule Cons.IH) (use Cons.prems m1 in \<open>simp_all add: mid_def\<close>)
  ultimately show ?case by (simp add: loop_append mid_def)
qed simp

section \<open>Who is authorised\<close>

lemma processed_file:
  assumes "\<forall>l\<in>set ls. line_ok l" and "inj_on calculate_string_hash_map (insert user (fst ` set ls))"
  shows "\<exists>passwd. process_passwd_file (Some (concat (map line_bytes ls))) = Some (Inr passwd) \<and>
    get_value_string_hash_map passwd user = Some (map_of (rev (map (\<lambda>l. (fst l, fst (snd l))) ls)) user)"
proof -
  have names: "fst ` set (map line_pair ls) = fst ` set ls" by (simp add: line_pair_def image_image)
  have pairs: "map_of (rev (map line_pair ls)) s = map_option Some (map_of (rev (map (\<lambda>l. (fst l, fst (snd l))) ls)) s)" for s
  proof -
    have "map_of (map line_pair xs) s = map_option Some (map_of (map (\<lambda>l. (fst l, fst (snd l))) xs) s)" for xs :: "passwd_line list"
      by (induction xs) (auto simp: line_pair_def)
    from this [of "rev ls"] show ?thesis by (simp add: rev_map)
  qed
  obtain m where m: "set_values (map line_pair ls) (create_hash_map 0) = Some m"
    "get_value_string_hash_map m user =
      Some (case map_of (rev (map line_pair ls)) user of None \<Rightarrow> None | Some v \<Rightarrow> v)"
    using hash_map.get_set_all [of "insert user (fst ` set (map line_pair ls))" "create_hash_map 0" "map line_pair ls" user]
      assms(2) unfolding names set_values_all by auto
  obtain scan where "passwd_loop (concat (map line_bytes ls)) [0..<length (concat (map line_bytes ls))]
      \<lparr>passwd_state = PASSWD_USER, passwd_mark = 0, passwd_username = [], passwd_map = create_hash_map 0\<rparr> = Some (Inr scan)"
    "passwd_map scan = m"
    using passwd_lines_ok [of "concat (map line_bytes ls)" "[]" ls
        "\<lparr>passwd_state = PASSWD_USER, passwd_mark = 0, passwd_username = [], passwd_map = create_hash_map 0\<rparr>" m] assms(1) m(1)
    by auto
  then show ?thesis using m(2) by (auto simp: process_passwd_file_def pairs split: option.split)
qed



text \<open>Credentials without a space, or without a colon once they are decoded, leave the flag as it was.\<close>

lemma auth_kept:
  assumes "0x20 \<notin> set authorization" and "auth_file \<noteq> ascii ''$default''"
  shows "auth_http auth_file file authorization authorised = Some (None, authorised)"
proof -
  have "dropWhile (\<lambda>b. b \<noteq> 0x20) authorization = []" using assms(1) by auto
  then show ?thesis using assms(2) by (simp add: auth_http_def auth_file_http_def)
qed

text \<open>The last line of a file is dropped when nothing ends it.\<close>

lemma unterminated_line:
  "\<exists>passwd. process_passwd_file (Some (ascii ''root:secret'')) = Some (Inr passwd) \<and>
    get_value_string_hash_map passwd (ascii ''root'') = Some None"
proof -
  have "\<exists>scan. passwd_loop (ascii ''root:secret'') [0..<length (ascii ''root:secret'')]
      \<lparr>passwd_state = PASSWD_USER, passwd_mark = 0, passwd_username = [], passwd_map = create_hash_map 0\<rparr> = Some (Inr scan)
      \<and> passwd_map scan = create_hash_map 0"
    by (simp add: ascii_def upt_conv_Cons passwd_step_def marked_bytes_def Let_def)
  then obtain scan where scan: "passwd_loop (ascii ''root:secret'') [0..<length (ascii ''root:secret'')]
      \<lparr>passwd_state = PASSWD_USER, passwd_mark = 0, passwd_username = [], passwd_map = create_hash_map 0\<rparr> = Some (Inr scan)"
    "passwd_map scan = create_hash_map 0" by blast
  have "get_value_string_hash_map (create_hash_map 0 :: bytes hash_map) (ascii ''root'') = Some None"
    using hash_map.get_set_all [where names = "{ascii ''root''}" and m = "create_hash_map 0" and pairs = "[]"
        and s = "ascii ''root''"] by (auto simp del: ex_simps)
  then show ?thesis using scan by (simp add: process_passwd_file_def)
qed

end
