(* ===== verification/Handler_File.thy ===== *)
theory Handler_File
  imports File_Cache Http_Auth
begin

text \<open>
  The handler of files of \<^verbatim>\<open>src/src/viriatum/handlers/handler_file.c\<close> up to the moment it answers: the
  context of a request, the locations of the configuration and the callbacks that the parser, or the
  handler that dispatches to this one, makes.

  The arrays of the context are lists of their sizes, so that a copy that does not fit in one and a string
  that nothing closes are the error \<^term>\<open>Out_Of_Bounds\<close>; an array of a new context holds whatever its
  memory held before. The line of the access log is not modelled.
\<close>

section \<open>The context and the locations\<close>

datatype http_header =
    UNDEFINED_HEADER | CONTENT_TYPE | CONTENT_LENGTH | COOKIE | HOST | ETAG | CACHE_CONTROL | AUTHORIZATION | RANGE

record file_location =
  base_path :: "bytes option"
  auth_basic :: "bytes option"
  auth_file :: "bytes option"
  push_list :: "bytes option"

text \<open>The page of a template handler is \<^term>\<open>None\<close> when the pointer to it is not set.\<close>

record handler_file_context =
  url :: bytes
  url_d :: bytes
  file_path :: bytes
  file_path_d :: bytes
  location :: file_location
  descriptor :: "nat option"
  offset :: nat
  initial_byte :: nat
  final_byte :: nat
  flags :: byte
  next_header :: http_header
  template_handler :: "bytes option option"
  cache_control_status :: nat
  cache_control :: bytes
  etag_status :: nat
  authorization_status :: nat
  authorization :: bytes
  etag :: bytes
  range_status :: nat
  range_value :: bytes

definition no_location :: file_location where
  "no_location = \<lparr>base_path = None, auth_basic = None, auth_file = None, push_list = None\<rparr>"

definition create_handler_file_context :: "(nat \<Rightarrow> nat \<Rightarrow> byte) \<Rightarrow> handler_file_context" where
  "create_handler_file_context memory =
     \<lparr>url = allocated (memory 0) VIRIATUM_MAX_URL_SIZE, url_d = allocated (memory 1) VIRIATUM_MAX_URL_SIZE,
      file_path = allocated (memory 2) VIRIATUM_MAX_PATH_SIZE, file_path_d = allocated (memory 3) VIRIATUM_MAX_PATH_SIZE,
      location = no_location, descriptor = None, offset = 0, initial_byte = 0, final_byte = 0, flags = 0,
      next_header = UNDEFINED_HEADER, template_handler = None,
      cache_control_status = 0, cache_control = allocated (memory 4) 128,
      etag_status = 0, authorization_status = 0, authorization = allocated (memory 5) 128,
      etag = allocated (memory 6) 11, range_status = 0, range_value = allocated (memory 7) 128\<rparr>"

definition close_descriptor :: "handler_file_context \<Rightarrow> kernel \<Rightarrow> kernel" where
  "close_descriptor context k = (case descriptor context of None \<Rightarrow> k | Some d \<Rightarrow> close_read d k)"

text \<open>The deletion closes the descriptor; what it releases besides is memory alone.\<close>

definition delete_handler_file_context :: "handler_file_context \<Rightarrow> kernel \<Rightarrow> kernel" where
  "delete_handler_file_context context k = close_descriptor context k"

definition reset_context :: "handler_file_context \<Rightarrow> handler_file_context" where
  "reset_context context = context
     \<lparr>descriptor := None, offset := 0, initial_byte := 0, final_byte := 0, flags := 0, etag_status := 0,
      cache_control_status := 0, authorization_status := 0, range_status := 0\<rparr>"

definition reset_http_request_handler_file :: "handler_file_context \<Rightarrow> kernel \<Rightarrow> handler_file_context \<times> kernel" where
  "reset_http_request_handler_file context k =
     (reset_context context, close_descriptor context k)"

text \<open>The values of the configuration of a location.\<close>

definition load_location :: "(bytes \<Rightarrow> bytes option) \<Rightarrow> file_location" where
  "load_location configuration =
     \<lparr>base_path = configuration (ascii ''base_path''), auth_basic = configuration (ascii ''auth_basic''),
      auth_file = configuration (ascii ''auth_file''), push_list = configuration (ascii ''push'')\<rparr>"

definition register_handler_file :: "(bytes \<Rightarrow> bytes option) list \<Rightarrow> file_location list" where
  "register_handler_file configurations = map load_location configurations"

section \<open>Strings in arrays\<close>

definition read_string :: "bytes \<Rightarrow> bytes result" where
  "read_string memory = (if 0 \<in> set memory then Inr (c_string memory) else Inl Out_Of_Bounds)"

definition VIRIATUM_BASE_PATH :: bytes where "VIRIATUM_BASE_PATH = ascii ''''"

definition Traversal_error :: error where
  "Traversal_error = Runtime_Exception ''Path traversal detected in URL''"

text \<open>
  The decoding of a string into an array, whose result the callbacks do not look at: what has been
  decoded so far is in the array even when the decoding fails.
\<close>

definition decode_into :: "bytes \<Rightarrow> nat \<Rightarrow> bytes \<Rightarrow> bytes result" where
  "decode_into source n out =
     (case decode_percent source n out of
        (Some Out_Of_Bounds, out, position) \<Rightarrow> Inl Out_Of_Bounds
      | (e, out, position) \<Rightarrow> Inr out)"

text \<open>The path of the file is built in its array, and decoded into the other one.\<close>

definition build_path :: "bytes \<Rightarrow> handler_file_context \<Rightarrow> handler_file_context result" where
  "build_path path context =
     (case store (file_path context) 0 (path @ [0]) of
        Inl e \<Rightarrow> Inl e
      | Inr built \<Rightarrow> Inr (context\<lparr>file_path := built\<rparr>))"

definition decode_path :: "nat \<Rightarrow> handler_file_context \<Rightarrow> handler_file_context result" where
  "decode_path path_size context =
     (case decode_into (file_path context) path_size (file_path_d context) of
        Inl e \<Rightarrow> Inl e
      | Inr out \<Rightarrow> Inr (context\<lparr>file_path_d := out\<rparr>))"

definition verify_path :: "bytes \<Rightarrow> handler_file_context \<Rightarrow> error option \<times> handler_file_context" where
  "verify_path path context =
     (case read_string path of
        Inl e \<Rightarrow> (Some e, context)
      | Inr s \<Rightarrow> (if is_path_safe s then (None, context) else (Some Traversal_error, context)))"

text \<open>What the two callbacks with a path have in common, with the directory the path is put behind.\<close>

definition set_url :: "bytes \<Rightarrow> bytes \<Rightarrow> handler_file_context \<Rightarrow> error option \<times> handler_file_context" where
  "set_url root path context =
     (case store (url context) 0 (path @ [0]) of
        Inl e \<Rightarrow> (Some e, context)
      | Inr array \<Rightarrow>
          (let full_path = root @ c_string array
           in case build_path full_path (context\<lparr>url := array\<rparr>) of
                Inl e \<Rightarrow> (Some e, context)
              | Inr context \<Rightarrow>
                  (case decode_into array (length path) (url_d context) of
                     Inl e \<Rightarrow> (Some e, context)
                   | Inr out \<Rightarrow>
                       (case decode_path (length full_path) (context\<lparr>url_d := out\<rparr>) of
                          Inl e \<Rightarrow> (Some e, context)
                        | Inr context \<Rightarrow> verify_path (url_d context) context))))"

section \<open>The callbacks\<close>

definition url_callback_handler_file :: "bytes \<Rightarrow> bytes \<Rightarrow> handler_file_context \<Rightarrow> error option \<times> handler_file_context" where
  "url_callback_handler_file contents_path data context =
     set_url (contents_path @ VIRIATUM_BASE_PATH) (takeWhile (\<lambda>b. b \<noteq> 0x3f) data) context"

definition path_callback_handler_file :: "bytes \<Rightarrow> bytes \<Rightarrow> handler_file_context \<Rightarrow> error option \<times> handler_file_context" where
  "path_callback_handler_file contents_path data context =
     (case base_path (location context) of
        None \<Rightarrow> set_url (contents_path @ VIRIATUM_BASE_PATH) data context
      | Some base \<Rightarrow> set_url base data context)"

text \<open>The part of the url from a position on is put behind the base path of the location.\<close>

definition location_callback_handler_file ::
    "file_location list \<Rightarrow> nat \<Rightarrow> nat \<Rightarrow> handler_file_context \<Rightarrow> error option \<times> handler_file_context" where
  "location_callback_handler_file locations index start context =
     (case table_at locations index of
        Inl e \<Rightarrow> (Some e, context)
      | Inr found \<Rightarrow>
          (let context = context\<lparr>location := found\<rparr>
           in case base_path found of
                None \<Rightarrow> (None, context)
              | Some base \<Rightarrow>
                  (case read_string (drop start (url context)) of
                     Inl e \<Rightarrow> (Some e, context)
                   | Inr partial_url \<Rightarrow>
                       (case build_path (base @ partial_url) context of
                          Inl e \<Rightarrow> (Some e, context)
                        | Inr context \<Rightarrow>
                            (case decode_path (length (base @ partial_url)) context of
                               Inl e \<Rightarrow> (Some e, context)
                             | Inr context \<Rightarrow> verify_path (file_path_d context) context)))))"

text \<open>The first four bytes of the name and its length tell the fields apart.\<close>

definition header_field_callback_handler_file :: "bytes \<Rightarrow> handler_file_context \<Rightarrow> handler_file_context" where
  "header_field_callback_handler_file data context =
     (let lowered = map to_lower (take 4 data)
      in if length data < 4 then context
         else if length data = 5 then
           (if lowered = ascii ''rang'' then context\<lparr>range_status := 1, next_header := RANGE\<rparr> else context)
         else if length data = 13 then
           (if lowered = ascii ''if-n'' then context\<lparr>etag_status := 1, next_header := ETAG\<rparr>
            else if lowered = ascii ''cach'' then context\<lparr>cache_control_status := 1, next_header := CACHE_CONTROL\<rparr>
            else if lowered = ascii ''auth'' then context\<lparr>authorization_status := 1, next_header := AUTHORIZATION\<rparr>
            else context)
         else context)"

text \<open>
  Ten bytes are read of the value of a tag whatever its length is: \<open>behind\<close> is the memory that follows
  the value. The other values are copied whole.
\<close>

definition header_value_callback_handler_file ::
    "bytes \<Rightarrow> bytes \<Rightarrow> handler_file_context \<Rightarrow> error option \<times> handler_file_context" where
  "header_value_callback_handler_file behind data context =
     (case next_header context of
        ETAG \<Rightarrow>
          (if length (data @ behind) < 10 then (Some Out_Of_Bounds, context)
           else
             (case store (etag context) 0 (take 10 (data @ behind) @ [0]) of
                Inl e \<Rightarrow> (Some e, context)
              | Inr array \<Rightarrow> (None, context\<lparr>etag := array, etag_status := 2, next_header := UNDEFINED_HEADER\<rparr>)))
      | CACHE_CONTROL \<Rightarrow>
          (case store (cache_control context) 0 (data @ [0]) of
             Inl e \<Rightarrow> (Some e, context)
           | Inr array \<Rightarrow>
               (None, context\<lparr>cache_control := array, cache_control_status := 2, next_header := UNDEFINED_HEADER\<rparr>))
      | AUTHORIZATION \<Rightarrow>
          (case store (authorization context) 0 (data @ [0]) of
             Inl e \<Rightarrow> (Some e, context)
           | Inr array \<Rightarrow>
               (None, context\<lparr>authorization := array, authorization_status := 2, next_header := UNDEFINED_HEADER\<rparr>))
      | RANGE \<Rightarrow>
          (case store (range_value context) 0 (data @ [0]) of
             Inl e \<Rightarrow> (Some e, context)
           | Inr array \<Rightarrow> (None, context\<lparr>range_value := array, range_status := 2, next_header := UNDEFINED_HEADER\<rparr>))
      | _ \<Rightarrow> (None, context\<lparr>next_header := UNDEFINED_HEADER\<rparr>))"

section \<open>The arrays of the context\<close>

text \<open>
  What is true of the context whatever is sent: its arrays keep their sizes, a status is unset, announced
  or set, and a value that is set is a string that its array closes.
\<close>

definition string_set :: "nat \<Rightarrow> bytes \<Rightarrow> bool" where
  "string_set status memory \<longleftrightarrow> status \<le> 2 \<and> (status = 2 \<longrightarrow> 0 \<in> set memory)"

definition context_ok :: "handler_file_context \<Rightarrow> bool" where
  "context_ok c \<longleftrightarrow>
     length (url c) = VIRIATUM_MAX_URL_SIZE \<and> length (url_d c) = VIRIATUM_MAX_URL_SIZE
     \<and> length (file_path c) = VIRIATUM_MAX_PATH_SIZE \<and> length (file_path_d c) = VIRIATUM_MAX_PATH_SIZE
     \<and> length (cache_control c) = 128 \<and> length (authorization c) = 128 \<and> length (range_value c) = 128
     \<and> length (etag c) = 11
     \<and> string_set (cache_control_status c) (cache_control c) \<and> string_set (authorization_status c) (authorization c)
     \<and> string_set (range_status c) (range_value c) \<and> string_set (etag_status c) (etag c)
     \<and> next_header c \<in> {UNDEFINED_HEADER, RANGE, ETAG, CACHE_CONTROL, AUTHORIZATION}"

text \<open>The calls that are made on the context of a request, one after the other.\<close>

datatype file_callback =
    On_url bytes
  | On_path bytes
  | On_location nat nat
  | On_header_field bytes
  | On_header_value bytes bytes
  | On_reset

definition run_file_callback ::
    "bytes \<Rightarrow> file_location list \<Rightarrow> file_callback \<Rightarrow> handler_file_context \<Rightarrow> error option \<times> handler_file_context" where
  "run_file_callback contents_path locations callback context =
     (case callback of
        On_url data \<Rightarrow> url_callback_handler_file contents_path data context
      | On_path data \<Rightarrow> path_callback_handler_file contents_path data context
      | On_location index start \<Rightarrow> location_callback_handler_file locations index start context
      | On_header_field data \<Rightarrow> (None, header_field_callback_handler_file data context)
      | On_header_value behind data \<Rightarrow> header_value_callback_handler_file behind data context
      | On_reset \<Rightarrow> (None, reset_context context))"

lemma decode_loop_length: "decode_percent_loop buffer n i out position = (e, out', p) \<Longrightarrow> length out' = length out"
proof (induction buffer n i out position rule: decode_percent_loop.induct)
  case (1 buffer n i out position)
  show ?case
    using "1.prems"
    by (subst (asm) decode_percent_loop.simps)
       (auto dest!: "1.IH" dest: store_length split: if_splits sum.splits prod.splits)
qed

lemma decode_percent_length: "decode_percent buffer n out = (e, out', p) \<Longrightarrow> length out' = length out"
  by (fastforce simp: decode_percent_def dest: decode_loop_length store_length split: prod.splits option.splits sum.splits)

lemma decode_into_length: "decode_into buffer n out = Inr out' \<Longrightarrow> length out' = length out"
  by (auto simp: decode_into_def dest: decode_percent_length split: prod.splits option.splits error.splits)

lemma store_closed: "store memory 0 (s @ [0]) = Inr memory' \<Longrightarrow> 0 \<in> set memory' \<and> length memory' = length memory"
  by (auto simp: store_def memcpy_def split: if_splits)

lemma build_path_ok: "build_path path c = Inr c' \<Longrightarrow> context_ok c \<Longrightarrow> context_ok c'"
  by (auto simp: build_path_def context_ok_def dest: store_length split: sum.splits)

lemma decode_path_ok: "decode_path n c = Inr c' \<Longrightarrow> context_ok c \<Longrightarrow> context_ok c'"
  by (auto simp: decode_path_def context_ok_def dest: decode_into_length split: sum.splits)

lemma verify_path_same: "verify_path path c = (e, c') \<Longrightarrow> c' = c"
  by (auto simp: verify_path_def split: sum.splits if_splits)

lemma set_url_ok:
  assumes "set_url root path c = (e, c')" and "context_ok c"
  shows "context_ok c'"
proof (cases "store (url c) 0 (path @ [0])")
  case (Inl x)
  then show ?thesis using assms by (simp add: set_url_def)
next
  case (Inr array)
  have 1: "context_ok (c\<lparr>url := array\<rparr>)"
    using assms(2) store_length [OF Inr] by (simp add: context_ok_def)
  have 2: "context_ok (d\<lparr>url_d := out\<rparr>)" if "context_ok d" "decode_into array (length path) (url_d d) = Inr out" for d out
    using that decode_into_length by (auto simp: context_ok_def)
  show ?thesis
    using assms Inr 1 2
    by (auto simp: set_url_def Let_def dest: verify_path_same build_path_ok decode_path_ok split: sum.splits)
qed

lemma location_ok:
  assumes "location_callback_handler_file locations index start c = (e, c')" and "context_ok c"
  shows "context_ok c'"
proof -
  have "context_ok (c\<lparr>location := found\<rparr>)" for found
    using assms(2) by (simp add: context_ok_def)
  then show ?thesis
    using assms
    by (auto simp: location_callback_handler_file_def Let_def dest: verify_path_same build_path_ok decode_path_ok
        split: sum.splits option.splits)
qed

lemma field_callback_ok: "context_ok c \<Longrightarrow> context_ok (header_field_callback_handler_file data c)"
  by (simp add: header_field_callback_handler_file_def context_ok_def string_set_def Let_def)

lemma reset_ok: "context_ok c \<Longrightarrow> context_ok (reset_context c)"
  by (simp add: reset_context_def context_ok_def string_set_def)

lemma value_stored_ok:
  assumes "context_ok c"
  shows
    "store (etag c) 0 (s @ [0]) = Inr a \<Longrightarrow> context_ok (c\<lparr>etag := a, etag_status := 2, next_header := UNDEFINED_HEADER\<rparr>)"
    "store (cache_control c) 0 (s @ [0]) = Inr a \<Longrightarrow>
       context_ok (c\<lparr>cache_control := a, cache_control_status := 2, next_header := UNDEFINED_HEADER\<rparr>)"
    "store (authorization c) 0 (s @ [0]) = Inr a \<Longrightarrow>
       context_ok (c\<lparr>authorization := a, authorization_status := 2, next_header := UNDEFINED_HEADER\<rparr>)"
    "store (range_value c) 0 (s @ [0]) = Inr a \<Longrightarrow>
       context_ok (c\<lparr>range_value := a, range_status := 2, next_header := UNDEFINED_HEADER\<rparr>)"
    "context_ok (c\<lparr>next_header := UNDEFINED_HEADER\<rparr>)"
  using assms store_closed [of "etag c" s a] store_closed [of "cache_control c" s a]
    store_closed [of "authorization c" s a] store_closed [of "range_value c" s a]
  by (simp_all add: context_ok_def string_set_def)

lemma value_callback_ok:
  assumes "header_value_callback_handler_file behind data c = (e, c')" and "context_ok c"
  shows "context_ok c'"
  using assms
  by (cases "next_header c")
     (auto simp del: take_append append_assoc simp: header_value_callback_handler_file_def value_stored_ok
       split: sum.splits if_splits)

lemma run_file_callback_ok:
  assumes "run_file_callback contents_path locations callback c = (e, c')" and "context_ok c"
  shows "context_ok c'"
  using assms
  by (cases callback)
     (auto simp: run_file_callback_def url_callback_handler_file_def path_callback_handler_file_def
       dest: set_url_ok location_ok value_callback_ok intro: field_callback_ok reset_ok split: option.splits)

section \<open>Where the paths lead\<close>

lemma memcpy_string:
  "length s < length m \<Longrightarrow> 0 \<notin> set s \<Longrightarrow> c_string (memcpy m 0 (s @ [0])) = s"
  by (simp add: memcpy_def c_string_append)

lemma c_string_prefix: "0 \<notin> set s \<Longrightarrow> c_string (s @ t) = s @ c_string t"
  by (induction s) (simp_all add: c_string_def)

lemma c_string_closed: "c_string (t @ 0 # rest) = c_string t"
  by (induction t) (simp_all add: c_string_def)

lemma decode_into_string:
  assumes "length s < length m" and "length s < length out" and "snd (decoded s)"
  shows "decode_into (memcpy m 0 (s @ [0])) (length s) out = Inr (memcpy out 0 (fst (decoded s) @ [0]))"
  using decode_terminated [of s out "drop (length s + 1) m"] assms
  by (simp add: decode_into_def memcpy_def)

text \<open>What the callbacks leave when no escape is cut by the end: the path is verified once all is set.\<close>

lemma set_url_decoded:
  assumes ok: "context_ok c" and path: "0 \<notin> set path" "snd (decoded path)" "length path < VIRIATUM_MAX_URL_SIZE"
    and root: "0x25 \<notin> set root" "0x2b \<notin> set root" "length (root @ path) < VIRIATUM_MAX_PATH_SIZE"
  shows "set_url root path c =
    (if is_path_safe (c_string (fst (decoded path))) then None else Some Traversal_error,
     c\<lparr>url := memcpy (url c) 0 (path @ [0]), url_d := memcpy (url_d c) 0 (fst (decoded path) @ [0]),
       file_path := memcpy (file_path c) 0 ((root @ path) @ [0]),
       file_path_d := memcpy (file_path_d c) 0 ((root @ fst (decoded path)) @ [0])\<rparr>)"
proof -
  define d where "d = fst (decoded path)"
  have sizes: "length (url c) = 4096" "length (url_d c) = 4096" "length (file_path c) = 1024" "length (file_path_d c) = 1024"
    using ok by (simp_all add: context_ok_def)
  have whole: "decoded (root @ path) = (root @ d, True)"
    using decoded_plain [OF root(1,2), of path] path(2) by (simp add: d_def)
  have d: "length d \<le> length path" using length_decoded [of path] by (simp add: d_def)
  have "decode_into (memcpy (url c) 0 (path @ [0])) (length path) (url_d c) = Inr (memcpy (url_d c) 0 (d @ [0]))"
    using decode_into_string [of path "url c" "url_d c"] path sizes by (simp add: d_def)
  moreover have "decode_into (memcpy (file_path c) 0 ((root @ path) @ [0])) (length (root @ path)) (file_path_d c)
      = Inr (memcpy (file_path_d c) 0 ((root @ d) @ [0]))"
    using decode_into_string [of "root @ path" "file_path c" "file_path_d c"] root(3) sizes whole
    by (simp del: append_assoc)
  moreover have "c_string (memcpy (url c) 0 (path @ [0])) = path"
    using path sizes by (simp add: memcpy_string)
  moreover have "read_string (memcpy (url_d c) 0 (d @ [0])) = Inr (c_string d)"
    using d path(3) sizes by (simp add: read_string_def memcpy_def c_string_closed)
  ultimately show ?thesis
    using path(3) root(3) sizes
    by (simp add: set_url_def build_path_def decode_path_def verify_path_def Let_def d_def [symmetric] del: append_assoc)
qed

lemma set_url_fits:
  assumes "set_url root path c = (None, c')" and "context_ok c" and "0 \<notin> set path"
  shows "length path < VIRIATUM_MAX_URL_SIZE \<and> length (root @ path) < VIRIATUM_MAX_PATH_SIZE"
proof -
  have sizes: "length (url c) = 4096" "length (file_path c) = 1024" using assms(2) by (simp_all add: context_ok_def)
  have "length path < 4096"
    using assms(1) sizes by (auto simp: set_url_def store_def split: if_splits)
  moreover from this have "length (root @ path) < 1024"
    using assms sizes by (auto simp: set_url_def build_path_def Let_def store_def memcpy_string split: if_splits)
  ultimately show ?thesis by simp
qed


lemma created_ok: "context_ok (create_handler_file_context memory)"
  by (simp add: create_handler_file_context_def context_ok_def string_set_def)

section \<open>What the callbacks copy\<close>

text \<open>
  The code checks no size before it copies into the arrays of the context. A callback is given what it
  has the room for when the path it sets fits in the array of paths and ends with no escape that is cut,
  the location it is told of exists, the part of the url it puts behind a base path begins inside of the
  url, and a value fits in its array, or has the bytes that are read of a tag.
\<close>

definition path_fits :: "bytes \<Rightarrow> bytes \<Rightarrow> bool" where
  "path_fits root path \<longleftrightarrow> length (root @ path) < VIRIATUM_MAX_PATH_SIZE \<and> snd (decoded path)"

definition fits :: "bytes \<Rightarrow> file_location list \<Rightarrow> file_callback \<Rightarrow> handler_file_context \<Rightarrow> bool" where
  "fits contents_path locations callback c \<longleftrightarrow>
     (case callback of
        On_url data \<Rightarrow> path_fits contents_path (takeWhile (\<lambda>b. b \<noteq> 0x3f) data)
      | On_path data \<Rightarrow> path_fits (case base_path (location c) of None \<Rightarrow> contents_path | Some base \<Rightarrow> base) data
      | On_location index start \<Rightarrow>
          index < length locations \<and>
          (case base_path (locations ! index) of
             None \<Rightarrow> True
           | Some base \<Rightarrow> 0 \<in> set (url c) \<and> start \<le> length (c_string (url c))
               \<and> path_fits [] (base @ drop start (c_string (url c))))
      | On_header_field data \<Rightarrow> True
      | On_header_value behind data \<Rightarrow>
          (if next_header c = ETAG then 10 \<le> length (data @ behind)
           else if next_header c = UNDEFINED_HEADER then True
           else length data < 128)
      | On_reset \<Rightarrow> True)"

lemma decode_into_inside:
  assumes "length s < length m" and "length s < length out"
  shows "\<exists>out'. decode_into (memcpy m 0 (s @ [0])) (length s) out = Inr out' \<and> (snd (decoded s) \<longrightarrow> 0 \<in> set out')"
  using decode_terminated [OF assms(2), of "drop (length s + 1) m"] assms(1)
  by (auto simp: decode_into_def memcpy_def Percent_error_def)

lemma build_path_fits:
  assumes "context_ok c" and "length s < VIRIATUM_MAX_PATH_SIZE"
  shows "\<exists>c'. build_path s c = Inr c' \<and> context_ok c' \<and> file_path c' = memcpy (file_path c) 0 (s @ [0])
    \<and> url_d c' = url_d c"
  using assms build_path_ok [OF _ assms(1), of s] by (auto simp: build_path_def store_def context_ok_def split: if_splits)

lemma decode_path_fits:
  assumes "context_ok c" and "length s < VIRIATUM_MAX_PATH_SIZE" and "file_path c = memcpy m 0 (s @ [0])"
    and "length m = VIRIATUM_MAX_PATH_SIZE"
  shows "\<exists>c'. decode_path (length s) c = Inr c' \<and> url_d c' = url_d c \<and> (snd (decoded s) \<longrightarrow> 0 \<in> set (file_path_d c'))"
proof -
  obtain out where "decode_into (memcpy m 0 (s @ [0])) (length s) (file_path_d c) = Inr out"
    "snd (decoded s) \<longrightarrow> 0 \<in> set out"
    using decode_into_inside [of s m "file_path_d c"] assms by (auto simp: context_ok_def)
  then show ?thesis using assms(3) by (simp add: decode_path_def)
qed

lemma verify_path_inside: "0 \<in> set path \<Longrightarrow> fst (verify_path path c) \<noteq> Some Out_Of_Bounds"
  by (simp add: verify_path_def read_string_def Traversal_error_def)

lemma set_url_inside:
  assumes "context_ok c" and "path_fits root path"
  shows "fst (set_url root path c) \<noteq> Some Out_Of_Bounds"
proof -
  have sizes: "length (url c) = 4096" "length (url_d c) = 4096" "length (file_path c) = 1024"
    using assms(1) by (simp_all add: context_ok_def)
  have short: "length path < 1024" "length (root @ c_string path) < VIRIATUM_MAX_PATH_SIZE"
    using assms(2) length_takeWhile_le [of "\<lambda>b. b \<noteq> 0" path] by (simp_all add: path_fits_def c_string_def)
  define array where "array = memcpy (url c) 0 (path @ [0])"
  have array: "store (url c) 0 (path @ [0]) = Inr array" "c_string array = c_string path" "length array = 4096"
    using short sizes by (simp_all add: array_def store_def memcpy_def c_string_closed)
  define c1 where "c1 = c\<lparr>url := array\<rparr>"
  have c1: "context_ok c1" using assms(1) array by (simp add: c1_def context_ok_def)
  obtain c2 where c2: "build_path (root @ c_string path) c1 = Inr c2" "context_ok c2"
    "file_path c2 = memcpy (file_path c) 0 ((root @ c_string path) @ [0])" "url_d c2 = url_d c"
    using build_path_fits [OF c1 short(2)] by (auto simp: c1_def)
  obtain out where out: "decode_into array (length path) (url_d c2) = Inr out" "0 \<in> set out"
    using decode_into_inside [of path "url c" "url_d c2"] short sizes c2(4) assms(2) by (auto simp: array_def path_fits_def)
  have c3: "context_ok (c2\<lparr>url_d := out\<rparr>)"
    using c2(2) decode_into_length [OF out(1)] by (simp add: context_ok_def)
  obtain c4 where c4: "decode_path (length (root @ c_string path)) (c2\<lparr>url_d := out\<rparr>) = Inr c4" "url_d c4 = out"
    using decode_path_fits [OF c3 short(2), of "file_path c"] c2(3) sizes by auto
  show ?thesis
    using verify_path_inside [of "url_d c4" c4] array(1,2) c2(1) out c4
    by (simp add: set_url_def Let_def c1_def [symmetric] del: length_append)
qed

lemma location_inside:
  assumes "context_ok c" and "fits contents_path locations (On_location index start) c"
  shows "fst (location_callback_handler_file locations index start c) \<noteq> Some Out_Of_Bounds"
proof (cases "base_path (locations ! index)")
  case None
  then show ?thesis
    using assms(2) by (simp add: fits_def location_callback_handler_file_def table_at_def)
next
  case (Some base)
  define rest where "rest = drop start (c_string (url c))"
  have index: "index < length locations" and closed: "0 \<in> set (url c)" "start \<le> length (c_string (url c))"
    and path: "length (base @ rest) < VIRIATUM_MAX_PATH_SIZE" "snd (decoded (base @ rest))"
    using assms(2) Some by (auto simp: fits_def path_fits_def rest_def)
  obtain before where url: "url c = c_string (url c) @ 0 # before"
    using closed(1) takeWhile_dropWhile_id [of "\<lambda>b. b \<noteq> 0" "url c"]
    by (metis (mono_tags, lifting) c_string_def dropWhile_eq_Nil_conv hd_Cons_tl hd_dropWhile)
  have "drop start (url c) = rest @ 0 # before"
    using closed(2) by (subst url) (simp add: rest_def)
  moreover have "0 \<notin> set rest"
    by (auto simp: rest_def c_string_def dest!: in_set_dropD set_takeWhileD)
  ultimately have rest: "read_string (drop start (url c)) = Inr rest"
    by (simp add: read_string_def c_string_prefix) (simp add: c_string_def)
  define c1 where "c1 = c\<lparr>location := locations ! index\<rparr>"
  have c1: "context_ok c1" "url c1 = url c" using assms(1) by (simp_all add: c1_def context_ok_def)
  obtain c2 where c2: "build_path (base @ rest) c1 = Inr c2" "context_ok c2"
    "file_path c2 = memcpy (file_path c) 0 ((base @ rest) @ [0])"
    using build_path_fits [OF c1(1) path(1)] by (auto simp: c1_def)
  obtain c3 where c3: "decode_path (length (base @ rest)) c2 = Inr c3" "0 \<in> set (file_path_d c3)"
    using decode_path_fits [OF c2(2) path(1) c2(3)] assms(1) path(2) by (auto simp: context_ok_def)
  show ?thesis
    using verify_path_inside [OF c3(2)] index Some rest c1(2) c2(1) c3(1)
    by (simp add: location_callback_handler_file_def table_at_def Let_def c1_def [symmetric] del: length_append)
qed

lemma value_inside:
  assumes "context_ok c" and "fits contents_path locations (On_header_value behind data) c"
  shows "fst (header_value_callback_handler_file behind data c) \<noteq> Some Out_Of_Bounds"
proof -
  have "store m 0 (s @ [0]) = Inr (memcpy m 0 (s @ [0]))" if "length s < length m" for s m :: bytes
    using that by (simp add: store_def)
  then show ?thesis
    using assms
    by (cases "next_header c")
      (simp_all add: fits_def header_value_callback_handler_file_def context_ok_def del: take_append append_assoc)
qed

lemma callback_inside:
  assumes "context_ok c" and "fits contents_path locations callback c"
  shows "fst (run_file_callback contents_path locations callback c) \<noteq> Some Out_Of_Bounds"
  using assms set_url_inside [OF assms(1)] location_inside [OF assms(1)] value_inside [OF assms(1)]
  by (cases callback)
    (auto simp: run_file_callback_def fits_def url_callback_handler_file_def path_callback_handler_file_def
      VIRIATUM_BASE_PATH_def ascii_def split: option.splits)

text \<open>
  The calls on the context of a request: what a callback returns is not looked at, but one that copies
  behind the end of an array, or reads behind it, leaves nothing that could be relied on, and ends the
  run with the callback and the context it was made on.
\<close>

primrec run_file_callbacks ::
    "bytes \<Rightarrow> file_location list \<Rightarrow> file_callback list \<Rightarrow> handler_file_context
      \<Rightarrow> (file_callback \<times> handler_file_context) + handler_file_context" where
  "run_file_callbacks contents_path locations [] context = Inr context"
| "run_file_callbacks contents_path locations (callback # callbacks) context =
     (case run_file_callback contents_path locations callback context of
        (e, context') \<Rightarrow>
          if e = Some Out_Of_Bounds then Inl (callback, context)
          else run_file_callbacks contents_path locations callbacks context')"

lemma run_callbacks_ok:
  assumes "context_ok c"
  shows "case run_file_callbacks contents_path locations callbacks c of
      Inr c' \<Rightarrow> context_ok c'
    | Inl (callback, c') \<Rightarrow> callback \<in> set callbacks \<and> context_ok c' \<and> \<not> fits contents_path locations callback c'"
  using assms
proof (induction callbacks arbitrary: c)
  case (Cons callback callbacks)
  obtain e c1 where run: "run_file_callback contents_path locations callback c = (e, c1)" by fastforce
  have c1: "context_ok c1" using run_file_callback_ok [OF run Cons.prems] .
  show ?case
  proof (cases "e = Some Out_Of_Bounds")
    case True
    then have "\<not> fits contents_path locations callback c"
      using run callback_inside [OF Cons.prems, of contents_path locations callback] by auto
    then show ?thesis using Cons.prems run True by simp
  next
    case False
    then show ?thesis using Cons.IH [OF c1] run by (auto split: sum.splits)
  qed
qed simp



text \<open>
  The path is refused only after it has been set, and what the callback returns is not looked at by the
  parser, so that the path of a file outside of the directory is there when the response is decided.
\<close>

lemma traversal_set:
  assumes "context_ok c"
  shows "\<exists>c'. url_callback_handler_file (ascii ''/srv'') (ascii ''/../key'') c = (Some Traversal_error, c')
     \<and> read_string (file_path_d c') = Inr (ascii ''/srv/../key'') \<and> resolved (ascii ''/srv/../key'') = [ascii ''key'']"
proof -
  have path: "takeWhile (\<lambda>b. b \<noteq> 0x3f) (ascii ''/../key'') = ascii ''/../key''" "0 \<notin> set (ascii ''/../key'')"
    "0x25 \<notin> set (ascii ''/srv'')" "0x2b \<notin> set (ascii ''/srv'')" "0 \<notin> set (ascii ''/srv/../key'')"
    "ascii ''/srv'' @ ascii ''/../key'' = ascii ''/srv/../key''"
    by (simp_all add: ascii_def)
  have decoded: "decoded (ascii ''/../key'') = (ascii ''/../key'', True)" by code_simp
  have "\<not> is_path_safe (c_string (ascii ''/../key''))" "resolved (ascii ''/srv/../key'') = [ascii ''key'']"
    by code_simp+
  moreover have "length (file_path_d c) = 1024" using assms by (simp add: context_ok_def)
  moreover have "url_callback_handler_file (ascii ''/srv'') (ascii ''/../key'') c =
      set_url (ascii ''/srv'') (ascii ''/../key'') c"
    unfolding url_callback_handler_file_def path(1) by (simp add: VIRIATUM_BASE_PATH_def ascii_def)
  moreover have "0 \<in> set (memcpy m 0 (s @ [0]))" for m :: bytes and s by (simp add: memcpy_def)
  ultimately show ?thesis
    using set_url_decoded [OF assms path(2), of "ascii ''/srv''"] decoded path(3-6)
      memcpy_string [of "ascii ''/srv/../key''" "file_path_d c"]
    by (simp add: read_string_def del: takeWhile_eq_all_conv)
qed

end
