(* ===== verification/File_Response.thy ===== *)
theory File_Response
  imports Handler_File Crc_32
begin

text \<open>
  The answer of the handler of files, \<^verbatim>\<open>src/src/viriatum/handlers/handler_file.c\<close>, over a connection of
  HTTP/1.1: the decision that the end of a message takes, the pages of the errors of
  \<^verbatim>\<open>src/src/viriatum/http/http_util.c\<close>, and the callbacks of the writes that send the file.

  What a write hands over is put in the queue of the connection together with its callback; the driver below
  completes the writes in their order. The engine of the templates is a parameter: the page of an error and
  the listing of a directory, \<^term>\<open>None\<close> when the page is not set. The build is one without
  \<^verbatim>\<open>VIRIATUM_DEBUG\<close>. A context that has been released is \<^term>\<open>None\<close>, and its use an error.
\<close>

section \<open>The service and the connection\<close>

record file_options =
  description :: bytes
  use_template :: bool
  error_page :: "nat \<Rightarrow> bytes \<Rightarrow> bytes option"
  listing_page :: "bytes \<Rightarrow> bytes \<Rightarrow> bytes option"
  mime_types :: "bytes \<Rightarrow> bytes option"

datatype file_write_callback = Cleanup | Send_chunk | Send_data

text \<open>A write, with the flag that says whether it closes the message, which HTTP/2 makes use of.\<close>

record file_write =
  write_bytes :: bytes
  write_last :: bool
  write_callback :: "file_write_callback option"

text \<open>The lock of the connection, whether the handler is set on it and the context that it set.\<close>

record file_connection =
  lock :: bool
  http_handler :: bool
  request_context :: "handler_file_context option"
  closed :: bool
  write_queue :: "file_write list"
  files :: file_cache
  system :: kernel

definition queue_write :: "bytes \<Rightarrow> bool \<Rightarrow> file_write_callback option \<Rightarrow> file_connection \<Rightarrow> file_connection" where
  "queue_write data is_last callback r =
     r\<lparr>write_queue := write_queue r @ [\<lparr>write_bytes = data, write_last = is_last, write_callback = callback\<rparr>]\<rparr>"

section \<open>Names of types\<close>

definition VIRIATUM_MAX_EXTENSION_SIZE :: nat where [simp]: "VIRIATUM_MAX_EXTENSION_SIZE = 256"

text \<open>The end of a path from its last dot on, the complete path when there is none.\<close>

definition extension_path :: "bytes \<Rightarrow> bytes result" where
  "extension_path s =
     (if s = [] then Inl Out_Of_Bounds
      else if 0x2e \<in> set s then Inr (0x2e # rev (takeWhile (\<lambda>b. b \<noteq> 0x2e) (rev s)))
      else Inr s)"

definition get_mime_type :: "file_options \<Rightarrow> bytes \<Rightarrow> bytes option result" where
  "get_mime_type options extension =
     (if length extension \<ge> VIRIATUM_MAX_EXTENSION_SIZE then Inl Out_Of_Bounds
      else Inr (mime_types options (map to_lower extension)))"

section \<open>The tag of a file\<close>

definition padded :: "nat \<Rightarrow> bytes \<Rightarrow> bytes" where
  "padded width s = replicate (width - length s) 0x30 @ s"

definition time_string :: "date_time \<Rightarrow> bytes" where
  "time_string time =
     padded 4 (decimal (year time)) @ ascii ''-'' @ padded 2 (decimal (month time)) @ ascii ''-''
     @ padded 2 (decimal (day time)) @ ascii '' '' @ padded 2 (decimal (hour time)) @ ascii '':''
     @ padded 2 (decimal (minute time)) @ ascii '':'' @ padded 2 (decimal (second time))"

definition hexadecimal :: "64 word \<Rightarrow> bytes" where
  "hexadecimal w = map (\<lambda>i. to_hex (ucast (drop_bit (4 * i) w AND 15))) (rev [0..<8])"

text \<open>The array of the text has 20 bytes and 19 of them are read.\<close>

definition file_etag :: "date_time \<Rightarrow> bytes result" where
  "file_etag time =
     (let s = time_string time
      in if length s \<ge> 20 then Inl Out_Of_Bounds
         else Inr ([0x22] @ hexadecimal (crc_32 (take 19 (s @ [0]))) @ [0x22]))"

section \<open>The pages of errors\<close>

definition ETAG_H :: bytes where "ETAG_H = ascii ''ETag''"
definition LOCATION_H :: bytes where "LOCATION_H = ascii ''Location''"
definition CONTENT_TYPE_H :: bytes where "CONTENT_TYPE_H = ascii ''Content-Type''"
definition ACCEPT_RANGES_H :: bytes where "ACCEPT_RANGES_H = ascii ''Accept-Ranges''"
definition CONTENT_RANGE_H :: bytes where "CONTENT_RANGE_H = ascii ''Content-Range''"

definition content_fields :: "nat \<Rightarrow> (bytes \<times> bytes) list" where
  "content_fields n = [(CONTENT_LENGTH_H, decimal n), (CACHE_CONTROL_H, cache_code NO_CACHE)]"

definition write_error_http ::
    "file_options \<Rightarrow> bytes \<Rightarrow> http_version \<Rightarrow> nat \<Rightarrow> bytes \<Rightarrow> http_keep_alive \<Rightarrow> bytes option \<Rightarrow> bytes
      \<Rightarrow> file_write_callback \<Rightarrow> file_connection \<Rightarrow> file_connection result" where
  "write_error_http options buffer version code message mode realm text callback r =
     (if (\<exists>s. realm = Some s \<and> length s + 14 \<ge> VIRIATUM_MAX_HEADER_SIZE) then Inl Out_Of_Bounds
      else
        (case write_head_http (description options) buffer version code message mode
                (content_fields (length text) @
                 (case realm of None \<Rightarrow> []
                  | Some s \<Rightarrow> [(WWW_AUTHENTICATE_H, ascii ''Basic realm='' @ [0x22] @ s @ [0x22])])) of
           Inl e \<Rightarrow> Inl e
         | Inr head \<Rightarrow> Inr (queue_write text True (Some callback) (queue_write head False None r))))"

text \<open>
  The description of the error is dropped in this build. The text that is written in the place of a page
  is built in an array of 1024 bytes; a page that is missing takes the realm with it.
\<close>

definition write_http_error_a ::
    "file_options \<Rightarrow> bytes \<Rightarrow> http_version \<Rightarrow> nat \<Rightarrow> bytes \<Rightarrow> bytes option \<Rightarrow> http_keep_alive
      \<Rightarrow> file_write_callback \<Rightarrow> file_connection \<Rightarrow> file_connection result" where
  "write_http_error_a options buffer version code message realm mode callback r =
     (let plain = decimal code @ ascii '' - '' @ message @ ascii '' - '' @ description options;
          page = (if use_template options then error_page options code message else None);
          missing = (page = None \<or> page = Some [])
      in if missing then
           (if length plain \<ge> 1024 then Inl Out_Of_Bounds
            else write_error_http options buffer version code message mode
                   (if use_template options then None else realm) plain callback r)
         else write_error_http options buffer version code message mode realm (the page) callback r)"

definition write_http_error ::
    "file_options \<Rightarrow> bytes \<Rightarrow> http_version \<Rightarrow> nat \<Rightarrow> bytes \<Rightarrow> http_keep_alive
      \<Rightarrow> file_write_callback \<Rightarrow> file_connection \<Rightarrow> file_connection result" where
  "write_http_error options buffer version code message mode callback r =
     write_http_error_a options buffer version code message None mode callback r"

section \<open>The end of a message\<close>

definition is_directory_file :: "bytes \<Rightarrow> kernel \<Rightarrow> bool \<times> kernel" where
  "is_directory_file path k =
     (case names k path of
        None \<Rightarrow> (False, k\<lparr>errno := ENOENT\<rparr>)
      | Some n \<Rightarrow> (is_directory (inodes k n), k))"

text \<open>What a path is: the entry of the cache, a directory, or a file that cannot be had.\<close>

datatype located = File file_cache_entry | Directory | Missing

definition locate_file :: "bytes \<Rightarrow> file_connection \<Rightarrow> located \<times> file_connection" where
  "locate_file path r =
     (case acquire_file_cache path (files r) (system r) of
        (Inr i, cache, k) \<Rightarrow> (File (cache ! i), r\<lparr>files := cache, system := k\<rparr>)
      | (Inl e, cache, k) \<Rightarrow>
          (if errno k = EISDIR then (Directory, r\<lparr>files := cache, system := k\<rparr>)
           else if errno k = ENOENT then (Missing, r\<lparr>files := cache, system := k\<rparr>)
           else
             (case is_directory_file path k of
                (directory, k) \<Rightarrow> (if directory then Directory else Missing, r\<lparr>files := cache, system := k\<rparr>))))"

definition file_contents :: "kernel \<Rightarrow> bytes \<Rightarrow> bytes option" where
  "file_contents k path =
     (case names k path of
        None \<Rightarrow> None
      | Some n \<Rightarrow> if readable (inodes k n) \<and> \<not> is_directory (inodes k n) then Some (file_bytes (inodes k n)) else None)"

text \<open>The outer option is the one of the hash map of the passwords.\<close>

definition authorised :: "handler_file_context \<Rightarrow> kernel \<Rightarrow> bool result option" where
  "authorised c k =
     (case auth_basic (location c) of
        None \<Rightarrow> Some (Inr True)
      | Some realm \<Rightarrow>
          (if authorization_status c \<noteq> 2 then Some (Inr False)
           else
             (case (auth_file (location c), read_string (authorization c)) of
                (Some path, Inr credentials) \<Rightarrow>
                  (case auth_http path (file_contents k path) credentials True of
                     None \<Rightarrow> None
                   | Some (Some e, ok) \<Rightarrow> Some (Inl e)
                   | Some (None, ok) \<Rightarrow> Some (Inr ok))
              | _ \<Rightarrow> Some (Inl Out_Of_Bounds))))"

definition keep_mode :: "byte \<Rightarrow> http_keep_alive" where
  "keep_mode fs = (if fs AND FLAG_KEEP_ALIVE \<noteq> 0 then KEEP_ALIVE else KEEP_CLOSE)"

text \<open>A head that is written at once, with what follows it.\<close>

definition write_head ::
    "file_options \<Rightarrow> bytes \<Rightarrow> http_request \<Rightarrow> nat \<Rightarrow> bytes \<Rightarrow> (bytes \<times> bytes) list \<Rightarrow> bool
      \<Rightarrow> file_write_callback option \<Rightarrow> file_connection \<Rightarrow> file_connection result" where
  "write_head options buffer request code message pairs is_last callback r =
     (case write_head_http (description options) buffer (request_version request) code message
             (keep_mode (request_flags request)) pairs of
        Inl e \<Rightarrow> Inl e
      | Inr head \<Rightarrow> Inr (queue_write head is_last callback r))"

text \<open>The array of the location has 1024 bytes and gets the url, a slash and the zero.\<close>

definition answer_directory ::
    "file_options \<Rightarrow> bytes \<Rightarrow> http_request \<Rightarrow> handler_file_context \<Rightarrow> bytes \<Rightarrow> bool \<Rightarrow> file_connection \<Rightarrow> file_connection result" where
  "answer_directory options buffer request c path allowed r =
     (case (read_string (url c), read_string (url_d c)) of
        (Inr u, Inr u_d) \<Rightarrow>
          (if u = [] then Inl Out_Of_Bounds
           else if last u \<noteq> 0x2f then
             (if length u + 2 > VIRIATUM_MAX_PATH_SIZE then Inl Out_Of_Bounds
              else if \<not> allowed then
                write_http_error_a options buffer HTTP11 401 (ascii ''Unauthorized'') (auth_basic (location c))
                  (keep_mode (request_flags request)) Cleanup r
              else write_head options buffer request 307 (ascii ''Temporary Redirect'')
                     [(CONTENT_LENGTH_H, ascii ''0''), (LOCATION_H, u @ [0x2f])] True (Some Cleanup) r)
           else
             (let page = listing_page options u_d path;
                  r = r\<lparr>request_context := Some (c\<lparr>template_handler := Some page\<rparr>)\<rparr>
              in if \<not> allowed then
                   write_http_error_a options buffer HTTP11 401 (ascii ''Unauthorized'') (auth_basic (location c))
                     (keep_mode (request_flags request)) Cleanup r
                 else
                   (case page of
                      None \<Rightarrow> Inl Out_Of_Bounds
                    | Some text \<Rightarrow>
                        (case write_head options buffer request 200 (ascii ''OK'') (content_fields (length text)) False None r of
                           Inl e \<Rightarrow> Inl e
                         | Inr r \<Rightarrow>
                             Inr (queue_write text True (Some Send_data)
                                    (r\<lparr>request_context := Some (c\<lparr>template_handler := Some None\<rparr>)\<rparr>))))))
      | _ \<Rightarrow> Inl Out_Of_Bounds)"

text \<open>
  The length that is announced for a range is computed in a \<^verbatim>\<open>size_t\<close>, and so is the last byte of a
  complete file.
\<close>

definition range_length :: "nat \<Rightarrow> nat \<Rightarrow> nat" where
  "range_length first final = (final + 1 + 2 ^ 64 - first) mod 2 ^ 64"

text \<open>A \<^verbatim>\<open>long int\<close> as it is printed.\<close>

definition signed_decimal :: "nat \<Rightarrow> bytes" where
  "signed_decimal n = (if long_long n < 0 then ascii ''-'' @ decimal (nat (- long_long n)) else decimal n)"

definition range_text :: "nat \<Rightarrow> nat \<Rightarrow> nat \<Rightarrow> bytes" where
  "range_text first final file_size =
     ascii ''bytes '' @ signed_decimal first @ ascii ''-'' @ signed_decimal final @ ascii ''/'' @ signed_decimal file_size"

definition answer_file ::
    "file_options \<Rightarrow> bytes \<Rightarrow> http_request \<Rightarrow> handler_file_context \<Rightarrow> bytes \<Rightarrow> file_cache_entry \<Rightarrow> bool
      \<Rightarrow> file_connection \<Rightarrow> file_connection result" where
  "answer_file options buffer request c path entry allowed r =
     (let file_size = cache_size entry
      in case file_etag (cache_time entry) of
           Inl e \<Rightarrow> Inl e
         | Inr tag \<Rightarrow>
             (if \<not> allowed then
                write_http_error_a options buffer HTTP11 401 (ascii ''Unauthorized'') (auth_basic (location c))
                  (keep_mode (request_flags request)) Cleanup r
              else if etag_status c = 2 \<and> read_string (etag c) = Inl Out_Of_Bounds then Inl Out_Of_Bounds
              else if etag_status c = 2 \<and> read_string (etag c) = Inr tag then
                write_head options buffer request 304 (ascii ''Not Modified'') (content_fields 0) True (Some Cleanup) r
              else if range_status c = 2 then
                (case read_string (range_value c) of
                   Inl e \<Rightarrow> Inl e
                 | Inr header \<Rightarrow>
                     (let (first, final) = get_http_range_limits header file_size;
                          r = r\<lparr>request_context := Some (c\<lparr>initial_byte := first, final_byte := final\<rparr>)\<rparr>
                      in if length (range_text first final file_size) \<ge> 64 then Inl Out_Of_Bounds
                         else write_head options buffer request 206 (ascii ''Partial content'')
                           (content_fields (range_length first final)
                            @ [(CONTENT_RANGE_H, range_text first final file_size)])
                           False (Some Send_chunk) r))
              else
                (let r = r\<lparr>request_context := Some (c\<lparr>initial_byte := 0, final_byte := (file_size + 2 ^ 64 - 1) mod 2 ^ 64\<rparr>)\<rparr>
                 in case extension_path path of
                      Inl e \<Rightarrow> Inl e
                    | Inr extension \<Rightarrow>
                        (case get_mime_type options extension of
                           Inl e \<Rightarrow> Inl e
                         | Inr mime_type \<Rightarrow>
                             write_head options buffer request 200 (ascii ''OK'')
                               (content_fields file_size
                                @ (case mime_type of None \<Rightarrow> [] | Some t \<Rightarrow> [(CONTENT_TYPE_H, t)])
                                @ [(ACCEPT_RANGES_H, ascii ''bytes''), (ETAG_H, tag)])
                               False (Some Send_chunk) r))))"

text \<open>The description of a file that is not found is printed into an array of 1024 bytes, and then dropped.\<close>

definition message_complete_callback_handler_file ::
    "file_options \<Rightarrow> bytes \<Rightarrow> http_request \<Rightarrow> file_connection \<Rightarrow> file_connection result option" where
  "message_complete_callback_handler_file options buffer request r =
     (case request_context r of
        None \<Rightarrow> Some (Inl Out_Of_Bounds)
      | Some c \<Rightarrow>
          (case read_string (file_path_d c) of
             Inl e \<Rightarrow> Some (Inl e)
           | Inr path \<Rightarrow>
               (case locate_file path (r\<lparr>lock := True\<rparr>) of
                  (found, r) \<Rightarrow>
                    (case authorised c (system r) of
                       None \<Rightarrow> None
                     | Some (Inl e) \<Rightarrow> Some (Inl e)
                     | Some (Inr ok) \<Rightarrow>
                         (let c = c\<lparr>flags := request_flags request\<rparr>;
                              r = r\<lparr>request_context := Some c\<rparr>
                          in Some
                               (case found of
                                  Missing \<Rightarrow>
                                    (case print_at (replicate VIRIATUM_MAX_PATH_SIZE 0) 0
                                            (ascii ''File not found ('' @ path @ ascii '')'') of
                                       Inl e \<Rightarrow> Inl e
                                     | Inr error_description \<Rightarrow>
                                         write_http_error options buffer HTTP11 404 (ascii ''Not Found'')
                                           (keep_mode (request_flags request)) Cleanup r)
                                | Directory \<Rightarrow> answer_directory options buffer request c path ok r
                                | File entry \<Rightarrow> answer_file options buffer request c path entry ok r))))))"

section \<open>The callbacks of the writes\<close>

definition unset_handler_file :: "file_connection \<Rightarrow> file_connection result" where
  "unset_handler_file r =
     (case request_context r of
        None \<Rightarrow> Inl Out_Of_Bounds
      | Some c \<Rightarrow> Inr (r\<lparr>request_context := None, system := delete_handler_file_context c (system r)\<rparr>))"

definition cleanup_handler_file :: "file_connection \<Rightarrow> file_connection result" where
  "cleanup_handler_file r =
     (case request_context r of
        None \<Rightarrow> Inl Out_Of_Bounds
      | Some c \<Rightarrow>
          (case (if http_handler r
                 then (case unset_handler_file r of Inl e \<Rightarrow> Inl e | Inr r \<Rightarrow> Inr (r\<lparr>http_handler := False\<rparr>))
                 else Inr r) of
             Inl e \<Rightarrow> Inl e
           | Inr r \<Rightarrow> Inr (if flags c AND FLAG_KEEP_ALIVE = 0 then r\<lparr>closed := True\<rparr> else r\<lparr>lock := False\<rparr>)))"

definition FILE_BUFFER_SIZE_HANDLER_FILE :: nat where [simp]: "FILE_BUFFER_SIZE_HANDLER_FILE = 262144"

text \<open>The part of the file from the offset of the context on, with its descriptor.\<close>

definition send_part :: "handler_file_context \<Rightarrow> nat \<Rightarrow> file_connection \<Rightarrow> file_connection result" where
  "send_part c d r =
     (let remaining = range_length (offset c) (final_byte c);
          buffer_size = (if remaining < FILE_BUFFER_SIZE_HANDLER_FILE then remaining else FILE_BUFFER_SIZE_HANDLER_FILE);
          part = (case read_at d buffer_size (offset c) (system r) of None \<Rightarrow> [] | Some bs \<Rightarrow> bs);
          c = c\<lparr>offset := offset c + length part\<rparr>
      in if length part > 0 then
           Inr (queue_write part (length part = remaining) (Some Send_chunk) (r\<lparr>request_context := Some c\<rparr>))
         else
           (case cleanup_handler_file (r\<lparr>request_context := Some (c\<lparr>descriptor := None\<rparr>)\<rparr>) of
              Inl e \<Rightarrow> Inl e
            | Inr r \<Rightarrow> Inr (r\<lparr>system := close_read d (system r)\<rparr>)))"

definition send_chunk_handler_file :: "file_connection \<Rightarrow> file_connection result" where
  "send_chunk_handler_file r =
     (case request_context r of
        None \<Rightarrow> Inl Out_Of_Bounds
      | Some c \<Rightarrow>
          (case descriptor c of
             Some d \<Rightarrow> send_part c d r
           | None \<Rightarrow>
               (case read_string (file_path_d c) of
                  Inl e \<Rightarrow> Inl e
                | Inr path \<Rightarrow>
                    (case open_file_cache path (files r) (system r) of
                       (Inl e, cache, k) \<Rightarrow> cleanup_handler_file (r\<lparr>files := cache, system := k\<rparr>)
                     | (Inr d, cache, k) \<Rightarrow>
                         (let c = c\<lparr>descriptor := Some d, offset := initial_byte c\<rparr>
                          in send_part c d (r\<lparr>files := cache, system := k, request_context := Some c\<rparr>))))))"

definition send_data_handler_file :: "file_connection \<Rightarrow> file_connection result" where
  "send_data_handler_file r =
     (case request_context r of
        None \<Rightarrow> Inl Out_Of_Bounds
      | Some c \<Rightarrow> cleanup_handler_file (r\<lparr>request_context := Some (c\<lparr>template_handler := None\<rparr>)\<rparr>))"

definition run_write_callback :: "file_write_callback option \<Rightarrow> file_connection \<Rightarrow> file_connection result" where
  "run_write_callback callback r =
     (case callback of
        None \<Rightarrow> Inr r
      | Some Cleanup \<Rightarrow> cleanup_handler_file r
      | Some Send_chunk \<Rightarrow> send_chunk_handler_file r
      | Some Send_data \<Rightarrow> send_data_handler_file r)"

text \<open>The first write of the queue is completed: its bytes are sent and its callback is run.\<close>

fun complete_writes :: "nat \<Rightarrow> file_connection \<Rightarrow> (bytes \<times> file_connection) result" where
  "complete_writes 0 r = Inr ([], r)"
| "complete_writes (Suc n) r =
     (case write_queue r of
        [] \<Rightarrow> Inr ([], r)
      | write # writes \<Rightarrow>
          (case run_write_callback (write_callback write) (r\<lparr>write_queue := writes\<rparr>) of
             Inl e \<Rightarrow> Inl e
           | Inr r \<Rightarrow>
               (case complete_writes n r of
                  Inl e \<Rightarrow> Inl e
                | Inr (sent, r) \<Rightarrow> Inr (write_bytes write @ sent, r))))"

section \<open>The sending of a file\<close>

lemma range_length_part:
  "first \<le> final \<Longrightarrow> final < 2 ^ 63 \<Longrightarrow> range_length first final = final + 1 - first"
  by (simp add: range_length_def mod_if)

lemma range_length_shift:
  assumes "range_length first final = left" and "first + left < 2 ^ 63" and "m \<le> left"
  shows "range_length (first + m) final = left - m"
proof -
  define total where "total = final + 1 + 2 ^ 64 - first"
  have left: "left = total mod 2 ^ 64" using assms(1) by (simp add: range_length_def total_def)
  then have total: "total = 2 ^ 64 * (total div 2 ^ 64) + left" by simp
  have "final + 1 + 2 ^ 64 - (first + m) = total - m" by (simp add: total_def)
  also have "\<dots> = 2 ^ 64 * (total div 2 ^ 64) + (left - m)" using total assms(3) by linarith
  finally have "range_length (first + m) final = (2 ^ 64 * (total div 2 ^ 64) + (left - m)) mod 2 ^ 64"
    by (simp only: range_length_def)
  also have "\<dots> = (left - m) mod 2 ^ 64" by (rule mod_mult_self4)
  also have "\<dots> = left - m" using assms(2) by simp
  finally show ?thesis .
qed

text \<open>
  What is left when a response is over: the context is released with its descriptor, the handler is taken
  off the connection, and the connection is closed or goes on to the next message.
\<close>

definition finished :: "byte \<Rightarrow> file_connection \<Rightarrow> file_connection \<Rightarrow> bool" where
  "finished fs r r' \<longleftrightarrow>
     request_context r' = None \<and> \<not> http_handler r' \<and> write_queue r' = [] \<and> files r' = files r
     \<and> (if fs AND FLAG_KEEP_ALIVE = 0 then closed r' else \<not> lock r' \<and> closed r' = closed r)"

lemma send_part_all:
  assumes "request_context r = Some c" and "http_handler r" and "write_queue r = []"
    and "open_at (system r) d = Some n" and "\<not> is_directory (inodes (system r) n)"
    and "\<And>x. 0 < read_limit (system r) x"
    and "offset c + left \<le> length (file_bytes (inodes (system r) n))"
    and "range_length (offset c) (final_byte c) = left" and "offset c + left < 2 ^ 63"
    and "descriptor c = Some d"
  shows "\<exists>N r1 r2. send_part c d r = Inr r1
     \<and> complete_writes N r1 = Inr (take left (drop (offset c) (file_bytes (inodes (system r) n))), r2)
     \<and> finished (flags c) r r2 \<and> system r2 = close_read d (system r)"
  using assms
proof (induction left arbitrary: c r rule: less_induct)
  case (less left)
  define bs where "bs = file_bytes (inodes (system r) n)"
  define asked where "asked = min (min left 262144) (read_limit (system r) (offset c))"
  define part where "part = take asked (drop (offset c) bs)"
  have read: "read_at d (if left < 262144 then left else 262144) (offset c) (system r) = Some part"
    using less.prems(4,5) by (simp add: read_at_def part_def bs_def asked_def min_def)
  show ?case
  proof (cases "left = 0")
    case True
    then have "part = []" by (simp add: part_def asked_def)
    then show ?thesis
      using less.prems True read
      by (intro exI [of _ 0])
         (auto simp: send_part_def cleanup_handler_file_def unset_handler_file_def delete_handler_file_context_def
           close_descriptor_def finished_def Let_def)
  next
    case False
    have n: "0 < length part" "length part = asked" "asked \<le> left"
      using False less.prems(6) [of "offset c"] less.prems(7) by (auto simp: part_def asked_def bs_def min_def)
    define c1 where "c1 = c\<lparr>offset := offset c + length part\<rparr>"
    define r1 where "r1 = r\<lparr>request_context := Some c1\<rparr>"
    have sent: "send_part c d r = Inr (queue_write part (length part = left) (Some Send_chunk) r1)"
      unfolding send_part_def less.prems(8) Let_def FILE_BUFFER_SIZE_HANDLER_FILE_def read
      using n by (simp add: c1_def r1_def)
    have more: "range_length (offset c1) (final_byte c1) = left - length part"
      using range_length_shift [OF less.prems(8,9), of "length part"] n by (simp add: c1_def)
    have "\<exists>N r2 r3. send_part c1 d r1 = Inr r2
        \<and> complete_writes N r2 = Inr (take (left - length part) (drop (offset c1) (file_bytes (inodes (system r1) n))), r3)
        \<and> finished (flags c1) r1 r3 \<and> system r3 = close_read d (system r1)"
    proof (rule less.IH)
      show "left - length part < left" using n False by simp
      show "\<And>x. 0 < read_limit (system r1) x" using less.prems(6) by (simp add: r1_def)
    qed (use less.prems n more in \<open>simp_all add: r1_def c1_def\<close>)
    then obtain N r2 r3 where r2: "send_part c1 d r1 = Inr r2"
      and r3: "complete_writes N r2 = Inr (take (left - length part) (drop (offset c1) bs), r3)"
        "finished (flags c1) r1 r3" "system r3 = close_read d (system r1)"
      by (auto simp: r1_def bs_def)
    have same: "r1\<lparr>write_queue := []\<rparr> = r1" using less.prems(3) by (simp add: r1_def)
    have "run_write_callback (Some Send_chunk) (r1\<lparr>write_queue := []\<rparr>) = Inr r2"
      unfolding same using r2 less.prems(10) by (simp add: run_write_callback_def send_chunk_handler_file_def r1_def c1_def)
    then have "complete_writes (Suc N) (queue_write part (length part = left) (Some Send_chunk) r1) =
        Inr (part @ take (left - length part) (drop (offset c1) bs), r3)"
      using r3(1) less.prems(3) by (simp add: queue_write_def r1_def)
    moreover have "part @ take (left - length part) (drop (offset c1) bs) = take left (drop (offset c) bs)"
    proof -
      have "take left (drop (offset c) bs) = take (length part + (left - length part)) (drop (offset c) bs)"
        using n by simp
      also have "\<dots> = take (length part) (drop (offset c) bs) @ take (left - length part) (drop (length part) (drop (offset c) bs))"
        by (rule take_add)
      also have "take (length part) (drop (offset c) bs) = part" using n by (simp add: part_def)
      finally show ?thesis by (simp add: c1_def add.commute)
    qed
    moreover have "finished (flags c) r r3" "system r3 = close_read d (system r)"
      using r3(2,3) by (simp_all add: finished_def r1_def c1_def)
    ultimately show ?thesis
      using sent unfolding bs_def [symmetric]
      by (intro exI [of _ "Suc N"] exI [of _ "queue_write part (length part = left) (Some Send_chunk) r1"] exI [of _ r3])
         simp
  qed
qed

section \<open>The whole response\<close>

text \<open>The part of the file that is asked for, and the head that announces it.\<close>

definition asked_range :: "handler_file_context \<Rightarrow> nat \<Rightarrow> nat \<times> nat" where
  "asked_range c file_size =
     (if range_status c = 2 then get_http_range_limits (c_string (range_value c)) file_size
      else (0, (file_size + 2 ^ 64 - 1) mod 2 ^ 64))"

definition file_head :: "file_options \<Rightarrow> bytes \<Rightarrow> handler_file_context \<Rightarrow> byte \<Rightarrow> bytes \<Rightarrow> nat \<Rightarrow> bytes \<Rightarrow> bytes" where
  "file_head options v c fs extension file_size tag =
     (case asked_range c file_size of
        (first, final) \<Rightarrow>
          (if range_status c = 2 then
             status_lines (description options) v 206 (ascii ''Partial content'') (keep_mode fs)
             @ head_lines (content_fields (range_length first final) @ [(CONTENT_RANGE_H, range_text first final file_size)])
           else
             status_lines (description options) v 200 (ascii ''OK'') (keep_mode fs)
             @ head_lines (content_fields file_size
                 @ (case mime_types options (map to_lower extension) of None \<Rightarrow> [] | Some t \<Rightarrow> [(CONTENT_TYPE_H, t)])
                 @ [(ACCEPT_RANGES_H, ascii ''bytes''), (ETAG_H, tag)]))
          @ CRLF)"

lemma write_head_fits:
  assumes "version_code (request_version request) = Inr v"
    and "length (status_lines (description options) v code message (keep_mode (request_flags request))
           @ head_lines pairs @ CRLF) < length buffer"
  shows "write_head options buffer request code message pairs is_last callback r =
    Inr (queue_write (status_lines (description options) v code message (keep_mode (request_flags request))
           @ head_lines pairs @ CRLF) is_last callback r)"
  using head_written [OF assms(1), of "description options" code message "keep_mode (request_flags request)" buffer pairs]
    assms(2)
  by (auto simp: write_head_def)

lemma answer_file_sends:
  assumes "request_context r = Some c" and "file_etag (cache_time entry) = Inr tag" and "cache_size entry = file_size"
    and "etag_status c \<noteq> 2" and "range_status c = 2 \<longrightarrow> 0 \<in> set (range_value c)"
    and "asked_range c file_size = (first, final)" and "range_status c = 2 \<longrightarrow> length (range_text first final file_size) < 64"
    and "version_code (request_version request) = Inr v"
    and "extension_path path = Inr extension" and "length extension < 256"
    and "length (file_head options v c (request_flags request) extension file_size tag) < length buffer"
  shows "answer_file options buffer request c path entry True r =
    Inr (queue_write (file_head options v c (request_flags request) extension file_size tag) False (Some Send_chunk)
      (r\<lparr>request_context := Some (c\<lparr>initial_byte := first, final_byte := final\<rparr>)\<rparr>))"
proof (cases "range_status c = 2")
  case True
  then show ?thesis
    using assms by (auto simp: answer_file_def Let_def read_string_def asked_range_def file_head_def write_head_fits)
next
  case False
  then show ?thesis
    using assms by (auto simp: answer_file_def Let_def asked_range_def file_head_def get_mime_type_def write_head_fits)
qed

lemma length_decimal: "n < 10 ^ Suc k \<Longrightarrow> length (decimal n) \<le> Suc k"
proof (induction k arbitrary: n)
  case 0
  then show ?case by (simp add: decimal.simps)
next
  case (Suc k)
  then have "n div 10 < 10 ^ Suc k" by (simp add: less_mult_imp_div_less)
  from Suc.IH [OF this] show ?case by (subst decimal.simps) simp
qed

lemma length_range_text:
  assumes "first < 10 ^ 18" and "final < 10 ^ 18" and "file_size < 10 ^ 18"
  shows "length (range_text first final file_size) < 64"
proof -
  have "length (signed_decimal n) \<le> 18" if "n < 10 ^ 18" for n
    using length_decimal [of n 17] that by (simp add: signed_decimal_def long_long_def)
  from this [OF assms(1)] this [OF assms(2)] this [OF assms(3)] show ?thesis by (simp add: range_text_def)
qed

lemma read_string_length: "read_string m = Inr s \<Longrightarrow> length s < length m"
proof -
  assume "read_string m = Inr s"
  then have s: "0 \<in> set m" "s = takeWhile (\<lambda>b. b \<noteq> 0) m" by (auto simp: read_string_def c_string_def split: if_splits)
  have "length s \<noteq> length m"
  proof
    assume "length s = length m"
    then have "takeWhile (\<lambda>b. b \<noteq> 0) m = m" using s(2) by (metis takeWhile_eq_take take_all_iff order_refl)
    then show False using s(1) by (metis (mono_tags, lifting) set_takeWhileD)
  qed
  then show ?thesis using length_takeWhile_le [of _ m] s(2) by (metis le_neq_implies_less)
qed

lemma locate_file_served:
  assumes ok: "accounted base (files r, system r, held)" and path: "length path < 1024"
    and named: "names (system r) path = Some n" "readable (inodes (system r) n)" "\<not> is_directory (inodes (system r) n)"
    and kept: "\<forall>d. cache_descriptor (files r ! cache_index path) = Some d \<and> cache_path (files r ! cache_index path) = path
      \<longrightarrow> open_at (system r) d = Some n"
    and room: "length (descriptors (system r)) + 2 \<le> descriptor_limit (system r)"
  shows "\<exists>cache k. locate_file path r = (File (cache ! cache_index path), r\<lparr>files := cache, system := k\<rparr>)
     \<and> accounted base (cache, k, held) \<and> answers k path (cache ! cache_index path) n \<and> same_world (system r) k
     \<and> acquire_file_cache path cache k = (Inr (cache_index path), cache, k)
     \<and> length (descriptors k) < descriptor_limit k"
proof -
  define i where "i = cache_index path"
  obtain q cache k where acquire: "acquire_file_cache path (files r) (system r) = (q, cache, k)" by (metis prod_cases3)
  note acquired = acquire_accounted [OF ok acquire]
  have "\<not> refused (system r) path k" using named room by (auto simp: refused_def)
  then have q: "q = Inr i" using acquired path by (cases q) (auto simp: i_def)
  have world: "same_world (system r) k" using acquired by blast
  have clock: "clock k = clock (system r)" using world by (simp add: same_world_def)
  obtain m where m: "answers k path (cache ! i) m"
    and how: "(names (system r) path = Some m \<and> cache_checked (cache ! i) = clock (system r)) \<or>
      (\<exists>d. cache_descriptor (files r ! i) = Some d \<and> open_at (system r) d = Some m \<and> cache_path (files r ! i) = path
        \<and> cache_checked (cache ! i) = cache_checked (files r ! i)
        \<and> clock (system r) - cache_checked (files r ! i) < CACHE_VALID_HANDLER_FILE)"
    using acquired q by (auto simp: i_def)
  have "m = n" using how named kept by (auto simp: i_def)
  moreover have "clock k - cache_checked (cache ! i) < CACHE_VALID_HANDLER_FILE"
    using how clock by auto
  moreover have "i < length cache"
    using acquired cache_index_less [of cache path] by (simp add: i_def)
  ultimately have "acquire_file_cache path cache k = (Inr i, cache, k)"
    using acquire_again [OF _ _ m] by (simp add: i_def)
  moreover have "length (descriptors k) < descriptor_limit k"
    using length_acquire [OF acquire] room world by (simp add: same_world_def)
  ultimately show ?thesis
    using acquire acquired q m \<open>m = n\<close> world by (auto simp: locate_file_def i_def)
qed

lemma open_file_served:
  assumes ok: "accounted base (cache, k, held)" and again: "acquire_file_cache path cache k = (Inr i, cache, k)"
    and answers: "answers k path (cache ! i) n" and room: "length (descriptors k) < descriptor_limit k"
  shows "\<exists>d k'. open_file_cache path cache k = (Inr d, cache, k') \<and> open_at k' d = Some n \<and> same_world k k'
    \<and> accounted base (cache, close_read d k', held)"
proof -
  obtain h where h: "cache_descriptor (cache ! i) = Some h" "open_at k h = Some n"
    using answers by (auto simp: answers_def)
  obtain x k' where new: "new_descriptor n k = (x, k')" by (cases "new_descriptor n k")
  have "x \<noteq> None" using new new_descriptor_full [of n k k'] room by auto
  then obtain d where d: "new_descriptor n k = (Some d, k')" using new by blast
  have opened: "open_at k' = (open_at k)(d := Some n)" "open_at k d = None" using open_at_new [OF d] by auto
  have "open_at (close_read d k') = open_at k" using opened by (auto simp: fun_eq_iff)
  then have "accounted base (cache, close_read d k', held)" using ok by simp
  then show ?thesis
    using again h d opened same_world_new [OF d] by (simp add: open_file_cache_def duplicate_def)
qed


text \<open>A request for two bytes of a file of four, which is read one byte at a time.\<close>

definition sample_kernel :: kernel where
  "sample_kernel =
     \<lparr>names = (\<lambda>path. if path = ascii ''/a.txt'' then Some 0 else None),
      inodes = (\<lambda>n. \<lparr>is_directory = False, readable = True, file_bytes = [1, 2, 3, 4], written = 0\<rparr>),
      descriptors = [], descriptor_limit = 8, read_limit = (\<lambda>x. 1), clock = 100, errno = ENOENT\<rparr>"

definition sample_context :: handler_file_context where
  "sample_context = (create_handler_file_context (\<lambda>a i. 0))
     \<lparr>file_path_d := ascii ''/a.txt'' @ replicate 1018 0,
      range_value := ascii ''bytes=1-2'' @ replicate 119 0, range_status := 2\<rparr>"

definition sample_connection :: file_connection where
  "sample_connection =
     \<lparr>lock = False, http_handler = True, request_context = Some sample_context, closed = False, write_queue = [],
      files = create_file_cache \<lparr>year = 0, month = 0, day = 0, hour = 0, minute = 0, second = 0\<rparr>,
      system = sample_kernel\<rparr>"

definition sample_options :: file_options where
  "sample_options = \<lparr>description = ascii ''viriatum'', use_template = False, error_page = (\<lambda>code message. None),
     listing_page = (\<lambda>u path. None), mime_types = (\<lambda>extension. None)\<rparr>"

lemma c_string_filled: "0 \<notin> set s \<Longrightarrow> c_string (s @ replicate (Suc n) 0) = s"
  by (simp add: c_string_append)


section \<open>What goes wrong\<close>

text \<open>The answer of a location with a password, to credentials that hold no space: they are taken as right.\<close>

lemma authorised_without_password:
  assumes "auth_basic (location c) = Some realm" and "auth_file (location c) = Some path" and "path \<noteq> ascii ''$default''"
    and "authorization_status c = 2" and "read_string (authorization c) = Inr credentials" and "0x20 \<notin> set credentials"
  shows "authorised c k = Some (Inr True)"
  using assms auth_kept by (simp add: authorised_def)

text \<open>The page of the error 401 without its template announces no authentication.\<close>

lemma realm_dropped:
  assumes "use_template options" and "error_page options code message = None"
  shows "write_http_error_a options buffer version code message realm mode callback r =
    write_http_error_a options buffer version code message None mode callback r"
  using assms by (simp add: write_http_error_a_def)

text \<open>
  A path that fits in its own array does not always fit in the one of the description: with one that names
  no file and has between 1007 and 1023 bytes, the code prints behind the end of it.
\<close>

lemma missing_overflows:
  assumes "request_context r = Some c" and "read_string (file_path_d c) = Inr path" and "1007 \<le> length path"
    and "auth_basic (location c) = None" and "locate_file path (r\<lparr>lock := True\<rparr>) = (Missing, r')"
  shows "message_complete_callback_handler_file options buffer request r = Some (Inl Out_Of_Bounds)"
  using assms by (simp add: message_complete_callback_handler_file_def authorised_def print_at_def store_def ascii_def Let_def)

text \<open>A range that goes beyond the end of the file is announced as it is.\<close>

lemma range_not_clamped:
  assumes "range_status c = 2" and "c_string (range_value c) = ascii ''bytes='' @ decimal 0 @ [0x2d] @ decimal 999"
  shows "asked_range c 4 = (0, 999) \<and> range_length 0 999 = 1000"
  using assms range_limits_closed [of 0 999 4] by (simp add: asked_range_def range_length_def)

text \<open>
  An empty file has no write that closes the message: its head leaves it open, and nothing is read that a
  last write would be made of.
\<close>

lemma empty_file_unclosed:
  assumes "request_context r = Some c" and "http_handler r" and "range_length (offset c) (final_byte c) = 0"
  shows "\<exists>r1. send_part c d r = Inr r1 \<and> write_queue r1 = write_queue r"
  using assms
  by (auto simp: send_part_def read_at_def cleanup_handler_file_def unset_handler_file_def Let_def split: option.splits)

end
