(* ===== verification/Stream_Io.thy ===== *)
theory Stream_Io
  imports Viriatum_Prelude
begin

text \<open>
  The queue of the writes of a connection: \<^verbatim>\<open>write_connection\<close> of \<^verbatim>\<open>src/src/viriatum/system/service.c\<close> and
  \<^verbatim>\<open>write_handler_stream_io\<close> of \<^verbatim>\<open>src/src/viriatum/stream/stream_io.c\<close>, over a plain connection of the
  platforms of the unix family. How many bytes the kernel takes in each call is given by a list of answers.

  What a callback does is a function of the state of the one who queued the data: it gives the next state,
  the data that the callback queues in its turn and whether it closes the connection.
\<close>

section \<open>The code\<close>

definition WRITE_BUFFERS_STREAM_IO :: nat where [simp]: "WRITE_BUFFERS_STREAM_IO = 8"

record 'c io_data =
  data_bytes :: bytes
  data_callback :: "'c option"

record ('c, 's) io_connection =
  io_queue :: "'c io_data list"
  io_wire :: bytes
  io_state :: 's
  io_closed :: bool
  write_registered :: bool
  write_ready :: bool

text \<open>The answer of a call: bytes that were taken, nothing for now, or an error.\<close>

datatype send_result = Sent nat | Would_block | Broken

definition write_connection :: "bytes \<Rightarrow> 'c option \<Rightarrow> ('c, 's) io_connection \<Rightarrow> ('c, 's) io_connection" where
  "write_connection bs callback io =
     io\<lparr>io_queue := io_queue io @ [\<lparr>data_bytes = bs, data_callback = callback\<rparr>], write_registered := True\<rparr>"

type_synonym ('c, 's) callbacks = "'c \<Rightarrow> 's \<Rightarrow> 's \<times> 'c io_data list \<times> bool"

definition run_callback :: "('c, 's) callbacks \<Rightarrow> 'c io_data \<Rightarrow> ('c, 's) io_connection \<Rightarrow> ('c, 's) io_connection" where
  "run_callback run d io =
     (case data_callback d of
        None \<Rightarrow> io
      | Some c \<Rightarrow>
          (case run c (io_state io) of
             (s, added, closes) \<Rightarrow>
               io\<lparr>io_state := s, io_queue := io_queue io @ added, io_closed := io_closed io \<or> closes\<rparr>))"

text \<open>
  The walk over the values that the bytes sent cover, at most as many as were handed over; the number it
  returns is the flag of the error.
\<close>

fun walk_sent :: "('c, 's) callbacks \<Rightarrow> nat \<Rightarrow> nat \<Rightarrow> ('c, 's) io_connection \<Rightarrow> nat \<times> ('c, 's) io_connection" where
  "walk_sent run 0 number_bytes io = (0, io)"
| "walk_sent run (Suc gathered) number_bytes io =
     (case io_queue io of
        [] \<Rightarrow> (0, io)
      | d # ds \<Rightarrow>
          (if number_bytes < length (data_bytes d) then
             (2, io\<lparr>io_queue := d\<lparr>data_bytes := drop number_bytes (data_bytes d)\<rparr> # ds\<rparr>)
           else
             (let number_bytes = number_bytes - length (data_bytes d);
                  io = run_callback run d (io\<lparr>io_queue := ds\<rparr>)
              in if io_closed io then (2, io)
                 else if number_bytes = 0 then (0, io)
                 else walk_sent run gathered number_bytes io)))"

definition offered :: "('c, 's) io_connection \<Rightarrow> bytes" where
  "offered io = concat (map data_bytes (take WRITE_BUFFERS_STREAM_IO (io_queue io)))"

definition send_queue :: "('c, 's) callbacks \<Rightarrow> send_result \<Rightarrow> ('c, 's) io_connection \<Rightarrow> nat \<times> ('c, 's) io_connection" where
  "send_queue run answer io =
     (case answer of
        Would_block \<Rightarrow> (2, io)
      | Broken \<Rightarrow> (1, io)
      | Sent n \<Rightarrow>
          (let n = min n (length (offered io))
           in walk_sent run (length (take WRITE_BUFFERS_STREAM_IO (io_queue io))) n
                (io\<lparr>io_wire := io_wire io @ take n (offered io)\<rparr>)))"

text \<open>The kernel that has no answer left takes nothing for now.\<close>

primrec write_loop :: "('c, 's) callbacks \<Rightarrow> send_result list \<Rightarrow> ('c, 's) io_connection \<Rightarrow> nat \<times> ('c, 's) io_connection" where
  "write_loop run [] io = (if io_queue io = [] then (0, io) else (2, io))"
| "write_loop run (answer # answers) io =
     (if io_queue io = [] then (0, io)
      else
        (case send_queue run answer io of
           (e, io) \<Rightarrow> if e \<noteq> 0 then (e, io) else write_loop run answers io))"

definition write_handler_stream_io ::
    "('c, 's) callbacks \<Rightarrow> send_result list \<Rightarrow> ('c, 's) io_connection \<Rightarrow> ('c, 's) io_connection" where
  "write_handler_stream_io run answers io =
     (case write_loop run answers io of
        (e, io) \<Rightarrow>
          if e = 0 then io\<lparr>write_registered := False\<rparr>
          else if e = 1 then io\<lparr>io_closed := True\<rparr>
          else io\<lparr>write_ready := False\<rparr>)"

section \<open>Whole writes\<close>

text \<open>
  What the queue promises: the first of its values is sent as a whole and then its callback runs. The
  state, the queue and the bytes sent are what matters.
\<close>

definition complete_write :: "('c, 's) callbacks \<Rightarrow> ('c, 's) io_connection \<Rightarrow> ('c, 's) io_connection" where
  "complete_write run io =
     (case io_queue io of
        [] \<Rightarrow> io
      | d # ds \<Rightarrow> run_callback run d (io\<lparr>io_queue := ds, io_wire := io_wire io @ data_bytes d\<rparr>))"

definition complete_writes :: "('c, 's) callbacks \<Rightarrow> nat \<Rightarrow> ('c, 's) io_connection \<Rightarrow> ('c, 's) io_connection" where
  "complete_writes run k io = (complete_write run ^^ k) io"

definition queued_bytes :: "('c, 's) io_connection \<Rightarrow> bytes" where
  "queued_bytes io = concat (map data_bytes (io_queue io))"

text \<open>
  The connection is where the queue promises, but for the bytes of the values that are still in it, of
  which some have been sent already. A connection that a callback has closed may have sent bytes of
  several of them, which stay in the queue.
\<close>

definition partly_sent :: "('c, 's) io_connection \<Rightarrow> ('c, 's) io_connection \<Rightarrow> bool" where
  "partly_sent whole io \<longleftrightarrow>
     io_state io = io_state whole \<and> map data_callback (io_queue io) = map data_callback (io_queue whole)
     \<and> (\<exists>sent rest. io_wire io = io_wire whole @ sent \<and> queued_bytes whole = sent @ rest
          \<and> (\<not> io_closed io \<longrightarrow> queued_bytes io = rest))"

lemma complete_writes_0 [simp]: "complete_writes run 0 io = io"
  by (simp add: complete_writes_def)

lemma complete_writes_add: "complete_writes run (j + k) io = complete_writes run k (complete_writes run j io)"
  by (simp add: complete_writes_def funpow_add add.commute [of j])

lemma complete_writes_Suc: "complete_writes run (Suc k) io = complete_writes run k (complete_write run io)"
  by (simp add: complete_writes_def funpow_swap1)

section \<open>Partial sends\<close>

text \<open>
  The connection stands where the whole one does, but for \<open>pre\<close>, the part of its first value that has been
  sent and taken off the queue.
\<close>

definition head_sent :: "bytes \<Rightarrow> ('c, 's) io_connection \<Rightarrow> ('c, 's) io_connection \<Rightarrow> bool" where
  "head_sent pre whole io \<longleftrightarrow>
     io_state io = io_state whole \<and> \<not> io_closed io \<and> \<not> io_closed whole
     \<and> (case io_queue io of
          [] \<Rightarrow> io_queue whole = [] \<and> pre = []
        | d # ds \<Rightarrow> io_queue whole = d\<lparr>data_bytes := pre @ data_bytes d\<rparr> # ds)"

text \<open>During the walk some bytes of the queue, \<open>n\<close> of them, have been sent and are not taken off it yet.\<close>

definition walking :: "nat \<Rightarrow> ('c, 's) io_connection \<Rightarrow> ('c, 's) io_connection \<Rightarrow> bool" where
  "walking n whole io \<longleftrightarrow>
     (\<exists>pre. head_sent pre whole io \<and> io_wire io = io_wire whole @ pre @ take n (queued_bytes io))"

lemma walking_open: "walking n whole io \<Longrightarrow> \<not> io_closed io"
  by (auto simp: walking_def head_sent_def)

lemma walking_partly: "walking 0 whole io \<Longrightarrow> partly_sent whole io"
proof -
  assume "walking 0 whole io"
  then obtain pre where pre: "head_sent pre whole io" "io_wire io = io_wire whole @ pre" by (auto simp: walking_def)
  then have "map data_callback (io_queue io) = map data_callback (io_queue whole) \<and> queued_bytes whole = pre @ queued_bytes io"
    by (cases "io_queue io") (auto simp: head_sent_def queued_bytes_def)
  then show ?thesis using pre by (auto simp: partly_sent_def head_sent_def)
qed

lemma run_callback_simps [simp]:
  "io_wire (run_callback run d io) = io_wire io"
  by (simp add: run_callback_def split: option.split prod.split)

lemma run_callback_cong:
  assumes "io_state a = io_state b" and "io_closed a = io_closed b" and "io_queue a = io_queue b"
    and "data_callback d = data_callback d'"
  shows "io_state (run_callback run d a) = io_state (run_callback run d' b)
    \<and> io_closed (run_callback run d a) = io_closed (run_callback run d' b)
    \<and> io_queue (run_callback run d a) = io_queue (run_callback run d' b)"
  using assms by (simp add: run_callback_def split: option.split prod.split)

lemma run_callback_queue: "\<exists>added. io_queue (run_callback run d io) = io_queue io @ added"
  by (simp add: run_callback_def split: option.split prod.split)

text \<open>A value that has been sent to its end leaves the queue on both sides.\<close>

lemma walking_pop:
  fixes run :: "('c, 's) callbacks"
  assumes "walking n whole io" and queue: "io_queue io = d # ds" and n: "length (data_bytes d) \<le> n"
    and m: "n - length (data_bytes d) \<le> length (concat (map data_bytes ds))"
  defines "next_io \<equiv> run_callback run d (io\<lparr>io_queue := ds\<rparr>)"
  shows "io_queue next_io = io_queue (complete_write run whole) \<and> io_state next_io = io_state (complete_write run whole)
    \<and> io_closed next_io = io_closed (complete_write run whole)
    \<and> io_wire next_io = io_wire (complete_write run whole) @ take (n - length (data_bytes d)) (queued_bytes next_io)"
proof -
  obtain pre where head: "head_sent pre whole io" and wire: "io_wire io = io_wire whole @ pre @ take n (queued_bytes io)"
    using assms(1) by (auto simp: walking_def)
  have whole: "io_queue whole = d\<lparr>data_bytes := pre @ data_bytes d\<rparr> # ds" "io_state io = io_state whole"
    "io_closed io = io_closed whole"
    using head queue by (simp_all add: head_sent_def)
  obtain added where added: "io_queue next_io = ds @ added"
    using run_callback_queue [of run d "io\<lparr>io_queue := ds\<rparr>"] by (auto simp: next_io_def)
  have "take (n - length (data_bytes d)) (queued_bytes next_io) = take (n - length (data_bytes d)) (concat (map data_bytes ds))"
    using m by (simp add: queued_bytes_def added)
  then show ?thesis
    using wire queue n whole
      run_callback_cong [of "io\<lparr>io_queue := ds\<rparr>" "whole\<lparr>io_queue := ds, io_wire := io_wire whole @ pre @ data_bytes d\<rparr>" d
        "d\<lparr>data_bytes := pre @ data_bytes d\<rparr>" run]
    by (simp add: complete_write_def next_io_def queued_bytes_def)
qed

lemma length_concat_take: "length (concat (map data_bytes (take g ds))) \<le> length (concat (map data_bytes ds))"
proof -
  have "concat (map data_bytes ds) = concat (map data_bytes (take g ds)) @ concat (map data_bytes (drop g ds))"
    by (metis append_take_drop_id concat_append map_append)
  then show ?thesis by simp
qed

lemma walk_sent_ok:
  assumes "walk_sent run g n io = (e, io')" and "walking n whole io"
    and "n \<le> length (concat (map data_bytes (take g (io_queue io))))"
  shows "\<exists>k. (e = 0 \<or> e = 2) \<and> (if io_closed io' then e = 2 \<and> partly_sent (complete_writes run k whole) io'
            else walking 0 (complete_writes run k whole) io')"
  using assms
proof (induction run g n io arbitrary: whole rule: walk_sent.induct)
  case (1 run n io)
  then show ?case by (intro exI [of _ 0]) (auto simp: complete_writes_def walking_def head_sent_def)
next
  case (2 run g n io)
  obtain pre where head: "head_sent pre whole io" and wire: "io_wire io = io_wire whole @ pre @ take n (queued_bytes io)"
    using "2.prems"(2) by (auto simp: walking_def)
  show ?case
  proof (cases "io_queue io")
    case Nil
    then show ?thesis
      using "2.prems" head by (intro exI [of _ 0]) (auto simp: complete_writes_def walking_def head_sent_def queued_bytes_def)
  next
    case (Cons d ds)
    show ?thesis
    proof (cases "n < length (data_bytes d)")
      case True
      then have "head_sent (pre @ take n (data_bytes d)) whole io'" and "io_wire io' = io_wire whole @ pre @ take n (data_bytes d)"
        and "e = 2"
        using "2.prems"(1) head wire Cons by (auto simp: head_sent_def queued_bytes_def)
      then show ?thesis
        by (intro exI [of _ 0]) (auto simp: complete_writes_def walking_def head_sent_def split: list.splits)
    next
      case False
      define m where "m = n - length (data_bytes d)"
      define io1 where "io1 = run_callback run d (io\<lparr>io_queue := ds\<rparr>)"
      have room: "m \<le> length (concat (map data_bytes (take g ds)))" using "2.prems"(3) Cons False by (simp add: m_def)
      then have "m \<le> length (concat (map data_bytes ds))"
        using length_concat_take [of g ds] by linarith
      then have step: "io_queue io1 = io_queue (complete_write run whole)" "io_state io1 = io_state (complete_write run whole)"
        "io_closed io1 = io_closed (complete_write run whole)"
        "io_wire io1 = io_wire (complete_write run whole) @ take m (queued_bytes io1)"
        using walking_pop [OF "2.prems"(2) Cons, of run] False by (simp_all add: m_def io1_def)
      have next_walk: "walking m (complete_write run whole) io1" if "\<not> io_closed io1"
        using step that unfolding walking_def head_sent_def
        by (intro exI [of _ "[]"]) (auto split: list.split)
      have result: "(if io_closed io1 then (2, io1) else if m = 0 then (0, io1) else walk_sent run g m io1) = (e, io')"
        using "2.prems"(1) unfolding m_def io1_def walk_sent.simps Cons list.case Let_def
        by (simp only: False if_False)
      show ?thesis
      proof (cases "io_closed io1 \<or> m = 0")
        case True
        have "partly_sent (complete_write run whole) io1" if "io_closed io1"
          using step that unfolding partly_sent_def
          by (auto intro!: exI [of _ "take m (queued_bytes io1)"] exI [of _ "drop m (queued_bytes io1)"] simp: queued_bytes_def)
        then show ?thesis
          using True result next_walk by (intro exI [of _ 1]) (auto simp: complete_writes_def split: if_splits)
      next
        case rest: False
        obtain added where "io_queue io1 = ds @ added"
          using run_callback_queue [of run d "io\<lparr>io_queue := ds\<rparr>"] by (auto simp: io1_def)
        then have "m \<le> length (concat (map data_bytes (take g (io_queue io1))))" using room by simp
        moreover have "walk_sent run g m io1 = (e, io')" using rest result by simp
        ultimately obtain k where "(e = 0 \<or> e = 2) \<and> (if io_closed io'
            then e = 2 \<and> partly_sent (complete_writes run k (complete_write run whole)) io'
            else walking 0 (complete_writes run k (complete_write run whole)) io')"
          using "2.IH" [OF Cons False] next_walk rest unfolding m_def io1_def by blast
        then show ?thesis by (intro exI [of _ "Suc k"]) (simp add: complete_writes_Suc)
      qed
    qed
  qed
qed

lemma send_queue_ok:
  assumes "send_queue run answer io = (e, io')" and "walking 0 whole io"
  shows "\<exists>k. e \<le> 2 \<and> (if io_closed io' then e = 2 \<and> partly_sent (complete_writes run k whole) io'
            else walking 0 (complete_writes run k whole) io')"
proof (cases answer)
  case (Sent n)
  define m where "m = min n (length (offered io))"
  have "concat (map data_bytes (take 8 (io_queue io))) @ concat (map data_bytes (drop 8 (io_queue io))) = queued_bytes io"
    unfolding queued_bytes_def by (metis append_take_drop_id concat_append map_append)
  then have "take m (queued_bytes io) = take m (offered io)"
    by (simp add: m_def offered_def flip: \<open>_ = queued_bytes io\<close>)
  then have "walking m whole (io\<lparr>io_wire := io_wire io @ take m (offered io)\<rparr>)"
    using assms(2) by (auto simp: walking_def head_sent_def queued_bytes_def)
  moreover have "walk_sent run (length (take 8 (io_queue io))) m (io\<lparr>io_wire := io_wire io @ take m (offered io)\<rparr>) = (e, io')"
    using assms(1) Sent by (simp add: send_queue_def m_def Let_def)
  moreover have "m \<le> length (concat (map data_bytes (take (length (take 8 (io_queue io))) (io_queue io))))"
    by (simp add: m_def offered_def min_def)
  ultimately show ?thesis
    using walk_sent_ok [of run "length (take 8 (io_queue io))" m _ e io' whole] by fastforce
next
  case Would_block
  then have "e = 2 \<and> io' = io" using assms(1) by (simp add: send_queue_def)
  then show ?thesis using assms(2) walking_open by (intro exI [of _ 0]) auto
next
  case Broken
  then have "e = 1 \<and> io' = io" using assms(1) by (simp add: send_queue_def)
  then show ?thesis using assms(2) walking_open by (intro exI [of _ 0]) auto
qed

lemma write_loop_ok:
  assumes "write_loop run answers io = (e, io')" and "walking 0 whole io"
  shows "\<exists>k. e \<le> 2 \<and> (e = 0 \<longrightarrow> io_queue io' = [])
     \<and> (if io_closed io' then e = 2 \<and> partly_sent (complete_writes run k whole) io'
        else walking 0 (complete_writes run k whole) io')"
  using assms
proof (induction answers arbitrary: io whole)
  case Nil
  then have "io' = io" by (simp split: if_splits)
  moreover have "\<not> io_closed io" using Nil.prems(2) by (auto simp: walking_def head_sent_def)
  ultimately show ?case
    using Nil.prems by (intro exI [of _ 0]) (auto simp: complete_writes_def split: if_splits)
next
  case (Cons answer answers)
  show ?case
  proof (cases "io_queue io = []")
    case True
    moreover have "\<not> io_closed io" using Cons.prems(2) by (auto simp: walking_def head_sent_def)
    ultimately show ?thesis
      using Cons.prems by (intro exI [of _ 0]) (auto simp: complete_writes_def)
  next
    case False
    obtain e1 io1 where step: "send_queue run answer io = (e1, io1)" by (cases "send_queue run answer io")
    obtain k where k: "e1 \<le> 2" "if io_closed io1 then e1 = 2 \<and> partly_sent (complete_writes run k whole) io1
            else walking 0 (complete_writes run k whole) io1"
      using send_queue_ok [OF step Cons.prems(2)] by blast
    show ?thesis
    proof (cases "e1 = 0")
      case True
      then have "write_loop run answers io1 = (e, io')" "walking 0 (complete_writes run k whole) io1"
        using Cons.prems(1) False step k by (auto split: if_splits)
      from Cons.IH [OF this] obtain j where "e \<le> 2 \<and> (e = 0 \<longrightarrow> io_queue io' = [])
         \<and> (if io_closed io' then e = 2 \<and> partly_sent (complete_writes run j (complete_writes run k whole)) io'
            else walking 0 (complete_writes run j (complete_writes run k whole)) io')" by blast
      then show ?thesis by (intro exI [of _ "k + j"]) (simp add: complete_writes_add)
    next
      case error: False
      then have "e = e1 \<and> io' = io1" using Cons.prems(1) False step by simp
      then show ?thesis using k error by (intro exI [of _ k]) simp
    qed
  qed
qed

lemma run_callback_registered [simp]: "write_registered (run_callback run d io) = write_registered io"
  by (simp add: run_callback_def split: option.split prod.split)

lemma walk_sent_registered: "walk_sent run g n io = (e, io') \<Longrightarrow> write_registered io' = write_registered io"
proof (induction run g n io rule: walk_sent.induct)
  case (2 run g n io)
  show ?case
  proof (cases "io_queue io")
    case (Cons d ds)
    define io1 where "io1 = run_callback run d (io\<lparr>io_queue := ds\<rparr>)"
    have "write_registered io1 = write_registered io" by (simp add: io1_def)
    moreover have "write_registered io' = write_registered io1"
      if "walk_sent run g (n - length (data_bytes d)) io1 = (e, io')" and "\<not> n < length (data_bytes d)"
        and "\<not> io_closed io1" and "n - length (data_bytes d) \<noteq> 0"
      using that "2.IH" [OF Cons] unfolding io1_def by blast
    ultimately show ?thesis
      using "2.prems" unfolding walk_sent.simps Cons list.case Let_def io1_def [symmetric] by (auto split: if_splits)
  qed (use "2.prems" in simp)
qed simp

lemma write_loop_registered: "write_loop run answers io = (e, io') \<Longrightarrow> write_registered io' = write_registered io"
proof (induction answers arbitrary: io)
  case Nil
  then show ?case by (auto split: if_splits)
next
  case (Cons answer answers)
  obtain e1 io1 where step: "send_queue run answer io = (e1, io1)" by (cases "send_queue run answer io")
  then have "write_registered io1 = write_registered io"
    by (auto simp: send_queue_def Let_def dest: walk_sent_registered split: send_result.splits)
  then show ?case using Cons step by (auto split: if_splits)
qed

text \<open>C37: However few bytes the kernel takes in each call and however many values one call gathers, the connection
  sends the bytes that were queued in the order they were queued in, and the callback of each value runs once,
  after the last byte of it has been handed over and before the callback of any later value: where the connection
  stands is where it would stand had the first of the values been sent as wholes, but for the bytes of the values
  still queued that have been sent already. It is taken off the ones that wait to write only once its queue is
  empty.\<close>
theorem writes_in_order:
  assumes "\<not> io_closed io"
  shows "(\<exists>k. partly_sent (complete_writes run k io) (write_handler_stream_io run answers io))
     \<and> (write_registered io \<and> \<not> write_registered (write_handler_stream_io run answers io)
        \<longrightarrow> io_queue (write_handler_stream_io run answers io) = [])"
proof -
  obtain e io1 where loop: "write_loop run answers io = (e, io1)" by (cases "write_loop run answers io")
  have "walking 0 io io"
    using assms by (auto simp: walking_def head_sent_def split: list.split)
  from write_loop_ok [OF loop this] obtain k where e: "e = 0 \<longrightarrow> io_queue io1 = []"
    and k: "if io_closed io1 then e = 2 \<and> partly_sent (complete_writes run k io) io1
        else walking 0 (complete_writes run k io) io1" by blast
  have "partly_sent (complete_writes run k io) io1" using k walking_partly by (auto split: if_splits)
  moreover have "partly_sent whole (io1\<lparr>write_registered := b\<rparr>) = partly_sent whole io1"
    "partly_sent whole (io1\<lparr>write_ready := b\<rparr>) = partly_sent whole io1" for whole b
    by (simp_all add: partly_sent_def queued_bytes_def)
  moreover have "partly_sent whole (io1\<lparr>io_closed := True\<rparr>)" if "partly_sent whole io1" for whole
    using that by (auto simp: partly_sent_def)
  ultimately have "partly_sent (complete_writes run k io) (write_handler_stream_io run answers io)"
    using loop by (simp add: write_handler_stream_io_def)
  then show ?thesis
    using loop e write_loop_registered [OF loop] by (auto simp: write_handler_stream_io_def)
qed

text \<open>Two values that two calls send: the first call stops within the first of them.\<close>

definition sample_io :: "(nat, nat) io_connection" where
  "sample_io = \<lparr>io_queue = [\<lparr>data_bytes = [1, 2, 3], data_callback = Some 7\<rparr>, \<lparr>data_bytes = [4, 5], data_callback = None\<rparr>],
     io_wire = [], io_state = 0, io_closed = False, write_registered = True, write_ready = True\<rparr>"

theorem writes_in_order_witness:
  "\<exists>k. partly_sent (complete_writes (\<lambda>c s. (s + c, [], False)) k sample_io)
     (write_handler_stream_io (\<lambda>c s. (s + c, [], False)) [Sent 2, Sent 3] sample_io)"
proof -
  have "\<not> io_closed sample_io" by (simp add: sample_io_def)
  from writes_in_order [OF this, of "\<lambda>c s. (s + c, [], False)" "[Sent 2, Sent 3]"] show ?thesis by (rule conjunct1)
qed

end
