(* ===== verification/Spec2Isabelle.thy ===== *)
theory Spec2Isabelle
  imports Http2_Connection Http2_Splitting Http_Parser_Splitting Websocket File_Response Stream_Io
begin

text \<open>
  A development of viriatum, an HTTP server written in C.
\<close>

end
